(* ===== verification/Sw_Prelude.thy ===== *)
theory Sw_Prelude
  imports Main "HOL-Library.Word" "HOL-Library.AList" "HOL-Library.List_Lexorder"
    "HOL-Library.Char_ord" "HOL-Library.Multiset"
begin

text \<open>
  The shared base of the development: the exceptions and results of the program, the
  state-and-result monad every effectful function is written in, with its two proof calculi
  (\<open>keeps\<close> for invariants, \<open>wp\<close> for postconditions), and the list, association-list and
  string helpers that several components use.

  A C++ function that mutates state and may throw becomes a \<open>prog\<close>: it takes the state and
  returns a result together with the state reached. The state is kept when an exception is
  thrown, as it is in the code. \<open>Undefined\<close> marks undefined behaviour (an out-of-range
  \<open>operator[]\<close>, \<open>back()\<close> of an empty vector, a distribution with an empty range) and
  \<open>Diverges\<close> a loop that never ends; no handler catches either.
\<close>

section \<open>Fact collections\<close>

named_theorems keeps_intros "rules that show a program keeps an invariant"
named_theorems prog_simps "unfolding rules of the program combinators"

section \<open>Exceptions and results\<close>

datatype sql_status = St_success | St_error | St_serverGone

datatype error_class = Ec_none | Ec_conflict | Ec_failedTxn | Ec_serverGone | Ec_other

text \<open>
  The exception classes that cross function boundaries: \<open>ActionException(errorName, message)\<close>,
  \<open>SqlException(errorCode, message, status, errorClass)\<close>, and the standard library's
  \<open>std::exception\<close>s the code raises or lets through.
\<close>

datatype exn =
    Action_Exception (action_error_name: string) (action_message: string)
  | Sql_Exception (sql_error_code: string) (sql_message: string) (sql_status: sql_status)
      (sql_error_class: error_class)
  | Out_of_range string
  | Runtime_error string
  | Logic_error string
  | Invalid_argument string

datatype 'a result = Ok 'a | Throw exn | Undefined | Diverges

definition serverGone :: "exn \<Rightarrow> bool" where
  "serverGone e = (case e of Sql_Exception _ _ st _ \<Rightarrow> st = St_serverGone | _ \<Rightarrow> False)"

fun is_ok :: "'a result \<Rightarrow> bool" where
  "is_ok (Ok _) = True"
| "is_ok _ = False"

fun ok_or :: "'a \<Rightarrow> 'a result \<Rightarrow> 'a" where
  "ok_or d (Ok x) = x"
| "ok_or d _ = d"

fun res_bind :: "'a result \<Rightarrow> ('a \<Rightarrow> 'b result) \<Rightarrow> 'b result" where
  "res_bind (Ok x) f = f x"
| "res_bind (Throw e) f = Throw e"
| "res_bind Undefined f = Undefined"
| "res_bind Diverges f = Diverges"

text \<open>A loop that reads one result per element and stops at the first failure.\<close>

fun res_map :: "('a \<Rightarrow> 'b result) \<Rightarrow> 'a list \<Rightarrow> 'b list result" where
  "res_map f [] = Ok []"
| "res_map f (x # xs) = res_bind (f x) (\<lambda>y. res_bind (res_map f xs) (\<lambda>ys. Ok (y # ys)))"

lemma res_map_all_Ok:
  "(\<And>x. x \<in> set xs \<Longrightarrow> f x = Ok (g x)) \<Longrightarrow> res_map f xs = Ok (map g xs)"
  by (induction xs) auto

lemma res_bind_eq_Ok [simp]:
  "res_bind r f = Ok y \<longleftrightarrow> (\<exists>x. r = Ok x \<and> f x = Ok y)"
  by (cases r) auto

section \<open>Programs: state passing with results\<close>

type_synonym ('s, 'a) prog = "'s \<Rightarrow> 'a result \<times> 's"

definition ret :: "'a \<Rightarrow> ('s, 'a) prog" where
  "ret x = (\<lambda>s. (Ok x, s))"

definition throw :: "exn \<Rightarrow> ('s, 'a) prog" where
  "throw e = (\<lambda>s. (Throw e, s))"

definition undef :: "('s, 'a) prog" where
  "undef = (\<lambda>s. (Undefined, s))"

definition diverge :: "('s, 'a) prog" where
  "diverge = (\<lambda>s. (Diverges, s))"

definition lift_result :: "'a result \<Rightarrow> ('s, 'a) prog" where
  "lift_result r = (\<lambda>s. (r, s))"

definition bind :: "('s, 'a) prog \<Rightarrow> ('a \<Rightarrow> ('s, 'b) prog) \<Rightarrow> ('s, 'b) prog" where
  "bind m f = (\<lambda>s. case m s of
       (Ok x, s') \<Rightarrow> f x s'
     | (Throw e, s') \<Rightarrow> (Throw e, s')
     | (Undefined, s') \<Rightarrow> (Undefined, s')
     | (Diverges, s') \<Rightarrow> (Diverges, s'))"

definition seq :: "('s, 'a) prog \<Rightarrow> ('s, 'b) prog \<Rightarrow> ('s, 'b) prog" where
  "seq m1 m2 = bind m1 (\<lambda>_. m2)"

definition gets :: "('s \<Rightarrow> 'a) \<Rightarrow> ('s, 'a) prog" where
  "gets f = (\<lambda>s. (Ok (f s), s))"

definition modify :: "('s \<Rightarrow> 's) \<Rightarrow> ('s, unit) prog" where
  "modify f = (\<lambda>s. (Ok (), f s))"

text \<open>
  \<open>catch m h\<close> runs the handler on any exception (the handler rethrows what it does not
  handle); \<open>attempt m\<close> turns an exception into a value, for code that inspects it;
  \<open>finally m f\<close> is a destructor: the clean-up \<open>f\<close> runs however \<open>m\<close> ends (return or
  unwinding), and \<open>m\<close>'s outcome is kept.
\<close>

definition catch :: "('s, 'a) prog \<Rightarrow> (exn \<Rightarrow> ('s, 'a) prog) \<Rightarrow> ('s, 'a) prog" where
  "catch m h = (\<lambda>s. case m s of
       (Ok x, s') \<Rightarrow> (Ok x, s')
     | (Throw e, s') \<Rightarrow> h e s'
     | (Undefined, s') \<Rightarrow> (Undefined, s')
     | (Diverges, s') \<Rightarrow> (Diverges, s'))"

definition attempt :: "('s, 'a) prog \<Rightarrow> ('s, exn + 'a) prog" where
  "attempt m = (\<lambda>s. case m s of
       (Ok x, s') \<Rightarrow> (Ok (Inr x), s')
     | (Throw e, s') \<Rightarrow> (Ok (Inl e), s')
     | (Undefined, s') \<Rightarrow> (Undefined, s')
     | (Diverges, s') \<Rightarrow> (Diverges, s'))"

definition destructor :: "('s, 'a) prog \<Rightarrow> ('s \<Rightarrow> 's) \<Rightarrow> ('s, 'a) prog" where
  "destructor m f = (\<lambda>s. case m s of
       (Ok x, s') \<Rightarrow> (Ok x, f s')
     | (Throw e, s') \<Rightarrow> (Throw e, f s')
     | (Undefined, s') \<Rightarrow> (Undefined, s')
     | (Diverges, s') \<Rightarrow> (Diverges, s'))"

definition skip :: "('s, unit) prog" where
  "skip = ret ()"

definition when_do :: "bool \<Rightarrow> ('s, unit) prog \<Rightarrow> ('s, unit) prog" where
  "when_do b m = (if b then m else skip)"

text \<open>A range-for over a list whose body is a program.\<close>

fun for_each :: "'a list \<Rightarrow> ('a \<Rightarrow> ('s, unit) prog) \<Rightarrow> ('s, unit) prog" where
  "for_each [] f = skip"
| "for_each (x # xs) f = seq (f x) (for_each xs f)"

fun map_prog :: "('a \<Rightarrow> ('s, 'b) prog) \<Rightarrow> 'a list \<Rightarrow> ('s, 'b list) prog" where
  "map_prog f [] = ret []"
| "map_prog f (x # xs) = bind (f x) (\<lambda>y. bind (map_prog f xs) (\<lambda>ys. ret (y # ys)))"

section \<open>Two calculi for programs\<close>

subsection \<open>State relations every run upholds\<close>

text \<open>
  \<open>keeps R m\<close>: whatever \<open>m\<close> returns or throws, the state it leaves is related to the state
  it found by the preorder \<open>R\<close>. With \<open>R = inv_rel I\<close> this is "\<open>m\<close> keeps the invariant \<open>I\<close>";
  with other preorders it states monotonicity and frame properties.
\<close>

definition keeps :: "('s \<Rightarrow> 's \<Rightarrow> bool) \<Rightarrow> ('s, 'a) prog \<Rightarrow> bool" where
  "keeps R m \<longleftrightarrow> (\<forall>s. R s (snd (m s)))"

definition preord :: "('s \<Rightarrow> 's \<Rightarrow> bool) \<Rightarrow> bool" where
  "preord R \<longleftrightarrow> reflp R \<and> transp R"

definition inv_rel :: "('s \<Rightarrow> bool) \<Rightarrow> 's \<Rightarrow> 's \<Rightarrow> bool" where
  "inv_rel I s s' \<longleftrightarrow> (I s \<longrightarrow> I s')"

definition same_rel :: "('s \<Rightarrow> 'x) \<Rightarrow> 's \<Rightarrow> 's \<Rightarrow> bool" where
  "same_rel f s s' \<longleftrightarrow> f s' = f s"

lemma preord_inv_rel [keeps_intros, simp]: "preord (inv_rel I)"
  by (auto simp: preord_def inv_rel_def reflp_def transp_def)

lemma preord_same_rel [keeps_intros, simp]: "preord (same_rel f)"
  by (auto simp: preord_def same_rel_def reflp_def transp_def)

lemma keepsI: "(\<And>s. R s (snd (m s))) \<Longrightarrow> keeps R m"
  by (simp add: keeps_def)

lemma keepsD: "keeps R m \<Longrightarrow> m s = (r, s') \<Longrightarrow> R s s'"
  by (metis keeps_def snd_conv)

lemma keeps_invD: "keeps (inv_rel I) m \<Longrightarrow> I s \<Longrightarrow> I (snd (m s))"
  by (simp add: keeps_def inv_rel_def)

lemma preord_refl: "preord R \<Longrightarrow> R s s"
  by (simp add: preord_def reflp_def)

lemma preord_trans: "preord R \<Longrightarrow> R s s' \<Longrightarrow> R s' s'' \<Longrightarrow> R s s''"
  by (auto simp: preord_def elim: transpE)

lemma keeps_pure [keeps_intros]:
  "preord R \<Longrightarrow> keeps R (ret x)" "preord R \<Longrightarrow> keeps R (throw e)"
  "preord R \<Longrightarrow> keeps R undef" "preord R \<Longrightarrow> keeps R diverge"
  "preord R \<Longrightarrow> keeps R (lift_result r)" "preord R \<Longrightarrow> keeps R (gets f)"
  "preord R \<Longrightarrow> keeps R skip"
  by (simp_all add: keeps_def preord_refl ret_def throw_def undef_def diverge_def
      lift_result_def gets_def skip_def)

lemma keeps_modify [keeps_intros]: "(\<And>s. R s (f s)) \<Longrightarrow> keeps R (modify f)"
  by (simp add: keeps_def modify_def)

lemma keeps_bind [keeps_intros]:
  assumes "preord R" and "keeps R m" and "\<And>x. keeps R (f x)"
  shows "keeps R (bind m f)"
proof (rule keepsI)
  fix s
  obtain r s' where m: "m s = (r, s')" by fastforce
  from keepsD [OF assms(2) m] have 1: "R s s'" .
  show "R s (snd (bind m f s))"
  proof (cases r)
    case (Ok x)
    from assms(3) [of x] have "R s' (snd (f x s'))" by (simp add: keeps_def)
    from preord_trans [OF assms(1) 1 this] Ok m show ?thesis by (simp add: bind_def)
  qed (use 1 m in \<open>simp_all add: bind_def\<close>)
qed

lemma keeps_seq [keeps_intros]:
  "preord R \<Longrightarrow> keeps R m1 \<Longrightarrow> keeps R m2 \<Longrightarrow> keeps R (seq m1 m2)"
  unfolding seq_def by (rule keeps_bind)

lemma keeps_catch [keeps_intros]:
  assumes "preord R" and "keeps R m" and "\<And>e. keeps R (h e)"
  shows "keeps R (catch m h)"
proof (rule keepsI)
  fix s
  obtain r s' where m: "m s = (r, s')" by fastforce
  from keepsD [OF assms(2) m] have 1: "R s s'" .
  show "R s (snd (catch m h s))"
  proof (cases r)
    case (Throw e)
    from assms(3) [of e] have "R s' (snd (h e s'))" by (simp add: keeps_def)
    from preord_trans [OF assms(1) 1 this] Throw m show ?thesis by (simp add: catch_def)
  qed (use 1 m in \<open>simp_all add: catch_def\<close>)
qed

lemma keeps_attempt [keeps_intros]: "keeps R m \<Longrightarrow> keeps R (attempt m)"
  unfolding keeps_def attempt_def
proof
  fix s assume "\<forall>s. R s (snd (m s))"
  then have "R s (snd (m s))" ..
  then show "R s (snd (case m s of (Ok x, s') \<Rightarrow> (Ok (Inr x), s')
     | (Throw e, s') \<Rightarrow> (Ok (Inl e), s')
     | (Undefined, s') \<Rightarrow> (Undefined, s') | (Diverges, s') \<Rightarrow> (Diverges, s')))"
    by (auto split: prod.splits result.splits)
qed

lemma keeps_destructor [keeps_intros]:
  assumes "preord R" and "keeps R m" and "\<And>s. R s (f s)"
  shows "keeps R (destructor m f)"
proof (rule keepsI)
  fix s
  obtain r s' where m: "m s = (r, s')" by fastforce
  from keepsD [OF assms(2) m] have 1: "R s s'" .
  from preord_trans [OF assms(1) this assms(3)] have 2: "R s (f s')" .
  show "R s (snd (destructor m f s))"
    using 1 2 m by (cases r) (simp_all add: destructor_def)
qed

lemma keeps_when_do [keeps_intros]: "preord R \<Longrightarrow> (b \<Longrightarrow> keeps R m) \<Longrightarrow> keeps R (when_do b m)"
  by (simp add: when_do_def keeps_pure)

lemma keeps_for_each [keeps_intros]:
  "preord R \<Longrightarrow> (\<And>x. x \<in> set xs \<Longrightarrow> keeps R (f x)) \<Longrightarrow> keeps R (for_each xs f)"
  by (induction xs) (auto intro: keeps_seq keeps_pure)

lemma keeps_map_prog [keeps_intros]:
  "preord R \<Longrightarrow> (\<And>x. x \<in> set xs \<Longrightarrow> keeps R (f x)) \<Longrightarrow> keeps R (map_prog f xs)"
  by (induction xs) (auto intro!: keeps_bind keeps_pure)

lemma keeps_if [keeps_intros]:
  "(b \<Longrightarrow> keeps R m1) \<Longrightarrow> (\<not> b \<Longrightarrow> keeps R m2) \<Longrightarrow> keeps R (if b then m1 else m2)"
  by simp

lemma keeps_let [keeps_intros]: "(\<And>x. x = e \<Longrightarrow> keeps R (f x)) \<Longrightarrow> keeps R (let x = e in f x)"
  by (simp add: Let_def)

lemma keeps_case_option [keeps_intros]:
  "(x = None \<Longrightarrow> keeps R m) \<Longrightarrow> (\<And>y. x = Some y \<Longrightarrow> keeps R (f y)) \<Longrightarrow>
   keeps R (case x of None \<Rightarrow> m | Some y \<Rightarrow> f y)"
  by (cases x) auto

lemma keeps_case_sum [keeps_intros]:
  "(\<And>e. x = Inl e \<Longrightarrow> keeps R (f e)) \<Longrightarrow> (\<And>y. x = Inr y \<Longrightarrow> keeps R (g y)) \<Longrightarrow>
   keeps R (case x of Inl e \<Rightarrow> f e | Inr y \<Rightarrow> g y)"
  by (cases x) auto

lemma keeps_case_prod [keeps_intros]:
  "(\<And>a b. x = (a, b) \<Longrightarrow> keeps R (f a b)) \<Longrightarrow> keeps R (case x of (a, b) \<Rightarrow> f a b)"
  by (cases x) auto

subsection \<open>Weakest preconditions\<close>

text \<open>
  \<open>wp m Q s\<close>: running \<open>m\<close> from \<open>s\<close> ends in a result and a state that satisfy \<open>Q\<close>. The
  equations of \<open>prog_simps\<close> push it through every combinator, so that a goal about a program
  becomes a goal about its primitive steps.
\<close>

definition wp :: "('s, 'a) prog \<Rightarrow> ('a result \<Rightarrow> 's \<Rightarrow> bool) \<Rightarrow> 's \<Rightarrow> bool" where
  "wp m Q s = (case m s of (r, s') \<Rightarrow> Q r s')"

lemma wpD: "wp m Q s \<Longrightarrow> m s = (r, s') \<Longrightarrow> Q r s'"
  by (simp add: wp_def)

lemma wpI: "(\<And>r s'. m s = (r, s') \<Longrightarrow> Q r s') \<Longrightarrow> wp m Q s"
  by (auto simp: wp_def split: prod.splits)

lemma wp_mono: "wp m P s \<Longrightarrow> (\<And>r s'. P r s' \<Longrightarrow> Q r s') \<Longrightarrow> wp m Q s"
  by (auto simp: wp_def split: prod.splits)

lemma wp_conj: "wp m P s \<Longrightarrow> wp m Q s \<Longrightarrow> wp m (\<lambda>r s'. P r s' \<and> Q r s') s"
  by (auto simp: wp_def split: prod.splits)

definition on_ok :: "('a \<Rightarrow> 's \<Rightarrow> bool) \<Rightarrow> ('b result \<Rightarrow> 's \<Rightarrow> bool) \<Rightarrow> 'a result \<Rightarrow> 's \<Rightarrow> bool" where
  "on_ok P Q r s = (case r of Ok x \<Rightarrow> P x s | Throw e \<Rightarrow> Q (Throw e) s
     | Undefined \<Rightarrow> Q Undefined s | Diverges \<Rightarrow> Q Diverges s)"

lemma on_ok_simps [simp]:
  "on_ok P Q (Ok x) s = P x s" "on_ok P Q (Throw e) s = Q (Throw e) s"
  "on_ok P Q Undefined s = Q Undefined s" "on_ok P Q Diverges s = Q Diverges s"
  by (simp_all add: on_ok_def)

lemma wp_basic [prog_simps]:
  "wp (ret x) Q s = Q (Ok x) s" "wp (throw e) Q s = Q (Throw e) s"
  "wp undef Q s = Q Undefined s" "wp diverge Q s = Q Diverges s"
  "wp (lift_result r) Q s = Q r s" "wp (gets f) Q s = Q (Ok (f s)) s"
  "wp (modify g) U s = U (Ok ()) (g s)" "wp skip U s = U (Ok ()) s"
  by (simp_all add: wp_def ret_def throw_def undef_def diverge_def lift_result_def gets_def
      modify_def skip_def)

lemma wp_bind [prog_simps]:
  "wp (bind m f) Q s = wp m (on_ok (\<lambda>x s'. wp (f x) Q s') Q) s"
  by (auto simp: wp_def bind_def split: prod.splits result.splits)

lemma wp_seq [prog_simps]:
  "wp (seq m1 m2) Q s = wp m1 (on_ok (\<lambda>_ s'. wp m2 Q s') Q) s"
  by (simp add: seq_def wp_bind)

lemma wp_catch [prog_simps]:
  "wp (catch m h) Q s =
     wp m (\<lambda>r s'. case r of Throw e \<Rightarrow> wp (h e) Q s' | _ \<Rightarrow> Q r s') s"
  by (auto simp: wp_def catch_def split: prod.splits result.splits)

lemma wp_attempt [prog_simps]:
  "wp (attempt m) Q s =
     wp m (\<lambda>r s'. case r of Ok x \<Rightarrow> Q (Ok (Inr x)) s' | Throw e \<Rightarrow> Q (Ok (Inl e)) s'
        | Undefined \<Rightarrow> Q Undefined s' | Diverges \<Rightarrow> Q Diverges s') s"
  by (auto simp: wp_def attempt_def split: prod.splits result.splits)

lemma wp_destructor [prog_simps]:
  "wp (destructor m f) Q s =
     wp m (\<lambda>r s'. case r of Ok x \<Rightarrow> Q r (f s') | Throw e \<Rightarrow> Q r (f s') | _ \<Rightarrow> Q r s') s"
  by (auto simp: wp_def destructor_def split: prod.splits result.splits)

lemma wp_when_do [prog_simps]:
  "wp (when_do b m) Q s = (if b then wp m Q s else Q (Ok ()) s)"
  by (simp add: when_do_def wp_basic)

lemma wp_if [prog_simps]:
  "wp (if b then m1 else m2) Q s = (if b then wp m1 Q s else wp m2 Q s)"
  by simp

lemma wp_let [prog_simps]: "wp (let x = e in f x) Q s = (let x = e in wp (f x) Q s)"
  by (simp add: Let_def)

lemma wp_case_option [prog_simps]:
  "wp (case x of None \<Rightarrow> m | Some y \<Rightarrow> f y) Q s =
     (case x of None \<Rightarrow> wp m Q s | Some y \<Rightarrow> wp (f y) Q s)"
  by (cases x) auto

lemma wp_case_sum [prog_simps]:
  "wp (case x of Inl e \<Rightarrow> f e | Inr y \<Rightarrow> g y) Q s =
     (case x of Inl e \<Rightarrow> wp (f e) Q s | Inr y \<Rightarrow> wp (g y) Q s)"
  by (cases x) auto

lemma wp_for_each_inv:
  assumes "I s" and "\<And>x s'. x \<in> set xs \<Longrightarrow> I s' \<Longrightarrow> wp (f x) (on_ok (\<lambda>_. I) Q) s'"
    and "\<And>s'. I s' \<Longrightarrow> Q (Ok ()) s'"
  shows "wp (for_each xs f) Q s"
  using assms
proof (induction xs arbitrary: s)
  case Nil
  then show ?case by (simp add: prog_simps)
next
  case (Cons x xs)
  then have "wp (f x) (on_ok (\<lambda>_. I) Q) s" by simp
  then show ?case unfolding for_each.simps wp_seq
  proof (rule wp_mono)
    fix r s' assume "on_ok (\<lambda>_. I) Q r s'"
    then show "on_ok (\<lambda>_ s'. wp (for_each xs f) Q s') Q r s'"
      using Cons by (cases r) auto
  qed
qed

lemma keeps_wp: "keeps R m \<longleftrightarrow> (\<forall>s. wp m (\<lambda>_ s'. R s s') s)"
  by (simp add: keeps_def wp_def split_beta)

section \<open>Lists and association lists\<close>

text \<open>\<open>std::find_if\<close> + \<open>erase\<close> of the first match; \<open>std::find_if\<close> + update of the first match.\<close>

fun erase_first :: "('a \<Rightarrow> bool) \<Rightarrow> 'a list \<Rightarrow> 'a list" where
  "erase_first P [] = []"
| "erase_first P (x # xs) = (if P x then xs else x # erase_first P xs)"

fun update_first :: "('a \<Rightarrow> bool) \<Rightarrow> ('a \<Rightarrow> 'a) \<Rightarrow> 'a list \<Rightarrow> 'a list" where
  "update_first P f [] = []"
| "update_first P f (x # xs) = (if P x then f x # xs else x # update_first P f xs)"

text \<open>\<open>vector::erase(begin() + i)\<close> for an index in range.\<close>

definition erase_at :: "nat \<Rightarrow> 'a list \<Rightarrow> 'a list" where
  "erase_at i xs = take i xs @ drop (Suc i) xs"

lemma set_erase_first: "set (erase_first P xs) \<subseteq> set xs"
  by (induction xs) auto

lemma erase_first_no_match: "\<forall>x\<in>set xs. \<not> P x \<Longrightarrow> erase_first P xs = xs"
  by (induction xs) auto

lemma length_erase_first:
  "length (erase_first P xs) = (if \<exists>x\<in>set xs. P x then length xs - 1 else length xs)"
proof (induction xs)
  case Nil
  then show ?case by simp
next
  case (Cons x xs)
  then show ?case by (cases xs) auto
qed

lemma erase_first_distinct:
  "distinct (map f xs) \<Longrightarrow> erase_first (\<lambda>x. f x = k) xs = filter (\<lambda>x. f x \<noteq> k) xs"
proof (induction xs)
  case (Cons x xs)
  then show ?case by (auto simp: image_iff intro!: filter_True [symmetric])
qed simp

lemma distinct_map_erase_first: "distinct (map f xs) \<Longrightarrow> distinct (map f (erase_first P xs))"
proof (induction xs)
  case (Cons x xs)
  then show ?case using set_erase_first [of P xs] by auto
qed simp

lemma length_update_first [simp]: "length (update_first P f xs) = length xs"
  by (induction xs) auto

lemma map_update_first:
  "(\<And>x. P x \<Longrightarrow> g (f x) = g x) \<Longrightarrow> map g (update_first P f xs) = map g xs"
  by (induction xs) auto

lemma length_erase_at: "i < length xs \<Longrightarrow> length (erase_at i xs) = length xs - 1"
  by (simp add: erase_at_def)

lemma set_erase_at: "set (erase_at i xs) \<subseteq> set xs"
  by (auto simp: erase_at_def dest: in_set_takeD in_set_dropD)

lemma distinct_erase_at: "distinct xs \<Longrightarrow> distinct (erase_at i xs)"
  using set_take_disj_set_drop_if_distinct [of xs i "Suc i"] by (auto simp: erase_at_def)

lemma nth_notin_erase_at:
  assumes "distinct xs" and "i < length xs"
  shows "xs ! i \<notin> set (erase_at i xs)"
proof -
  have "xs = take i xs @ xs ! i # drop (Suc i) xs"
    using assms(2) by (rule id_take_nth_drop)
  with assms(1) have "distinct (take i xs @ xs ! i # drop (Suc i) xs)" by simp
  then show ?thesis by (auto simp: erase_at_def)
qed

lemma map_of_AList_delete [simp]: "map_of (AList.delete k al) = (map_of al)(k := None)"
  by (rule delete_conv')

lemma map_of_AList_update [simp]: "map_of (AList.update k v al) = (map_of al)(k \<mapsto> v)"
  by (rule update_conv')

section \<open>Text\<close>

text \<open>\<open>fmt\<close>'s rendering of an unsigned integer, \<open>boost::algorithm::join\<close> and \<open>fmt::join\<close>.\<close>

definition digit_char :: "nat \<Rightarrow> char" where
  "digit_char d = char_of (48 + d)"

fun fmt_nat :: "nat \<Rightarrow> string" where
  "fmt_nat n = (if n < 10 then [digit_char n] else fmt_nat (n div 10) @ [digit_char (n mod 10)])"

declare fmt_nat.simps [simp del]

definition fmt_int :: "int \<Rightarrow> string" where
  "fmt_int k = (if k < 0 then CHR ''-'' # fmt_nat (nat (- k)) else fmt_nat (nat k))"

fun join :: "string \<Rightarrow> string list \<Rightarrow> string" where
  "join sep [] = []"
| "join sep [x] = x"
| "join sep (x # y # xs) = x @ sep @ join sep (y # xs)"

text \<open>The value \<open>std::stoull\<close> reads from a string of digits.\<close>

definition is_digit :: "char \<Rightarrow> bool" where
  "is_digit c \<longleftrightarrow> 48 \<le> (of_char c :: nat) \<and> (of_char c :: nat) \<le> 57"

definition digits_value :: "string \<Rightarrow> nat" where
  "digits_value s = foldl (\<lambda>acc c. 10 * acc + (of_char c - 48)) 0 s"

lemma of_char_digit_char: "d < 10 \<Longrightarrow> of_char (digit_char d) = 48 + d"
  by (simp add: digit_char_def)

lemma digits_value_fmt_nat [simp]: "digits_value (fmt_nat n) = n"
proof (induction n rule: fmt_nat.induct)
  case (1 n)
  show ?case
  proof (cases "n < 10")
    case True
    then show ?thesis
      by (subst fmt_nat.simps) (simp add: digits_value_def of_char_digit_char)
  next
    case False
    with 1 have IH: "digits_value (fmt_nat (n div 10)) = n div 10" by simp
    from False show ?thesis
      by (subst fmt_nat.simps)
        (use IH in \<open>simp add: digits_value_def of_char_digit_char\<close>)
  qed
qed

lemma fmt_nat_inject [simp]: "fmt_nat m = fmt_nat n \<longleftrightarrow> m = n"
  by (metis digits_value_fmt_nat)

lemma is_digit_fmt_nat: "c \<in> set (fmt_nat n) \<Longrightarrow> is_digit c"
proof (induction n rule: fmt_nat.induct)
  case (1 n)
  show ?case
  proof (cases "n < 10")
    case True
    with 1(2) show ?thesis
      by (simp add: fmt_nat.simps [of n] is_digit_def of_char_digit_char)
  next
    case False
    with 1 show ?thesis
      by (auto simp: fmt_nat.simps [of n] is_digit_def of_char_digit_char)
  qed
qed

lemma fmt_nat_nonempty [simp]: "fmt_nat n \<noteq> []"
  by (subst fmt_nat.simps) simp

text \<open>Swap-with-last removal from a vector (\<open>v[pos] = v.back(); v.pop_back()\<close>).\<close>

lemma swap_remove:
  assumes "p < length xs" and "distinct xs"
  defines "ys \<equiv> butlast (xs[p := last xs])"
  shows "distinct ys" "set ys = set xs - {xs ! p}" "length ys = length xs - 1"
    "\<And>k. k < length xs - 1 \<Longrightarrow> ys ! k = (if k = p then last xs else xs ! k)"
proof -
  obtain zs z where xs: "xs = zs @ [z]" using assms(1) by (cases xs rule: rev_cases) auto
  have ys: "ys = (if p = length zs then zs else zs[p := z])"
    using assms(1) by (auto simp: ys_def xs list_update_append butlast_append)
  from assms(2) have z: "z \<notin> set zs" and d: "distinct zs" by (auto simp: xs)
  show "length ys = length xs - 1" by (simp add: ys xs)
  show "distinct ys" using z d by (auto simp: ys distinct_list_update)
  show "ys ! k = (if k = p then last xs else xs ! k)" if "k < length xs - 1" for k
    using that assms(1) by (auto simp: ys xs nth_append nth_list_update)
  show "set ys = set xs - {xs ! p}"
  proof (cases "p = length zs")
    case True
    then show ?thesis using z by (auto simp: ys xs)
  next
    case False
    with assms(1) have p: "p < length zs" by (simp add: xs)
    from set_update_distinct [OF d p] have "set (zs[p := z]) = Set.insert z (set zs - {zs ! p})" .
    with False p z show ?thesis by (auto simp: ys xs nth_append)
  qed
qed

end
