(* ===== verification/Ps_Random.thy ===== *)
theory Ps_Random
  imports Sw_Prelude
begin

text \<open>
  \<open>ps_random\<close> (core/include/random.hpp, core/src/random.cpp). The engine is the standard
  library's \<open>mt19937_64\<close> behind implementation-defined distributions, so the model keeps what
  every implementation guarantees: a call of a distribution over \<open>[min, max]\<close> returns some value
  of that range. The stream of draws is a field of the state and arbitrary: every sequence of
  in-range answers comes from some stream, so a theorem that holds for every stream holds for
  every seed. A distribution with \<open>min > max\<close> violates its precondition: \<open>Undefined\<close>.
\<close>

record rng =
  draws :: "nat \<Rightarrow> nat"
  drawn :: nat

definition size_max :: nat where
  "size_max = 2 ^ 64 - 1"

definition random_number :: "nat \<Rightarrow> nat \<Rightarrow> (rng, nat) prog" where
  "random_number lo hi = (\<lambda>r.
     if lo \<le> hi
     then (Ok (lo + draws r (drawn r) mod (hi - lo + 1)), r\<lparr>drawn := Suc (drawn r)\<rparr>)
     else (Undefined, r))"

text \<open>\<open>random_number<std::size_t>()\<close>: the whole range of the type.\<close>

definition random_size_t :: "(rng, nat) prog" where
  "random_size_t = random_number 0 size_max"

definition random_bool :: "(rng, bool) prog" where
  "random_bool = bind (random_number 0 1) (\<lambda>n. ret (n = 1))"

definition charset :: string where
  "charset = ''0123456789ABCDEFGHIJKLMNOPQRSTUVWXYZabcdefghijklmnopqrstuvwxyz''"

fun random_str :: "nat \<Rightarrow> (rng, string) prog" where
  "random_str 0 = ret []"
| "random_str (Suc n) =
     bind (random_number 0 (length charset - 1)) (\<lambda>i.
     bind (random_str n) (\<lambda>cs. ret (charset ! i # cs)))"

definition random_string :: "nat \<Rightarrow> nat \<Rightarrow> (rng, string) prog" where
  "random_string min_length max_length = bind (random_number min_length max_length) random_str"

text \<open>
  \<open>std::ranges::shuffle\<close>: some permutation, decided by the engine. The model draws the elements
  one by one from those that remain.
\<close>

fun shuffle_rng :: "nat \<Rightarrow> 'a list \<Rightarrow> (rng, 'a list) prog" where
  "shuffle_rng 0 xs = ret []"
| "shuffle_rng (Suc n) xs =
     bind (random_number 0 (length xs - 1)) (\<lambda>i.
     bind (shuffle_rng n (erase_at i xs)) (\<lambda>ys. ret (xs ! i # ys)))"

definition shuffle :: "'a list \<Rightarrow> (rng, 'a list) prog" where
  "shuffle xs = shuffle_rng (length xs) xs"

section \<open>What a draw can return\<close>

lemma wp_random_number [prog_simps]:
  "wp (random_number lo hi) Q r =
     (if lo \<le> hi then Q (Ok (lo + draws r (drawn r) mod (hi - lo + 1))) (r\<lparr>drawn := Suc (drawn r)\<rparr>)
      else Q Undefined r)"
  by (simp add: wp_def random_number_def)

lemma random_number_range:
  "random_number lo hi r = (Ok n, r') \<Longrightarrow> lo \<le> n \<and> n \<le> hi"
proof -
  assume "random_number lo hi r = (Ok n, r')"
  then have "lo \<le> hi" "n = lo + draws r (drawn r) mod (hi - lo + 1)"
    by (auto simp: random_number_def split: if_splits)
  moreover have "draws r (drawn r) mod (hi - lo + 1) < hi - lo + 1"
    by (rule mod_less_divisor) simp
  ultimately show ?thesis by linarith
qed

lemma random_number_exact:
  "lo \<le> n \<Longrightarrow> n \<le> hi \<Longrightarrow> draws r (drawn r) = n - lo \<Longrightarrow>
   random_number lo hi r = (Ok n, r\<lparr>drawn := Suc (drawn r)\<rparr>)"
  by (simp add: random_number_def)

lemma random_number_cases:
  obtains (in_range) n where "lo \<le> hi" "lo \<le> n" "n \<le> hi"
      "random_number lo hi r = (Ok n, r\<lparr>drawn := Suc (drawn r)\<rparr>)"
  | (empty) "hi < lo" "random_number lo hi r = (Undefined, r)"
proof (cases "lo \<le> hi")
  case True
  define n where "n = lo + draws r (drawn r) mod (hi - lo + 1)"
  have eq: "random_number lo hi r = (Ok n, r\<lparr>drawn := Suc (drawn r)\<rparr>)"
    using True by (simp add: random_number_def n_def)
  from in_range [OF True _ _ eq] random_number_range [OF eq] show ?thesis by blast
next
  case False
  then have "hi < lo" by simp
  moreover from this have "random_number lo hi r = (Undefined, r)"
    by (simp add: random_number_def)
  ultimately show ?thesis by (rule empty)
qed

lemma random_str_ok:
  "\<exists>s r'. random_str n r = (Ok s, r') \<and> length s = n \<and> set s \<subseteq> set charset"
proof (induction n arbitrary: r)
  case 0
  then show ?case by (simp add: ret_def)
next
  case (Suc n)
  have len: "length charset = 62" by (simp add: charset_def)
  obtain i where i: "i \<le> 61"
    "random_number 0 61 r = (Ok i, r\<lparr>drawn := Suc (drawn r)\<rparr>)"
    by (rule random_number_cases [of 0 61 r]) auto
  obtain s r' where "random_str n (r\<lparr>drawn := Suc (drawn r)\<rparr>) = (Ok s, r')"
    "length s = n" "set s \<subseteq> set charset"
    using Suc by blast
  then show ?case using i len
    by (auto simp: bind_def ret_def intro!: nth_mem)
qed

text \<open>
  A random string has a length in the asked range and only alphanumeric characters: it holds no
  quote, so it needs no escaping inside a SQL literal.
\<close>

lemma random_string_ok:
  assumes "lo \<le> hi"
  shows "\<exists>s r'. random_string lo hi r = (Ok s, r') \<and> lo \<le> length s \<and> length s \<le> hi
    \<and> set s \<subseteq> set charset"
proof -
  obtain n where n: "lo \<le> n" "n \<le> hi"
    "random_number lo hi r = (Ok n, r\<lparr>drawn := Suc (drawn r)\<rparr>)"
    using assms by (rule_tac random_number_cases [of lo hi r]) auto
  obtain s r' where "random_str n (r\<lparr>drawn := Suc (drawn r)\<rparr>) = (Ok s, r')"
    "length s = n" "set s \<subseteq> set charset"
    using random_str_ok by blast
  with n show ?thesis by (auto simp: random_string_def bind_def)
qed

lemma mset_erase_at: "i < length xs \<Longrightarrow> add_mset (xs ! i) (mset (erase_at i xs)) = mset xs"
  by (metis add_mset_add_single erase_at_def id_take_nth_drop mset.simps(2) mset_append
      union_mset_add_mset_right)

lemma shuffle_rng_ok:
  "length xs = n \<Longrightarrow> \<exists>ys r'. shuffle_rng n xs r = (Ok ys, r') \<and> mset ys = mset xs"
proof (induction n arbitrary: xs r)
  case 0
  then show ?case by (simp add: ret_def)
next
  case (Suc n)
  obtain i where i: "i \<le> length xs - 1"
    "random_number 0 (length xs - 1) r = (Ok i, r\<lparr>drawn := Suc (drawn r)\<rparr>)"
    by (rule random_number_cases [of 0 "length xs - 1" r]) auto
  from i(1) Suc.prems have lt: "i < length xs" by linarith
  have "length (erase_at i xs) = n" using Suc.prems lt by (simp add: length_erase_at)
  then obtain ys r' where "shuffle_rng n (erase_at i xs) (r\<lparr>drawn := Suc (drawn r)\<rparr>) = (Ok ys, r')"
    "mset ys = mset (erase_at i xs)"
    using Suc.IH by blast
  with i mset_erase_at [OF lt] show ?case
    by (auto simp: bind_def ret_def)
qed

text \<open>A shuffle always succeeds and returns a permutation of its input.\<close>

lemma shuffle_ok: "\<exists>ys r'. shuffle xs r = (Ok ys, r') \<and> mset ys = mset xs"
  unfolding shuffle_def using shuffle_rng_ok [of xs "length xs" r] by blast

end
