(* ===== verification/Catalog.thy ===== *)
theory Catalog
  imports Ps_Random
begin

text \<open>
  \<open>metadata::Catalog\<close> and \<open>metadata::Registry\<close> (core/include/metadata/catalog.hpp): the
  thread-safe, id-keyed object store behind everything the program knows about the schema.

  Every operation of the class runs under one mutex, so it is one atomic step on the catalog's
  state: the slot map \<open>slots_\<close> (an association list: the order of an \<open>unordered_map\<close> is
  unspecified and no operation here depends on it), the sampling vector and the name index.
  Objects are any record that extends \<open>object_base\<close>, as the template takes any class derived from
  \<open>ObjectBase\<close>; a delta returns \<open>None\<close> where the C++ callable returns \<open>false\<close> and the new record
  otherwise. \<open>at()\<close> on a missing key is an \<open>out_of_range\<close> exception, \<open>back()\<close> and \<open>operator[]\<close>
  outside the vector are undefined.
\<close>

section \<open>Objects and the catalog\<close>

type_synonym object_id = "64 word"

record object_base =
  obj_id :: object_id
  obj_version :: "64 word"
  obj_name :: string

record 'a slot =
  slot_rec :: 'a
  slot_pos :: nat

record 'a catalog =
  slots :: "(object_id \<times> 'a slot) list"
  sampling :: "object_id list"
  names :: "string \<rightharpoonup> object_id"

type_synonym 'b delta = "'b object_base_scheme \<Rightarrow> 'b object_base_scheme option"

definition empty_catalog :: "'a catalog" where
  "empty_catalog = \<lparr>slots = [], sampling = [], names = Map.empty\<rparr>"

section \<open>Operations\<close>

definition slots_at :: "'a catalog \<Rightarrow> object_id \<Rightarrow> 'a slot result" where
  "slots_at c i = (case map_of (slots c) i of
     None \<Rightarrow> Throw (Out_of_range ''slots_'') | Some s \<Rightarrow> Ok s)"

definition catalog_byId :: "'a catalog \<Rightarrow> object_id \<Rightarrow> 'a option" where
  "catalog_byId c i = (case map_of (slots c) i of None \<Rightarrow> None | Some s \<Rightarrow> Some (slot_rec s))"

definition catalog_byName :: "'a catalog \<Rightarrow> string \<Rightarrow> 'a option result" where
  "catalog_byName c n = (case names c n of
     None \<Rightarrow> Ok None
   | Some i \<Rightarrow> res_bind (slots_at c i) (\<lambda>s. Ok (Some (slot_rec s))))"

definition catalog_randomPick :: "'a catalog \<Rightarrow> (rng, 'a option) prog" where
  "catalog_randomPick c =
     (if sampling c = [] then ret None
      else bind (random_number 0 (length (sampling c) - 1)) (\<lambda>idx.
           lift_result (res_bind (slots_at c (sampling c ! idx)) (\<lambda>s. Ok (Some (slot_rec s))))))"

definition catalog_size :: "'a catalog \<Rightarrow> nat" where
  "catalog_size c = length (slots c)"

definition catalog_snapshotAll :: "'a catalog \<Rightarrow> 'a list result" where
  "catalog_snapshotAll c = res_map (\<lambda>i. res_bind (slots_at c i) (\<lambda>s. Ok (slot_rec s))) (sampling c)"

definition catalog_insert ::
  "'b object_base_scheme \<Rightarrow> 'b object_base_scheme catalog \<Rightarrow> bool \<times> 'b object_base_scheme catalog"
where
  "catalog_insert obj c =
     (if obj_id obj = 0 then (False, c)
      else (case map_of (slots c) (obj_id obj) of
          Some _ \<Rightarrow> (False, c)
        | None \<Rightarrow> (True, c\<lparr>
            slots := (obj_id obj, \<lparr>slot_rec = obj, slot_pos = length (sampling c)\<rparr>) # slots c,
            sampling := sampling c @ [obj_id obj],
            names := (names c)(obj_name obj \<mapsto> obj_id obj)\<rparr>)))"

text \<open>
  The re-indexing of \<open>update\<close>: the entry of the old name goes if it is still this object's, and
  the new name points to the object (last publish wins).
\<close>

definition rename_entry ::
  "(string \<rightharpoonup> object_id) \<Rightarrow> object_id \<Rightarrow> string \<Rightarrow> string \<Rightarrow> (string \<rightharpoonup> object_id)" where
  "rename_entry nm i old new =
     (if new \<noteq> old
      then (if nm old = Some i then nm(old := None) else nm)(new \<mapsto> i)
      else nm)"

definition catalog_update ::
  "object_id \<Rightarrow> 'b delta \<Rightarrow> 'b object_base_scheme catalog \<Rightarrow> bool \<times> 'b object_base_scheme catalog"
where
  "catalog_update i delta c = (case map_of (slots c) i of
     None \<Rightarrow> (False, c)
   | Some s \<Rightarrow> (case delta (slot_rec s) of
       None \<Rightarrow> (False, c)
     | Some copy \<Rightarrow>
        (let rec' = copy\<lparr>obj_id := i, obj_version := obj_version (slot_rec s) + 1\<rparr>
         in (True, c\<lparr>
           names := rename_entry (names c) i (obj_name (slot_rec s)) (obj_name rec'),
           slots := AList.update i (s\<lparr>slot_rec := rec'\<rparr>) (slots c)\<rparr>))))"

definition catalog_erase ::
  "object_id \<Rightarrow> 'b object_base_scheme catalog \<Rightarrow> (bool \<times> 'b object_base_scheme catalog) result"
where
  "catalog_erase i c = (case map_of (slots c) i of
     None \<Rightarrow> Ok (False, c)
   | Some s \<Rightarrow>
       (if sampling c = [] \<or> length (sampling c) \<le> slot_pos s then Undefined
        else (let lastId = last (sampling c);
                  smp = (sampling c)[slot_pos s := lastId] in
          res_bind (slots_at c lastId) (\<lambda>ls.
            Ok (True, c\<lparr>
              slots := AList.delete i (AList.update lastId (ls\<lparr>slot_pos := slot_pos s\<rparr>) (slots c)),
              sampling := butlast smp,
              names := (if names c (obj_name (slot_rec s)) = Some i
                        then (names c)(obj_name (slot_rec s) := None) else names c)\<rparr>)))))"

definition catalog_reset :: "'a catalog \<Rightarrow> 'a catalog" where
  "catalog_reset c = c\<lparr>slots := [], sampling := [], names := Map.empty\<rparr>"

section \<open>The representation invariant\<close>

text \<open>
  Slots and sampling vector index each other (so \<open>randomPick\<close> reaches every object and \<open>erase\<close>'s
  swap-with-last is right), every record is stored under its own id, no id is 0, and a name entry
  leads to an object that bears the name.
\<close>

definition catalog_inv :: "'b object_base_scheme catalog \<Rightarrow> bool" where
  "catalog_inv c \<longleftrightarrow>
     distinct (map fst (slots c)) \<and>
     distinct (sampling c) \<and>
     set (sampling c) = fst ` set (slots c) \<and>
     (\<forall>i s. map_of (slots c) i = Some s \<longrightarrow>
        slot_pos s < length (sampling c) \<and> sampling c ! slot_pos s = i \<and>
        obj_id (slot_rec s) = i \<and> i \<noteq> 0) \<and>
     (\<forall>n i. names c n = Some i \<longrightarrow>
        (\<exists>s. map_of (slots c) i = Some s \<and> obj_name (slot_rec s) = n))"

lemma catalog_invD:
  assumes "catalog_inv c"
  shows "distinct (map fst (slots c))" "distinct (sampling c)"
    "set (sampling c) = dom (map_of (slots c))"
    "\<And>i s. map_of (slots c) i = Some s \<Longrightarrow> slot_pos s < length (sampling c)"
    "\<And>i s. map_of (slots c) i = Some s \<Longrightarrow> sampling c ! slot_pos s = i"
    "\<And>i s. map_of (slots c) i = Some s \<Longrightarrow> obj_id (slot_rec s) = i"
    "map_of (slots c) 0 = None"
    "\<And>n i. names c n = Some i \<Longrightarrow>
      \<exists>s. map_of (slots c) i = Some s \<and> obj_name (slot_rec s) = n"
proof -
  note inv = assms [unfolded catalog_inv_def, folded dom_map_of_conv_image_fst]
  show "distinct (map fst (slots c))" "distinct (sampling c)"
    "set (sampling c) = dom (map_of (slots c))"
    using inv by blast+
  show "slot_pos s < length (sampling c)" "sampling c ! slot_pos s = i"
    "obj_id (slot_rec s) = i" if "map_of (slots c) i = Some s" for i s
    using inv that by blast+
  show "map_of (slots c) 0 = None"
    using inv by (metis not_None_eq)
  show "\<exists>s. map_of (slots c) i = Some s \<and> obj_name (slot_rec s) = n"
    if "names c n = Some i" for n i
    using inv that by blast
qed

lemma catalog_invI:
  assumes "distinct (map fst (slots c))" "distinct (sampling c)"
    "set (sampling c) = dom (map_of (slots c))"
    "\<And>i s. map_of (slots c) i = Some s \<Longrightarrow>
      slot_pos s < length (sampling c) \<and> sampling c ! slot_pos s = i \<and>
      obj_id (slot_rec s) = i \<and> i \<noteq> 0"
    "\<And>n i. names c n = Some i \<Longrightarrow>
      \<exists>s. map_of (slots c) i = Some s \<and> obj_name (slot_rec s) = n"
  shows "catalog_inv c"
  using assms unfolding catalog_inv_def dom_map_of_conv_image_fst by blast

lemma catalog_empty_inv: "catalog_inv empty_catalog"
  by (simp add: catalog_inv_def empty_catalog_def)

lemma catalog_reset_inv: "catalog_inv (catalog_reset c)"
  by (simp add: catalog_inv_def catalog_reset_def)

lemma catalog_byId_alt: "catalog_byId c i = map_option slot_rec (map_of (slots c) i)"
  by (simp add: catalog_byId_def split: option.splits)

lemma catalog_insert_inv:
  assumes "catalog_inv c" and "catalog_insert obj c = (b, c')"
  shows "catalog_inv c'"
proof (cases "b")
  case False
  with assms show ?thesis by (auto simp: catalog_insert_def split: if_splits option.splits)
next
  case True
  with assms(2) have new: "obj_id obj \<noteq> 0" "map_of (slots c) (obj_id obj) = None"
    and c': "c' = c\<lparr>
       slots := (obj_id obj, \<lparr>slot_rec = obj, slot_pos = length (sampling c)\<rparr>) # slots c,
       sampling := sampling c @ [obj_id obj],
       names := (names c)(obj_name obj \<mapsto> obj_id obj)\<rparr>"
    by (auto simp: catalog_insert_def split: if_splits option.splits)
  note D = catalog_invD [OF assms(1)]
  from new(2) have notin: "obj_id obj \<notin> fst ` set (slots c)"
    by (simp add: map_of_eq_None_iff)
  show ?thesis
  proof (rule catalog_invI)
    show "distinct (map fst (slots c'))" using D(1) notin by (simp add: c')
    show "distinct (sampling c')" using D(2,3) notin
      by (simp add: c' dom_map_of_conv_image_fst)
    show "set (sampling c') = dom (map_of (slots c'))" using D(3) by (simp add: c')
  next
    fix i s assume "map_of (slots c') i = Some s"
    then show "slot_pos s < length (sampling c') \<and> sampling c' ! slot_pos s = i \<and>
      obj_id (slot_rec s) = i \<and> i \<noteq> 0"
      using D(4-7) new by (auto simp: c' nth_append split: if_splits)
  next
    fix n i assume "names c' n = Some i"
    then show "\<exists>s. map_of (slots c') i = Some s \<and> obj_name (slot_rec s) = n"
      using D(8) new(2) by (fastforce simp: c' split: if_splits)
  qed
qed

lemma catalog_update_cases:
  assumes "catalog_update i delta c = (b, c')"
  obtains (discarded) "\<not> b" "c' = c"
      "catalog_byId c i = None \<or> (\<exists>r. catalog_byId c i = Some r \<and> delta r = None)"
  | (applied) s copy where "b" "map_of (slots c) i = Some s" "delta (slot_rec s) = Some copy"
      "c' = c\<lparr>
         names := rename_entry (names c) i (obj_name (slot_rec s)) (obj_name copy),
         slots := AList.update i
           (s\<lparr>slot_rec := copy\<lparr>obj_id := i, obj_version := obj_version (slot_rec s) + 1\<rparr>\<rparr>) (slots c)\<rparr>"
  using assms
  by (auto simp: catalog_update_def catalog_byId_def Let_def split: option.splits)

lemma rename_entry_SomeD:
  assumes "rename_entry nm i old new n = Some j"
  shows "(n = new \<and> j = i \<and> new \<noteq> old) \<or> (nm n = Some j \<and> (new \<noteq> old \<longrightarrow> n \<noteq> new))"
    and "j = i \<Longrightarrow> n \<noteq> new \<Longrightarrow> nm n = Some i \<and> (n = old \<longrightarrow> new = old)"
  using assms by (auto simp: rename_entry_def split: if_splits)

lemma catalog_update_inv:
  assumes inv: "catalog_inv c" and upd: "catalog_update i delta c = (b, c')"
  shows "catalog_inv c'"
  using upd
proof (cases rule: catalog_update_cases)
  case discarded
  with inv show ?thesis by simp
next
  case (applied s copy)
  note D = catalog_invD [OF inv]
  let ?rec = "copy\<lparr>obj_id := i, obj_version := obj_version (slot_rec s) + 1\<rparr>"
  have c': "slots c' = AList.update i (s\<lparr>slot_rec := ?rec\<rparr>) (slots c)"
    "sampling c' = sampling c"
    "names c' = rename_entry (names c) i (obj_name (slot_rec s)) (obj_name copy)"
    using applied(4) by simp_all
  show ?thesis
  proof (rule catalog_invI)
    show "distinct (map fst (slots c'))" by (simp add: c' D(1) distinct_update)
    show "distinct (sampling c')" by (simp add: c' D(2))
    show "set (sampling c') = dom (map_of (slots c'))"
      using D(3) applied(2) by (auto simp: c' dom_def)
  next
    fix j t assume "map_of (slots c') j = Some t"
    then show "slot_pos t < length (sampling c') \<and> sampling c' ! slot_pos t = j \<and>
      obj_id (slot_rec t) = j \<and> j \<noteq> 0"
      using D(4-7) applied(2) by (auto simp: c' split: if_splits)
  next
    fix n j assume nm: "names c' n = Some j"
    show "\<exists>t. map_of (slots c') j = Some t \<and> obj_name (slot_rec t) = n"
    proof (cases "j = i")
      case True
      have "n = obj_name copy"
      proof (rule ccontr)
        assume "n \<noteq> obj_name copy"
        with rename_entry_SomeD(2) [OF nm [unfolded c'(3)] True]
        have "names c n = Some i" "n = obj_name (slot_rec s) \<longrightarrow> obj_name copy = obj_name (slot_rec s)"
          by simp_all
        with D(8) applied(2) \<open>n \<noteq> obj_name copy\<close> show False by fastforce
      qed
      with True show ?thesis by (simp add: c')
    next
      case False
      with nm have "names c n = Some j"
        by (auto dest: rename_entry_SomeD(1) simp: c'(3))
      with D(8) False show ?thesis by (auto simp: c')
    qed
  qed
qed

text \<open>Under the invariant \<open>erase\<close> never touches an index out of range, and swap-with-last keeps
  every remaining slot's position right.\<close>

lemma last_sampling_slot:
  assumes inv: "catalog_inv c" and s: "map_of (slots c) i = Some s"
  obtains ls where "sampling c \<noteq> []" "map_of (slots c) (last (sampling c)) = Some ls"
    "slot_pos ls = length (sampling c) - 1"
proof -
  note D = catalog_invD [OF inv]
  from D(4) [OF s] have ne: "sampling c \<noteq> []" by auto
  then have "last (sampling c) \<in> dom (map_of (slots c))" using D(3) last_in_set by blast
  then obtain ls where ls: "map_of (slots c) (last (sampling c)) = Some ls" by blast
  from D(4,5) [OF ls] ne D(2) have "slot_pos ls = length (sampling c) - 1"
    by (simp add: last_conv_nth nth_eq_iff_index_eq)
  with that ne ls show ?thesis by blast
qed

lemma catalog_erase_cases:
  assumes inv: "catalog_inv c"
  obtains (missing) "map_of (slots c) i = None" "catalog_erase i c = Ok (False, c)"
  | (erased) s ls c' where "map_of (slots c) i = Some s"
      "map_of (slots c) (last (sampling c)) = Some ls"
      "catalog_erase i c = Ok (True, c')"
      "slots c' = AList.delete i (AList.update (last (sampling c)) (ls\<lparr>slot_pos := slot_pos s\<rparr>) (slots c))"
      "sampling c' = butlast ((sampling c)[slot_pos s := last (sampling c)])"
      "names c' = (if names c (obj_name (slot_rec s)) = Some i
         then (names c)(obj_name (slot_rec s) := None) else names c)"
proof (cases "map_of (slots c) i")
  case None
  then have "catalog_erase i c = Ok (False, c)" by (simp add: catalog_erase_def)
  with None show ?thesis by (rule missing)
next
  case (Some s)
  obtain ls where ls: "sampling c \<noteq> []" "map_of (slots c) (last (sampling c)) = Some ls"
    using last_sampling_slot [OF inv Some] .
  let ?c' = "c\<lparr>
      slots := AList.delete i (AList.update (last (sampling c)) (ls\<lparr>slot_pos := slot_pos s\<rparr>) (slots c)),
      sampling := butlast ((sampling c)[slot_pos s := last (sampling c)]),
      names := (if names c (obj_name (slot_rec s)) = Some i
         then (names c)(obj_name (slot_rec s) := None) else names c)\<rparr>"
  from catalog_invD(4) [OF inv Some] ls Some have "catalog_erase i c = Ok (True, ?c')"
    by (auto simp: catalog_erase_def slots_at_def Let_def)
  with Some ls(2) show ?thesis by (rule erased) simp_all
qed

lemma catalog_erase_inv:
  assumes inv: "catalog_inv c" and er: "catalog_erase i c = Ok (b, c')"
  shows "catalog_inv c'"
  using inv
proof (cases rule: catalog_erase_cases [where i = i])
  case missing
  with inv er show ?thesis by simp
next
  case (erased s ls c'')
  with er have c'': "c'' = c'" by simp
  note c' = erased(4-6) [unfolded c'']
  note D = catalog_invD [OF inv]
  note pos = D(4) [OF erased(1)] D(5) [OF erased(1)]
  note swap = swap_remove [OF pos(1) D(2)]
  note smp = swap [folded c'(2), unfolded pos(2)]
  have lookup: "map_of (slots c') j =
      (if j = i then None else if j = last (sampling c) then Some (ls\<lparr>slot_pos := slot_pos s\<rparr>)
       else map_of (slots c) j)" for j
    by (simp add: c'(1))
  from pos(1) have ne: "sampling c \<noteq> []" by auto
  show ?thesis
  proof (rule catalog_invI)
    show "distinct (map fst (slots c'))"
      by (simp add: c'(1) D(1) distinct_delete distinct_update)
    show "distinct (sampling c')" by (rule smp(1))
    show "set (sampling c') = dom (map_of (slots c'))"
      using smp(2) D(3) erased(2) by (auto simp: c'(1) dom_def)
  next
    fix j t assume j: "map_of (slots c') j = Some t"
    then have ji: "j \<noteq> i" by (auto simp: lookup)
    show "slot_pos t < length (sampling c') \<and> sampling c' ! slot_pos t = j \<and>
      obj_id (slot_rec t) = j \<and> j \<noteq> 0"
    proof (cases "j = last (sampling c)")
      case True
      with j ji have t: "t = ls\<lparr>slot_pos := slot_pos s\<rparr>" by (simp add: lookup)
      have "slot_pos s \<noteq> length (sampling c) - 1"
        using True ji pos(2) ne by (auto simp: last_conv_nth)
      with pos(1) have "slot_pos s < length (sampling c) - 1" by linarith
      with True t smp(3,4) erased(2) D(6,7) show ?thesis by auto
    next
      case False
      with j ji have t: "map_of (slots c) j = Some t" by (simp add: lookup)
      note p = D(4) [OF t] D(5) [OF t]
      have "slot_pos t \<noteq> slot_pos s" using p(2) pos(2) ji by auto
      moreover have "slot_pos t \<noteq> length (sampling c) - 1"
        using p(2) False ne by (auto simp: last_conv_nth)
      ultimately show ?thesis using p smp(3,4) t D(6,7) by auto
    qed
  next
    fix n j assume nm: "names c' n = Some j"
    then have "names c n = Some j" by (auto simp: c'(3) split: if_splits)
    with D(8) obtain t where t: "map_of (slots c) j = Some t" "obj_name (slot_rec t) = n" by blast
    have "j \<noteq> i"
    proof
      assume "j = i"
      with t erased(1) nm \<open>names c n = Some j\<close> show False by (auto simp: c'(3) split: if_splits)
    qed
    with t erased(2) show "\<exists>t. map_of (slots c') j = Some t \<and> obj_name (slot_rec t) = n"
      by (auto simp: lookup)
  qed
qed

section \<open>The contract: a finite map from ids to records\<close>

text \<open>
  What a writer asks of a catalog, as data (the interleavings below range over it), and the
  abstract meaning of each request on a plain map: \<open>insert\<close> refuses id 0 and a live id, \<open>update\<close>
  applies the delta to the current record, keeps its identity and bumps its version, \<open>erase\<close>
  removes it; the boolean says whether anything happened.
\<close>

datatype 'r catalog_op =
    Op_insert 'r
  | Op_update object_id "'r \<Rightarrow> 'r option"
  | Op_erase object_id
  | Op_reset

fun catalog_apply ::
  "'b object_base_scheme catalog_op \<Rightarrow> 'b object_base_scheme catalog \<Rightarrow>
   (bool \<times> 'b object_base_scheme catalog) result" where
  "catalog_apply (Op_insert r) c = Ok (catalog_insert r c)"
| "catalog_apply (Op_update i d) c = Ok (catalog_update i d c)"
| "catalog_apply (Op_erase i) c = catalog_erase i c"
| "catalog_apply Op_reset c = Ok (True, catalog_reset c)"

fun store_apply ::
  "'b object_base_scheme catalog_op \<Rightarrow> (object_id \<rightharpoonup> 'b object_base_scheme) \<Rightarrow>
   bool \<times> (object_id \<rightharpoonup> 'b object_base_scheme)" where
  "store_apply (Op_insert r) m =
     (if obj_id r \<noteq> 0 \<and> m (obj_id r) = None then (True, m(obj_id r \<mapsto> r)) else (False, m))"
| "store_apply (Op_update i d) m =
     (case m i of None \<Rightarrow> (False, m)
      | Some r \<Rightarrow> (case d r of None \<Rightarrow> (False, m)
         | Some r' \<Rightarrow> (True, m(i \<mapsto> r'\<lparr>obj_id := i, obj_version := obj_version r + 1\<rparr>))))"
| "store_apply (Op_erase i) m = (m i \<noteq> None, m(i := None))"
| "store_apply Op_reset m = (True, Map.empty)"

lemma catalog_insert_byId:
  "catalog_insert r c = (b, c') \<Longrightarrow>
   b = (obj_id r \<noteq> 0 \<and> catalog_byId c (obj_id r) = None) \<and>
   catalog_byId c' = (if b then (catalog_byId c)(obj_id r \<mapsto> r) else catalog_byId c)"
  by (auto simp: catalog_insert_def catalog_byId_def fun_eq_iff split: if_splits option.splits)

lemma catalog_update_byId:
  assumes "catalog_update i d c = (b, c')"
  shows "store_apply (Op_update i d) (catalog_byId c) = (b, catalog_byId c')"
  using assms
proof (cases rule: catalog_update_cases)
  case discarded
  then show ?thesis by (auto split: option.splits)
next
  case (applied s copy)
  then show ?thesis by (auto simp: catalog_byId_def fun_eq_iff)
qed

lemma catalog_erase_byId:
  assumes inv: "catalog_inv c"
  shows "\<exists>c'. catalog_erase i c = Ok (catalog_byId c i \<noteq> None, c') \<and>
    catalog_byId c' = (catalog_byId c)(i := None)"
  using inv
proof (cases rule: catalog_erase_cases [where i = i])
  case missing
  then show ?thesis by (auto simp: catalog_byId_def fun_eq_iff)
next
  case (erased s ls c')
  have "catalog_byId c' j = ((catalog_byId c)(i := None)) j" for j
    using erased(2) by (auto simp: catalog_byId_def erased(4))
  with erased show ?thesis by (auto simp: catalog_byId_def)
qed

text \<open>
  The refinement: on a well-formed catalog no request fails (no \<open>out_of_range\<close>, nothing
  undefined), the catalog stays well-formed, and the request means on the lookup function
  what the contract says.
\<close>

lemma catalog_apply_refines:
  assumes "catalog_inv c"
  shows "\<exists>b c'. catalog_apply op c = Ok (b, c') \<and> catalog_inv c' \<and>
    store_apply op (catalog_byId c) = (b, catalog_byId c')"
proof (cases op)
  case (Op_insert r)
  obtain b c' where ins: "catalog_insert r c = (b, c')" by fastforce
  from catalog_insert_inv [OF assms ins] catalog_insert_byId [OF ins] ins Op_insert
  show ?thesis by auto
next
  case (Op_update i d)
  obtain b c' where upd: "catalog_update i d c = (b, c')" by fastforce
  from catalog_update_inv [OF assms upd] catalog_update_byId [OF upd] upd Op_update
  show ?thesis by auto
next
  case (Op_erase i)
  obtain c' where er: "catalog_erase i c = Ok (catalog_byId c i \<noteq> None, c')"
    "catalog_byId c' = (catalog_byId c)(i := None)"
    using catalog_erase_byId [OF assms] by blast
  from catalog_erase_inv [OF assms er(1)] er Op_erase show ?thesis by auto
next
  case Op_reset
  then show ?thesis
    by (auto simp: catalog_reset_inv) (simp add: catalog_byId_def catalog_reset_def fun_eq_iff)
qed

subsection \<open>Reads\<close>

lemma slots_at_live: "map_of (slots c) i = Some s \<Longrightarrow> slots_at c i = Ok s"
  by (simp add: slots_at_def)

lemma catalog_snapshotAll_ok:
  assumes inv: "catalog_inv c"
  shows "\<exists>xs. catalog_snapshotAll c = Ok xs \<and> map obj_id xs = sampling c \<and>
    set xs = ran (catalog_byId c) \<and> length xs = catalog_size c"
proof -
  note D = catalog_invD [OF inv]
  define at where "at = (\<lambda>i. slot_rec (the (map_of (slots c) i)))"
  have live: "map_of (slots c) i = Some (the (map_of (slots c) i))" if "i \<in> set (sampling c)" for i
    using that D(3) by auto
  have "catalog_snapshotAll c = Ok (map at (sampling c))"
    unfolding catalog_snapshotAll_def at_def
    by (rule res_map_all_Ok) (use live in \<open>auto simp: slots_at_def split: option.splits\<close>)
  moreover have "map obj_id (map at (sampling c)) = sampling c"
    using live D(6) by (auto simp: at_def intro!: map_idI)
  moreover have "set (map at (sampling c)) = ran (catalog_byId c)"
  proof
    show "set (map at (sampling c)) \<subseteq> ran (catalog_byId c)"
      using live by (auto simp: at_def catalog_byId_alt ran_def)
    show "ran (catalog_byId c) \<subseteq> set (map at (sampling c))"
    proof
      fix x assume "x \<in> ran (catalog_byId c)"
      then obtain i s where "map_of (slots c) i = Some s" "x = slot_rec s"
        by (auto simp: ran_def catalog_byId_alt)
      moreover from this have "i \<in> set (sampling c)" using D(3) by auto
      ultimately show "x \<in> set (map at (sampling c))" by (force simp: at_def)
    qed
  qed
  moreover have "length (sampling c) = catalog_size c"
  proof -
    have "length (sampling c) = card (fst ` set (slots c))"
      using distinct_card [OF D(2)] D(3) by (simp add: dom_map_of_conv_image_fst)
    also have "\<dots> = length (slots c)" using distinct_card [OF D(1)] by simp
    finally show ?thesis by (simp add: catalog_size_def)
  qed
  ultimately show ?thesis by (intro exI [of _ "map at (sampling c)"]) simp
qed

lemma catalog_byName_ok:
  assumes inv: "catalog_inv c"
  shows "\<exists>r. catalog_byName c n = Ok r \<and>
    (\<forall>x. r = Some x \<longrightarrow> obj_name x = n \<and> catalog_byId c (obj_id x) = Some x)"
proof (cases "names c n")
  case None
  then show ?thesis by (simp add: catalog_byName_def)
next
  case (Some i)
  from catalog_invD(8) [OF inv this] obtain s
    where s: "map_of (slots c) i = Some s" "obj_name (slot_rec s) = n" by blast
  with Some catalog_invD(6) [OF inv s(1)] show ?thesis
    by (simp add: catalog_byName_def slots_at_def catalog_byId_def)
qed

lemma catalog_randomPick_ok:
  assumes inv: "catalog_inv c"
  shows "\<exists>x r'. catalog_randomPick c r = (Ok x, r') \<and>
    (x = None \<longleftrightarrow> catalog_byId c = Map.empty) \<and> (\<forall>y. x = Some y \<longrightarrow> catalog_byId c (obj_id y) = Some y)"
proof (cases "sampling c = []")
  case True
  then have "dom (map_of (slots c)) = {}"
    using catalog_invD(3) [OF inv] by auto
  then have "catalog_byId c i = None" for i
    by (simp add: catalog_byId_def)
  then show ?thesis using True
    by (simp add: catalog_randomPick_def ret_def fun_eq_iff)
next
  case False
  obtain k where k: "k \<le> length (sampling c) - 1"
    "random_number 0 (length (sampling c) - 1) r = (Ok k, r\<lparr>drawn := Suc (drawn r)\<rparr>)"
    by (rule random_number_cases [of 0 "length (sampling c) - 1" r]) auto
  with False have "k < length (sampling c)" by (cases "sampling c") auto
  then have "sampling c ! k \<in> dom (map_of (slots c))"
    using catalog_invD(3) [OF inv] nth_mem by blast
  then obtain s where s: "map_of (slots c) (sampling c ! k) = Some s" by blast
  with catalog_invD(6) [OF inv s] False k show ?thesis
    by (auto simp: catalog_randomPick_def bind_def lift_result_def slots_at_def catalog_byId_def
        fun_eq_iff intro!: exI [of _ "sampling c ! k"])
qed

section \<open>Interleavings\<close>

text \<open>
  Every operation holds the mutex for its whole body, so whatever several workers do to one catalog
  is a list of requests. \<open>catalog_run\<close> executes the list, \<open>store_run\<close> is its meaning.
\<close>

fun catalog_run ::
  "'b object_base_scheme catalog_op list \<Rightarrow> 'b object_base_scheme catalog \<Rightarrow>
   (bool list \<times> 'b object_base_scheme catalog) result" where
  "catalog_run [] c = Ok ([], c)"
| "catalog_run (op # ops) c = res_bind (catalog_apply op c) (\<lambda>(b, c').
     res_bind (catalog_run ops c') (\<lambda>(bs, c''). Ok (b # bs, c'')))"

fun store_run ::
  "'b object_base_scheme catalog_op list \<Rightarrow> (object_id \<rightharpoonup> 'b object_base_scheme) \<Rightarrow>
   bool list \<times> (object_id \<rightharpoonup> 'b object_base_scheme)" where
  "store_run [] m = ([], m)"
| "store_run (op # ops) m = (let (b, m') = store_apply op m; (bs, m'') = store_run ops m'
     in (b # bs, m''))"

lemma catalog_run_refines:
  assumes "catalog_inv c"
  shows "\<exists>bs c'. catalog_run ops c = Ok (bs, c') \<and> catalog_inv c' \<and>
    store_run ops (catalog_byId c) = (bs, catalog_byId c')"
  using assms
proof (induction ops arbitrary: c)
  case Nil
  then show ?case by simp
next
  case (Cons op ops)
  obtain b c1 where 1: "catalog_apply op c = Ok (b, c1)" "catalog_inv c1"
    "store_apply op (catalog_byId c) = (b, catalog_byId c1)"
    using catalog_apply_refines [OF Cons.prems] by blast
  obtain bs c2 where "catalog_run ops c1 = Ok (bs, c2)" "catalog_inv c2"
    "store_run ops (catalog_byId c1) = (bs, catalog_byId c2)"
    using Cons.IH [OF 1(2)] by blast
  with 1 show ?case by simp
qed

lemma catalog_byId_empty [simp]: "catalog_byId empty_catalog = Map.empty"
  by (simp add: catalog_byId_def empty_catalog_def fun_eq_iff)

lemma catalog_byId_id: "catalog_inv c \<Longrightarrow> catalog_byId c i = Some r \<Longrightarrow> obj_id r = i"
  by (auto simp: catalog_byId_alt dest: catalog_invD(6))

lemma catalog_byId_0: "catalog_inv c \<Longrightarrow> catalog_byId c 0 = None"
  by (simp add: catalog_byId_alt catalog_invD(7))

section \<open>The registry\<close>

text \<open>
  \<open>Registry<Table>\<close>: the catalog of the one object kind and the id counter, an atomic 64-bit
  \<open>fetch_add\<close>. \<open>reset\<close> clears the catalog and leaves the counter.
\<close>

record 'a registry =
  tables :: "'a catalog"
  next_id :: object_id

definition new_registry :: "'a registry" where
  "new_registry = \<lparr>tables = empty_catalog, next_id = 1\<rparr>"

definition registry_nextId :: "'a registry \<Rightarrow> object_id \<times> 'a registry" where
  "registry_nextId g = (next_id g, g\<lparr>next_id := next_id g + 1\<rparr>)"

definition registry_reset :: "'a registry \<Rightarrow> 'a registry" where
  "registry_reset g = g\<lparr>tables := catalog_reset (tables g)\<rparr>"

datatype 'r registry_op = Reg_nextId | Reg_reset | Reg_tables "'r catalog_op"

text \<open>The ids a list of registry calls hands out, and the registry it leaves.\<close>

fun registry_run ::
  "'b object_base_scheme registry_op list \<Rightarrow> 'b object_base_scheme registry \<Rightarrow>
   (object_id list \<times> 'b object_base_scheme registry) result" where
  "registry_run [] g = Ok ([], g)"
| "registry_run (Reg_nextId # ops) g = (let (i, g') = registry_nextId g in
     res_bind (registry_run ops g') (\<lambda>(is, g''). Ok (i # is, g'')))"
| "registry_run (Reg_reset # ops) g = registry_run ops (registry_reset g)"
| "registry_run (Reg_tables op # ops) g =
     res_bind (catalog_apply op (tables g)) (\<lambda>(b, c). registry_run ops (g\<lparr>tables := c\<rparr>))"

lemma registry_run_ids:
  assumes "catalog_inv (tables g)"
  shows "\<exists>is g'. registry_run ops g = Ok (is, g') \<and> catalog_inv (tables g') \<and>
    is = map (\<lambda>k. next_id g + of_nat k) [0..<length is] \<and>
    next_id g' = next_id g + of_nat (length is) \<and>
    length is = length (filter (\<lambda>op. op = Reg_nextId) ops)"
  using assms
proof (induction ops g rule: registry_run.induct)
  case (1 g)
  then show ?case by simp
next
  case (2 ops g)
  let ?g = "g\<lparr>next_id := next_id g + 1\<rparr>"
  obtain "is" g' where IH: "registry_run ops ?g = Ok (is, g')" "catalog_inv (tables g')"
    "is = map (\<lambda>k. next_id g + 1 + of_nat k) [0..<length is]"
    "next_id g' = next_id g + 1 + of_nat (length is)"
    "length is = length (filter (\<lambda>op. op = Reg_nextId) ops)"
    using 2(1) [of "(next_id g, ?g)" "next_id g" ?g] 2(2) by (auto simp: registry_nextId_def)
  have upt: "[0..<Suc n] = 0 # map Suc [0..<n]" for n
    by (simp add: map_Suc_upt upt_conv_Cons)
  have "next_id g # is = map (\<lambda>k. next_id g + of_nat k) [0..<length (next_id g # is)]"
    by (subst IH(3)) (simp add: upt o_def algebra_simps del: upt_Suc)
  with IH show ?case by (auto simp: registry_nextId_def algebra_simps simp del: upt_Suc)
next
  case (3 ops g)
  then show ?case by (simp add: registry_reset_def catalog_reset_inv)
next
  case (4 op ops g)
  obtain b c where c: "catalog_apply op (tables g) = Ok (b, c)" "catalog_inv c"
    using catalog_apply_refines [OF 4(2)] by blast
  with 4(1) [of c] show ?case by simp
qed

lemma of_nat_word_inj:
  "i < 2 ^ 64 \<Longrightarrow> j < 2 ^ 64 \<Longrightarrow> (of_nat i :: 64 word) = of_nat j \<Longrightarrow> i = j"
  by (simp add: word_of_nat_eq_iff take_bit_nat_eq_self)

section \<open>The interface the actions use\<close>

text \<open>
  An \<open>object_store\<close> is what the program's clients see, whether through the catalog itself or
  through a transaction's overlay: a lookup function \<open>get\<close> and the four operations, each described
  by what it does to the lookup. The version of an updated record is left open: the catalog bumps
  it, the overlay does not (it is for observability only).
\<close>

locale object_store =
  fixes wf :: "'s \<Rightarrow> bool"
    and get :: "'s \<Rightarrow> object_id \<Rightarrow> 'b object_base_scheme option"
    and ins :: "'b object_base_scheme \<Rightarrow> 's \<Rightarrow> bool \<times> 's"
    and upd :: "object_id \<Rightarrow> 'b delta \<Rightarrow> 's \<Rightarrow> bool \<times> 's"
    and del :: "object_id \<Rightarrow> 's \<Rightarrow> (bool \<times> 's) result"
    and snap :: "'s \<Rightarrow> 'b object_base_scheme list result"
  assumes get_id: "wf s \<Longrightarrow> get s i = Some r \<Longrightarrow> obj_id r = i \<and> i \<noteq> 0"
    and ins_wf: "wf s \<Longrightarrow> wf (snd (ins r s))"
    and ins_fresh: "wf s \<Longrightarrow> obj_id r \<noteq> 0 \<Longrightarrow> get s (obj_id r) = None \<Longrightarrow>
      fst (ins r s) \<and> get (snd (ins r s)) = (get s)(obj_id r \<mapsto> r)"
    and ins_zero: "wf s \<Longrightarrow> obj_id r = 0 \<Longrightarrow> ins r s = (False, s)"
    and upd_wf: "wf s \<Longrightarrow> wf (snd (upd i d s))"
    and upd_skip: "wf s \<Longrightarrow> get s i = None \<or> (\<exists>r. get s i = Some r \<and> d r = None) \<Longrightarrow>
      upd i d s = (False, s)"
    and upd_hit: "wf s \<Longrightarrow> get s i = Some r \<Longrightarrow> d r = Some r' \<Longrightarrow>
      fst (upd i d s) \<and>
      (\<exists>v. get (snd (upd i d s)) = (get s)(i \<mapsto> r'\<lparr>obj_id := i, obj_version := v\<rparr>))"
    and del_ok: "wf s \<Longrightarrow> \<exists>s'. del i s = Ok (get s i \<noteq> None, s') \<and> wf s' \<and>
      get s' = (get s)(i := None)"
    and snap_ok: "wf s \<Longrightarrow> \<exists>xs. snap s = Ok xs \<and> distinct (map obj_id xs) \<and> set xs = ran (get s)"
begin

text \<open>
  A sweep: a client that takes a snapshot and then applies one delta to every object of it, as
  \<open>DropTable\<close> does with the references to the dropped table. Deltas that do not apply (the object
  is gone, the delta returns false) are skipped.
\<close>

lemma sweep_wf: "wf s \<Longrightarrow> wf (foldl (\<lambda>s i. snd (upd i d s)) s is)"
  by (induction "is" arbitrary: s) (auto intro: upd_wf)

lemma upd_cases:
  assumes "wf s"
  obtains (skip) "get s i = None \<or> (\<exists>r. get s i = Some r \<and> d r = None)" "upd i d s = (False, s)"
  | (hit) r r' v where "get s i = Some r" "d r = Some r'" "fst (upd i d s)"
      "get (snd (upd i d s)) = (get s)(i \<mapsto> r'\<lparr>obj_id := i, obj_version := v\<rparr>)"
proof (cases "get s i = None \<or> (\<exists>r. get s i = Some r \<and> d r = None)")
  case True
  from True upd_skip [OF assms True] show ?thesis by (rule skip)
next
  case False
  then obtain r r' where r: "get s i = Some r" "d r = Some r'"
    by (cases "get s i"; cases "d (the (get s i))") auto
  with upd_hit [where d = d, OF assms r] show ?thesis using hit by blast
qed

lemma upd_get_other: "wf s \<Longrightarrow> j \<noteq> i \<Longrightarrow> get (snd (upd i d s)) j = get s j"
  by (rule upd_cases [of s i d]) simp_all

lemma sweep_get_other:
  "wf s \<Longrightarrow> j \<notin> set is \<Longrightarrow> get (foldl (\<lambda>s i. snd (upd i d s)) s is) j = get s j"
  by (induction "is" arbitrary: s) (auto simp: upd_get_other upd_wf)

lemma sweep_get:
  assumes "wf s" and "distinct is" and "j \<in> set is"
  shows "case get s j of
      None \<Rightarrow> get (foldl (\<lambda>s i. snd (upd i d s)) s is) j = None
    | Some r \<Rightarrow> (case d r of
        None \<Rightarrow> get (foldl (\<lambda>s i. snd (upd i d s)) s is) j = Some r
      | Some r' \<Rightarrow> (\<exists>v. get (foldl (\<lambda>s i. snd (upd i d s)) s is) j
          = Some (r'\<lparr>obj_id := j, obj_version := v\<rparr>)))"
  using assms
proof (induction "is" arbitrary: s)
  case Nil
  then show ?case by simp
next
  case (Cons i "is")
  let ?s = "snd (upd i d s)"
  note w = upd_wf [OF Cons.prems(1), of i d]
  show ?case
  proof (cases "j = i")
    case True
    with Cons.prems(2) have "j \<notin> set is" by simp
    note keep = sweep_get_other [OF w this, of d]
    show ?thesis using Cons.prems(1)
    proof (cases rule: upd_cases [where i = i and d = d])
      case skip
      with keep \<open>j = i\<close> show ?thesis by (auto split: option.splits)
    next
      case (hit r r' v)
      with keep \<open>j = i\<close> show ?thesis by auto
    qed
  next
    case False
    with Cons.prems Cons.IH [OF w] upd_get_other [OF Cons.prems(1) False, of d]
    show ?thesis unfolding foldl_Cons by simp
  qed
qed

lemma upd_dom: "wf s \<Longrightarrow> dom (get (snd (upd i d s))) = dom (get s)"
  by (rule upd_cases [of s i d]) auto

lemma sweep_dom: "wf s \<Longrightarrow> dom (get (foldl (\<lambda>s i. snd (upd i d s)) s is)) = dom (get s)"
  by (induction "is" arbitrary: s) (simp_all add: upd_dom upd_wf)

text \<open>
  After a sweep over the objects of a snapshot that \<open>Q\<close> selects, every object satisfies what the
  delta establishes: \<open>P\<close> holds of the objects the delta changes, of those it has nothing to change,
  and of those that were not selected.
\<close>

lemma sweep_filtered:
  assumes "wf s" and "snap s = Ok xs"
    and est: "\<And>r r' v. d r = Some r' \<Longrightarrow> P (r'\<lparr>obj_id := obj_id r, obj_version := v\<rparr>)"
    and skip: "\<And>r. d r = None \<or> \<not> Q r \<Longrightarrow> P r"
    and g: "get (foldl (\<lambda>s i. snd (upd i d s)) s (map obj_id (filter Q xs))) j = Some y"
  shows "P y"
proof -
  from snap_ok [OF assms(1)] assms(2) have xs: "distinct (map obj_id xs)" "set xs = ran (get s)"
    by auto
  then have dist: "distinct (map obj_id (filter Q xs))" by (simp add: distinct_map_filter)
  show ?thesis
  proof (cases "j \<in> set (map obj_id (filter Q xs))")
    case True
    note sw = sweep_get [OF assms(1) dist True, of d]
    show ?thesis
    proof (cases "get s j")
      case None
      with sw g show ?thesis by simp
    next
      case (Some r)
      from get_id [OF assms(1) Some] have id: "obj_id r = j" by simp
      show ?thesis
      proof (cases "d r")
        case None
        with sw g Some skip show ?thesis by auto
      next
        case (Some r')
        with sw g \<open>get s j = Some r\<close> obtain v where "y = r'\<lparr>obj_id := j, obj_version := v\<rparr>" by auto
        with est [OF Some] id show ?thesis by simp
      qed
    qed
  next
    case False
    from sweep_get_other [OF assms(1) False] g have "get s j = Some y" by simp
    with xs(2) have "y \<in> set xs" by (auto simp: ran_def)
    with get_id [OF assms(1) \<open>get s j = Some y\<close>] False have "\<not> Q y" by auto
    with skip show ?thesis by blast
  qed
qed

lemma sweep_all:
  assumes "wf s" and "snap s = Ok xs"
    and "\<And>r r' v. d r = Some r' \<Longrightarrow> P (r'\<lparr>obj_id := obj_id r, obj_version := v\<rparr>)"
    and "\<And>r. d r = None \<Longrightarrow> P r"
    and "get (foldl (\<lambda>s i. snd (upd i d s)) s (map obj_id xs)) j = Some y"
  shows "P y"
  using sweep_filtered [OF assms(1,2), of d P "\<lambda>_. True" j y] assms(3-5) by simp

end

text \<open>The catalog provides the interface.\<close>

lemma catalog_insert_fst_snd:
  "catalog_insert r c = (fst (catalog_insert r c), snd (catalog_insert r c))" by simp

interpretation cat: object_store catalog_inv catalog_byId catalog_insert catalog_update
  catalog_erase catalog_snapshotAll
proof unfold_locales
  fix s :: "'b object_base_scheme catalog" and i d and r r' :: "'b object_base_scheme"
  assume wf: "catalog_inv s"
  show "obj_id r = i \<and> i \<noteq> 0" if "catalog_byId s i = Some r"
    using catalog_byId_id [OF wf that] catalog_byId_0 [OF wf] that by auto
  show "catalog_inv (snd (catalog_insert r s))"
    by (rule catalog_insert_inv [OF wf catalog_insert_fst_snd])
  show "fst (catalog_insert r s) \<and>
      catalog_byId (snd (catalog_insert r s)) = (catalog_byId s)(obj_id r \<mapsto> r)"
    if "obj_id r \<noteq> 0" "catalog_byId s (obj_id r) = None"
    using catalog_insert_byId [OF catalog_insert_fst_snd, of r s] that by auto
  show "catalog_insert r s = (False, s)" if "obj_id r = 0"
    using that by (simp add: catalog_insert_def)
  show "catalog_inv (snd (catalog_update i d s))"
    by (rule catalog_update_inv [OF wf]) (rule prod.collapse [symmetric])
  show "catalog_update i d s = (False, s)"
    if "catalog_byId s i = None \<or> (\<exists>r. catalog_byId s i = Some r \<and> d r = None)"
    using that by (auto simp: catalog_update_def catalog_byId_def split: option.splits)
  show "fst (catalog_update i d s) \<and>
      (\<exists>v. catalog_byId (snd (catalog_update i d s)) =
        (catalog_byId s)(i \<mapsto> r'\<lparr>obj_id := i, obj_version := v\<rparr>))"
    if "catalog_byId s i = Some r" "d r = Some r'"
    using catalog_update_byId [OF prod.collapse [symmetric], of i d s] that
    by simp (metis)
  show "\<exists>s'. catalog_erase i s = Ok (catalog_byId s i \<noteq> None, s') \<and> catalog_inv s' \<and>
      catalog_byId s' = (catalog_byId s)(i := None)"
    using catalog_erase_byId [OF wf, of i] catalog_erase_inv [OF wf] by blast
  show "\<exists>xs. catalog_snapshotAll s = Ok xs \<and> distinct (map obj_id xs) \<and>
      set xs = ran (catalog_byId s)"
    using catalog_snapshotAll_ok [OF wf] catalog_invD(2) [OF wf] by metis
qed

section \<open>Properties of the catalog\<close>

text \<open>
  C1: whatever requests the workers make, in whatever order, a catalog that started empty answers
  every one of them without an exception and without undefined behaviour, its two indexes stay
  consistent, and each answer and the final contents are those of a plain map from ids to records.
\<close>

theorem catalog_interleavings:
  "\<exists>bs c. catalog_run ops empty_catalog = Ok (bs, c) \<and> catalog_inv c \<and>
     store_run ops Map.empty = (bs, catalog_byId c)"
  using catalog_run_refines [OF catalog_empty_inv, of ops] by simp

text \<open>
  C2: every read of a catalog reached by any requests succeeds: a lookup by name returns an object
  of that name that is live under its id, a random pick returns a live object unless there is none,
  and the snapshot lists every live object once.
\<close>

theorem catalog_reads_safe:
  assumes "catalog_run ops empty_catalog = Ok (bs, c)"
  shows "(\<exists>x. catalog_byName c n = Ok x \<and>
      (\<forall>r. x = Some r \<longrightarrow> obj_name r = n \<and> catalog_byId c (obj_id r) = Some r)) \<and>
    (\<exists>x g'. catalog_randomPick c g = (Ok x, g') \<and> (x = None \<longleftrightarrow> catalog_byId c = Map.empty) \<and>
      (\<forall>r. x = Some r \<longrightarrow> catalog_byId c (obj_id r) = Some r)) \<and>
    (\<exists>xs. catalog_snapshotAll c = Ok xs \<and> distinct (map obj_id xs) \<and>
      set xs = ran (catalog_byId c) \<and> length xs = catalog_size c)"
proof -
  have inv: "catalog_inv c" using catalog_run_refines [OF catalog_empty_inv, of ops] assms by auto
  from catalog_snapshotAll_ok [OF inv] catalog_invD(2) [OF inv]
  have "\<exists>xs. catalog_snapshotAll c = Ok xs \<and> distinct (map obj_id xs) \<and>
      set xs = ran (catalog_byId c) \<and> length xs = catalog_size c" by metis
  with catalog_byName_ok [OF inv] catalog_randomPick_ok [OF inv] show ?thesis by blast
qed

definition sample_object :: "object_id \<Rightarrow> string \<Rightarrow> object_base" where
  "sample_object i n = \<lparr>obj_id = i, obj_version = 0, obj_name = n\<rparr>"

lemma catalog_reads_safe_witness:
  "\<exists>bs c. catalog_run [Op_insert (sample_object 1 ''a''), Op_insert (sample_object 2 ''b''), Op_erase 1]
       empty_catalog = Ok (bs, c) \<and>
     (\<exists>xs. catalog_snapshotAll c = Ok xs \<and> distinct (map obj_id xs) \<and>
       set xs = ran (catalog_byId c) \<and> length xs = catalog_size c)"
proof -
  obtain bs c where run: "catalog_run [Op_insert (sample_object 1 ''a''),
      Op_insert (sample_object 2 ''b''), Op_erase 1] empty_catalog = Ok (bs, c)"
    using catalog_run_refines [OF catalog_empty_inv] by blast
  from catalog_reads_safe [OF run] run show ?thesis by blast
qed

text \<open>
  C3: object ids are never 0 and never handed out twice, whatever else happens to the registry in
  between (resets included), as long as fewer than \<open>2 ^ 64\<close> ids were asked for.
\<close>

theorem registry_ids_never_reused:
  assumes "length (filter (\<lambda>op. op = Reg_nextId) ops) < 2 ^ 64"
  shows "\<exists>is g. registry_run ops new_registry = Ok (is, g) \<and> distinct is \<and> 0 \<notin> set is \<and>
    next_id g \<notin> set is"
proof -
  have "catalog_inv (tables (new_registry :: 'a object_base_scheme registry))"
    by (simp add: new_registry_def catalog_empty_inv)
  from registry_run_ids [OF this, of ops]
  obtain "is" and g :: "'a object_base_scheme registry"
    where g: "registry_run ops new_registry = Ok (is, g)"
      "is = map (\<lambda>k. 1 + of_nat k) [0..<length is]" "next_id g = 1 + of_nat (length is)"
      "length is < 2 ^ 64"
    using assms by (auto simp: new_registry_def)
  have "distinct is"
    by (subst g(2)) (use g(4) in \<open>auto simp: distinct_map inj_on_def intro: of_nat_word_inj\<close>)
  moreover have "next_id g \<notin> set is"
  proof
    assume "next_id g \<in> set is"
    then obtain k where k: "k < length is" "next_id g = 1 + of_nat k"
      using g(2) by (metis (no_types, lifting) atLeastLessThan_iff imageE list.set_map set_upt)
    with g(3) have "(of_nat (length is) :: 64 word) = of_nat k" by simp
    from of_nat_word_inj [OF _ _ this] k(1) g(4) show False by simp
  qed
  moreover have "0 \<notin> set is"
  proof
    assume "0 \<in> set is"
    then obtain k where k: "k < length is" "1 + (of_nat k :: 64 word) = 0"
      using g(2) by (metis (no_types, lifting) atLeastLessThan_iff imageE list.set_map set_upt)
    then have "(of_nat (Suc k) :: 64 word) = of_nat 0" by simp
    from of_nat_word_inj [OF _ _ this] k(1) g(4) show False by simp
  qed
  ultimately show ?thesis using g(1) by blast
qed

lemma registry_ids_never_reused_witness:
  "\<exists>is g. registry_run [Reg_nextId, Reg_tables (Op_insert (sample_object 1 ''a'')), Reg_reset, Reg_nextId]
     new_registry = Ok (is, g) \<and> distinct is \<and> 0 \<notin> set is \<and> next_id g \<notin> set is"
  by (rule registry_ids_never_reused) simp

text \<open>
  C4: last publish wins. After an insert or a renaming update the new name leads to the published
  record; the object that held the name before, if another one did, stays reachable by its id,
  and the object's old name no longer leads to it.
\<close>

theorem last_publish_wins:
  assumes inv: "catalog_inv c" and "catalog_byId c i = Some r" and "d r = Some r'"
    and "obj_name r' \<noteq> obj_name r"
  shows "\<exists>c' q. catalog_update i d c = (True, c') \<and>
    q = r'\<lparr>obj_id := i, obj_version := obj_version r + 1\<rparr> \<and>
    catalog_byName c' (obj_name r') = Ok (Some q) \<and>
    catalog_byName c' (obj_name r) \<noteq> Ok (Some q) \<and>
    (\<forall>j. j \<noteq> i \<longrightarrow> catalog_byId c' j = catalog_byId c j)"
proof -
  from assms(2) obtain s where s: "map_of (slots c) i = Some s" "slot_rec s = r"
    by (auto simp: catalog_byId_alt)
  obtain c' where upd: "catalog_update i d c = (True, c')"
    using s assms(3) by (simp add: catalog_update_def Let_def)
  let ?q = "r'\<lparr>obj_id := i, obj_version := obj_version r + 1\<rparr>"
  from catalog_update_byId [OF upd] assms have g: "catalog_byId c' = (catalog_byId c)(i \<mapsto> ?q)" by simp
  from upd s assms have nm: "names c' = rename_entry (names c) i (obj_name r) (obj_name r')"
    by (auto simp: catalog_update_def Let_def)
  from nm assms(4) have "names c' (obj_name r') = Some i" by (simp add: rename_entry_def)
  moreover from g have "catalog_byId c' i = Some ?q" by simp
  then have "\<exists>t. map_of (slots c') i = Some t \<and> slot_rec t = ?q"
    unfolding catalog_byId_alt by blast
  ultimately have 1: "catalog_byName c' (obj_name r') = Ok (Some ?q)"
    by (auto simp: catalog_byName_def slots_at_def)
  from catalog_byName_ok [OF catalog_update_inv [OF inv upd], of "obj_name r"] assms(4)
  have 2: "catalog_byName c' (obj_name r) \<noteq> Ok (Some ?q)" by auto
  from upd g 1 2 show ?thesis by auto
qed

lemma last_publish_wins_witness:
  "\<exists>c' q. catalog_update 1 (\<lambda>r. Some (r\<lparr>obj_name := ''b''\<rparr>))
      (snd (catalog_insert (sample_object 2 ''b'') (snd (catalog_insert (sample_object 1 ''a'') empty_catalog))))
      = (True, c') \<and> q = \<lparr>obj_id = 1, obj_version = 1, obj_name = ''b''\<rparr> \<and>
    catalog_byName c' ''b'' = Ok (Some q) \<and> catalog_byId c' 2 = Some (sample_object 2 ''b'')"
proof -
  let ?c = "snd (catalog_insert (sample_object 2 ''b'') (snd (catalog_insert (sample_object 1 ''a'') empty_catalog)))"
  have inv: "catalog_inv ?c"
    by (intro catalog_insert_inv [OF _ catalog_insert_fst_snd] catalog_empty_inv)
  have 1: "catalog_byId ?c 1 = Some (sample_object 1 ''a'')"
    "catalog_byId ?c 2 = Some (sample_object 2 ''b'')"
    by (simp_all add: catalog_insert_def empty_catalog_def catalog_byId_def sample_object_def)
  from last_publish_wins [OF inv 1(1), of "\<lambda>r. Some (r\<lparr>obj_name := ''b''\<rparr>)"] 1(2)
  show ?thesis by (auto simp: sample_object_def)
qed

end
