(* ===== verification/Txn_Buffer.thy ===== *)
theory Txn_Buffer
  imports Catalog
begin

text \<open>
  The transaction-aware access layer (core/include/metadata/context.hpp): \<open>TxnBuffer\<close>, the op-log
  of an open transaction with its overlay, and \<open>CatalogView\<close>, which reads the overlay merged over
  the catalog when a transaction is open and forwards to the catalog when none is.

  The overlay's \<open>unordered_map\<close> is an association list and its \<open>unordered_set\<close> a set; \<open>localByName\<close>
  scans the map, so which of two local records of one name it finds is as unspecified here (it
  depends on the order of the list) as it is there. \<open>rollbackTo\<close> and \<open>publishAll\<close> read the catalog
  as one state; \<open>World\<close> runs \<open>publishAll\<close> one catalog call at a time, with other workers between.
\<close>

section \<open>The buffer\<close>

datatype 'r log_op =
    Log_insert 'r
  | Log_update object_id "'r \<Rightarrow> 'r option"
  | Log_erase object_id

record 'r txn_buffer =
  op_log :: "'r log_op list"
  local_recs :: "(object_id \<times> 'r) list"
  erased_ids :: "object_id set"

definition empty_txn :: "'r txn_buffer" where
  "empty_txn = \<lparr>op_log = [], local_recs = [], erased_ids = {}\<rparr>"

definition txn_mark :: "'r txn_buffer \<Rightarrow> nat" where
  "txn_mark t = length (op_log t)"

definition txn_empty :: "'r txn_buffer \<Rightarrow> bool" where
  "txn_empty t \<longleftrightarrow> op_log t = []"

definition erasedContains :: "'r txn_buffer \<Rightarrow> object_id \<Rightarrow> bool" where
  "erasedContains t i \<longleftrightarrow> i \<in> erased_ids t"

definition localById :: "'r txn_buffer \<Rightarrow> object_id \<Rightarrow> 'r option" where
  "localById t i = map_of (local_recs t) i"

definition localContains :: "'r txn_buffer \<Rightarrow> object_id \<Rightarrow> bool" where
  "localContains t i \<longleftrightarrow> map_of (local_recs t) i \<noteq> None"

definition localByName :: "'b object_base_scheme txn_buffer \<Rightarrow> string \<Rightarrow> 'b object_base_scheme option" where
  "localByName t n = find (\<lambda>r. obj_name r = n) (map snd (local_recs t))"

definition localSorted :: "'b object_base_scheme txn_buffer \<Rightarrow> 'b object_base_scheme list" where
  "localSorted t = sort_key obj_id (map snd (local_recs t))"

definition applyInsert ::
  "'b object_base_scheme \<Rightarrow> 'b object_base_scheme txn_buffer \<Rightarrow> 'b object_base_scheme txn_buffer" where
  "applyInsert r t = t\<lparr>erased_ids := erased_ids t - {obj_id r},
     local_recs := AList.update (obj_id r) r (local_recs t)\<rparr>"

definition applyUpdate ::
  "object_id \<Rightarrow> 'b delta \<Rightarrow> 'b object_base_scheme catalog \<Rightarrow> 'b object_base_scheme txn_buffer \<Rightarrow>
   bool \<times> 'b object_base_scheme txn_buffer" where
  "applyUpdate i d g t =
     (if i \<in> erased_ids t then (False, t)
      else (case (case localById t i of Some r \<Rightarrow> Some r | None \<Rightarrow> catalog_byId g i) of
          None \<Rightarrow> (False, t)
        | Some base \<Rightarrow> (case d base of
              None \<Rightarrow> (False, t)
            | Some copy \<Rightarrow>
                (True, t\<lparr>local_recs := AList.update i (copy\<lparr>obj_id := i\<rparr>) (local_recs t)\<rparr>))))"

definition applyErase ::
  "object_id \<Rightarrow> 'b object_base_scheme catalog \<Rightarrow> 'b object_base_scheme txn_buffer \<Rightarrow>
   bool \<times> 'b object_base_scheme txn_buffer" where
  "applyErase i g t =
     (if i \<in> erased_ids t then (False, t)
      else if \<not> (localContains t i \<or> catalog_byId g i \<noteq> None) then (False, t)
      else (True, t\<lparr>local_recs := AList.delete i (local_recs t),
                    erased_ids := Set.insert i (erased_ids t)\<rparr>))"

definition txn_insert ::
  "'b object_base_scheme \<Rightarrow> 'b object_base_scheme txn_buffer \<Rightarrow> 'b object_base_scheme txn_buffer" where
  "txn_insert r t = (let t' = applyInsert r t in t'\<lparr>op_log := op_log t' @ [Log_insert r]\<rparr>)"

definition txn_update ::
  "object_id \<Rightarrow> 'b delta \<Rightarrow> 'b object_base_scheme catalog \<Rightarrow> 'b object_base_scheme txn_buffer \<Rightarrow>
   bool \<times> 'b object_base_scheme txn_buffer" where
  "txn_update i d g t = (let (b, t') = applyUpdate i d g t in
     if \<not> b then (False, t') else (True, t'\<lparr>op_log := op_log t' @ [Log_update i d]\<rparr>))"

definition txn_erase ::
  "object_id \<Rightarrow> 'b object_base_scheme catalog \<Rightarrow> 'b object_base_scheme txn_buffer \<Rightarrow>
   bool \<times> 'b object_base_scheme txn_buffer" where
  "txn_erase i g t = (let (b, t') = applyErase i g t in
     if \<not> b then (False, t') else (True, t'\<lparr>op_log := op_log t' @ [Log_erase i]\<rparr>))"

definition txn_discard :: "'r txn_buffer \<Rightarrow> 'r txn_buffer" where
  "txn_discard t = t\<lparr>op_log := [], local_recs := [], erased_ids := {}\<rparr>"

fun replay_op ::
  "'b object_base_scheme catalog \<Rightarrow> 'b object_base_scheme txn_buffer \<Rightarrow>
   'b object_base_scheme log_op \<Rightarrow> 'b object_base_scheme txn_buffer" where
  "replay_op g t (Log_insert r) = applyInsert r t"
| "replay_op g t (Log_update i d) = snd (applyUpdate i d g t)"
| "replay_op g t (Log_erase i) = snd (applyErase i g t)"

definition rebuildOverlay ::
  "'b object_base_scheme catalog \<Rightarrow> 'b object_base_scheme txn_buffer \<Rightarrow> 'b object_base_scheme txn_buffer" where
  "rebuildOverlay g t = foldl (replay_op g) (t\<lparr>local_recs := [], erased_ids := {}\<rparr>) (op_log t)"

definition txn_rollbackTo ::
  "nat \<Rightarrow> 'b object_base_scheme catalog \<Rightarrow> 'b object_base_scheme txn_buffer \<Rightarrow>
   'b object_base_scheme txn_buffer" where
  "txn_rollbackTo m g t = rebuildOverlay g (t\<lparr>op_log := take (min m (length (op_log t))) (op_log t)\<rparr>)"

text \<open>The call a log entry makes on the catalog when the transaction commits.\<close>

fun publish_call :: "'r log_op \<Rightarrow> 'r catalog_op" where
  "publish_call (Log_insert r) = Op_insert r"
| "publish_call (Log_update i d) = Op_update i d"
| "publish_call (Log_erase i) = Op_erase i"

definition txn_publishAll ::
  "'b object_base_scheme txn_buffer \<Rightarrow> 'b object_base_scheme catalog \<Rightarrow>
   ('b object_base_scheme txn_buffer \<times> 'b object_base_scheme catalog) result" where
  "txn_publishAll t g = res_bind (catalog_run (map publish_call (op_log t)) g) (\<lambda>(bs, g').
     Ok (txn_discard t, g'))"

section \<open>The view\<close>

text \<open>The catalog and the optional buffer a \<open>CatalogView\<close> points at.\<close>

type_synonym 'r view = "'r catalog \<times> 'r txn_buffer option"

fun view_byId :: "'b object_base_scheme view \<Rightarrow> object_id \<Rightarrow> 'b object_base_scheme option" where
  "view_byId (c, None) i = catalog_byId c i"
| "view_byId (c, Some t) i =
     (if erasedContains t i then None
      else (case localById t i of Some r \<Rightarrow> Some r | None \<Rightarrow> catalog_byId c i))"

fun view_byName :: "'b object_base_scheme view \<Rightarrow> string \<Rightarrow> 'b object_base_scheme option result" where
  "view_byName (c, None) n = catalog_byName c n"
| "view_byName (c, Some t) n = (case localByName t n of
     Some r \<Rightarrow> Ok (Some r)
   | None \<Rightarrow> res_bind (catalog_byName c n) (\<lambda>rec. case rec of
         None \<Rightarrow> Ok None
       | Some r \<Rightarrow> if erasedContains t (obj_id r) \<or> localContains t (obj_id r) then Ok None
                    else Ok (Some r)))"

fun view_snapshotAll :: "'b object_base_scheme view \<Rightarrow> 'b object_base_scheme list result" where
  "view_snapshotAll (c, None) = catalog_snapshotAll c"
| "view_snapshotAll (c, Some t) = res_bind (catalog_snapshotAll c) (\<lambda>xs.
     Ok (filter (\<lambda>r. \<not> erasedContains t (obj_id r) \<and> \<not> localContains t (obj_id r)) xs @
         localSorted t))"

fun view_randomPick :: "'b object_base_scheme view \<Rightarrow> (rng, 'b object_base_scheme option) prog" where
  "view_randomPick (c, None) = catalog_randomPick c"
| "view_randomPick (c, Some t) = bind (lift_result (view_snapshotAll (c, Some t))) (\<lambda>all.
     if all = [] then ret None
     else bind (random_number 0 (length all - 1)) (\<lambda>idx. ret (Some (all ! idx))))"

fun view_size :: "'b object_base_scheme view \<Rightarrow> nat result" where
  "view_size (c, None) = Ok (catalog_size c)"
| "view_size (c, Some t) = res_bind (view_snapshotAll (c, Some t)) (\<lambda>all. Ok (length all))"

fun view_insert ::
  "'b object_base_scheme \<Rightarrow> 'b object_base_scheme view \<Rightarrow> bool \<times> 'b object_base_scheme view" where
  "view_insert obj (c, None) = (let (b, c') = catalog_insert obj c in (b, (c', None)))"
| "view_insert obj (c, Some t) =
     (if obj_id obj = 0 then (False, (c, Some t)) else (True, (c, Some (txn_insert obj t))))"

fun view_update ::
  "object_id \<Rightarrow> 'b delta \<Rightarrow> 'b object_base_scheme view \<Rightarrow> bool \<times> 'b object_base_scheme view" where
  "view_update i d (c, None) = (let (b, c') = catalog_update i d c in (b, (c', None)))"
| "view_update i d (c, Some t) = (let (b, t') = txn_update i d c t in (b, (c, Some t')))"

fun view_erase ::
  "object_id \<Rightarrow> 'b object_base_scheme view \<Rightarrow> (bool \<times> 'b object_base_scheme view) result" where
  "view_erase i (c, None) = res_bind (catalog_erase i c) (\<lambda>(b, c'). Ok (b, (c', None)))"
| "view_erase i (c, Some t) = Ok (let (b, t') = txn_erase i c t in (b, (c, Some t')))"

section \<open>Well-formed buffers\<close>

text \<open>
  Local records are stored under their own, non-zero id, and no id is both local and erased. No
  other worker can break this: it does not mention the catalog.
\<close>

definition txn_wf :: "'b object_base_scheme txn_buffer \<Rightarrow> bool" where
  "txn_wf t \<longleftrightarrow> distinct (map fst (local_recs t)) \<and>
     (\<forall>i r. map_of (local_recs t) i = Some r \<longrightarrow> obj_id r = i \<and> i \<noteq> 0 \<and> i \<notin> erased_ids t)"

fun view_wf :: "'b object_base_scheme view \<Rightarrow> bool" where
  "view_wf (c, None) = catalog_inv c"
| "view_wf (c, Some t) = (catalog_inv c \<and> txn_wf t)"

lemmas overlay_defs = erasedContains_def localById_def localContains_def

lemma txn_wf_empty [simp]: "txn_wf empty_txn"
  by (simp add: txn_wf_def empty_txn_def)

lemma txn_wf_discard [simp]: "txn_wf (txn_discard t)"
  by (simp add: txn_wf_def txn_discard_def)

lemma txn_wf_log [simp]: "txn_wf (t\<lparr>op_log := l\<rparr>) = txn_wf t"
  by (simp add: txn_wf_def)

lemma txn_wf_applyInsert: "txn_wf t \<Longrightarrow> obj_id r \<noteq> 0 \<Longrightarrow> txn_wf (applyInsert r t)"
  by (auto simp: txn_wf_def applyInsert_def distinct_update)

lemma applyUpdate_cases:
  obtains (skip) "view_byId (g, Some t) i = None \<or> (\<exists>r. view_byId (g, Some t) i = Some r \<and> d r = None)"
      "applyUpdate i d g t = (False, t)"
  | (hit) base copy where "view_byId (g, Some t) i = Some base" "d base = Some copy"
      "i \<notin> erased_ids t"
      "applyUpdate i d g t =
        (True, t\<lparr>local_recs := AList.update i (copy\<lparr>obj_id := i\<rparr>) (local_recs t)\<rparr>)"
proof (cases "view_byId (g, Some t) i")
  case None
  then have "applyUpdate i d g t = (False, t)"
    by (auto simp: applyUpdate_def overlay_defs split: if_splits option.splits)
  with None skip show ?thesis by blast
next
  case (Some base)
  then have e: "i \<notin> erased_ids t" by (auto simp: overlay_defs split: if_splits)
  from Some have b: "(case localById t i of Some r \<Rightarrow> Some r | None \<Rightarrow> catalog_byId g i) = Some base"
    by (auto simp: overlay_defs split: if_splits option.splits)
  show ?thesis
  proof (cases "d base")
    case None
    with e b have "applyUpdate i d g t = (False, t)" by (simp add: applyUpdate_def)
    with None Some skip show ?thesis by blast
  next
    case (Some copy)
    with e b have "applyUpdate i d g t =
        (True, t\<lparr>local_recs := AList.update i (copy\<lparr>obj_id := i\<rparr>) (local_recs t)\<rparr>)"
      by (simp add: applyUpdate_def)
    with \<open>view_byId (g, Some t) i = Some base\<close> Some e hit show ?thesis by blast
  qed
qed

lemma view_byId_None [simp]: "view_byId (c, None) = catalog_byId c"
  by (simp add: fun_eq_iff)

lemma view_byId_id:
  "view_wf v \<Longrightarrow> view_byId v i = Some r \<Longrightarrow> obj_id r = i \<and> i \<noteq> 0"
  using catalog_byId_id [of "fst v" i r] catalog_byId_0 [of "fst v"]
  by (cases v rule: view_wf.cases) (auto simp: txn_wf_def overlay_defs split: if_splits option.splits)

lemma txn_wf_applyUpdate:
  assumes "txn_wf t" and "catalog_inv g"
  shows "txn_wf (snd (applyUpdate i d g t))"
proof (cases rule: applyUpdate_cases [of g t i d])
  case skip
  with assms(1) show ?thesis by simp
next
  case (hit base copy)
  have "i \<noteq> 0" using view_byId_id [of "(g, Some t)" i base] hit assms by simp
  with hit assms(1) show ?thesis by (auto simp: txn_wf_def distinct_update)
qed

lemma txn_wf_applyErase: "txn_wf t \<Longrightarrow> txn_wf (snd (applyErase i g t))"
  by (auto simp: txn_wf_def applyErase_def distinct_delete simp del: map_of_eq_Some_iff)

lemma txn_wf_ops:
  "txn_wf t \<Longrightarrow> obj_id r \<noteq> 0 \<Longrightarrow> txn_wf (txn_insert r t)"
  "txn_wf t \<Longrightarrow> catalog_inv g \<Longrightarrow> txn_wf (snd (txn_update i d g t))"
  "txn_wf t \<Longrightarrow> txn_wf (snd (txn_erase i g t))"
  using txn_wf_applyInsert [of t r] txn_wf_applyUpdate [of t g i d] txn_wf_applyErase [of t i g]
  by (auto simp: txn_insert_def txn_update_def txn_erase_def Let_def split: prod.splits)

subsection \<open>The view is an object store\<close>

lemma view_byId_buffered_insert:
  "obj_id r \<noteq> 0 \<Longrightarrow> view_byId (c, Some (txn_insert r t)) = (view_byId (c, Some t))(obj_id r \<mapsto> r)"
  by (auto simp: fun_eq_iff txn_insert_def applyInsert_def overlay_defs Let_def)

lemma view_byId_log [simp]: "view_byId (c, Some (t\<lparr>op_log := l\<rparr>)) = view_byId (c, Some t)"
  by (simp add: fun_eq_iff overlay_defs)

lemma view_byId_set_local:
  "i \<notin> erased_ids t \<Longrightarrow>
   view_byId (c, Some (t\<lparr>local_recs := AList.update i r (local_recs t)\<rparr>)) = (view_byId (c, Some t))(i \<mapsto> r)"
  by (auto simp: fun_eq_iff overlay_defs)

lemma view_byId_buffered_update:
  "fst (txn_update i d c t) = (\<exists>r r'. view_byId (c, Some t) i = Some r \<and> d r = Some r')"
  "view_byId (c, Some (snd (txn_update i d c t))) =
     (case view_byId (c, Some t) i of None \<Rightarrow> view_byId (c, Some t)
      | Some r \<Rightarrow> (case d r of None \<Rightarrow> view_byId (c, Some t)
          | Some r' \<Rightarrow> (view_byId (c, Some t))(i \<mapsto> r'\<lparr>obj_id := i\<rparr>)))"
  by (cases rule: applyUpdate_cases [of c t i d];
      auto simp: txn_update_def Let_def view_byId_set_local simp del: view_byId.simps)+

lemma view_byId_buffered_erase:
  "fst (txn_erase i c t) = (view_byId (c, Some t) i \<noteq> None)"
  "view_byId (c, Some (snd (txn_erase i c t))) = (view_byId (c, Some t))(i := None)"
  by (auto simp: txn_erase_def applyErase_def Let_def overlay_defs fun_eq_iff
      split: option.splits)

lemma view_snapshotAll_ok:
  assumes "view_wf v"
  shows "\<exists>xs. view_snapshotAll v = Ok xs \<and> distinct (map obj_id xs) \<and> set xs = ran (view_byId v)"
proof (cases v rule: view_wf.cases)
  case (1 c)
  with assms cat.snap_ok [of c] show ?thesis by simp
next
  case (2 c t)
  with assms have inv: "catalog_inv c" and wf: "txn_wf t" by simp_all
  from cat.snap_ok [OF inv] obtain xs
    where xs: "catalog_snapshotAll c = Ok xs" "distinct (map obj_id xs)" "set xs = ran (catalog_byId c)"
    by blast
  have l: "map obj_id (map snd (local_recs t)) = map fst (local_recs t)"
    using wf by (auto simp: txn_wf_def)
  have lset: "set (localSorted t) = ran (map_of (local_recs t))"
    using wf ran_distinct [of "local_recs t"] by (simp add: localSorted_def txn_wf_def)
  have lids: "distinct (map obj_id (localSorted t))"
    "obj_id ` set (localSorted t) = dom (map_of (local_recs t))"
  proof -
    have "mset (map obj_id (localSorted t)) = mset (map obj_id (map snd (local_recs t)))"
      by (simp only: localSorted_def mset_map mset_sort)
    then have "mset (map obj_id (localSorted t)) = mset (map fst (local_recs t))"
      unfolding l .
    then show "distinct (map obj_id (localSorted t))"
      using wf unfolding txn_wf_def by (metis mset_eq_imp_distinct_iff)
    have "obj_id ` set (localSorted t) = set (map obj_id (map snd (local_recs t)))"
      by (simp only: localSorted_def set_map set_sort)
    then show "obj_id ` set (localSorted t) = dom (map_of (local_recs t))"
      unfolding l by (simp add: dom_map_of_conv_image_fst)
  qed
  let ?f = "filter (\<lambda>r. \<not> erasedContains t (obj_id r) \<and> \<not> localContains t (obj_id r)) xs"
  have "set (?f @ localSorted t) = ran (view_byId v)"
  proof -
    have "r \<in> set ?f \<longleftrightarrow> (\<exists>i. catalog_byId c i = Some r \<and> i \<notin> erased_ids t \<and> map_of (local_recs t) i = None)" for r
      using xs(3) catalog_byId_id [OF inv] by (auto simp: ran_def overlay_defs)
    moreover have "r \<in> set (localSorted t) \<longleftrightarrow> (\<exists>i. map_of (local_recs t) i = Some r \<and> i \<notin> erased_ids t)" for r
      using lset wf by (auto simp: ran_def txn_wf_def)
    moreover have "r \<in> ran (view_byId v) \<longleftrightarrow>
        (\<exists>i. catalog_byId c i = Some r \<and> i \<notin> erased_ids t \<and> map_of (local_recs t) i = None) \<or>
        (\<exists>i. map_of (local_recs t) i = Some r \<and> i \<notin> erased_ids t)" for r
    proof -
      have "view_byId v i = Some r \<longleftrightarrow> i \<notin> erased_ids t \<and> (map_of (local_recs t) i = Some r \<or>
          map_of (local_recs t) i = None \<and> catalog_byId c i = Some r)" for i
        by (simp add: 2 overlay_defs split: option.splits)
      then show ?thesis by (auto simp: ran_def)
    qed
    ultimately show ?thesis by auto
  qed
  moreover have "distinct (map obj_id (?f @ localSorted t))"
    using xs(2) lids by (auto simp: distinct_map_filter overlay_defs)
  ultimately show ?thesis using 2 xs(1) by simp
qed

interpretation view: object_store view_wf view_byId view_insert view_update view_erase view_snapshotAll
proof unfold_locales
  fix s :: "'b object_base_scheme view" and i d and r r' :: "'b object_base_scheme"
  assume wf: "view_wf s"
  show "obj_id r = i \<and> i \<noteq> 0" if "view_byId s i = Some r"
    using view_byId_id [OF wf that] .
  show "view_wf (snd (view_insert r s))"
    using wf cat.ins_wf [of "fst s" r] txn_wf_ops(1)
    by (cases s rule: view_wf.cases) (auto split: prod.splits)
  show "fst (view_insert r s) \<and> view_byId (snd (view_insert r s)) = (view_byId s)(obj_id r \<mapsto> r)"
    if "obj_id r \<noteq> 0" "view_byId s (obj_id r) = None"
  proof (cases s rule: view_wf.cases)
    case (1 c)
    with wf that cat.ins_fresh [of c r] show ?thesis by (auto simp: fun_eq_iff split: prod.splits)
  next
    case (2 c t)
    with that view_byId_buffered_insert [of r c t] show ?thesis by simp
  qed
  show "view_insert r s = (False, s)" if "obj_id r = 0"
    using wf cat.ins_zero [of "fst s" r] that by (cases s rule: view_wf.cases) auto
  show "view_wf (snd (view_update i d s))"
    using wf cat.upd_wf [of "fst s" i d] txn_wf_ops(2) [of "the (snd s)" "fst s" i d]
    by (cases s rule: view_wf.cases) (auto split: prod.splits)
  show "view_update i d s = (False, s)"
    if "view_byId s i = None \<or> (\<exists>r. view_byId s i = Some r \<and> d r = None)"
  proof (cases s rule: view_wf.cases)
    case (1 c)
    with wf that cat.upd_skip [of c i d] show ?thesis by simp
  next
    case (2 c t)
    with that show ?thesis
      by (cases rule: applyUpdate_cases [of c t i d]) (auto simp: txn_update_def simp del: view_byId.simps)
  qed
  show "fst (view_update i d s) \<and>
      (\<exists>v. view_byId (snd (view_update i d s)) = (view_byId s)(i \<mapsto> r'\<lparr>obj_id := i, obj_version := v\<rparr>))"
    if "view_byId s i = Some r" "d r = Some r'"
  proof (cases s rule: view_wf.cases)
    case (1 c)
    with wf that cat.upd_hit [of c i r d r'] show ?thesis by (auto simp: fun_eq_iff split: prod.splits)
  next
    case (2 c t)
    have "r'\<lparr>obj_id := i\<rparr> = r'\<lparr>obj_id := i, obj_version := obj_version r'\<rparr>" by simp
    with 2 that view_byId_buffered_update [where i = i and d = d and c = c and t = t] show ?thesis
      by (auto simp del: view_byId.simps split: prod.splits intro!: exI [of _ "obj_version r'"])
  qed
  show "\<exists>s'. view_erase i s = Ok (view_byId s i \<noteq> None, s') \<and> view_wf s' \<and>
      view_byId s' = (view_byId s)(i := None)"
  proof (cases s rule: view_wf.cases)
    case (1 c)
    with wf cat.del_ok [of c i] show ?thesis by (auto simp: fun_eq_iff)
  next
    case (2 c t)
    with wf view_byId_buffered_erase [where i = i and c = c and t = t] txn_wf_ops(3) [of t i c] show ?thesis
      by (auto simp del: view_byId.simps split: prod.splits)
  qed
  show "\<exists>xs. view_snapshotAll s = Ok xs \<and> distinct (map obj_id xs) \<and> set xs = ran (view_byId s)"
    by (rule view_snapshotAll_ok [OF wf])
qed

section \<open>Savepoints\<close>

text \<open>
  What a worker does to its buffer while its transaction is open: the calls of the view, and
  \<open>ROLLBACK TO SAVEPOINT\<close> with a mark taken earlier.
\<close>

datatype 'r buffered_op = B_call "'r log_op" | B_rollbackTo nat

fun buffered_step ::
  "'b object_base_scheme catalog \<Rightarrow> 'b object_base_scheme txn_buffer \<Rightarrow>
   'b object_base_scheme buffered_op \<Rightarrow> 'b object_base_scheme txn_buffer" where
  "buffered_step g t (B_call (Log_insert r)) = txn_insert r t"
| "buffered_step g t (B_call (Log_update i d)) = snd (txn_update i d g t)"
| "buffered_step g t (B_call (Log_erase i)) = snd (txn_erase i g t)"
| "buffered_step g t (B_rollbackTo m) = txn_rollbackTo m g t"

definition buffered_run where
  "buffered_run g t ops = foldl (buffered_step g) t ops"

text \<open>The overlay a log produces, and the buffers whose overlay is the one of their log.\<close>

definition overlay ::
  "'b object_base_scheme catalog \<Rightarrow> 'b object_base_scheme log_op list \<Rightarrow> 'b object_base_scheme txn_buffer" where
  "overlay g l = foldl (replay_op g) empty_txn l"

definition synced :: "'b object_base_scheme catalog \<Rightarrow> 'b object_base_scheme txn_buffer \<Rightarrow> bool" where
  "synced g t \<longleftrightarrow> t = (overlay g (op_log t))\<lparr>op_log := op_log t\<rparr>"

lemma replay_op_log: "replay_op g (t\<lparr>op_log := l\<rparr>) op = (replay_op g t op)\<lparr>op_log := l\<rparr>"
  by (cases op) (auto simp: applyInsert_def applyUpdate_def applyErase_def overlay_defs
      split: option.splits)

lemma foldl_replay_log:
  "foldl (replay_op g) (t\<lparr>op_log := l\<rparr>) ops = (foldl (replay_op g) t ops)\<lparr>op_log := l\<rparr>"
  by (induction ops arbitrary: t) (simp_all add: replay_op_log)

lemma rebuildOverlay_eq: "rebuildOverlay g t = (overlay g (op_log t))\<lparr>op_log := op_log t\<rparr>"
proof -
  have "t\<lparr>local_recs := [], erased_ids := {}\<rparr> = empty_txn\<lparr>op_log := op_log t\<rparr>"
    by (simp add: empty_txn_def)
  then show ?thesis by (simp add: rebuildOverlay_def overlay_def foldl_replay_log)
qed

lemma overlay_snoc: "overlay g (l @ [op]) = replay_op g (overlay g l) op"
  by (simp add: overlay_def)

lemma txn_rollbackTo_eq:
  "txn_rollbackTo m g t = (overlay g (take m (op_log t)))\<lparr>op_log := take m (op_log t)\<rparr>"
  by (simp add: txn_rollbackTo_def rebuildOverlay_eq min_def)

lemma synced_empty: "synced g empty_txn"
  by (simp add: synced_def overlay_def empty_txn_def)

lemma synced_snoc: "synced g t \<Longrightarrow> synced g ((replay_op g t op)\<lparr>op_log := op_log t @ [op]\<rparr>)"
proof -
  assume "synced g t"
  then have "replay_op g t op = (replay_op g (overlay g (op_log t)) op)\<lparr>op_log := op_log t\<rparr>"
    unfolding synced_def by (metis replay_op_log)
  then show ?thesis by (simp add: synced_def overlay_snoc)
qed

text \<open>Each buffered call either leaves the buffer as it was or replays as one more log entry.\<close>

lemma buffered_call_cases:
  obtains (skipped) "buffered_step g t (B_call op) = t"
  | (logged) "buffered_step g t (B_call op) = (replay_op g t op)\<lparr>op_log := op_log t @ [op]\<rparr>"
proof (cases op)
  case (Log_insert r)
  with logged show ?thesis by (simp add: txn_insert_def applyInsert_def Let_def)
next
  case (Log_update i d)
  show ?thesis
    by (cases rule: applyUpdate_cases [of g t i d])
      (use Log_update skipped logged in \<open>simp_all add: txn_update_def\<close>)
next
  case (Log_erase i)
  show ?thesis
    by (cases "fst (applyErase i g t)")
      (use Log_erase skipped logged in \<open>simp_all add: txn_erase_def applyErase_def Let_def split: if_splits\<close>)
qed

lemma buffered_run_synced:
  assumes "synced g t"
  shows "synced g (buffered_run g t ops) \<and>
    ((\<forall>m. B_rollbackTo m \<in> set ops \<longrightarrow> n \<le> m) \<and> n \<le> length (op_log t) \<longrightarrow>
      n \<le> length (op_log (buffered_run g t ops)) \<and>
      take n (op_log (buffered_run g t ops)) = take n (op_log t))"
  using assms
proof (induction ops arbitrary: t)
  case Nil
  then show ?case by (simp add: buffered_run_def)
next
  case (Cons op ops)
  have step: "synced g (buffered_step g t op) \<and>
    ((\<forall>m. op = B_rollbackTo m \<longrightarrow> n \<le> m) \<and> n \<le> length (op_log t) \<longrightarrow>
      n \<le> length (op_log (buffered_step g t op)) \<and>
      take n (op_log (buffered_step g t op)) = take n (op_log t))"
  proof (cases op)
    case (B_call c)
    show ?thesis
      by (cases rule: buffered_call_cases [of g t c])
        (use B_call Cons.prems synced_snoc [OF Cons.prems, of c] in simp_all)
  next
    case (B_rollbackTo m)
    then show ?thesis
      by (simp add: txn_rollbackTo_eq synced_def min_def)
  qed
  from Cons.IH [of "buffered_step g t op"] step show ?case
    by (simp add: buffered_run_def)
qed

section \<open>Commit\<close>

text \<open>Records up to the version, which the overlay does not count.\<close>

definition unversioned :: "'b object_base_scheme \<Rightarrow> 'b object_base_scheme" where
  "unversioned r = r\<lparr>obj_version := 0\<rparr>"

definition same_store ::
  "(object_id \<rightharpoonup> 'b object_base_scheme) \<Rightarrow> (object_id \<rightharpoonup> 'b object_base_scheme) \<Rightarrow> bool" where
  "same_store m n \<longleftrightarrow> (\<forall>i. map_option unversioned (m i) = map_option unversioned (n i))"

definition version_blind :: "'b delta \<Rightarrow> bool" where
  "version_blind d \<longleftrightarrow>
     (\<forall>r s. unversioned r = unversioned s \<longrightarrow> map_option unversioned (d r) = map_option unversioned (d s))"

text \<open>
  A log fit for commit: its inserts use ids that were unknown when they were made (as \<open>nextId\<close>
  guarantees) and its deltas do not look at the version.
\<close>

fun log_ok ::
  "'b object_base_scheme catalog \<Rightarrow> 'b object_base_scheme txn_buffer \<Rightarrow>
   'b object_base_scheme log_op list \<Rightarrow> bool" where
  "log_ok g t [] = True"
| "log_ok g t (Log_insert r # l) =
     (obj_id r \<noteq> 0 \<and> view_byId (g, Some t) (obj_id r) = None \<and> log_ok g (applyInsert r t) l)"
| "log_ok g t (Log_update i d # l) = (version_blind d \<and> log_ok g (snd (applyUpdate i d g t)) l)"
| "log_ok g t (Log_erase i # l) = log_ok g (snd (applyErase i g t)) l"

lemma same_store_refl [simp]: "same_store m m"
  by (simp add: same_store_def)

lemma same_store_None: "same_store m n \<Longrightarrow> (m i = None) = (n i = None)"
  by (auto simp: same_store_def dest!: spec [of _ i])

lemma same_store_upd:
  "same_store m n \<Longrightarrow> unversioned r = unversioned s \<Longrightarrow> same_store (m(i \<mapsto> r)) (n(i \<mapsto> s))"
  by (simp add: same_store_def)

lemma same_store_Some:
  "same_store m n \<Longrightarrow> m i = Some r \<Longrightarrow> \<exists>s. n i = Some s \<and> unversioned r = unversioned s"
  by (cases "n i") (auto simp: same_store_def dest!: spec [of _ i])

lemma unversioned_relabel:
  "unversioned r = unversioned s \<Longrightarrow>
   unversioned (r\<lparr>obj_id := i\<rparr>) = unversioned (s\<lparr>obj_id := i, obj_version := v\<rparr>)"
  by (cases r; cases s) (simp add: unversioned_def)

lemma replay_publish_step:
  assumes "same_store (view_byId (g, Some t)) m" and "log_ok g t (op # l)"
  shows "same_store (view_byId (g, Some (replay_op g t op))) (snd (store_apply (publish_call op) m))
    \<and> log_ok g (replay_op g t op) l"
proof (cases op)
  case (Log_insert r)
  with assms have new: "obj_id r \<noteq> 0" "view_byId (g, Some t) (obj_id r) = None"
    "log_ok g (applyInsert r t) l" by auto
  then have "m (obj_id r) = None" using same_store_None [OF assms(1)] by metis
  moreover have "view_byId (g, Some (applyInsert r t)) = (view_byId (g, Some t))(obj_id r \<mapsto> r)"
    by (auto simp: fun_eq_iff applyInsert_def overlay_defs)
  ultimately show ?thesis using Log_insert new same_store_upd [OF assms(1) refl]
    by (simp del: view_byId.simps)
next
  case (Log_update i d)
  with assms have d: "version_blind d" "log_ok g (snd (applyUpdate i d g t)) l" by auto
  show ?thesis
  proof (cases rule: applyUpdate_cases [of g t i d])
    case skip
    have "store_apply (Op_update i d) m = (False, m)"
    proof (cases "view_byId (g, Some t) i")
      case None
      with same_store_None [OF assms(1), of i] show ?thesis by (simp del: view_byId.simps)
    next
      case (Some r)
      with same_store_Some [OF assms(1) this] skip obtain s where
        s: "m i = Some s" "unversioned r = unversioned s" "d r = None"
        by (auto simp del: view_byId.simps)
      with d(1) have "d s = None" unfolding version_blind_def by (metis option.map_disc_iff)
      with s show ?thesis by simp
    qed
    with skip Log_update d(2) assms(1) show ?thesis by (simp del: view_byId.simps store_apply.simps)
  next
    case (hit base copy)
    from same_store_Some [OF assms(1) hit(1)] obtain s
      where s: "m i = Some s" "unversioned base = unversioned s" by blast
    with d(1) hit(2) obtain s' where s': "d s = Some s'" "unversioned copy = unversioned s'"
      unfolding version_blind_def by (metis option.map_sel option.sel map_option_eq_Some)
    from hit(3) have "view_byId (g, Some (replay_op g t op)) = (view_byId (g, Some t))(i \<mapsto> copy\<lparr>obj_id := i\<rparr>)"
      by (simp add: Log_update hit(4) view_byId_set_local del: view_byId.simps)
    with Log_update s s' d(2) same_store_upd [OF assms(1) unversioned_relabel [OF s'(2)]]
    show ?thesis by (simp del: view_byId.simps)
  qed
next
  case (Log_erase i)
  have "view_byId (g, Some (snd (applyErase i g t))) = (view_byId (g, Some t))(i := None)"
    by (auto simp: applyErase_def overlay_defs fun_eq_iff split: option.splits)
  with Log_erase assms show ?thesis
    by (simp add: same_store_def del: view_byId.simps)
qed

lemma replay_publish_run:
  "same_store (view_byId (g, Some t)) m \<Longrightarrow> log_ok g t l \<Longrightarrow>
   same_store (view_byId (g, Some (foldl (replay_op g) t l))) (snd (store_run (map publish_call l) m))"
proof (induction l arbitrary: t m)
  case Nil
  then show ?case by simp
next
  case (Cons op l)
  from replay_publish_step [OF Cons.prems]
  have "same_store (view_byId (g, Some (foldl (replay_op g) (replay_op g t op) l)))
      (snd (store_run (map publish_call l) (snd (store_apply (publish_call op) m))))"
    using Cons.IH by blast
  then show ?case
    by (simp add: Let_def split_beta del: view_byId.simps store_apply.simps)
qed

lemma view_byId_empty_txn: "view_byId (g, Some empty_txn) = catalog_byId g"
  by (simp add: fun_eq_iff overlay_defs empty_txn_def)

section \<open>Properties of the transaction layer\<close>





end
