(* ===== verification/Table_Model.thy ===== *)
theory Table_Model
  imports Txn_Buffer
begin

text \<open>
  The metadata records (core/include/metadata/table.hpp) and their operations
  (core/src/metadata/table.cpp): columns, indexes, partitionings, tables; the references between
  tables; \<open>normalize\<close>, the id-independent view used to validate metadata against a rediscovered
  schema; and the debug dumps.

  \<open>std::string\<close>'s order is the lexicographic order of the byte values, here the list order over
  characters. Sorting is not stable in the source; where keys are equal the model keeps one of
  the orders the source may produce, and the theorems assume distinct keys.
\<close>

datatype column_type = CT_INT | CT_CHAR | CT_VARCHAR | CT_REAL | CT_BOOL | CT_BYTEA | CT_TEXT

datatype generated = notGenerated | stored | virt

record column =
  col_name :: string
  col_type :: column_type
  col_length :: nat
  default_value :: string
  col_generated :: generated
  nullable :: bool
  primary_key :: bool
  partition_key :: bool
  foreign_key_references :: object_id
  auto_increment :: bool

definition default_column :: column where
  "default_column = \<lparr>col_name = [], col_type = CT_INT, col_length = 0, default_value = [],
     col_generated = notGenerated, nullable = True, primary_key = False, partition_key = False,
     foreign_key_references = 0, auto_increment = False\<rparr>"

datatype index_ordering = IO_default | IO_asc | IO_desc

record index_column =
  ic_name :: string
  ic_ordering :: index_ordering

record index =
  idx_name :: string
  idx_unique :: bool
  idx_fields :: "index_column list"

record range_partition =
  rangebase :: nat

record range_partitioning =
  rangeSize :: nat
  ranges :: "range_partition list"

record table = object_base +
  engine :: string
  tablespace :: string
  partitioning :: "range_partitioning option"
  columns :: "column list"
  indexes :: "index list"

type_synonym table_registry = "table registry"
type_synonym table_catalog = "table catalog"

definition default_table :: table where
  "default_table = \<lparr>obj_id = 0, obj_version = 0, obj_name = [], engine = [], tablespace = [],
     partitioning = None, columns = [], indexes = []\<rparr>"

section \<open>References\<close>

definition hasReferenceTo :: "table \<Rightarrow> object_id \<Rightarrow> bool" where
  "hasReferenceTo t target = list_ex (\<lambda>c. foreign_key_references c = target) (columns t)"

fun drop_references :: "object_id \<Rightarrow> column list \<Rightarrow> bool \<times> column list" where
  "drop_references target [] = (False, [])"
| "drop_references target (c # cs) = (let (changed, cs') = drop_references target cs in
     if foreign_key_references c = target
     then (True, c\<lparr>foreign_key_references := 0\<rparr> # cs') else (changed, c # cs'))"

definition removeReferencesTo :: "object_id \<Rightarrow> table \<Rightarrow> bool \<times> table" where
  "removeReferencesTo target t =
     (let (changed, cs) = drop_references target (columns t) in (changed, t\<lparr>columns := cs\<rparr>))"

text \<open>The delta \<open>removeReferencesTo\<close> is when it is passed to \<open>update\<close>.\<close>

definition removeReferences_delta :: "object_id \<Rightarrow> table \<Rightarrow> table option" where
  "removeReferences_delta target t =
     (let (changed, t') = removeReferencesTo target t in if changed then Some t' else None)"

section \<open>Normalized tables\<close>

record normalized_column =
  nc_column :: column
  foreign_key_target :: string

record normalized_table =
  nt_name :: string
  nt_engine :: string
  nt_tablespace :: string
  nt_partitioning :: "range_partitioning option"
  nt_columns :: "normalized_column list"
  nt_indexes :: "index list"

definition resolveTargetName :: "table_registry \<Rightarrow> object_id \<Rightarrow> string" where
  "resolveTargetName reg ref =
     (if ref = 0 then []
      else (case catalog_byId (tables reg) ref of None \<Rightarrow> ''#dangling'' | Some t \<Rightarrow> obj_name t))"

definition normalize_column :: "table_registry \<Rightarrow> column \<Rightarrow> normalized_column" where
  "normalize_column reg c = \<lparr>nc_column = c\<lparr>foreign_key_references := 0\<rparr>,
     foreign_key_target = resolveTargetName reg (foreign_key_references c)\<rparr>"

definition normalize_table :: "table_registry \<Rightarrow> table \<Rightarrow> normalized_table" where
  "normalize_table reg t = \<lparr>nt_name = obj_name t, nt_engine = engine t, nt_tablespace = tablespace t,
     nt_partitioning = map_option (\<lambda>p. p\<lparr>ranges := sort_key rangebase (ranges p)\<rparr>) (partitioning t),
     nt_columns = sort_key (\<lambda>n. col_name (nc_column n)) (map (normalize_column reg) (columns t)),
     nt_indexes = sort_key idx_name (indexes t)\<rparr>"

definition normalize :: "table_registry \<Rightarrow> normalized_table list result" where
  "normalize reg = res_bind (catalog_snapshotAll (tables reg)) (\<lambda>ts.
     Ok (sort_key nt_name (map (normalize_table reg) ts)))"

section \<open>Debug dumps\<close>

fun column_type_name :: "column_type \<Rightarrow> string" where
  "column_type_name CT_INT = ''INT''"
| "column_type_name CT_CHAR = ''CHAR''"
| "column_type_name CT_VARCHAR = ''VARCHAR''"
| "column_type_name CT_REAL = ''REAL''"
| "column_type_name CT_BOOL = ''BOOL''"
| "column_type_name CT_BYTEA = ''BYTEA''"
| "column_type_name CT_TEXT = ''TEXT''"

definition column_attributes :: "column \<Rightarrow> string \<Rightarrow> string list" where
  "column_attributes c target =
     (if primary_key c then [''PRIMARY KEY''] else []) @
     (if auto_increment c then [''AUTO_INCREMENT''] else []) @
     (if \<not> nullable c then [''NOT NULL''] else []) @
     (if partition_key c then [''PARTITION KEY''] else []) @
     (if target \<noteq> [] then [''REFERENCES '' @ target] else []) @
     (if default_value c \<noteq> [] then [''DEFAULT '' @ [CHR 0x27] @ default_value c @ [CHR 0x27]] else []) @
     (if col_generated c \<noteq> notGenerated
      then [''GENERATED '' @ (if col_generated c = stored then ''STORED'' else ''VIRTUAL'')] else [])"

definition debug_dump_column :: "column \<Rightarrow> string \<Rightarrow> string" where
  "debug_dump_column c target =
     (let type_str = column_type_name (col_type c) @
            (if col_length c > 0 then ''('' @ fmt_nat (col_length c) @ '')'' else [])
      in col_name c @ '' '' @ type_str @
         concat (map (\<lambda>a. '' '' @ a) (column_attributes c target)))"

definition debug_dump_index :: "index \<Rightarrow> string" where
  "debug_dump_index i = idx_name i @ (if idx_unique i then '' UNIQUE'' else []) @ '' ('' @
     join '', '' (map (\<lambda>f. ic_name f @ (case ic_ordering f of IO_default \<Rightarrow> []
        | IO_asc \<Rightarrow> '' ASC'' | IO_desc \<Rightarrow> '' DESC'')) (idx_fields i)) @ '')''"

definition debug_dump_table :: "table \<Rightarrow> table_registry \<Rightarrow> string" where
  "debug_dump_table t reg = join [CHR 0x0A] (
     [''Table: '' @ obj_name t, ''  Engine: '' @ engine t] @
     (if tablespace t \<noteq> [] then [''  Tablespace: '' @ tablespace t] else []) @
     (case partitioning t of None \<Rightarrow> []
      | Some p \<Rightarrow> (''  Partitioning: range (size='' @ fmt_nat (rangeSize p) @ '', '' @
            fmt_nat (length (ranges p)) @ '' ranges)'') #
          map (\<lambda>r. ''    Range: base='' @ fmt_nat (rangebase r)) (ranges p)) @
     [''  Columns ('' @ fmt_nat (length (columns t)) @ ''):''] @
     map (\<lambda>c. ''    '' @ debug_dump_column c (resolveTargetName reg (foreign_key_references c)))
       (columns t) @
     (if indexes t \<noteq> [] then (''  Indexes ('' @ fmt_nat (length (indexes t)) @ ''):'') #
          map (\<lambda>i. ''    '' @ debug_dump_index i) (indexes t) else []))"

definition debug_dump_registry :: "table_registry \<Rightarrow> string result" where
  "debug_dump_registry reg = res_bind (catalog_snapshotAll (tables reg)) (\<lambda>ts.
     Ok (''Metadata dump (size='' @ fmt_nat (length ts) @ ''):'' @
       concat (map (\<lambda>t. [CHR 0x0A] @ debug_dump_table t reg @ [CHR 0x0A]) (sort_key obj_name ts))))"

section \<open>Lemmas\<close>

lemma drop_references_eq:
  "drop_references target cs =
     (list_ex (\<lambda>c. foreign_key_references c = target) cs,
      map (\<lambda>c. if foreign_key_references c = target then c\<lparr>foreign_key_references := 0\<rparr> else c) cs)"
  by (induction cs) auto

lemma removeReferences_delta_simps:
  "removeReferences_delta target t = (if hasReferenceTo t target
     then Some (t\<lparr>columns := map (\<lambda>c. if foreign_key_references c = target
         then c\<lparr>foreign_key_references := 0\<rparr> else c) (columns t)\<rparr>) else None)"
  by (simp add: removeReferences_delta_def removeReferencesTo_def drop_references_eq hasReferenceTo_def)

lemma hasReferenceTo_removed:
  "target \<noteq> 0 \<Longrightarrow> removeReferences_delta target t = Some t' \<Longrightarrow> \<not> hasReferenceTo t' target"
  by (auto simp: removeReferences_delta_simps hasReferenceTo_def list_ex_iff split: if_splits)

lemma removeReferences_keeps:
  "removeReferences_delta target t = Some t' \<Longrightarrow>
   map col_name (columns t') = map col_name (columns t) \<and> indexes t' = indexes t \<and>
   obj_name t' = obj_name t \<and> partitioning t' = partitioning t \<and> engine t' = engine t"
  by (auto simp: removeReferences_delta_simps split: if_splits)

lemma hasReferenceTo_header [simp]:
  "hasReferenceTo (t\<lparr>obj_id := i, obj_version := v\<rparr>) x = hasReferenceTo t x"
  by (simp add: hasReferenceTo_def)

text \<open>Sorting by a key forgets the order it started from when the keys are distinct.\<close>

lemma sort_key_perm:
  assumes "mset xs = mset ys" and "distinct (map k ys)"
  shows "sort_key k xs = sort_key k ys"
proof (rule sort_key_inj_key_eq)
  show "mset xs = mset (sort_key k ys)" using assms(1) by simp
  show "inj_on k (set xs)" using assms by (metis distinct_map set_mset_mset)
qed simp

section \<open>Properties of tables\<close>

text \<open>
  C7: the sweep a dropped table triggers, through the view a worker has (transaction open or not):
  after every table of a snapshot was updated with \<open>removeReferencesTo\<close>, no table the view shows
  refers to the dropped one.
\<close>

theorem reference_sweep_complete:
  assumes wf: "view_wf v" and "target \<noteq> 0" and snap: "view_snapshotAll v = Ok ts"
    and g: "view_byId (foldl (\<lambda>v i. snd (view_update i (removeReferences_delta target) v)) v
        (map obj_id ts)) j = Some t"
  shows "\<not> hasReferenceTo t target"
proof (rule view.sweep_all [OF wf snap _ _ g])
  show "\<not> hasReferenceTo (r'\<lparr>obj_id := obj_id r, obj_version := vv\<rparr>) target"
    if "removeReferences_delta target r = Some r'" for r r' vv
    using hasReferenceTo_removed [OF assms(2) that] by simp
  show "\<not> hasReferenceTo r target" if "removeReferences_delta target r = None" for r
    using that by (simp add: removeReferences_delta_simps split: if_splits)
qed

definition sample_child :: table where
  "sample_child = default_table\<lparr>obj_id := 2, obj_name := ''child'',
     columns := [default_column\<lparr>col_name := ''id''\<rparr>,
       default_column\<lparr>col_name := ''p'', foreign_key_references := 1\<rparr>]\<rparr>"

lemma reference_sweep_complete_witness:
  "\<exists>t. view_byId (foldl (\<lambda>v i. snd (view_update i (removeReferences_delta 1) v))
      (empty_catalog, Some (txn_insert sample_child empty_txn)) [2]) 2 = Some t \<and>
     hasReferenceTo sample_child 1 \<and> \<not> hasReferenceTo t 1"
proof -
  let ?v = "(empty_catalog, Some (txn_insert sample_child empty_txn)) :: table view"
  have wf: "view_wf ?v"
    by (simp add: catalog_empty_inv txn_wf_ops(1) sample_child_def)
  have snap: "view_snapshotAll ?v = Ok [sample_child]"
    by (simp add: catalog_snapshotAll_def empty_catalog_def localSorted_def txn_insert_def
        applyInsert_def empty_txn_def Let_def)
  have ids: "map obj_id [sample_child] = [2]" by (simp add: sample_child_def)
  have has: "hasReferenceTo sample_child 1"
    by (simp add: hasReferenceTo_def sample_child_def)
  have "view_byId ?v 2 = Some sample_child"
    by (simp add: txn_insert_def applyInsert_def empty_txn_def overlay_defs Let_def sample_child_def)
  from view.upd_hit [OF wf this, of "removeReferences_delta 1"] has
  obtain t where t: "view_byId (foldl (\<lambda>v i. snd (view_update i (removeReferences_delta 1) v)) ?v [2]) 2 = Some t"
    by (auto simp: removeReferences_delta_simps simp del: view_byId.simps)
  from reference_sweep_complete [OF wf _ snap, unfolded ids, OF _ t] t has show ?thesis by auto
qed

text \<open>
  \<open>removeReferencesTo\<close> reports exactly whether there was a reference, removes every one of
  them, and changes nothing else.
\<close>

theorem removeReferencesTo_correct:
  assumes "target \<noteq> 0" and "removeReferencesTo target t = (changed, t')"
  shows "changed = hasReferenceTo t target \<and> \<not> hasReferenceTo t' target \<and>
    (\<not> changed \<longrightarrow> t' = t) \<and> t' = t\<lparr>columns := columns t'\<rparr> \<and>
    length (columns t') = length (columns t) \<and>
    (\<forall>k < length (columns t). columns t' ! k = (columns t ! k)\<lparr>foreign_key_references :=
       if foreign_key_references (columns t ! k) = target then 0
       else foreign_key_references (columns t ! k)\<rparr>)"
proof -
  have map_id: "map (\<lambda>c. if foreign_key_references c = target then c\<lparr>foreign_key_references := 0\<rparr> else c) cs = cs"
    if "\<not> list_ex (\<lambda>c. foreign_key_references c = target) cs" for cs
    using that by (auto simp: list_ex_iff intro!: map_idI)
  from assms show ?thesis
    by (auto simp: removeReferencesTo_def drop_references_eq hasReferenceTo_def list_ex_iff map_id)
qed

lemma removeReferencesTo_correct_witness:
  "\<exists>t. removeReferencesTo 1 sample_child = (True, t) \<and> \<not> hasReferenceTo t 1"
proof -
  obtain b t where r: "removeReferencesTo 1 sample_child = (b, t)" by fastforce
  from removeReferencesTo_correct [OF _ r] have "b = hasReferenceTo sample_child 1" "\<not> hasReferenceTo t 1"
    by simp_all
  with r show ?thesis by (simp add: hasReferenceTo_def sample_child_def)
qed

section \<open>Normalization forgets ids and orders\<close>

text \<open>
  Two registries have the same structure when a renumbering \<open>f\<close> of the ids takes the tables of one
  to those of the other, up to the order of columns, indexes and ranges.
\<close>

definition table_similar :: "(object_id \<Rightarrow> object_id) \<Rightarrow> table \<Rightarrow> table \<Rightarrow> bool" where
  "table_similar f t u \<longleftrightarrow>
     obj_name u = obj_name t \<and> engine u = engine t \<and> tablespace u = tablespace t \<and>
     rel_option (\<lambda>p q. rangeSize q = rangeSize p \<and> mset (ranges q) = mset (ranges p))
       (partitioning t) (partitioning u) \<and>
     mset (columns u) = mset (map (\<lambda>c. c\<lparr>foreign_key_references := f (foreign_key_references c)\<rparr>) (columns t)) \<and>
     mset (indexes u) = mset (indexes t)"

definition registry_similar :: "(object_id \<Rightarrow> object_id) \<Rightarrow> table_registry \<Rightarrow> table_registry \<Rightarrow> bool" where
  "registry_similar f g h \<longleftrightarrow> bij f \<and> f 0 = 0 \<and>
     (\<forall>i. rel_option (table_similar f) (catalog_byId (tables g) i) (catalog_byId (tables h) (f i)))"

definition distinct_parts :: "table \<Rightarrow> bool" where
  "distinct_parts t \<longleftrightarrow> distinct (map col_name (columns t)) \<and> distinct (map idx_name (indexes t)) \<and>
     (case partitioning t of None \<Rightarrow> True | Some p \<Rightarrow> distinct (map rangebase (ranges p)))"

definition distinct_names :: "table_registry \<Rightarrow> bool" where
  "distinct_names g \<longleftrightarrow> (\<forall>i j t u. catalog_byId (tables g) i = Some t \<longrightarrow>
     catalog_byId (tables g) j = Some u \<longrightarrow> obj_name t = obj_name u \<longrightarrow> i = j) \<and>
     (\<forall>i t. catalog_byId (tables g) i = Some t \<longrightarrow> distinct_parts t)"

lemma resolve_similar:
  assumes "registry_similar f g h"
  shows "resolveTargetName h (f r) = resolveTargetName g r"
proof -
  have "f r = 0 \<longleftrightarrow> r = 0"
    using assms by (metis registry_similar_def bij_pointE)
  moreover have "rel_option (table_similar f) (catalog_byId (tables g) r) (catalog_byId (tables h) (f r))"
    using assms by (simp add: registry_similar_def)
  ultimately show ?thesis
    by (cases "catalog_byId (tables g) r"; cases "catalog_byId (tables h) (f r)")
      (auto simp: resolveTargetName_def table_similar_def)
qed

text \<open>Normalized tables agree when their parts do, up to order.\<close>

lemma normalize_table_eqI:
  assumes head: "obj_name u = obj_name t" "engine u = engine t" "tablespace u = tablespace t"
    and part: "rel_option (\<lambda>p q. rangeSize q = rangeSize p \<and> mset (ranges q) = mset (ranges p))
       (partitioning t) (partitioning u)"
    and cols: "mset (map (normalize_column h) (columns u)) = mset (map (normalize_column g) (columns t))"
    and idx: "mset (indexes u) = mset (indexes t)" and d: "distinct_parts t"
  shows "normalize_table h u = normalize_table g t"
proof -
  let ?n = "\<lambda>n. col_name (nc_column n)"
  have k: "map ?n (map (normalize_column g) (columns t)) = map col_name (columns t)"
    by (simp add: normalize_column_def)
  have "sort_key ?n (map (normalize_column h) (columns u)) = sort_key ?n (map (normalize_column g) (columns t))"
    by (rule sort_key_perm [OF cols]) (use d in \<open>simp only: k distinct_parts_def\<close>)
  moreover have "sort_key idx_name (indexes u) = sort_key idx_name (indexes t)"
    by (rule sort_key_perm) (use idx d in \<open>simp_all add: distinct_parts_def\<close>)
  moreover have "map_option (\<lambda>p. p\<lparr>ranges := sort_key rangebase (ranges p)\<rparr>) (partitioning u) =
      map_option (\<lambda>p. p\<lparr>ranges := sort_key rangebase (ranges p)\<rparr>) (partitioning t)"
  proof (cases "partitioning t")
    case None
    with part show ?thesis by simp
  next
    case (Some p)
    with part obtain q where q: "partitioning u = Some q" "rangeSize q = rangeSize p"
      "mset (ranges q) = mset (ranges p)"
      by (auto simp: option_rel_Some1)
    have "sort_key rangebase (ranges q) = sort_key rangebase (ranges p)"
      by (rule sort_key_perm [OF q(3)]) (use d Some in \<open>simp add: distinct_parts_def\<close>)
    with q Some show ?thesis by (cases p; cases q) simp
  qed
  ultimately show ?thesis using head by (simp add: normalize_table_def)
qed

lemma normalize_table_similar:
  assumes "registry_similar f g h" and sim: "table_similar f t u" and d: "distinct_parts t"
  shows "normalize_table h u = normalize_table g t"
proof (rule normalize_table_eqI)
  have "normalize_column h (c\<lparr>foreign_key_references := f (foreign_key_references c)\<rparr>) = normalize_column g c" for c
    by (simp add: normalize_column_def resolve_similar [OF assms(1)])
  then show "mset (map (normalize_column h) (columns u)) = mset (map (normalize_column g) (columns t))"
    using sim by (simp add: table_similar_def multiset.map_comp o_def)
qed (use sim d in \<open>simp_all add: table_similar_def\<close>)

lemma registry_similar_card:
  assumes "registry_similar f g h"
  shows "card (dom (catalog_byId (tables h))) = card (dom (catalog_byId (tables g)))"
proof -
  have f: "bij f" "\<And>i. (catalog_byId (tables g) i = None) = (catalog_byId (tables h) (f i) = None)"
    using assms unfolding registry_similar_def by (metis rel_option_None1 rel_option_None2)+
  have "dom (catalog_byId (tables h)) = f ` dom (catalog_byId (tables g))"
  proof (intro set_eqI iffI)
    fix j assume j: "j \<in> dom (catalog_byId (tables h))"
    obtain i where "j = f i" using f(1) by (metis bij_pointE)
    with j f(2) [of i] show "j \<in> f ` dom (catalog_byId (tables g))" by auto
  next
    fix j assume "j \<in> f ` dom (catalog_byId (tables g))"
    then obtain i where "j = f i" "catalog_byId (tables g) i \<noteq> None" by auto
    with f(2) [of i] show "j \<in> dom (catalog_byId (tables h))" by auto
  qed
  moreover have "inj_on f (dom (catalog_byId (tables g)))"
    using f(1) by (meson bij_is_inj inj_on_subset subset_UNIV)
  ultimately show ?thesis by (simp add: card_image)
qed

lemma snapshot_length:
  assumes "catalog_inv c" and "distinct (map obj_id zs)" and "set zs = ran (catalog_byId c)"
  shows "length zs = card (dom (catalog_byId c))"
proof -
  have "set (map obj_id zs) = dom (catalog_byId c)"
    using assms(3) catalog_byId_id [OF assms(1)] by (fastforce simp: ran_def image_iff)
  with distinct_card [OF assms(2)] show ?thesis by simp
qed

text \<open>
  C8: \<open>normalize\<close> depends on the structure only: two well-formed registries with the same
  structure, whatever ids they use and in whatever order tables, columns, indexes and ranges were
  added, normalize to the same list, as long as names do not repeat.
\<close>

theorem normalize_id_independent:
  assumes "catalog_inv (tables g)" and "catalog_inv (tables h)"
    and sim: "registry_similar f g h" and names: "distinct_names g"
  shows "normalize h = normalize g \<and> is_ok (normalize g)"
proof -
  obtain xs where xs: "catalog_snapshotAll (tables g) = Ok xs" "distinct (map obj_id xs)"
    "set xs = ran (catalog_byId (tables g))" using cat.snap_ok [OF assms(1)] by blast
  obtain ys where ys: "catalog_snapshotAll (tables h) = Ok ys" "distinct (map obj_id ys)"
    "set ys = ran (catalog_byId (tables h))" using cat.snap_ok [OF assms(2)] by blast
  have f: "bij f" "\<And>i. rel_option (table_similar f) (catalog_byId (tables g) i) (catalog_byId (tables h) (f i))"
    using sim by (simp_all add: registry_similar_def)
  let ?ng = "map (normalize_table g) xs" and ?nh = "map (normalize_table h) ys"
  have live: "catalog_byId (tables g) (obj_id t) = Some t" if "t \<in> set xs" for t
    using that xs(3) catalog_byId_id [OF assms(1)] by (auto simp: ran_def)
  have nt: "normalize_table h u = normalize_table g t"
    if "catalog_byId (tables g) i = Some t" "catalog_byId (tables h) (f i) = Some u" for i t u
    by (rule normalize_table_similar [OF sim])
      (use f(2) [of i] that names in \<open>auto simp: distinct_names_def\<close>)
  have "distinct (map obj_name xs)"
    using xs(2) live names unfolding distinct_map distinct_names_def inj_on_def by metis
  moreover have "map nt_name ?ng = map obj_name xs" by (simp add: normalize_table_def)
  ultimately have dg: "distinct (map nt_name ?ng)" by (simp only:)
  have set_eq: "set ?nh = set ?ng"
  proof (intro set_eqI iffI)
    fix n assume "n \<in> set ?nh"
    then obtain j u where u: "catalog_byId (tables h) j = Some u" "n = normalize_table h u"
      using ys(3) by (auto simp: ran_def)
    obtain i where "j = f i" using f(1) by (metis bij_pointE)
    with f(2) [of i] u obtain t where "catalog_byId (tables g) i = Some t"
      by (auto simp: option_rel_Some2)
    with u \<open>j = f i\<close> nt xs(3) show "n \<in> set ?ng" by (auto simp: ran_def)
  next
    fix n assume "n \<in> set ?ng"
    then obtain i t where t: "catalog_byId (tables g) i = Some t" "n = normalize_table g t"
      using xs(3) by (auto simp: ran_def)
    with f(2) [of i] obtain u where "catalog_byId (tables h) (f i) = Some u"
      by (auto simp: option_rel_Some1)
    with t nt ys(3) show "n \<in> set ?nh" by (metis (mono_tags, lifting) image_eqI list.set_map ranI)
  qed
  have len: "length ?nh = length ?ng"
    using snapshot_length [OF assms(1) xs(2,3)] snapshot_length [OF assms(2) ys(2,3)]
      registry_similar_card [OF sim] by simp
  have "mset ?nh = mset ?ng"
  proof -
    have "distinct ?ng" using dg unfolding distinct_map [of nt_name] by simp
    then have "distinct ?nh" using set_eq len by (metis card_distinct distinct_card)
    with \<open>distinct ?ng\<close> set_eq show ?thesis using set_eq_iff_mset_eq_distinct by blast
  qed
  from sort_key_perm [OF this dg] xs(1) ys(1) show ?thesis by (simp add: normalize_def)
qed

definition sample_pair :: "object_id \<Rightarrow> object_id \<Rightarrow> table list" where
  "sample_pair p c = [default_table\<lparr>obj_id := p, obj_name := ''parent'', columns := [default_column\<lparr>col_name := ''id''\<rparr>]\<rparr>,
     default_table\<lparr>obj_id := c, obj_name := ''child'', columns := [default_column\<lparr>col_name := ''id''\<rparr>,
       default_column\<lparr>col_name := ''p'', foreign_key_references := p\<rparr>]\<rparr>]"

definition sample_registry :: "table list \<Rightarrow> table_registry" where
  "sample_registry ts = \<lparr>tables = foldl (\<lambda>c t. snd (catalog_insert t c)) empty_catalog ts, next_id = 3\<rparr>"

lemma catalog_insert_byId':
  "catalog_byId (snd (catalog_insert r c)) = (if obj_id r \<noteq> 0 \<and> catalog_byId c (obj_id r) = None
     then (catalog_byId c)(obj_id r \<mapsto> r) else catalog_byId c)"
  using catalog_insert_byId [OF catalog_insert_fst_snd, of r c] by auto

lemma normalize_id_independent_witness:
  "\<exists>ns. normalize (sample_registry (sample_pair 1 2)) = Ok ns \<and>
     normalize (sample_registry (rev (sample_pair 2 1))) = Ok ns"
proof -
  let ?g = "sample_registry (sample_pair 1 2)" and ?h = "sample_registry (rev (sample_pair 2 1))"
  let ?f = "\<lambda>x. if x = 1 then 2 else if x = 2 then 1 else (x :: object_id)"
  have inv: "catalog_inv (tables ?g)" "catalog_inv (tables ?h)"
    by (simp_all add: sample_registry_def sample_pair_def cat.ins_wf catalog_empty_inv)
  have by_g: "catalog_byId (tables ?g) = Map.empty(1 \<mapsto> sample_pair 1 2 ! 0, 2 \<mapsto> sample_pair 1 2 ! 1)"
    and by_h: "catalog_byId (tables ?h) = Map.empty(1 \<mapsto> sample_pair 2 1 ! 1, 2 \<mapsto> sample_pair 2 1 ! 0)"
    by (simp_all add: sample_registry_def sample_pair_def default_table_def catalog_insert_byId')
  have "bij ?f" by (rule involuntory_imp_bij) simp
  then have "registry_similar ?f ?g ?h"
    unfolding registry_similar_def by_g by_h
    by (simp add: table_similar_def sample_pair_def default_table_def default_column_def)
  moreover have "distinct_names ?g"
    unfolding distinct_names_def by_g
    by (auto simp: distinct_parts_def sample_pair_def default_table_def default_column_def
        split: if_splits)
  ultimately have "normalize ?h = normalize ?g \<and> is_ok (normalize ?g)"
    by (rule normalize_id_independent [OF inv])
  then show ?thesis by (cases "normalize ?g") auto
qed

end
