(* ===== verification/Run_Statistics.thy ===== *)
theory Run_Statistics
  imports Sw_Prelude
begin

text \<open>
  The run statistics (core/include/statistics.hpp, core/src/statistics.cpp): histograms, timing
  aggregates, per-action and per-worker counters. Counters are \<open>uint64_t\<close> and wrap, so they are
  64-bit words; durations are nanosecond counts as integers (the source's 64-bit duration overflows
  after 292 years). The clock is an argument of the calls that read it; the time point 0 is the
  "not started" sentinel. Averages, rates and the textual reports are in \<open>Statistics_Report\<close>.
\<close>

type_synonym counter = "64 word"

section \<open>Histograms\<close>

text \<open>Buckets of \<open>RowHistogram\<close>: 0, 1, 2-10, 11-100, 101-1000, more.\<close>

definition row_bucket :: "counter \<Rightarrow> nat" where
  "row_bucket rows = (if rows = 0 then 0 else if rows = 1 then 1 else if rows \<le> 10 then 2
     else if rows \<le> 100 then 3 else if rows \<le> 1000 then 4 else 5)"

definition bump_bucket :: "nat \<Rightarrow> counter list \<Rightarrow> counter list" where
  "bump_bucket b bs = bs[b := bs ! b + 1]"

definition row_histogram_new :: "counter list" where
  "row_histogram_new = replicate 6 0"

definition row_histogram_record :: "counter \<Rightarrow> counter list \<Rightarrow> counter list" where
  "row_histogram_record rows bs = bump_bucket (row_bucket rows) bs"

definition row_histogram_total :: "counter list \<Rightarrow> counter" where
  "row_histogram_total bs = foldl (+) 0 bs"

definition row_histogram_hasData :: "counter list \<Rightarrow> bool" where
  "row_histogram_hasData bs \<longleftrightarrow> row_histogram_total bs > 0"

definition row_histogram_reset :: "counter list \<Rightarrow> counter list" where
  "row_histogram_reset bs = replicate (length bs) 0"

text \<open>Buckets of \<open>TimingHistogram\<close>, limits in nanoseconds.\<close>

definition timing_bucket :: "int \<Rightarrow> nat" where
  "timing_bucket ns = (if ns < 100000 then 0 else if ns < 1000000 then 1 else if ns < 10000000 then 2
     else if ns < 100000000 then 3 else if ns < 1000000000 then 4
     else if ns < 10000000000 then 5 else 6)"

definition timing_histogram_record :: "int \<Rightarrow> counter list \<Rightarrow> counter list" where
  "timing_histogram_record ns bs = bump_bucket (timing_bucket ns) bs"

section \<open>Timing aggregates\<close>

definition duration_max :: int where
  "duration_max = 2 ^ 63 - 1"

record timing_statistics =
  totalTime :: int
  minTime :: int
  maxTime :: int
  t_count :: counter
  t_histogram :: "counter list"

definition timing_new :: timing_statistics where
  "timing_new = \<lparr>totalTime = 0, minTime = duration_max, maxTime = 0, t_count = 0,
     t_histogram = replicate 7 0\<rparr>"

definition timing_record :: "int \<Rightarrow> timing_statistics \<Rightarrow> timing_statistics" where
  "timing_record d t = t\<lparr>totalTime := totalTime t + d, minTime := min (minTime t) d,
     maxTime := max (maxTime t) d, t_count := t_count t + 1,
     t_histogram := timing_histogram_record d (t_histogram t)\<rparr>"

definition timing_reset :: "timing_statistics \<Rightarrow> timing_statistics" where
  "timing_reset t = t\<lparr>totalTime := 0, minTime := duration_max, maxTime := 0, t_count := 0,
     t_histogram := replicate (length (t_histogram t)) 0\<rparr>"

definition timing_hasData :: "timing_statistics \<Rightarrow> bool" where
  "timing_hasData t \<longleftrightarrow> t_count t > 0"

section \<open>Transactions\<close>

datatype txn_end = committed_end | rolledBackIntentional_end | rolledBackError_end

record transaction_outcome =
  out_end :: txn_end
  out_implicitCommits :: counter
  out_savepointRollbacks :: counter
  subOk :: counter
  subFail :: counter

definition new_outcome :: transaction_outcome where
  "new_outcome = \<lparr>out_end = rolledBackError_end, out_implicitCommits = 0,
     out_savepointRollbacks = 0, subOk = 0, subFail = 0\<rparr>"

record row_observation =
  ro_action :: string
  ro_kind :: string
  ro_rows :: counter

record transaction_statistics =
  committed :: counter
  rolledBackIntentional :: counter
  rolledBackError :: counter
  implicitCommits :: counter
  savepointRollbacks :: counter
  subActionsOk :: counter
  subActionsFail :: counter
  subActionsPerTxn :: "counter list"

definition txn_stats_new :: transaction_statistics where
  "txn_stats_new = \<lparr>committed = 0, rolledBackIntentional = 0, rolledBackError = 0,
     implicitCommits = 0, savepointRollbacks = 0, subActionsOk = 0, subActionsFail = 0,
     subActionsPerTxn = row_histogram_new\<rparr>"

definition txn_stats_record :: "transaction_outcome \<Rightarrow> transaction_statistics \<Rightarrow> transaction_statistics" where
  "txn_stats_record o' s =
     (let s1 = (case out_end o' of
            committed_end \<Rightarrow> s\<lparr>committed := committed s + 1\<rparr>
          | rolledBackIntentional_end \<Rightarrow> s\<lparr>rolledBackIntentional := rolledBackIntentional s + 1\<rparr>
          | rolledBackError_end \<Rightarrow> s\<lparr>rolledBackError := rolledBackError s + 1\<rparr>)
      in s1\<lparr>implicitCommits := implicitCommits s1 + out_implicitCommits o',
            savepointRollbacks := savepointRollbacks s1 + out_savepointRollbacks o',
            subActionsOk := subActionsOk s1 + subOk o',
            subActionsFail := subActionsFail s1 + subFail o',
            subActionsPerTxn := row_histogram_record (subOk o' + subFail o') (subActionsPerTxn s1)\<rparr>)"

definition txn_stats_total :: "transaction_statistics \<Rightarrow> counter" where
  "txn_stats_total s = committed s + rolledBackIntentional s + rolledBackError s"

definition txn_stats_hasData :: "transaction_statistics \<Rightarrow> bool" where
  "txn_stats_hasData s \<longleftrightarrow> txn_stats_total s > 0"

definition txn_stats_reset :: "transaction_statistics \<Rightarrow> transaction_statistics" where
  "txn_stats_reset s = s\<lparr>committed := 0, rolledBackIntentional := 0, rolledBackError := 0,
     implicitCommits := 0, savepointRollbacks := 0, subActionsOk := 0, subActionsFail := 0,
     subActionsPerTxn := row_histogram_reset (subActionsPerTxn s)\<rparr>"

section \<open>Actions\<close>

text \<open>\<open>m[k]++\<close> on a map of counters, \<open>operator[]\<close> creating the entry with value 0.\<close>

definition count_of :: "(string \<times> counter) list \<Rightarrow> string \<Rightarrow> counter" where
  "count_of m k = (case map_of m k of None \<Rightarrow> 0 | Some n \<Rightarrow> n)"

definition bump_count :: "string \<Rightarrow> (string \<times> counter) list \<Rightarrow> (string \<times> counter) list" where
  "bump_count k m = AList.update k (count_of m k + 1) m"

record action_statistics =
  successCount :: counter
  actionFailureCount :: counter
  sqlFailureCount :: counter
  otherFailureCount :: counter
  sqlConflictCount :: counter
  actionErrorNames :: "(string \<times> counter) list"
  sqlErrorCodes :: "(string \<times> counter) list"
  rowHistograms :: "(string \<times> counter list) list"
  executionTiming :: timing_statistics
  sqlTiming :: timing_statistics
  startTime :: int

definition action_stats_new :: action_statistics where
  "action_stats_new = \<lparr>successCount = 0, actionFailureCount = 0, sqlFailureCount = 0,
     otherFailureCount = 0, sqlConflictCount = 0, actionErrorNames = [], sqlErrorCodes = [],
     rowHistograms = [], executionTiming = timing_new, sqlTiming = timing_new, startTime = 0\<rparr>"

definition calculateExecutionTime :: "int \<Rightarrow> int \<Rightarrow> int result" where
  "calculateExecutionTime now start =
     (if start = 0
      then Throw (Logic_error ''ActionStatistics::start() must be called before recording results'')
      else Ok (now - start))"

definition action_start :: "int \<Rightarrow> action_statistics \<Rightarrow> action_statistics" where
  "action_start now s = s\<lparr>startTime := now\<rparr>"

text \<open>The shared tail of the five record functions.\<close>

definition record_times :: "int \<Rightarrow> int \<Rightarrow> action_statistics \<Rightarrow> action_statistics" where
  "record_times execTime sqlTime s = s\<lparr>executionTiming := timing_record execTime (executionTiming s),
     sqlTiming := timing_record sqlTime (sqlTiming s)\<rparr>"

definition action_recordSuccess :: "int \<Rightarrow> int \<Rightarrow> action_statistics \<Rightarrow> action_statistics result" where
  "action_recordSuccess now sqlTime s = res_bind (calculateExecutionTime now (startTime s)) (\<lambda>execTime.
     Ok (record_times execTime sqlTime (s\<lparr>successCount := successCount s + 1\<rparr>)))"

definition action_recordActionFailure ::
  "string \<Rightarrow> int \<Rightarrow> int \<Rightarrow> action_statistics \<Rightarrow> action_statistics result" where
  "action_recordActionFailure errorName now sqlTime s =
     res_bind (calculateExecutionTime now (startTime s)) (\<lambda>execTime.
     Ok (record_times execTime sqlTime (s\<lparr>actionFailureCount := actionFailureCount s + 1,
       actionErrorNames := bump_count errorName (actionErrorNames s)\<rparr>)))"

definition action_recordSqlFailure ::
  "string \<Rightarrow> int \<Rightarrow> int \<Rightarrow> action_statistics \<Rightarrow> action_statistics result" where
  "action_recordSqlFailure errorCode now sqlTime s =
     res_bind (calculateExecutionTime now (startTime s)) (\<lambda>execTime.
     Ok (record_times execTime sqlTime (s\<lparr>sqlFailureCount := sqlFailureCount s + 1,
       sqlErrorCodes := bump_count errorCode (sqlErrorCodes s)\<rparr>)))"

definition action_recordOtherFailure :: "int \<Rightarrow> int \<Rightarrow> action_statistics \<Rightarrow> action_statistics result" where
  "action_recordOtherFailure now sqlTime s =
     res_bind (calculateExecutionTime now (startTime s)) (\<lambda>execTime.
     Ok (record_times execTime sqlTime (s\<lparr>otherFailureCount := otherFailureCount s + 1\<rparr>)))"

definition action_recordConflict ::
  "string \<Rightarrow> int \<Rightarrow> int \<Rightarrow> action_statistics \<Rightarrow> action_statistics result" where
  "action_recordConflict errorCode now sqlTime s =
     res_bind (calculateExecutionTime now (startTime s)) (\<lambda>execTime.
     Ok (record_times execTime sqlTime (s\<lparr>sqlConflictCount := sqlConflictCount s + 1,
       sqlErrorCodes := bump_count errorCode (sqlErrorCodes s)\<rparr>)))"

definition action_recordRows :: "string \<Rightarrow> counter \<Rightarrow> action_statistics \<Rightarrow> action_statistics" where
  "action_recordRows kind rows s = s\<lparr>rowHistograms := AList.update kind
     (row_histogram_record rows (case map_of (rowHistograms s) kind of
        None \<Rightarrow> row_histogram_new | Some h \<Rightarrow> h)) (rowHistograms s)\<rparr>"

definition action_getTotalCount :: "action_statistics \<Rightarrow> counter" where
  "action_getTotalCount s = successCount s + actionFailureCount s + sqlFailureCount s +
     otherFailureCount s + sqlConflictCount s"

definition action_getTotalFailureCount :: "action_statistics \<Rightarrow> counter" where
  "action_getTotalFailureCount s = actionFailureCount s + sqlFailureCount s +
     otherFailureCount s + sqlConflictCount s"

definition action_hasData :: "action_statistics \<Rightarrow> bool" where
  "action_hasData s \<longleftrightarrow> action_getTotalCount s > 0"

definition action_reset :: "action_statistics \<Rightarrow> action_statistics" where
  "action_reset s = s\<lparr>successCount := 0, actionFailureCount := 0, sqlFailureCount := 0,
     otherFailureCount := 0, sqlConflictCount := 0, actionErrorNames := [], sqlErrorCodes := [],
     rowHistograms := [], executionTiming := timing_reset (executionTiming s),
     sqlTiming := timing_reset (sqlTiming s), startTime := 0\<rparr>"

section \<open>Workers\<close>

record worker_statistics =
  actionStats :: "(string \<times> action_statistics) list"
  txnStats :: transaction_statistics
  w_startTime :: int
  w_endTime :: int

definition worker_stats_new :: worker_statistics where
  "worker_stats_new = \<lparr>actionStats = [], txnStats = txn_stats_new, w_startTime = 0, w_endTime = 0\<rparr>"

text \<open>\<open>actionStats[actionName]\<close>, created empty when missing (and kept even if the call throws).\<close>

definition stats_for :: "string \<Rightarrow> worker_statistics \<Rightarrow> action_statistics" where
  "stats_for n w = (case map_of (actionStats w) n of None \<Rightarrow> action_stats_new | Some s \<Rightarrow> s)"

definition put_stats :: "string \<Rightarrow> action_statistics \<Rightarrow> worker_statistics \<Rightarrow> worker_statistics" where
  "put_stats n s w = w\<lparr>actionStats := AList.update n s (actionStats w)\<rparr>"

definition on_action ::
  "string \<Rightarrow> (action_statistics \<Rightarrow> action_statistics result) \<Rightarrow> (worker_statistics, unit) prog" where
  "on_action n f = (\<lambda>w. let s = stats_for n w in (case f s of
       Ok s' \<Rightarrow> (Ok (), put_stats n s' w)
     | Throw e \<Rightarrow> (Throw e, put_stats n s w)
     | Undefined \<Rightarrow> (Undefined, w)
     | Diverges \<Rightarrow> (Diverges, w)))"

datatype stat_call =
    S_start int
  | S_stop int
  | S_startAction string int
  | S_recordSuccess string int int
  | S_recordActionFailure string string int int
  | S_recordSqlFailure string string int int
  | S_recordOtherFailure string int int
  | S_recordConflict string string int int
  | S_recordRows string string counter
  | S_recordTransaction transaction_outcome
  | S_reset int

text \<open>The methods of \<open>WorkerStatistics\<close>; a time argument is what the clock reads in the call.\<close>

fun worker_call :: "stat_call \<Rightarrow> (worker_statistics, unit) prog" where
  "worker_call (S_start now) = modify (\<lambda>w. w\<lparr>w_startTime := now, w_endTime := now\<rparr>)"
| "worker_call (S_stop now) = modify (\<lambda>w. w\<lparr>w_endTime := now\<rparr>)"
| "worker_call (S_startAction n now) = on_action n (\<lambda>s. Ok (action_start now s))"
| "worker_call (S_recordSuccess n now sqlTime) = on_action n (action_recordSuccess now sqlTime)"
| "worker_call (S_recordActionFailure n e now sqlTime) =
     on_action n (action_recordActionFailure e now sqlTime)"
| "worker_call (S_recordSqlFailure n e now sqlTime) = on_action n (action_recordSqlFailure e now sqlTime)"
| "worker_call (S_recordOtherFailure n now sqlTime) = on_action n (action_recordOtherFailure now sqlTime)"
| "worker_call (S_recordConflict n e now sqlTime) = on_action n (action_recordConflict e now sqlTime)"
| "worker_call (S_recordRows n k rows) = on_action n (\<lambda>s. Ok (action_recordRows k rows s))"
| "worker_call (S_recordTransaction o') = modify (\<lambda>w. w\<lparr>txnStats := txn_stats_record o' (txnStats w)\<rparr>)"
| "worker_call (S_reset now) = modify (\<lambda>w. w\<lparr>actionStats := [],
     txnStats := txn_stats_reset (txnStats w), w_startTime := now, w_endTime := now\<rparr>)"

definition getTotalActionCount :: "worker_statistics \<Rightarrow> counter" where
  "getTotalActionCount w = foldl (\<lambda>t (n, s). t + action_getTotalCount s) 0 (actionStats w)"

definition getTotalSuccessCount :: "worker_statistics \<Rightarrow> counter" where
  "getTotalSuccessCount w = foldl (\<lambda>t (n, s). t + successCount s) 0 (actionStats w)"

definition getTotalFailureCount :: "worker_statistics \<Rightarrow> counter" where
  "getTotalFailureCount w = foldl (\<lambda>t (n, s). t + action_getTotalFailureCount s) 0 (actionStats w)"

definition worker_hasData :: "worker_statistics \<Rightarrow> bool" where
  "worker_hasData w \<longleftrightarrow> getTotalActionCount w > 0"

section \<open>Histogram lemmas\<close>

lemma foldl_add_sum:
  fixes f :: "'a \<Rightarrow> 'b::comm_monoid_add"
  shows "foldl (\<lambda>t x. t + f x) a xs = a + sum_list (map f xs)"
  by (induction xs arbitrary: a) (simp_all add: algebra_simps)

lemma row_histogram_total_sum: "row_histogram_total bs = sum_list bs"
  using foldl_add_sum [of "\<lambda>x. x" 0 bs] by (simp add: row_histogram_total_def)

lemma sum_list_bump: "b < length bs \<Longrightarrow> sum_list (bump_bucket b bs) = sum_list bs + 1"
proof (induction bs arbitrary: b)
  case Nil
  then show ?case by simp
next
  case (Cons x bs)
  then show ?case by (cases b) (simp_all add: bump_bucket_def algebra_simps)
qed

lemma length_bump [simp]: "length (bump_bucket b bs) = length bs"
  by (simp add: bump_bucket_def)

lemma row_bucket_lt: "row_bucket rows < 6" by (simp add: row_bucket_def)
lemma timing_bucket_lt: "timing_bucket ns < 7" by (simp add: timing_bucket_def)

lemma row_histogram_record_total:
  "length bs = 6 \<Longrightarrow> row_histogram_total (row_histogram_record rows bs) = row_histogram_total bs + 1"
  using row_bucket_lt [of rows] by (simp add: row_histogram_total_sum row_histogram_record_def sum_list_bump)

text \<open>Updating one entry of an association list changes a sum over it by that entry's change.\<close>

lemma sum_AList_update:
  fixes f :: "'v \<Rightarrow> counter"
  shows "sum_list (map (f \<circ> snd) (AList.update k v m)) =
    sum_list (map (f \<circ> snd) m) - (case map_of m k of None \<Rightarrow> 0 | Some u \<Rightarrow> f u) + f v"
  by (induction m) (auto simp: algebra_simps)

lemma sum_bump_count: "sum_list (map snd (bump_count k m)) = sum_list (map snd m) + 1"
  using sum_AList_update [of "\<lambda>x. x" k "count_of m k + 1" m]
  by (simp add: bump_count_def count_of_def o_def split: option.splits)

lemma set_AList_update: "(n, s) \<in> set (AList.update k v m) \<Longrightarrow> s = v \<or> (n, s) \<in> set m"
  by (induction m) (auto split: if_splits)

section \<open>Consistency of the counters\<close>

text \<open>
  The redundant counters agree: timing samples with recorded outcomes, error names with action
  failures, error codes with SQL failures and conflicts, histogram buckets with their counts.
\<close>

definition action_stats_ok :: "action_statistics \<Rightarrow> bool" where
  "action_stats_ok s \<longleftrightarrow>
     t_count (executionTiming s) = action_getTotalCount s \<and>
     t_count (sqlTiming s) = action_getTotalCount s \<and>
     sum_list (map snd (actionErrorNames s)) = actionFailureCount s \<and>
     sum_list (map snd (sqlErrorCodes s)) = sqlFailureCount s + sqlConflictCount s \<and>
     length (t_histogram (executionTiming s)) = 7 \<and> length (t_histogram (sqlTiming s)) = 7 \<and>
     sum_list (t_histogram (executionTiming s)) = action_getTotalCount s \<and>
     sum_list (t_histogram (sqlTiming s)) = action_getTotalCount s"

definition txn_stats_ok :: "transaction_statistics \<Rightarrow> bool" where
  "txn_stats_ok s \<longleftrightarrow> length (subActionsPerTxn s) = 6 \<and>
     row_histogram_total (subActionsPerTxn s) = txn_stats_total s"

definition worker_stats_ok :: "worker_statistics \<Rightarrow> bool" where
  "worker_stats_ok w \<longleftrightarrow> (\<forall>(n, s) \<in> set (actionStats w). action_stats_ok s) \<and> txn_stats_ok (txnStats w)"

lemma action_stats_new_ok [simp]: "action_stats_ok action_stats_new"
  by (simp add: action_stats_ok_def action_stats_new_def timing_new_def action_getTotalCount_def
      sum_list_replicate)

lemma txn_stats_new_ok [simp]: "txn_stats_ok txn_stats_new"
  by (simp add: txn_stats_ok_def txn_stats_new_def row_histogram_new_def row_histogram_total_sum
      txn_stats_total_def sum_list_replicate)

lemma length_row_record [simp]: "length (row_histogram_record rows bs) = length bs"
  by (simp add: row_histogram_record_def)

lemma txn_stats_record_ok: "txn_stats_ok s \<Longrightarrow> txn_stats_ok (txn_stats_record o' s)"
  using row_histogram_record_total [of "subActionsPerTxn s" "subOk o' + subFail o'"]
  by (cases "out_end o'")
    (simp_all add: txn_stats_ok_def txn_stats_record_def Let_def txn_stats_total_def)

lemma txn_stats_reset_ok: "txn_stats_ok s \<Longrightarrow> txn_stats_ok (txn_stats_reset s)"
  by (simp add: txn_stats_ok_def txn_stats_reset_def row_histogram_reset_def row_histogram_total_sum
      txn_stats_total_def sum_list_replicate)

lemma record_times_ok:
  assumes "action_stats_ok s"
    and "action_getTotalCount u = action_getTotalCount s + 1"
    and "executionTiming u = executionTiming s" "sqlTiming u = sqlTiming s"
    and "sum_list (map snd (actionErrorNames u)) = actionFailureCount u"
    and "sum_list (map snd (sqlErrorCodes u)) = sqlFailureCount u + sqlConflictCount u"
  shows "action_stats_ok (record_times d e u)"
  using assms timing_bucket_lt
  by (simp add: action_stats_ok_def record_times_def timing_record_def timing_histogram_record_def
      sum_list_bump action_getTotalCount_def)

text \<open>The five ways an action's outcome is recorded, as one relation between statistics.\<close>

lemmas action_record_defs = action_recordSuccess_def action_recordActionFailure_def
  action_recordSqlFailure_def action_recordOtherFailure_def action_recordConflict_def

definition recorded :: "action_statistics \<Rightarrow> action_statistics \<Rightarrow> bool" where
  "recorded s s' \<longleftrightarrow> action_stats_ok s' \<and> action_getTotalCount s' = action_getTotalCount s + 1"

lemma action_record_ok:
  assumes "action_stats_ok s"
  shows "action_recordSuccess now q s = Ok s' \<Longrightarrow> recorded s s'"
    and "action_recordActionFailure e now q s = Ok s' \<Longrightarrow> recorded s s'"
    and "action_recordSqlFailure e now q s = Ok s' \<Longrightarrow> recorded s s'"
    and "action_recordOtherFailure now q s = Ok s' \<Longrightarrow> recorded s s'"
    and "action_recordConflict e now q s = Ok s' \<Longrightarrow> recorded s s'"
proof -
  have times: "recorded s (record_times d k u)"
    if "action_getTotalCount u = action_getTotalCount s + 1"
      "executionTiming u = executionTiming s" "sqlTiming u = sqlTiming s"
      "sum_list (map snd (actionErrorNames u)) = actionFailureCount u"
      "sum_list (map snd (sqlErrorCodes u)) = sqlFailureCount u + sqlConflictCount u" for d k u
    using record_times_ok [OF assms that] that(1)
    by (simp add: recorded_def action_getTotalCount_def record_times_def)
  note sums = assms [unfolded action_stats_ok_def]
  show "action_recordSuccess now q s = Ok s' \<Longrightarrow> recorded s s'"
    and "action_recordActionFailure e now q s = Ok s' \<Longrightarrow> recorded s s'"
    and "action_recordSqlFailure e now q s = Ok s' \<Longrightarrow> recorded s s'"
    and "action_recordOtherFailure now q s = Ok s' \<Longrightarrow> recorded s s'"
    and "action_recordConflict e now q s = Ok s' \<Longrightarrow> recorded s s'"
    using sums by (auto simp: action_record_defs action_getTotalCount_def sum_bump_count
        algebra_simps intro!: times)
qed

lemma stats_for_ok: "worker_stats_ok w \<Longrightarrow> action_stats_ok (stats_for n w)"
  by (auto simp: worker_stats_ok_def stats_for_def split: option.splits dest!: map_of_SomeD)

lemma put_stats_ok: "worker_stats_ok w \<Longrightarrow> action_stats_ok s \<Longrightarrow> worker_stats_ok (put_stats n s w)"
  by (auto simp: worker_stats_ok_def put_stats_def dest!: set_AList_update)

lemma on_action_keeps_ok [keeps_intros]:
  assumes "\<And>s s'. action_stats_ok s \<Longrightarrow> f s = Ok s' \<Longrightarrow> action_stats_ok s'"
  shows "keeps (inv_rel worker_stats_ok) (on_action n f)"
proof (rule keepsI, unfold inv_rel_def, rule impI)
  fix w assume w: "worker_stats_ok w"
  note s = stats_for_ok [OF w, of n]
  show "worker_stats_ok (snd (on_action n f w))"
    using w s put_stats_ok [OF w s] put_stats_ok [OF w assms [OF s]]
    by (cases "f (stats_for n w)") (simp_all add: on_action_def Let_def)
qed

lemma worker_call_keeps_ok: "keeps (inv_rel worker_stats_ok) (worker_call c)"
proof (cases c)
  case (S_startAction n now)
  then show ?thesis
    by (auto intro!: on_action_keeps_ok simp: action_start_def action_stats_ok_def action_getTotalCount_def)
next
  case (S_recordRows n k rows)
  then show ?thesis
    by (auto intro!: on_action_keeps_ok simp: action_recordRows_def action_stats_ok_def action_getTotalCount_def)
next
  case (S_recordSuccess n now q)
  then show ?thesis
    by (auto intro!: on_action_keeps_ok dest: action_record_ok simp: recorded_def)
next
  case (S_recordActionFailure n e now q)
  then show ?thesis
    by (auto intro!: on_action_keeps_ok dest: action_record_ok simp: recorded_def)
next
  case (S_recordSqlFailure n e now q)
  then show ?thesis
    by (auto intro!: on_action_keeps_ok dest: action_record_ok simp: recorded_def)
next
  case (S_recordOtherFailure n now q)
  then show ?thesis
    by (auto intro!: on_action_keeps_ok dest: action_record_ok simp: recorded_def)
next
  case (S_recordConflict n e now q)
  then show ?thesis
    by (auto intro!: on_action_keeps_ok dest: action_record_ok simp: recorded_def)
next
  case (S_recordTransaction o')
  then show ?thesis
    by (auto intro!: keeps_modify simp: inv_rel_def worker_stats_ok_def txn_stats_record_ok)
next
  case (S_reset now)
  then show ?thesis
    by (auto intro!: keeps_modify simp: inv_rel_def worker_stats_ok_def txn_stats_reset_ok)
qed (auto intro!: keeps_modify simp: inv_rel_def worker_stats_ok_def)

text \<open>The statistics after a list of calls, calls that throw included.\<close>

definition stat_run :: "stat_call list \<Rightarrow> worker_statistics \<Rightarrow> worker_statistics" where
  "stat_run cs w = foldl (\<lambda>w c. snd (worker_call c w)) w cs"

lemma stat_run_ok: "worker_stats_ok w \<Longrightarrow> worker_stats_ok (stat_run cs w)"
  unfolding stat_run_def
  by (induction cs arbitrary: w) (auto dest: keeps_invD [OF worker_call_keeps_ok])

lemma total_counts:
  "getTotalActionCount w = sum_list (map (action_getTotalCount \<circ> snd) (actionStats w))"
  "getTotalSuccessCount w = sum_list (map (successCount \<circ> snd) (actionStats w))"
  "getTotalFailureCount w = sum_list (map (action_getTotalFailureCount \<circ> snd) (actionStats w))"
  unfolding getTotalActionCount_def getTotalSuccessCount_def getTotalFailureCount_def
  using foldl_add_sum [of "action_getTotalCount \<circ> snd" 0] foldl_add_sum [of "successCount \<circ> snd" 0]
    foldl_add_sum [of "action_getTotalFailureCount \<circ> snd" 0]
  by (simp_all add: split_def o_def)

text \<open>
  C9: after any calls, in any order and with any arguments, the redundant counters of every
  action agree, the transaction histogram accounts for every transaction, and the worker's
  successes and failures add up to its total.
\<close>

theorem statistics_consistent:
  "worker_stats_ok (stat_run cs worker_stats_new) \<and>
   getTotalSuccessCount (stat_run cs worker_stats_new) + getTotalFailureCount (stat_run cs worker_stats_new)
     = getTotalActionCount (stat_run cs worker_stats_new)"
proof -
  have "worker_stats_ok worker_stats_new"
    by (simp add: worker_stats_ok_def worker_stats_new_def)
  moreover have "getTotalSuccessCount w + getTotalFailureCount w = getTotalActionCount w" for w
    unfolding total_counts
    by (simp add: action_getTotalCount_def action_getTotalFailureCount_def o_def algebra_simps
        flip: sum_list_addf)
  ultimately show ?thesis using stat_run_ok by blast
qed

fun outcome_call :: "stat_call \<Rightarrow> string option" where
  "outcome_call (S_recordSuccess n _ _) = Some n"
| "outcome_call (S_recordActionFailure n _ _ _) = Some n"
| "outcome_call (S_recordSqlFailure n _ _ _) = Some n"
| "outcome_call (S_recordOtherFailure n _ _) = Some n"
| "outcome_call (S_recordConflict n _ _ _) = Some n"
| "outcome_call _ = None"

lemma getTotalActionCount_put:
  "getTotalActionCount (put_stats n s w) =
     getTotalActionCount w - action_getTotalCount (stats_for n w) + action_getTotalCount s"
  using sum_AList_update [of action_getTotalCount n s "actionStats w"]
  by (simp add: total_counts put_stats_def stats_for_def action_stats_new_def
      action_getTotalCount_def split: option.splits)

text \<open>
  An outcome is counted exactly once. Recording the outcome of an action that was started
  adds one to the worker's total; recording it without a start throws and counts nothing.
\<close>

theorem outcome_counted_once:
  assumes "outcome_call c = Some n"
  shows "if startTime (stats_for n w) = 0
    then \<exists>m w'. worker_call c w = (Throw (Logic_error m), w') \<and>
           getTotalActionCount w' = getTotalActionCount w
    else \<exists>w'. worker_call c w = (Ok (), w') \<and> getTotalActionCount w' = getTotalActionCount w + 1"
  using assms
  by (cases c)
    (auto simp: on_action_def Let_def action_record_defs calculateExecutionTime_def
      getTotalActionCount_put record_times_def action_getTotalCount_def)

lemma outcome_counted_once_witness:
  "\<exists>w'. worker_call (S_recordConflict ''a'' ''40001'' 9 2)
      (snd (worker_call (S_startAction ''a'' 5) worker_stats_new)) = (Ok (), w') \<and>
     getTotalActionCount w' = 1"
proof -
  let ?w = "snd (worker_call (S_startAction ''a'' 5) worker_stats_new)"
  have "startTime (stats_for ''a'' ?w) = 5" "getTotalActionCount ?w = 0"
    by (simp_all add: on_action_def Let_def stats_for_def put_stats_def worker_stats_new_def
        action_start_def action_stats_new_def getTotalActionCount_def action_getTotalCount_def)
  with outcome_counted_once [of "S_recordConflict ''a'' ''40001'' 9 2" "''a''" ?w] show ?thesis by simp
qed

lemma timing_histogram_counts:
  "length (t_histogram (foldl (\<lambda>t d. timing_record d t) timing_new ds)) = 7 \<and>
   (\<forall>b < 7. t_histogram (foldl (\<lambda>t d. timing_record d t) timing_new ds) ! b =
     of_nat (length (filter (\<lambda>d. timing_bucket d = b) ds)))"
proof (induction ds rule: rev_induct)
  case (snoc d ds)
  with timing_bucket_lt [of d] show ?case
    by (auto simp: timing_record_def timing_histogram_record_def bump_bucket_def nth_list_update)
qed (auto simp: timing_new_def)

text \<open>
  A timing aggregate is what its name says of the samples recorded so far: their sum, their
  smallest, their largest (0 at least) and their number, with one histogram entry per sample.
\<close>

theorem timing_aggregates:
  "let t = foldl (\<lambda>t d. timing_record d t) timing_new ds in
     totalTime t = sum_list ds \<and> minTime t = Min (set (duration_max # ds)) \<and>
     maxTime t = Max (set (0 # ds)) \<and> t_count t = of_nat (length ds) \<and>
     t_histogram t = map (\<lambda>b. of_nat (length (filter (\<lambda>d. timing_bucket d = b) ds))) [0..<7]"
proof -
  let ?t = "foldl (\<lambda>t d. timing_record d t) timing_new ds"
  have "totalTime ?t = sum_list ds \<and> minTime ?t = Min (set (duration_max # ds)) \<and>
     maxTime ?t = Max (set (0 # ds)) \<and> t_count ?t = of_nat (length ds)"
  proof (induction ds rule: rev_induct)
    case (snoc d ds)
    have ins: "Set.insert x (set (ds @ [d])) = Set.insert d (set (x # ds))" for x by auto
    have "Min (set (duration_max # ds @ [d])) = min (Min (set (duration_max # ds))) d"
      "Max (set (0 # ds @ [d])) = max (Max (set (0 # ds))) d"
      by (simp_all only: list.set(2) ins) (simp_all add: Min_insert min.commute max.commute)
    with snoc show ?case by (auto simp: timing_record_def)
  qed (simp add: timing_new_def)
  moreover have "t_histogram ?t = map (\<lambda>b. of_nat (length (filter (\<lambda>d. timing_bucket d = b) ds))) [0..<7]"
    using timing_histogram_counts [of ds] by (intro nth_equalityI) auto
  ultimately show ?thesis by (simp add: Let_def)
qed

end
