(* ===== verification/Sql_Variant.thy ===== *)
theory Sql_Variant
  imports Run_Statistics
begin

text \<open>
  The database connections (core/include/sql_variant/, core/src/sql_variant/): server flavors and
  versions, error classification, the two drivers' error handling and parameter passing, and
  \<open>LoggedSQL\<close>, the wrapper every action talks to.

  The client libraries (libpqxx, libmysqlclient) and the server behind them are not code of the
  repository: what a library call answers is an argument of the driver functions
  (\<open>pg_answer\<close>, \<open>mysql_answer\<close>, the escaping function), and a connection holds an arbitrary
  function \<open>server\<close> from the calls sent so far and the next call to its result. The cursors of the results,
  the log lines, and how a connection is opened and closed are in \<open>Sql_Connections\<close>.
\<close>

section \<open>Flavors and versions\<close>

datatype flavor = ANY_MYSQL | ANY_PG | fl_ps | fl_pxc | fl_mysql | fl_postgres | fl_ppg

record server_info =
  si_flavor :: flavor
  si_version :: "64 word"

definition is_mysql_like :: "server_info \<Rightarrow> bool" where
  "is_mysql_like s \<longleftrightarrow> si_flavor s = fl_ps \<or> si_flavor s = fl_pxc \<or> si_flavor s = fl_mysql \<or>
     si_flavor s = ANY_MYSQL"

definition is_pg_like :: "server_info \<Rightarrow> bool" where
  "is_pg_like s \<longleftrightarrow> si_flavor s = fl_postgres \<or> si_flavor s = fl_ppg \<or> si_flavor s = ANY_PG"

definition matching_any :: "server_info \<Rightarrow> flavor \<Rightarrow> bool" where
  "matching_any s fl = (if fl = ANY_MYSQL \<and> is_mysql_like s then True
     else if fl = ANY_PG \<and> is_pg_like s then True else fl = si_flavor s)"

definition after_or_is :: "server_info \<Rightarrow> flavor \<Rightarrow> 64 word \<Rightarrow> bool" where
  "after_or_is s fl ver = (if \<not> matching_any s fl then False else si_version s \<ge> ver)"

definition before :: "server_info \<Rightarrow> flavor \<Rightarrow> 64 word \<Rightarrow> bool" where
  "before s fl ver = (if \<not> matching_any s fl then False else si_version s < ver)"

definition between :: "server_info \<Rightarrow> flavor \<Rightarrow> 64 word \<Rightarrow> 64 word \<Rightarrow> bool" where
  "between s fl verMin verMax = (if \<not> matching_any s fl then False
     else si_version s \<ge> verMin \<and> si_version s \<le> verMax)"

section \<open>Results\<close>

record error_info =
  errorCode :: string
  errorMessage :: string
  errorStatus :: sql_status
  errorClass :: error_class

text \<open>The rows of a result, \<open>None\<close> for NULL.\<close>

record query_data =
  numFields :: nat
  dataRows :: "string option list list"

definition numRows :: "query_data \<Rightarrow> nat" where
  "numRows d = length (dataRows d)"

definition rowAt :: "query_data \<Rightarrow> nat \<Rightarrow> string option list result" where
  "rowAt d index = (if index \<ge> numRows d then Throw (Out_of_range ''row index out of range'')
     else Ok (dataRows d ! index))"

record query_result =
  qr_query :: string
  executionTime :: int
  errorInfo :: error_info
  affectedRows :: "64 word"
  qr_data :: "query_data option"

definition qr_success :: "query_result \<Rightarrow> bool" where
  "qr_success r \<longleftrightarrow> errorStatus (errorInfo r) = St_success"

definition result_exception :: "query_result \<Rightarrow> exn" where
  "result_exception r = Sql_Exception (errorCode (errorInfo r))
     (''Error while executing query: '' @ errorCode (errorInfo r) @ '' '' @ errorMessage (errorInfo r))
     (errorStatus (errorInfo r)) (errorClass (errorInfo r))"

definition maybeThrow :: "query_result \<Rightarrow> unit result" where
  "maybeThrow r = (if \<not> qr_success r then Throw (result_exception r) else Ok ())"

record param =
  param_value :: "string option"
  param_binary :: bool

section \<open>Error classification\<close>

definition classify_pg_sqlstate :: "string \<Rightarrow> error_class" where
  "classify_pg_sqlstate st = (if st = ''40001'' \<or> st = ''40P01'' then Ec_conflict
     else if st = ''25P02'' then Ec_failedTxn else Ec_other)"

definition classify_mysql_errno :: "nat \<Rightarrow> error_class" where
  "classify_mysql_errno errcode = (if errcode = 1213 \<or> errcode = 1205 then Ec_conflict else Ec_other)"

text \<open>\<open>CR_SERVER_GONE_ERROR\<close> and \<open>CR_SERVER_LOST\<close> of the client library are 2006 and 2013.\<close>

definition statusForError :: "nat \<Rightarrow> sql_status" where
  "statusForError errCode = (if errCode = 2006 \<or> errCode = 2013 then St_serverGone else St_error)"

section \<open>The PostgreSQL driver\<close>

text \<open>What libpqxx answers: a result, one of the two exceptions the driver catches, or another
  exception, which passes through.\<close>

datatype pg_answer =
    Pg_ok "64 word" query_data
  | Pg_sql_error string string
  | Pg_broken_connection string
  | Pg_other_exception string

definition run_pg_query :: "string \<Rightarrow> int \<Rightarrow> pg_answer \<Rightarrow> query_result result" where
  "run_pg_query query time a = (case a of
       Pg_ok affected d \<Rightarrow> Ok \<lparr>qr_query = query, executionTime = time,
         errorInfo = \<lparr>errorCode = [], errorMessage = [], errorStatus = St_success, errorClass = Ec_none\<rparr>,
         affectedRows = affected, qr_data = Some d\<rparr>
     | Pg_sql_error sqlstate what \<Rightarrow> Ok \<lparr>qr_query = query, executionTime = time,
         errorInfo = \<lparr>errorCode = sqlstate, errorMessage = what, errorStatus = St_error,
           errorClass = classify_pg_sqlstate sqlstate\<rparr>,
         affectedRows = 0, qr_data = None\<rparr>
     | Pg_broken_connection what \<Rightarrow> Ok \<lparr>qr_query = query, executionTime = time,
         errorInfo = \<lparr>errorCode = ''0'', errorMessage = what, errorStatus = St_serverGone,
           errorClass = Ec_serverGone\<rparr>,
         affectedRows = 0, qr_data = None\<rparr>
     | Pg_other_exception what \<Rightarrow> Throw (Runtime_error what))"

record server_params =
  sp_database :: string
  sp_address :: string
  sp_socket :: string
  sp_username :: string
  sp_password :: string
  sp_port :: "16 word"
  sp_maxpacket :: "64 word"

definition build_connection_string :: "server_params \<Rightarrow> string" where
  "build_connection_string p =
     ''dbname='' @ sp_database p @
     (if sp_username p \<noteq> [] then '' user='' @ sp_username p else []) @
     (if sp_password p \<noteq> [] then '' password='' @ sp_password p else []) @
     (if sp_address p \<noteq> [] then '' host='' @ sp_address p
      else if sp_socket p \<noteq> [] then '' host='' @ sp_socket p else []) @
     (if sp_port p \<noteq> 0 \<and> sp_port p \<noteq> 5432 then '' port='' @ fmt_nat (unat (sp_port p)) else [])"

section \<open>The MySQL driver\<close>

text \<open>
  What the client library answers to one query: the return value of \<open>mysql_real_query\<close>, the error
  number and text after it, the stored result (none for statements without rows), the error number
  and text after storing it, and the affected rows.
\<close>

record mysql_answer =
  my_ret :: nat
  my_errno :: nat
  my_error :: string
  my_result :: "query_data option"
  my_store_errno :: nat
  my_store_error :: string
  my_affected :: "64 word"

definition mysql_error_info :: "nat \<Rightarrow> string \<Rightarrow> error_info" where
  "mysql_error_info errCode msg =
     (let st = statusForError errCode in
      \<lparr>errorCode = fmt_nat errCode, errorMessage = msg, errorStatus = st,
       errorClass = (if st = St_serverGone then Ec_serverGone else classify_mysql_errno errCode)\<rparr>)"

definition mysql_executeQuery :: "string \<Rightarrow> int \<Rightarrow> mysql_answer \<Rightarrow> query_result" where
  "mysql_executeQuery query time a =
     (let base = \<lparr>qr_query = query, executionTime = time,
            errorInfo = \<lparr>errorCode = fmt_nat (my_errno a), errorMessage = my_error a,
              errorStatus = St_success, errorClass = Ec_none\<rparr>,
            affectedRows = 0, qr_data = None\<rparr>
      in if my_ret a = 1 then base\<lparr>errorInfo := mysql_error_info (my_errno a) (my_error a)\<rparr>
         else if my_result a = None \<and> my_store_errno a \<noteq> 0
         then base\<lparr>errorInfo := mysql_error_info (my_store_errno a) (my_store_error a)\<rparr>
         else base\<lparr>qr_data := Some (case my_result a of
                  None \<Rightarrow> \<lparr>numFields = 0, dataRows = []\<rparr> | Some d \<Rightarrow> d),
                affectedRows := my_affected a\<rparr>)"

subsection \<open>Parameter splicing\<close>

definition hex_digit :: "nat \<Rightarrow> char" where
  "hex_digit n = ''0123456789ABCDEF'' ! n"

definition hex_bytes :: "string \<Rightarrow> string" where
  "hex_bytes s = concat (map (\<lambda>c. [hex_digit ((of_char c :: nat) div 16), hex_digit (of_char c mod 16)]) s)"

definition quote_char :: char where
  "quote_char = CHR 0x27"

text \<open>\<open>esc\<close> stands for \<open>mysql_real_escape_string\<close>, \<open>None\<close> for its error return.\<close>

definition escape_param :: "(string \<Rightarrow> string option) \<Rightarrow> param \<Rightarrow> string option" where
  "escape_param esc p = (case param_value p of
       None \<Rightarrow> Some ''NULL''
     | Some v \<Rightarrow> if param_binary p then Some (CHR ''X'' # quote_char # hex_bytes v @ [quote_char])
                  else map_option (\<lambda>b. quote_char # b @ [quote_char]) (esc v))"

datatype splice = Spliced string | Params_mismatch | Params_escape_failed

fun splice_cons :: "string \<Rightarrow> splice \<Rightarrow> splice" where
  "splice_cons s (Spliced t) = Spliced (s @ t)"
| "splice_cons s r = r"

definition is_quote :: "char \<Rightarrow> bool" where
  "is_quote c \<longleftrightarrow> c = quote_char \<or> c = CHR 0x22 \<or> c = CHR 0x60"

text \<open>The scanner: the open quote if any, the rest of the query, the parameters left.\<close>

fun splice_params ::
  "(string \<Rightarrow> string option) \<Rightarrow> char option \<Rightarrow> string \<Rightarrow> param list \<Rightarrow> splice" where
  "splice_params esc quote [] ps = (if ps \<noteq> [] then Params_mismatch else Spliced [])"
| "splice_params esc (Some q) [c] ps =
     splice_cons [c] (splice_params esc (if c = q then None else Some q) [] ps)"
| "splice_params esc (Some q) (c # d # cs) ps =
     (if c = CHR 0x5C \<and> q \<noteq> CHR 0x60 then splice_cons [c, d] (splice_params esc (Some q) cs ps)
      else splice_cons [c] (splice_params esc (if c = q then None else Some q) (d # cs) ps))"
| "splice_params esc None (c # cs) ps =
     (if is_quote c then splice_cons [c] (splice_params esc (Some c) cs ps)
      else if c = CHR ''?'' then (case ps of
           [] \<Rightarrow> Params_mismatch
         | p # ps' \<Rightarrow> (case escape_param esc p of
               None \<Rightarrow> Params_escape_failed
             | Some e \<Rightarrow> splice_cons e (splice_params esc None cs ps')))
      else splice_cons [c] (splice_params esc None cs ps))"

definition splice_failure :: "string \<Rightarrow> string \<Rightarrow> string \<Rightarrow> query_result" where
  "splice_failure query code message = \<lparr>qr_query = query, executionTime = 0,
     errorInfo = \<lparr>errorCode = code, errorMessage = message, errorStatus = St_error, errorClass = Ec_other\<rparr>,
     affectedRows = 0, qr_data = None\<rparr>"

definition mysql_executeParams ::
  "(string \<Rightarrow> string option) \<Rightarrow> (string \<Rightarrow> query_result) \<Rightarrow> string \<Rightarrow> param list \<Rightarrow> query_result" where
  "mysql_executeParams esc exec query ps = (case splice_params esc None query ps of
       Spliced expanded \<Rightarrow> exec expanded
     | Params_mismatch \<Rightarrow> splice_failure query ''params-mismatch''
         ''placeholder/parameter count mismatch''
     | Params_escape_failed \<Rightarrow> splice_failure query ''params-escape-failed''
         ''mysql_real_escape_string rejected parameter'')"

subsection \<open>Version parsing\<close>

text \<open>
  \<open>std::stoul\<close>: leading blanks, an optional sign, decimal digits, the rest ignored; an exception
  without a digit or out of range, which the caller turns into 0. A minus sign negates modulo
  \<open>2 ^ 64\<close>.
\<close>

definition is_space :: "char \<Rightarrow> bool" where
  "is_space c \<longleftrightarrow> c = CHR 0x20 \<or> (9 \<le> (of_char c :: nat) \<and> (of_char c :: nat) \<le> 13)"

definition stoul :: "string \<Rightarrow> 64 word option" where
  "stoul s = (let t = dropWhile is_space s;
       neg = (t \<noteq> [] \<and> hd t = CHR ''-'');
       u = (if t \<noteq> [] \<and> (hd t = CHR ''-'' \<or> hd t = CHR ''+'') then tl t else t);
       ds = takeWhile is_digit u
     in if ds = [] \<or> digits_value ds \<ge> 2 ^ 64 then None
        else Some (if neg then - of_nat (digits_value ds) else of_nat (digits_value ds)))"

definition parseVersionComponent :: "string \<Rightarrow> 64 word" where
  "parseVersionComponent s = (case stoul s of None \<Rightarrow> 0 | Some n \<Rightarrow> n)"

text \<open>\<open>find('.')\<close> and the two \<open>substr\<close> around it.\<close>

fun split_at :: "char \<Rightarrow> string \<Rightarrow> (string \<times> string) option" where
  "split_at d [] = None"
| "split_at d (c # cs) = (if c = d then Some ([], cs)
     else map_option (\<lambda>(a, b). (c # a, b)) (split_at d cs))"

definition mysql_version :: "string \<Rightarrow> 64 word" where
  "mysql_version versionInfo = (case split_at (CHR ''.'') versionInfo of
       None \<Rightarrow> 0
     | Some (a, r) \<Rightarrow> parseVersionComponent a * 10000 + (case split_at (CHR ''.'') r of
           None \<Rightarrow> 0
         | Some (b, r') \<Rightarrow> parseVersionComponent b * 100 +
             parseVersionComponent (case split_at (CHR ''.'') r' of None \<Rightarrow> r' | Some (c, _) \<Rightarrow> c)))"

definition mysql_calculateServerInfo :: "string \<Rightarrow> query_result \<Rightarrow> server_info" where
  "mysql_calculateServerInfo versionInfo res =
     \<lparr>si_flavor = (if qr_success res \<and> (case qr_data res of None \<Rightarrow> False | Some d \<Rightarrow> numRows d > 0) then fl_pxc
        else if CHR ''-'' \<in> set versionInfo then fl_ps else fl_mysql),
      si_version = mysql_version versionInfo\<rparr>"

definition pg_calculateServerInfo :: "int \<Rightarrow> server_info" where
  "pg_calculateServerInfo v = \<lparr>si_flavor = fl_postgres, si_version = of_int v\<rparr>"

datatype driver = Driver_mysql | Driver_postgres

definition connect_driver :: "string \<Rightarrow> driver result" where
  "connect_driver serverType = (if serverType = ''mysql'' then Ok Driver_mysql
     else if serverType = ''postgres'' then Ok Driver_postgres
     else Throw (Sql_Exception ''unknown-database-type'' (''Unknown database type: '' @ serverType)
       St_error Ec_other))"

section \<open>Statement classification\<close>

datatype stmt_kind = Sk_select | Sk_insert | Sk_update | Sk_del | Sk_with | Sk_other

fun after_newline :: "string \<Rightarrow> string option" where
  "after_newline [] = None"
| "after_newline (c # cs) = (if c = CHR 0x0A then Some cs else after_newline cs)"

fun after_close :: "string \<Rightarrow> string option" where
  "after_close (c # d # cs) = (if c = CHR ''*'' \<and> d = CHR ''/'' then Some cs else after_close (d # cs))"
| "after_close _ = None"

lemma after_newline_length: "after_newline s = Some r \<Longrightarrow> length r < length s"
  by (induction s) (auto split: if_splits)

lemma after_close_length: "after_close s = Some r \<Longrightarrow> length r < length s"
  by (induction s rule: after_close.induct) (auto split: if_splits)

lemma after_close_drop: "after_close (drop n s) = Some r \<Longrightarrow> length r < Suc (length s)"
  using after_close_length [of "drop n s" r] by simp

text \<open>The scan for the first keyword; \<open>None\<close> is an unterminated comment.\<close>

function skip_blank :: "string \<Rightarrow> string option" where
  "skip_blank [] = Some []"
| "skip_blank (c # cs) =
     (if is_space c then skip_blank cs
      else if take 2 (c # cs) = ''--'' then
        (case after_newline (c # cs) of None \<Rightarrow> None | Some r \<Rightarrow> skip_blank r)
      else if take 2 (c # cs) = ''/*'' then
        (case after_close (drop 2 (c # cs)) of None \<Rightarrow> None | Some r \<Rightarrow> skip_blank r)
      else Some (c # cs))"
  by pat_completeness auto
termination
  by (relation "measure length")
    (auto dest!: after_newline_length after_close_drop simp del: after_newline.simps)

definition is_word_char :: "char \<Rightarrow> bool" where
  "is_word_char c \<longleftrightarrow> is_digit c \<or> (65 \<le> (of_char c :: nat) \<and> (of_char c :: nat) \<le> 90) \<or>
     (97 \<le> (of_char c :: nat) \<and> (of_char c :: nat) \<le> 122) \<or> c = CHR ''_''"

definition to_lower :: "char \<Rightarrow> char" where
  "to_lower c = (if 65 \<le> (of_char c :: nat) \<and> (of_char c :: nat) \<le> 90
     then char_of ((of_char c :: nat) + 32) else c)"

definition keyword_kind :: "string \<Rightarrow> stmt_kind" where
  "keyword_kind w = (if w = ''select'' then Sk_select else if w = ''insert'' then Sk_insert
     else if w = ''update'' then Sk_update else if w = ''delete'' then Sk_del
     else if w = ''with'' then Sk_with else Sk_other)"

definition classifyStatement :: "string \<Rightarrow> stmt_kind" where
  "classifyStatement query = (case skip_blank query of
       None \<Rightarrow> Sk_other
     | Some r \<Rightarrow> keyword_kind (map to_lower (takeWhile is_word_char r)))"

section \<open>LoggedSQL\<close>

datatype sql_call = Sql_query string | Sql_params string "param list"

record logged_sql =
  conn_info :: server_info
  server :: "sql_call list \<Rightarrow> sql_call \<Rightarrow> query_result"
  sent :: "sql_call list"
  accumulatedSqlTime :: int
  queryCount :: "64 word"
  currentAction :: string
  rowObservations :: "row_observation list"
  txnOutcomes :: "transaction_outcome list"

definition observation :: "string \<Rightarrow> string \<Rightarrow> query_result \<Rightarrow> row_observation list" where
  "observation action query res =
     (let hasData = (case qr_data res of None \<Rightarrow> False | Some d \<Rightarrow> numFields d > 0);
          nrows = (case qr_data res of None \<Rightarrow> 0 | Some d \<Rightarrow> of_nat (numRows d));
          ob = (\<lambda>kind rows. [\<lparr>ro_action = action, ro_kind = kind, ro_rows = rows\<rparr>])
      in case classifyStatement query of
           Sk_select \<Rightarrow> ob ''select'' (if hasData then nrows else 0)
         | Sk_insert \<Rightarrow> ob ''insert'' (affectedRows res)
         | Sk_update \<Rightarrow> ob ''update'' (affectedRows res)
         | Sk_del \<Rightarrow> ob ''delete'' (affectedRows res)
         | Sk_with \<Rightarrow> if hasData then ob ''select'' nrows else ob ''dml'' (affectedRows res)
         | Sk_other \<Rightarrow> [])"

definition observeResult :: "string \<Rightarrow> query_result \<Rightarrow> logged_sql \<Rightarrow> logged_sql" where
  "observeResult query res c =
     c\<lparr>rowObservations := rowObservations c @ observation (currentAction c) query res\<rparr>"

text \<open>One call on the wire, with the bookkeeping \<open>executeQuery\<close> and \<open>executeParams\<close> share.\<close>

definition sql_send :: "sql_call \<Rightarrow> string \<Rightarrow> (logged_sql, query_result) prog" where
  "sql_send call query = (\<lambda>c.
     let res = server c (sent c) call;
         c' = c\<lparr>queryCount := queryCount c + 1, sent := sent c @ [call],
                accumulatedSqlTime := accumulatedSqlTime c + executionTime res\<rparr>
     in (Ok res, if qr_success res then observeResult query res c' else c'))"

definition conn_executeQuery :: "string \<Rightarrow> (logged_sql, query_result) prog" where
  "conn_executeQuery query = sql_send (Sql_query query) query"

definition conn_executeParams :: "string \<Rightarrow> param list \<Rightarrow> (logged_sql, query_result) prog" where
  "conn_executeParams query ps = sql_send (Sql_params query ps) query"

definition conn_safeQuery :: "string \<Rightarrow> param list \<Rightarrow> (logged_sql, query_result) prog" where
  "conn_safeQuery query ps =
     bind (if ps = [] then conn_executeQuery query else conn_executeParams query ps) (\<lambda>res.
     seq (lift_result (maybeThrow res)) (ret res))"

definition conn_querySingleValue :: "string \<Rightarrow> (logged_sql, string option) prog" where
  "conn_querySingleValue q = bind (conn_executeQuery q) (\<lambda>res.
     if \<not> qr_success res then ret None
     else case qr_data res of
         None \<Rightarrow> ret None
       | Some d \<Rightarrow> if numFields d < 1 \<or> numRows d < 1 then ret None
                    else ret (dataRows d ! 0 ! 0))"

definition conn_setCurrentAction :: "string \<Rightarrow> logged_sql \<Rightarrow> logged_sql" where
  "conn_setCurrentAction n c = c\<lparr>currentAction := n\<rparr>"

text \<open>\<open>scopedActionName\<close>: the name is set for the scope of \<open>m\<close> and restored by the destructor.\<close>

definition scoped_action :: "string \<Rightarrow> (logged_sql, 'a) prog \<Rightarrow> (logged_sql, 'a) prog" where
  "scoped_action n m = (\<lambda>c. destructor (seq (modify (conn_setCurrentAction n)) m)
     (conn_setCurrentAction (currentAction c)) c)"

definition conn_recordTransactionOutcome :: "transaction_outcome \<Rightarrow> logged_sql \<Rightarrow> logged_sql" where
  "conn_recordTransactionOutcome o' c = c\<lparr>txnOutcomes := txnOutcomes c @ [o']\<rparr>"

definition conn_drainRowObservations :: "logged_sql \<Rightarrow> row_observation list \<times> logged_sql" where
  "conn_drainRowObservations c = (rowObservations c, c\<lparr>rowObservations := []\<rparr>)"

definition conn_drainTransactionOutcomes :: "logged_sql \<Rightarrow> transaction_outcome list \<times> logged_sql" where
  "conn_drainTransactionOutcomes c = (txnOutcomes c, c\<lparr>txnOutcomes := []\<rparr>)"

definition conn_clearObservations :: "logged_sql \<Rightarrow> logged_sql" where
  "conn_clearObservations c = c\<lparr>rowObservations := [], txnOutcomes := []\<rparr>"

definition conn_resetAccumulatedSqlTime :: "logged_sql \<Rightarrow> logged_sql" where
  "conn_resetAccumulatedSqlTime c = c\<lparr>accumulatedSqlTime := 0\<rparr>"

section \<open>Lemmas and properties\<close>

subsection \<open>Errors\<close>

text \<open>
  A consistent error description: success has class \<open>none\<close> and nothing else has, and the class
  \<open>serverGone\<close> goes with the status \<open>serverGone\<close>.
\<close>

definition error_info_wf :: "error_info \<Rightarrow> bool" where
  "error_info_wf e \<longleftrightarrow> (errorStatus e = St_success \<longleftrightarrow> errorClass e = Ec_none) \<and>
     (errorStatus e = St_serverGone \<longleftrightarrow> errorClass e = Ec_serverGone)"

lemma mysql_error_info_wf: "error_info_wf (mysql_error_info n m)"
  by (simp add: error_info_wf_def mysql_error_info_def Let_def statusForError_def
      classify_mysql_errno_def)

text \<open>
  C10: whatever the client libraries answer, both drivers describe the outcome consistently: class
  \<open>none\<close> exactly on success, \<open>serverGone\<close> as status exactly when it is the class; an unsuccessful
  result carries no data, and the exception \<open>maybeThrow\<close> raises for it says serverGone exactly
  when the connection is lost.
\<close>

theorem driver_errors_consistent:
  assumes "run_pg_query q time a = Ok r \<or> r = mysql_executeQuery q time b \<or>
    (\<exists>esc ps. r = mysql_executeParams esc (\<lambda>s. mysql_executeQuery s time b) q ps)"
  shows "error_info_wf (errorInfo r) \<and> (\<not> qr_success r \<longrightarrow> qr_data r = None \<and>
    maybeThrow r = Throw (result_exception r) \<and>
    (serverGone (result_exception r) \<longleftrightarrow> errorClass (errorInfo r) = Ec_serverGone))"
proof -
  have my: "error_info_wf (errorInfo (mysql_executeQuery s time b)) \<and>
      (\<not> qr_success (mysql_executeQuery s time b) \<longrightarrow> qr_data (mysql_executeQuery s time b) = None)" for s
    using mysql_error_info_wf [of "my_errno b" "my_error b"]
      mysql_error_info_wf [of "my_store_errno b" "my_store_error b"]
    by (auto simp: mysql_executeQuery_def Let_def qr_success_def error_info_wf_def)
  have "error_info_wf (errorInfo r) \<and> (\<not> qr_success r \<longrightarrow> qr_data r = None)"
    using assms
  proof (elim disjE exE)
    assume "run_pg_query q time a = Ok r"
    then show ?thesis
      by (cases a) (auto simp: run_pg_query_def error_info_wf_def qr_success_def classify_pg_sqlstate_def
          split: if_splits)
  next
    fix esc ps assume "r = mysql_executeParams esc (\<lambda>s. mysql_executeQuery s time b) q ps"
    with my show ?thesis
      by (auto simp: mysql_executeParams_def splice_failure_def error_info_wf_def qr_success_def
          split: splice.splits)
  qed (use my in simp)
  then show ?thesis
    by (auto simp: maybeThrow_def serverGone_def result_exception_def error_info_wf_def)
qed

lemma driver_errors_consistent_witness:
  "\<exists>r. run_pg_query ''COMMIT'' 7 (Pg_sql_error ''40001'' ''could not serialize'') = Ok r \<and>
     errorClass (errorInfo r) = Ec_conflict \<and> error_info_wf (errorInfo r) \<and> qr_data r = None"
proof -
  obtain r where r: "run_pg_query ''COMMIT'' 7 (Pg_sql_error ''40001'' ''could not serialize'') = Ok r"
    by (simp add: run_pg_query_def)
  then have "errorClass (errorInfo r) = Ec_conflict" "\<not> qr_success r"
    by (auto simp: run_pg_query_def classify_pg_sqlstate_def qr_success_def)
  with driver_errors_consistent [OF disjI1, OF r] r show ?thesis by blast
qed

subsection \<open>Versions\<close>

lemma takeWhile_digits_fmt:
  "(cs = [] \<or> \<not> is_digit (hd cs)) \<Longrightarrow> takeWhile is_digit (fmt_nat n @ cs) = fmt_nat n"
  using is_digit_fmt_nat [of _ n] by (subst takeWhile_append2) (auto simp: takeWhile_eq_Nil_iff)

lemma fmt_nat_head: "fmt_nat n \<noteq> [] \<and> is_digit (hd (fmt_nat n))"
  using is_digit_fmt_nat [of "hd (fmt_nat n)" n] by simp

lemma digit_not_other:
  "is_digit c \<Longrightarrow> \<not> is_space c \<and> c \<noteq> CHR ''-'' \<and> c \<noteq> CHR ''+'' \<and> c \<noteq> CHR ''.''"
  by (auto simp: is_digit_def is_space_def)

lemma parse_fmt_nat:
  assumes "n < 2 ^ 64" and "cs = [] \<or> \<not> is_digit (hd cs)"
  shows "parseVersionComponent (fmt_nat n @ cs) = of_nat n"
proof -
  have h: "\<not> is_space (hd (fmt_nat n @ cs))" "hd (fmt_nat n @ cs) \<noteq> CHR ''-''"
    "hd (fmt_nat n @ cs) \<noteq> CHR ''+''" "fmt_nat n @ cs \<noteq> []"
    using fmt_nat_head [of n] digit_not_other [of "hd (fmt_nat n)"] by (auto simp: hd_append)
  then have "dropWhile is_space (fmt_nat n @ cs) = fmt_nat n @ cs"
    by (cases "fmt_nat n @ cs") auto
  with h assms show ?thesis
    by (simp add: parseVersionComponent_def stoul_def Let_def takeWhile_digits_fmt not_le)
qed

lemma split_at_fmt: "split_at (CHR ''.'') (fmt_nat n @ CHR ''.'' # r) = Some (fmt_nat n, r)"
proof -
  have "\<forall>c\<in>set ds. c \<noteq> CHR ''.'' \<Longrightarrow> split_at (CHR ''.'') (ds @ CHR ''.'' # r) = Some (ds, r)" for ds
    by (induction ds) auto
  moreover have "\<forall>c\<in>set (fmt_nat n). c \<noteq> CHR ''.''"
    using is_digit_fmt_nat digit_not_other by blast
  ultimately show ?thesis by blast
qed

lemma split_at_None: "d \<notin> set s \<Longrightarrow> split_at d s = None"
  by (induction s) auto

text \<open>
  The MySQL version number is read back right: from \<open>X.Y.Z\<close> followed by any vendor suffix
  that does not begin with a digit or contain another dot, the server version is
  \<open>10000 X + 100 Y + Z\<close> (in 64-bit arithmetic).
\<close>

theorem mysql_version_roundtrip:
  assumes "x < 2 ^ 64" "y < 2 ^ 64" "z < 2 ^ 64"
    and "suffix = [] \<or> \<not> is_digit (hd suffix)" and "CHR ''.'' \<notin> set suffix"
  shows "mysql_version (fmt_nat x @ ''.'' @ fmt_nat y @ ''.'' @ fmt_nat z @ suffix)
    = of_nat (10000 * x + 100 * y + z)"
proof -
  have "CHR ''.'' \<notin> set (fmt_nat z @ suffix)"
    using assms(5) is_digit_fmt_nat [of "CHR ''.''" z] digit_not_other by auto
  from split_at_None [OF this] parse_fmt_nat [of x "[]"] parse_fmt_nat [of y "[]"]
    parse_fmt_nat [of z suffix] assms
  show ?thesis
    by (simp add: mysql_version_def split_at_fmt algebra_simps)
qed

lemma mysql_version_roundtrip_witness:
  "mysql_version (fmt_nat 8 @ ''.'' @ fmt_nat 0 @ ''.'' @ fmt_nat 36 @ ''-28'') = 80036"
  using mysql_version_roundtrip [of 8 0 36 "''-28''"] by (simp add: is_digit_def)

subsection \<open>Statements\<close>

text \<open>What may precede the keyword: blanks, line comments, block comments.\<close>

datatype blank = Blank_space char | Blank_line string | Blank_block string

fun blank_ok :: "blank \<Rightarrow> bool" where
  "blank_ok (Blank_space c) = is_space c"
| "blank_ok (Blank_line s) = (CHR 0x0A \<notin> set s)"
| "blank_ok (Blank_block s) = (after_close s = None)"

fun blank_text :: "blank \<Rightarrow> string" where
  "blank_text (Blank_space c) = [c]"
| "blank_text (Blank_line s) = ''--'' @ s @ [CHR 0x0A]"
| "blank_text (Blank_block s) = ''/*'' @ s @ ''*/''"

lemma after_newline_text: "CHR 0x0A \<notin> set s \<Longrightarrow> after_newline (s @ CHR 0x0A # r) = Some r"
  by (induction s) auto

lemma after_close_text: "after_close s = None \<Longrightarrow> after_close (s @ CHR ''*'' # CHR ''/'' # r) = Some r"
  by (induction s rule: after_close.induct) (auto split: if_splits)

lemma skip_blank_text:
  assumes "blank_ok b"
  shows "skip_blank (blank_text b @ q) = skip_blank q"
proof (cases b)
  case (Blank_space c)
  with assms show ?thesis by simp
next
  case (Blank_line s)
  with assms have "CHR 0x0A \<notin> set s" by simp
  from after_newline_text [OF this, of q] Blank_line show ?thesis
    by (simp add: is_space_def)
next
  case (Blank_block s)
  with assms have "after_close s = None" by simp
  from after_close_text [OF this, of q] Blank_block show ?thesis
    by (simp add: is_space_def)
qed

lemma skip_blanks: "\<forall>b\<in>set bs. blank_ok b \<Longrightarrow> skip_blank (concat (map blank_text bs) @ q) = skip_blank q"
  by (induction bs) (auto simp: skip_blank_text)

text \<open>
  C11: the classification sees through blanks and comments, ignores case, and looks at the whole
  first word only: any sequence of blanks and comments, then a word in any case, then the end or a
  character that is no word character, is classified by the word.
\<close>

theorem classifyStatement_first_word:
  assumes "\<forall>b\<in>set bs. blank_ok b"
    and "w \<noteq> []" "\<forall>c\<in>set w. is_word_char c" and "rest = [] \<or> \<not> is_word_char (hd rest)"
  shows "classifyStatement (concat (map blank_text bs) @ w @ rest) = keyword_kind (map to_lower w)"
proof -
  obtain c cs where w: "w = c # cs" using assms(2) by (cases w) auto
  with assms(3) have "is_word_char c" by simp
  then have "\<not> is_space c" "c \<noteq> CHR ''-''" "c \<noteq> CHR ''/''"
    by (auto simp: is_word_char_def is_digit_def is_space_def)
  then have "skip_blank (w @ rest) = Some (w @ rest)" by (simp add: w)
  moreover have "takeWhile is_word_char (w @ rest) = w"
    using assms(3,4) by (subst takeWhile_append2) (auto simp: takeWhile_eq_Nil_iff)
  ultimately show ?thesis by (simp add: classifyStatement_def skip_blanks [OF assms(1)])
qed

lemma classifyStatement_first_word_witness:
  "classifyStatement (''  '' @ ''/* x -- */'' @ ''-- y'' @ [CHR 0x0A] @ ''DeLeTe'' @ '' from t'') = Sk_del"
proof -
  let ?bs = "[Blank_space (CHR '' ''), Blank_space (CHR '' ''), Blank_block '' x -- '', Blank_line '' y'']"
  have "\<forall>b\<in>set ?bs. blank_ok b" by (simp add: is_space_def)
  moreover have "keyword_kind (map to_lower ''DeLeTe'') = Sk_del" by code_simp
  ultimately show ?thesis
    using classifyStatement_first_word [of ?bs "''DeLeTe''" "'' from t''"]
    by (simp add: is_word_char_def is_digit_def)
qed

subsection \<open>Parameters\<close>

text \<open>The \<open>?\<close> outside quotes, as the scanner sees quotes.\<close>

fun placeholders :: "char option \<Rightarrow> string \<Rightarrow> nat" where
  "placeholders quote [] = 0"
| "placeholders (Some q) [c] = 0"
| "placeholders (Some q) (c # d # cs) =
     (if c = CHR 0x5C \<and> q \<noteq> CHR 0x60 then placeholders (Some q) cs
      else placeholders (if c = q then None else Some q) (d # cs))"
| "placeholders None (c # cs) =
     (if is_quote c then placeholders (Some c) cs
      else if c = CHR ''?'' then Suc (placeholders None cs) else placeholders None cs)"

lemma splice_cons_eq [simp]:
  "splice_cons s r = Spliced t \<longleftrightarrow> (\<exists>u. r = Spliced u \<and> t = s @ u)"
  "splice_cons s r = Params_mismatch \<longleftrightarrow> r = Params_mismatch"
  "splice_cons s r = Params_escape_failed \<longleftrightarrow> r = Params_escape_failed"
  by (cases r; auto)+

lemma splice_params_iff:
  "(\<exists>s. splice_params esc quote query ps = Spliced s) \<longleftrightarrow>
   length ps = placeholders quote query \<and> (\<forall>p\<in>set ps. escape_param esc p \<noteq> None)"
proof (induction esc quote query ps rule: splice_params.induct)
  case (4 esc c cs ps)
  then show ?case by (cases ps) (auto split: option.splits)
qed auto

text \<open>
  Parameter splicing accepts exactly the calls that give one parameter per placeholder outside
  quotes and whose parameters the client library can escape; then one query goes to the server,
  otherwise none does and the result is an error that names the reason.
\<close>

theorem mysql_params_accepted:
  "if length ps = placeholders None query \<and> list_all (\<lambda>p. escape_param esc p \<noteq> None) ps
   then \<exists>s. splice_params esc None query ps = Spliced s \<and>
          mysql_executeParams esc exec query ps = exec s
   else \<not> qr_success (mysql_executeParams esc exec query ps) \<and>
        errorCode (errorInfo (mysql_executeParams esc exec query ps))
          \<in> {''params-mismatch'', ''params-escape-failed''}"
  using splice_params_iff [of esc None query ps]
  by (cases "splice_params esc None query ps")
    (auto simp: mysql_executeParams_def splice_failure_def qr_success_def list_all_iff)

subsection \<open>The logged connection\<close>

lemma sql_send_eq:
  "sql_send call query c = (Ok (server c (sent c) call), snd (sql_send call query c))"
  by (simp add: sql_send_def Let_def)

text \<open>
  bookkeeping of one query. Whatever the server answers, \<open>safeQuery\<close> sends exactly one call
  and counts it; it returns the server's result if that is a success and otherwise throws the
  exception for it; row observations grow only on success, by what the statement's kind says, and
  the action name and the transaction outcomes are left alone.
\<close>

theorem safeQuery_bookkeeping:
  "\<exists>call c'. (call = Sql_query q \<or> call = Sql_params q ps) \<and> (ps = [] \<longleftrightarrow> call = Sql_query q) \<and>
     (let res = server c (sent c) call in
      conn_safeQuery q ps c = (if qr_success res then Ok res else Throw (result_exception res), c') \<and>
      sent c' = sent c @ [call] \<and> queryCount c' = queryCount c + 1 \<and>
      rowObservations c' = rowObservations c @
        (if qr_success res then observation (currentAction c) q res else []) \<and>
      currentAction c' = currentAction c \<and> txnOutcomes c' = txnOutcomes c)"
  by (rule exI [of _ "if ps = [] then Sql_query q else Sql_params q ps"])
    (auto simp: conn_safeQuery_def conn_executeQuery_def conn_executeParams_def sql_send_def
      bind_def seq_def lift_result_def ret_def maybeThrow_def observeResult_def Let_def)

text \<open>
  \<open>scopedActionName\<close> restores the previous action name however its scope is left, by return
  or by an exception.
\<close>

theorem scoped_action_restores:
  assumes "scoped_action n m c = (r, c')" and "r \<noteq> Undefined" and "r \<noteq> Diverges"
  shows "currentAction c' = currentAction c \<and>
    (\<exists>c''. m (conn_setCurrentAction n c) = (r, c'') \<and> c' = c''\<lparr>currentAction := currentAction c\<rparr>)"
proof -
  obtain r1 c1 where m: "m (conn_setCurrentAction n c) = (r1, c1)" by fastforce
  with assms show ?thesis
    by (cases r1) (auto simp: scoped_action_def destructor_def seq_def bind_def modify_def
        conn_setCurrentAction_def)
qed

definition sample_conn :: logged_sql where
  "sample_conn = \<lparr>conn_info = \<lparr>si_flavor = fl_postgres, si_version = 170000\<rparr>,
     server = (\<lambda>h c. \<lparr>qr_query = [], executionTime = 1,
       errorInfo = \<lparr>errorCode = ''0'', errorMessage = ''gone'', errorStatus = St_serverGone,
         errorClass = Ec_serverGone\<rparr>, affectedRows = 0, qr_data = None\<rparr>),
     sent = [], accumulatedSqlTime = 0, queryCount = 0, currentAction = ''outer'',
     rowObservations = [], txnOutcomes = []\<rparr>"

lemma scoped_action_restores_witness:
  "\<exists>e c'. scoped_action ''inner'' (conn_safeQuery ''SELECT 1'' []) sample_conn = (Throw e, c') \<and>
     currentAction c' = ''outer''"
proof -
  obtain r c' where s: "scoped_action ''inner'' (conn_safeQuery ''SELECT 1'' []) sample_conn = (r, c')"
    by fastforce
  then have "\<exists>e. r = Throw e"
    by (auto simp: scoped_action_def destructor_def seq_def bind_def modify_def conn_safeQuery_def
        conn_executeQuery_def sql_send_def sample_conn_def conn_setCurrentAction_def Let_def
        qr_success_def lift_result_def maybeThrow_def ret_def)
  with scoped_action_restores [OF s] s show ?thesis
    by (auto simp: sample_conn_def)
qed

end
