(* ===== verification/Sql_Dialect.thy ===== *)
theory Sql_Dialect
  imports Table_Model Sql_Variant
begin

text \<open>
  The SQL renderers (core/include/sql_dialect/dialect.hpp, core/src/sql_dialect/pg.cpp and
  mysql.cpp). The abstract class \<open>Dialect\<close> is a record of functions, one field per virtual method;
  \<open>pg_dialect\<close> and \<open>mysql_dialect\<close> are its two instances and \<open>dialect_for\<close> picks one by flavor.
  Sizes are \<open>size_t\<close>: products wrap modulo \<open>2 ^ 64\<close>. A method that dereferences an empty
  \<open>optional\<close> or the first column of a table without columns is \<open>Undefined\<close>.
\<close>

datatype lock_clause = Lock_none | Lock_forUpdate | Lock_forShare

definition lockClauseSuffix :: "lock_clause \<Rightarrow> string" where
  "lockClauseSuffix l = (case l of Lock_forUpdate \<Rightarrow> '' FOR UPDATE'' | Lock_forShare \<Rightarrow> '' FOR SHARE''
     | Lock_none \<Rightarrow> [])"

definition lockOfSuffix :: "lock_clause \<Rightarrow> string \<Rightarrow> string" where
  "lockOfSuffix l alias = (let out = lockClauseSuffix l in
     if out \<noteq> [] then out @ '' OF '' @ alias else out)"

record index_options =
  opt_concurrent :: bool
  opt_only :: bool

datatype isolation_level = Iso_serverDefault | Iso_readCommitted | Iso_repeatableRead | Iso_serializable

record dialect =
  typeName :: "column_type \<Rightarrow> nat \<Rightarrow> string"
  columnDefinition :: "column \<Rightarrow> string"
  createTable :: "table \<Rightarrow> string \<Rightarrow> string result"
  addPartition :: "table \<Rightarrow> nat \<Rightarrow> string result"
  dropPartition :: "table \<Rightarrow> nat \<Rightarrow> string"
  createIndex :: "table \<Rightarrow> index \<Rightarrow> index_options \<Rightarrow> string"
  dropIndex :: "string \<Rightarrow> string \<Rightarrow> string"
  alterColumnType :: "string \<Rightarrow> column_type \<Rightarrow> nat \<Rightarrow> string"
  alterStorage :: "string \<Rightarrow> string"
  randomRowSubquery :: "string \<Rightarrow> string \<Rightarrow> nat \<Rightarrow> string"
  randomRowsSelect :: "string \<Rightarrow> string \<Rightarrow> nat \<Rightarrow> lock_clause \<Rightarrow> string"
  partitionsInlineInCreate :: bool
  supportsFkOnPartitionedTables :: bool
  canDropFkColumn :: bool
  fkRequiresIndex :: bool
  dropColumnRemovesWholeIndex :: bool
  maxIndexColumns :: nat
  maxIndexesPerTable :: nat
  maxIndexKeyBytes :: nat
  indexKeyPartBytes :: "column \<Rightarrow> nat"
  transactionalDDL :: bool
  beginStatements :: "isolation_level \<Rightarrow> string list"
  concatExpr :: "string \<Rightarrow> string \<Rightarrow> string"
  supportsIntersectExcept :: "server_info \<Rightarrow> bool"

definition size_wrap :: "nat \<Rightarrow> nat" where
  "size_wrap n = n mod 2 ^ 64"

text \<open>\<open>",\n"\<close>, the separator between the definitions of a CREATE TABLE and ALTER TABLE clauses.\<close>

definition comma_newline :: string where
  "comma_newline = [CHR '','', CHR 0x0A]"

definition pk_definition :: "column list \<Rightarrow> string list" where
  "pk_definition cs = (let pk = map col_name (filter primary_key cs) in
     if pk \<noteq> [] then [''PRIMARY KEY ('' @ join '', '' pk @ '')''] else [])"

definition index_column_sql :: "index_column \<Rightarrow> string" where
  "index_column_sql f = ic_name f @ '' '' @ (if ic_ordering f = IO_desc then ''DESC'' else ''ASC'')"

definition first_column_name :: "table \<Rightarrow> string result" where
  "first_column_name t = (case columns t of [] \<Rightarrow> Undefined | c # _ \<Rightarrow> Ok (col_name c))"

section \<open>PostgreSQL\<close>

definition pg_typeName :: "column_type \<Rightarrow> nat \<Rightarrow> string" where
  "pg_typeName ty len = column_type_name ty @ (if len > 0 then ''('' @ fmt_nat len @ '')'' else [])"

definition pg_columnDefinition :: "column \<Rightarrow> string" where
  "pg_columnDefinition c = (if auto_increment c then col_name c @ '' SERIAL''
     else col_name c @ '' '' @ pg_typeName (col_type c) (col_length c))"

fun pg_column_defs :: "nat \<Rightarrow> string \<Rightarrow> column list \<Rightarrow> string list" where
  "pg_column_defs idx target [] = []"
| "pg_column_defs idx target (c # cs) =
     (pg_columnDefinition c @ (if idx = 1 \<and> target \<noteq> []
        then '' REFERENCES '' @ target @ '' ON DELETE CASCADE'' else [])) #
     pg_column_defs (Suc idx) target cs"

definition pg_createTable :: "table \<Rightarrow> string \<Rightarrow> string result" where
  "pg_createTable t target =
     res_bind (case partitioning t of None \<Rightarrow> Ok []
       | Some p \<Rightarrow> res_bind (first_column_name t) (\<lambda>n. Ok ('' PARTITION BY RANGE ('' @ n @ '')''))) (\<lambda>clause.
     Ok (''CREATE TABLE '' @ obj_name t @ '' ('' @
       join comma_newline (pg_column_defs 0 target (columns t) @ pk_definition (columns t)) @
       '') '' @ clause @ '';''))"

definition pg_addPartition :: "table \<Rightarrow> nat \<Rightarrow> string result" where
  "pg_addPartition t base = (case partitioning t of None \<Rightarrow> Undefined
     | Some p \<Rightarrow> Ok (''CREATE TABLE '' @ obj_name t @ ''_p'' @ fmt_nat base @ '' PARTITION OF '' @
         obj_name t @ '' FOR VALUES FROM ('' @ fmt_nat (size_wrap (rangeSize p * base)) @ '') TO ('' @
         fmt_nat (size_wrap (rangeSize p * size_wrap (base + 1))) @ '');''))"

definition pg_dropPartition :: "table \<Rightarrow> nat \<Rightarrow> string" where
  "pg_dropPartition t base = ''DROP TABLE '' @ obj_name t @ ''_p'' @ fmt_nat base @ '' CASCADE;''"

definition pg_createIndex :: "table \<Rightarrow> index \<Rightarrow> index_options \<Rightarrow> string" where
  "pg_createIndex t i opts = ''CREATE '' @ (if idx_unique i then ''UNIQUE'' else []) @ '' INDEX '' @
     (if opt_concurrent opts then ''CONCURRENTLY'' else []) @ '' '' @ idx_name i @ '' ON '' @
     (if opt_only opts then ''ONLY'' else []) @ '' '' @ obj_name t @ '' ('' @
     join '', '' (map index_column_sql (idx_fields i)) @ '');''"

definition pg_dropIndex :: "string \<Rightarrow> string \<Rightarrow> string" where
  "pg_dropIndex tableName indexName = ''DROP INDEX '' @ indexName @ '';''"

definition pg_alterColumnType :: "string \<Rightarrow> column_type \<Rightarrow> nat \<Rightarrow> string" where
  "pg_alterColumnType col ty len = ''ALTER COLUMN '' @ col @ '' TYPE '' @ pg_typeName ty len"

definition pg_alterStorage :: "string \<Rightarrow> string" where
  "pg_alterStorage eng = ''SET ACCESS METHOD '' @ eng"

definition pg_randomRowSubquery :: "string \<Rightarrow> string \<Rightarrow> nat \<Rightarrow> string" where
  "pg_randomRowSubquery tab col limit =
     ''(SELECT '' @ col @ '' FROM '' @ tab @ '' ORDER BY random() LIMIT '' @ fmt_nat limit @ '')''"

definition pg_randomRowsSelect :: "string \<Rightarrow> string \<Rightarrow> nat \<Rightarrow> lock_clause \<Rightarrow> string" where
  "pg_randomRowsSelect tab col limit lock = ''SELECT '' @ col @ '' FROM '' @ tab @
     '' ORDER BY random() LIMIT '' @ fmt_nat limit @ lockClauseSuffix lock @ '';''"

definition pg_beginStatements :: "isolation_level \<Rightarrow> string list" where
  "pg_beginStatements level = (case level of
       Iso_readCommitted \<Rightarrow> [''BEGIN ISOLATION LEVEL READ COMMITTED;'']
     | Iso_repeatableRead \<Rightarrow> [''BEGIN ISOLATION LEVEL REPEATABLE READ;'']
     | Iso_serializable \<Rightarrow> [''BEGIN ISOLATION LEVEL SERIALIZABLE;'']
     | Iso_serverDefault \<Rightarrow> [''BEGIN;''])"

definition pg_dialect :: dialect where
  "pg_dialect = \<lparr>typeName = pg_typeName, columnDefinition = pg_columnDefinition,
     createTable = pg_createTable, addPartition = pg_addPartition, dropPartition = pg_dropPartition,
     createIndex = pg_createIndex, dropIndex = pg_dropIndex, alterColumnType = pg_alterColumnType,
     alterStorage = pg_alterStorage, randomRowSubquery = pg_randomRowSubquery,
     randomRowsSelect = pg_randomRowsSelect, partitionsInlineInCreate = False,
     supportsFkOnPartitionedTables = True, canDropFkColumn = True, fkRequiresIndex = False,
     dropColumnRemovesWholeIndex = True, maxIndexColumns = 32, maxIndexesPerTable = size_max,
     maxIndexKeyBytes = size_max, indexKeyPartBytes = (\<lambda>c. 0), transactionalDDL = True,
     beginStatements = pg_beginStatements,
     concatExpr = (\<lambda>l r. ''('' @ l @ '' || '' @ r @ '')''),
     supportsIntersectExcept = (\<lambda>info. True)\<rparr>"

section \<open>MySQL\<close>

definition kTextIndexPrefixLength :: nat where
  "kTextIndexPrefixLength = 32"

definition my_typeName :: "column_type \<Rightarrow> nat \<Rightarrow> string" where
  "my_typeName ty len = (if ty = CT_BYTEA then ''BLOB'' else column_type_name ty) @
     (if len > 0 then ''('' @ fmt_nat len @ '')'' else [])"

definition my_columnDefinition :: "column \<Rightarrow> string" where
  "my_columnDefinition c = (if auto_increment c then col_name c @ '' INT AUTO_INCREMENT''
     else col_name c @ '' '' @ my_typeName (col_type c) (col_length c))"

definition my_key_definition :: "index \<Rightarrow> string" where
  "my_key_definition i = (if idx_unique i then ''UNIQUE '' else []) @ ''KEY '' @ idx_name i @ '' ('' @
     join '', '' (map index_column_sql (idx_fields i)) @ '')''"

definition my_partition_sql :: "nat \<Rightarrow> range_partition \<Rightarrow> string" where
  "my_partition_sql sz r = ''PARTITION p'' @ fmt_nat (rangebase r) @ '' VALUES LESS THAN ('' @
     fmt_nat (size_wrap (sz * size_wrap (rangebase r + 1))) @ '')''"

definition my_createTable :: "table \<Rightarrow> string \<Rightarrow> string result" where
  "my_createTable t target =
     res_bind (case partitioning t of None \<Rightarrow> Ok []
       | Some p \<Rightarrow> res_bind (first_column_name t) (\<lambda>n. Ok ('' PARTITION BY RANGE ('' @ n @ '') ('' @
            join '', '' (map (my_partition_sql (rangeSize p)) (ranges p)) @ '')''))) (\<lambda>clause.
     Ok (''CREATE TABLE '' @ obj_name t @ '' ('' @
       join comma_newline (map my_columnDefinition (columns t) @ pk_definition (columns t) @
         map my_key_definition (indexes t) @
         (if target \<noteq> [] \<and> length (columns t) > 1
          then [''FOREIGN KEY ('' @ col_name (columns t ! 1) @ '') REFERENCES '' @ target @
                '' (id) ON DELETE CASCADE'']
          else [])) @
       '') '' @ clause @ '';''))"

definition my_addPartition :: "table \<Rightarrow> nat \<Rightarrow> string result" where
  "my_addPartition t base = (case partitioning t of None \<Rightarrow> Undefined
     | Some p \<Rightarrow> Ok (''ALTER TABLE '' @ obj_name t @ '' ADD PARTITION (PARTITION p'' @ fmt_nat base @
         '' VALUES LESS THAN ('' @ fmt_nat (size_wrap (rangeSize p * size_wrap (base + 1))) @ ''));''))"

definition my_dropPartition :: "table \<Rightarrow> nat \<Rightarrow> string" where
  "my_dropPartition t base = ''ALTER TABLE '' @ obj_name t @ '' DROP PARTITION p'' @ fmt_nat base @ '';''"

definition my_index_field :: "table \<Rightarrow> index_column \<Rightarrow> string" where
  "my_index_field t f = ic_name f @
     (case find (\<lambda>c. col_name c = ic_name f) (columns t) of
        None \<Rightarrow> []
      | Some c \<Rightarrow> if col_type c = CT_TEXT \<or> col_type c = CT_BYTEA
                   then ''('' @ fmt_nat kTextIndexPrefixLength @ '')'' else []) @
     '' '' @ (if ic_ordering f = IO_desc then ''DESC'' else ''ASC'')"

definition my_createIndex :: "table \<Rightarrow> index \<Rightarrow> index_options \<Rightarrow> string" where
  "my_createIndex t i opts = ''CREATE '' @ (if idx_unique i then ''UNIQUE'' else []) @ '' INDEX '' @
     idx_name i @ '' ON '' @ obj_name t @ '' ('' @ join '', '' (map (my_index_field t) (idx_fields i)) @ '');''"

definition my_dropIndex :: "string \<Rightarrow> string \<Rightarrow> string" where
  "my_dropIndex tableName indexName = ''DROP INDEX '' @ indexName @ '' ON '' @ tableName @ '';''"

definition my_alterColumnType :: "string \<Rightarrow> column_type \<Rightarrow> nat \<Rightarrow> string" where
  "my_alterColumnType col ty len = ''MODIFY COLUMN '' @ col @ '' '' @ my_typeName ty len"

definition my_alterStorage :: "string \<Rightarrow> string" where
  "my_alterStorage eng = ''ENGINE='' @ eng"

definition my_randomRowSubquery :: "string \<Rightarrow> string \<Rightarrow> nat \<Rightarrow> string" where
  "my_randomRowSubquery tab col limit = ''(SELECT '' @ col @ '' FROM (SELECT '' @ col @ '' FROM '' @ tab @
     '' ORDER BY RAND() LIMIT '' @ fmt_nat limit @ '') AS swrnd)''"

definition my_randomRowsSelect :: "string \<Rightarrow> string \<Rightarrow> nat \<Rightarrow> lock_clause \<Rightarrow> string" where
  "my_randomRowsSelect tab col limit lock = ''SELECT '' @ col @ '' FROM '' @ tab @
     '' ORDER BY RAND() LIMIT '' @ fmt_nat limit @ lockClauseSuffix lock @ '';''"

definition my_indexKeyPartBytes :: "column \<Rightarrow> nat" where
  "my_indexKeyPartBytes c = (case col_type c of
       CT_CHAR \<Rightarrow> size_wrap (col_length c * 4)
     | CT_VARCHAR \<Rightarrow> size_wrap (col_length c * 4)
     | CT_TEXT \<Rightarrow> kTextIndexPrefixLength * 4
     | CT_BYTEA \<Rightarrow> kTextIndexPrefixLength
     | CT_BOOL \<Rightarrow> 8 | CT_INT \<Rightarrow> 8 | CT_REAL \<Rightarrow> 8)"

definition my_beginStatements :: "isolation_level \<Rightarrow> string list" where
  "my_beginStatements level = (case level of
       Iso_readCommitted \<Rightarrow> [''SET TRANSACTION ISOLATION LEVEL READ COMMITTED;'']
     | Iso_repeatableRead \<Rightarrow> [''SET TRANSACTION ISOLATION LEVEL REPEATABLE READ;'']
     | Iso_serializable \<Rightarrow> [''SET TRANSACTION ISOLATION LEVEL SERIALIZABLE;'']
     | Iso_serverDefault \<Rightarrow> []) @ [''START TRANSACTION;'']"

definition mysql_dialect :: dialect where
  "mysql_dialect = \<lparr>typeName = my_typeName, columnDefinition = my_columnDefinition,
     createTable = my_createTable, addPartition = my_addPartition, dropPartition = my_dropPartition,
     createIndex = my_createIndex, dropIndex = my_dropIndex, alterColumnType = my_alterColumnType,
     alterStorage = my_alterStorage, randomRowSubquery = my_randomRowSubquery,
     randomRowsSelect = my_randomRowsSelect, partitionsInlineInCreate = True,
     supportsFkOnPartitionedTables = False, canDropFkColumn = False, fkRequiresIndex = True,
     dropColumnRemovesWholeIndex = False, maxIndexColumns = 16, maxIndexesPerTable = 60,
     maxIndexKeyBytes = 3072, indexKeyPartBytes = my_indexKeyPartBytes, transactionalDDL = False,
     beginStatements = my_beginStatements,
     concatExpr = (\<lambda>l r. ''CONCAT('' @ l @ '', '' @ r @ '')''),
     supportsIntersectExcept = (\<lambda>info. after_or_is info ANY_MYSQL 80031)\<rparr>"

definition dialect_for :: "server_info \<Rightarrow> dialect" where
  "dialect_for info = (if is_mysql_like info then mysql_dialect else pg_dialect)"

section \<open>What clients rely on\<close>

text \<open>
  The contract of a dialect the index actions use: an index may have a column, every column the
  program generates fits a key by itself, and \<open>CREATE TABLE\<close> renders for every table with a column.
\<close>

locale dialect_laws =
  fixes d :: dialect
  assumes some_index_column: "1 \<le> maxIndexColumns d"
    and some_index: "1 \<le> maxIndexesPerTable d"
    and column_fits: "col_length c \<le> 768 \<Longrightarrow> indexKeyPartBytes d c \<le> maxIndexKeyBytes d"
    and create_renders: "columns t \<noteq> [] \<Longrightarrow> \<exists>s. createTable d t target = Ok s"
    and add_partition_renders: "partitioning t \<noteq> None \<Longrightarrow> \<exists>s. addPartition d t n = Ok s"
    and begins: "beginStatements d level \<noteq> []"
    and ddl_kinds: "transactionalDDL d = canDropFkColumn d"
begin

text \<open>
  The choice of index columns that \<open>CreateIndex\<close> makes: go through the columns, take those that
  still fit, stop at the wanted number.
\<close>

lemma fitting_column:
  "col_length c \<le> 768 \<Longrightarrow> \<not> indexKeyPartBytes d c > maxIndexKeyBytes d - 0"
  using column_fits [of c] by simp

lemma index_column_range: "2 \<le> n \<Longrightarrow> 1 \<le> min (n - 1) (maxIndexColumns d)"
  using some_index_column by simp

end

interpretation pg: dialect_laws pg_dialect
  by unfold_locales
    (auto simp: pg_dialect_def size_max_def pg_createTable_def pg_addPartition_def first_column_name_def
      pg_beginStatements_def split: option.splits list.splits isolation_level.splits)

interpretation mysql: dialect_laws mysql_dialect
  by unfold_locales
    (auto simp: mysql_dialect_def my_createTable_def my_addPartition_def first_column_name_def
      my_indexKeyPartBytes_def kTextIndexPrefixLength_def size_wrap_def my_beginStatements_def
      split: option.splits list.splits column_type.splits isolation_level.splits)

lemma dialect_for_cases:
  obtains "dialect_for info = pg_dialect" | "dialect_for info = mysql_dialect"
  by (cases "is_mysql_like info") (simp_all add: dialect_for_def)

lemma dialect_for_laws: "dialect_laws (dialect_for info)"
  by (cases rule: dialect_for_cases [of info])
    (simp_all add: pg.dialect_laws_axioms mysql.dialect_laws_axioms)

interpretation dia: dialect_laws "dialect_for info" for info
  by (rule dialect_for_laws)

end
