(* ===== verification/World.thy ===== *)
theory World
  imports Sql_Dialect
begin

text \<open>
  What an action runs in: its random generator, the registry it shares with the other workers, its
  connection, and its transaction buffer. \<open>Context\<close> (core/include/metadata/context.hpp) becomes the
  argument \<open>ctx\<close>: \<open>Direct\<close> is a context without a buffer, \<open>Buffered\<close> one that points at the worker's
  buffer. The helpers of core/src/action/helper.cpp and the generic actions of composite.hpp and
  custom.cpp are here too.

  Concurrency: catalog and registry calls are atomic, everything between them is not. \<open>others\<close> is an
  arbitrary schedule: \<open>others n\<close> lists the registry calls the other workers complete before this
  worker's \<open>n\<close>-th access. Every access first lets them run (\<open>interfere\<close>), so a theorem for every
  \<open>others\<close> holds for every interleaving of the workers.
\<close>

datatype ctx_kind = Direct | Buffered

record world =
  w_rng :: rng
  registry :: table_registry
  conn :: logged_sql
  buffer :: "table txn_buffer option"
  others :: "nat \<Rightarrow> table registry_op list"
  clock :: nat

text \<open>Programs on a part of the world.\<close>

definition in_rng :: "(rng, 'a) prog \<Rightarrow> (world, 'a) prog" where
  "in_rng m = (\<lambda>w. let (r, g) = m (w_rng w) in (r, w\<lparr>w_rng := g\<rparr>))"

definition in_conn :: "(logged_sql, 'a) prog \<Rightarrow> (world, 'a) prog" where
  "in_conn m = (\<lambda>w. let (r, c) = m (conn w) in (r, w\<lparr>conn := c\<rparr>))"

definition draw :: "nat \<Rightarrow> nat \<Rightarrow> (world, nat) prog" where
  "draw lo hi = in_rng (random_number lo hi)"

definition interfere :: "(world, unit) prog" where
  "interfere = (\<lambda>w. case registry_run (others w (clock w)) (registry w) of
       Ok (_, g) \<Rightarrow> (Ok (), w\<lparr>registry := g, clock := Suc (clock w)\<rparr>)
     | _ \<Rightarrow> (Undefined, w))"

text \<open>The view \<open>metaCtx.get<Table>()\<close> and its operations.\<close>

definition view_of :: "ctx_kind \<Rightarrow> world \<Rightarrow> table view" where
  "view_of ctx w = (tables (registry w), case ctx of Direct \<Rightarrow> None | Buffered \<Rightarrow> buffer w)"

definition put_view :: "ctx_kind \<Rightarrow> table view \<Rightarrow> world \<Rightarrow> world" where
  "put_view ctx v w = (let w' = w\<lparr>registry := (registry w)\<lparr>tables := fst v\<rparr>\<rparr> in
     case ctx of Direct \<Rightarrow> w' | Buffered \<Rightarrow> w'\<lparr>buffer := snd v\<rparr>)"

definition read_view :: "ctx_kind \<Rightarrow> (table view \<Rightarrow> 'a result) \<Rightarrow> (world, 'a) prog" where
  "read_view ctx f = seq interfere (\<lambda>w. (f (view_of ctx w), w))"

definition tables_randomPick :: "ctx_kind \<Rightarrow> (world, table option) prog" where
  "tables_randomPick ctx = seq interfere (\<lambda>w. in_rng (view_randomPick (view_of ctx w)) w)"

definition tables_size :: "ctx_kind \<Rightarrow> (world, nat) prog" where
  "tables_size ctx = read_view ctx view_size"

definition tables_byId :: "ctx_kind \<Rightarrow> object_id \<Rightarrow> (world, table option) prog" where
  "tables_byId ctx i = read_view ctx (\<lambda>v. Ok (view_byId v i))"

definition tables_snapshotAll :: "ctx_kind \<Rightarrow> (world, table list) prog" where
  "tables_snapshotAll ctx = read_view ctx view_snapshotAll"

definition tables_insert :: "ctx_kind \<Rightarrow> table \<Rightarrow> (world, bool) prog" where
  "tables_insert ctx t = seq interfere (\<lambda>w.
     let (b, v) = view_insert t (view_of ctx w) in (Ok b, put_view ctx v w))"

definition tables_update :: "ctx_kind \<Rightarrow> object_id \<Rightarrow> (table \<Rightarrow> table option) \<Rightarrow> (world, bool) prog" where
  "tables_update ctx i d = seq interfere (\<lambda>w.
     let (b, v) = view_update i d (view_of ctx w) in (Ok b, put_view ctx v w))"

definition tables_erase :: "ctx_kind \<Rightarrow> object_id \<Rightarrow> (world, bool) prog" where
  "tables_erase ctx i = seq interfere (\<lambda>w. case view_erase i (view_of ctx w) of
       Ok (b, v) \<Rightarrow> (Ok b, put_view ctx v w)
     | Throw e \<Rightarrow> (Throw e, w) | Undefined \<Rightarrow> (Undefined, w) | Diverges \<Rightarrow> (Diverges, w))"

definition ctx_nextId :: "(world, object_id) prog" where
  "ctx_nextId = seq interfere (\<lambda>w. let (i, g) = registry_nextId (registry w) in
     (Ok i, w\<lparr>registry := g\<rparr>))"

text \<open>\<open>executeQuery\<close> and \<open>executeQuery(...).maybeThrow()\<close>.\<close>

definition run_sql :: "string \<Rightarrow> (world, query_result) prog" where
  "run_sql q = in_conn (conn_executeQuery q)"

definition exec_sql :: "string \<Rightarrow> (world, unit) prog" where
  "exec_sql q = bind (run_sql q) (\<lambda>res. lift_result (maybeThrow res))"

definition server_is :: "(world, server_info) prog" where
  "server_is = gets (\<lambda>w. conn_info (conn w))"

definition find_random_table :: "ctx_kind \<Rightarrow> (world, table) prog" where
  "find_random_table ctx = bind (tables_randomPick ctx) (\<lambda>t. case t of
       None \<Rightarrow> throw (Action_Exception ''empty-metadata'' ''Can't find random table: metadata is empty'')
     | Some t \<Rightarrow> ret t)"

text \<open>
  \<open>TxGuard\<close>: on scope exit it sends ROLLBACK unless disarmed. The flag lives in a local of the
  function that owns the guard; \<open>guard_exit armed\<close> is the destructor's effect.
\<close>

definition guard_exit :: "bool \<Rightarrow> world \<Rightarrow> world" where
  "guard_exit armed w = (if armed then snd (run_sql ''ROLLBACK;'' w) else w)"

section \<open>Composite and custom actions\<close>

type_synonym action = "ctx_kind \<Rightarrow> (world, unit) prog"

definition composite_execute :: "action list \<Rightarrow> action" where
  "composite_execute actions ctx = for_each actions (\<lambda>a. a ctx)"

definition repeat_execute :: "action \<Rightarrow> nat \<Rightarrow> action" where
  "repeat_execute a repeatCount ctx = for_each [0..<repeatCount] (\<lambda>_. a ctx)"

text \<open>\<open>boost::replace_all\<close>: non-overlapping occurrences from the left.\<close>

function replace_all :: "string \<Rightarrow> string \<Rightarrow> string \<Rightarrow> string" where
  "replace_all pat new s = (if s = [] then []
     else if pat \<noteq> [] \<and> take (length pat) s = pat
       then new @ replace_all pat new (drop (length pat) s)
     else hd s # replace_all pat new (tl s))"
  by pat_completeness auto
termination by (relation "measure (\<lambda>(pat, new, s). length s)") auto

declare replace_all.simps [simp del]

definition custom_sql_new :: "string list \<Rightarrow> unit result" where
  "custom_sql_new injects = (if \<exists>i\<in>set injects. i \<noteq> ''table''
     then Throw (Runtime_error ''For now only table name can be injected to custom queries'')
     else Ok ())"

definition doInject :: "ctx_kind \<Rightarrow> string \<Rightarrow> (world, string) prog" where
  "doInject ctx p = (if p = ''table'' then bind (find_random_table ctx) (\<lambda>t. ret (obj_name t))
     else throw (Runtime_error (''Unknown injection point: '' @ p)))"

fun inject_all :: "ctx_kind \<Rightarrow> string list \<Rightarrow> string \<Rightarrow> (world, string) prog" where
  "inject_all ctx [] stmt = ret stmt"
| "inject_all ctx (p # ps) stmt = bind (doInject ctx p) (\<lambda>s.
     inject_all ctx ps (replace_all (''{'' @ p @ ''}'') s stmt))"

definition custom_execute :: "string \<Rightarrow> string list \<Rightarrow> action" where
  "custom_execute stmt injects ctx = bind (inject_all ctx injects stmt) exec_sql"

section \<open>Invariants of the world\<close>

text \<open>
  \<open>P\<close> is a property of tables that does not depend on id and version. \<open>world_inv P\<close>: the catalog
  is consistent, every table in it and in the buffer satisfies \<open>P\<close>, and neither the other workers
  nor a pending log can break that.
\<close>

definition header_blind :: "(table \<Rightarrow> bool) \<Rightarrow> bool" where
  "header_blind P \<longleftrightarrow> (\<forall>t i v. P (t\<lparr>obj_id := i, obj_version := v\<rparr>) = P t)"

definition delta_keeps :: "(table \<Rightarrow> bool) \<Rightarrow> (table \<Rightarrow> table option) \<Rightarrow> bool" where
  "delta_keeps P d \<longleftrightarrow> (\<forall>t t'. P t \<longrightarrow> d t = Some t' \<longrightarrow> P t')"

fun op_keeps :: "(table \<Rightarrow> bool) \<Rightarrow> table catalog_op \<Rightarrow> bool" where
  "op_keeps P (Op_insert t) = P t"
| "op_keeps P (Op_update i d) = delta_keeps P d"
| "op_keeps P (Op_erase i) = True"
| "op_keeps P Op_reset = True"

fun registry_op_keeps :: "(table \<Rightarrow> bool) \<Rightarrow> table registry_op \<Rightarrow> bool" where
  "registry_op_keeps P (Reg_tables op) = op_keeps P op"
| "registry_op_keeps P _ = True"

definition all_tables :: "(table \<Rightarrow> bool) \<Rightarrow> (object_id \<rightharpoonup> table) \<Rightarrow> bool" where
  "all_tables P m \<longleftrightarrow> (\<forall>i t. m i = Some t \<longrightarrow> P t)"

definition buffer_inv :: "(table \<Rightarrow> bool) \<Rightarrow> table txn_buffer option \<Rightarrow> bool" where
  "buffer_inv P b \<longleftrightarrow> (case b of None \<Rightarrow> True | Some t \<Rightarrow>
     txn_wf t \<and> (\<forall>r \<in> ran (map_of (local_recs t)). P r) \<and>
     (\<forall>op \<in> set (op_log t). op_keeps P (publish_call op) \<and>
        (\<forall>r. op = Log_insert r \<longrightarrow> obj_id r \<noteq> 0)))"

definition world_inv :: "(table \<Rightarrow> bool) \<Rightarrow> world \<Rightarrow> bool" where
  "world_inv P w \<longleftrightarrow> catalog_inv (tables (registry w)) \<and> all_tables P (catalog_byId (tables (registry w))) \<and>
     buffer_inv P (buffer w) \<and> (\<forall>n. \<forall>op \<in> set (others w n). registry_op_keeps P op)"

lemma header_blindD: "header_blind P \<Longrightarrow> P (t\<lparr>obj_id := i, obj_version := v\<rparr>) = P t"
  by (simp add: header_blind_def)

lemma header_blind_id: "header_blind P \<Longrightarrow> P (t\<lparr>obj_id := i\<rparr>) = P t"
  using header_blindD [where P = P and t = t and i = i and v = "obj_version t"] by simp

lemma all_tablesD: "all_tables P m \<Longrightarrow> m i = Some t \<Longrightarrow> P t"
  by (auto simp: all_tables_def)

lemma store_apply_keeps:
  assumes "header_blind P" and "all_tables P m" and "op_keeps P op" and "store_apply op m = (b, m')"
  shows "all_tables P m'"
proof (cases op)
  case (Op_update i d)
  show ?thesis
  proof (cases "\<exists>t t'. m i = Some t \<and> d t = Some t'")
    case True
    then obtain t t' where t: "m i = Some t" "d t = Some t'" by blast
    from all_tablesD [OF assms(2) t(1)] t(2) Op_update assms(3) have "P t'"
      by (auto simp: delta_keeps_def)
    then have "P (t'\<lparr>obj_id := i, obj_version := obj_version t + 1\<rparr>)"
      using header_blindD [OF assms(1)] by simp
    with t Op_update assms(2,4) show ?thesis by (auto simp: all_tables_def split: if_splits)
  next
    case False
    with Op_update assms(2,4) show ?thesis by (auto split: option.splits)
  qed
qed (use assms in \<open>auto simp: all_tables_def split: if_splits\<close>)

lemma catalog_apply_keeps:
  assumes "header_blind P" and "catalog_inv c" and "all_tables P (catalog_byId c)" and "op_keeps P op"
  shows "\<exists>b c'. catalog_apply op c = Ok (b, c') \<and> catalog_inv c' \<and> all_tables P (catalog_byId c')"
  using catalog_apply_refines [OF assms(2), of op] store_apply_keeps [OF assms(1,3,4)] by blast

lemma registry_run_keeps:
  assumes "header_blind P"
  shows "catalog_inv (tables g) \<Longrightarrow> all_tables P (catalog_byId (tables g)) \<Longrightarrow>
    \<forall>op \<in> set ops. registry_op_keeps P op \<Longrightarrow>
    \<exists>is g'. registry_run ops g = Ok (is, g') \<and> catalog_inv (tables g') \<and>
      all_tables P (catalog_byId (tables g'))"
proof (induction ops g rule: registry_run.induct)
  case (2 ops g)
  then show ?case by (fastforce simp: registry_nextId_def)
next
  case (3 ops g)
  have "all_tables P (catalog_byId (catalog_reset (tables g)))"
    by (simp add: all_tables_def catalog_byId_def catalog_reset_def ran_def)
  with 3 show ?case by (simp add: registry_reset_def catalog_reset_inv)
next
  case (4 op ops g)
  from 4(4) have "op_keeps P op" by simp
  from catalog_apply_keeps [OF assms 4(2,3) this]
  obtain b c where c: "catalog_apply op (tables g) = Ok (b, c)" "catalog_inv c"
    "all_tables P (catalog_byId c)" by blast
  with 4(1) [of c] 4(4) show ?case by simp
qed simp

section \<open>The calculus of actions\<close>

text \<open>
  \<open>yields P m V\<close>: from every world that satisfies the invariant, \<open>m\<close> ends in one that satisfies it,
  never in undefined behaviour, throws only the two exception classes the workers handle, and a
  returned value satisfies \<open>V\<close>. Interference and the server's answers are arbitrary.
\<close>

named_theorems yields_intros "rules that establish yields"

definition handled_exn :: "exn \<Rightarrow> bool" where
  "handled_exn e = (case e of Sql_Exception _ _ _ _ \<Rightarrow> True | Action_Exception _ _ \<Rightarrow> True | _ \<Rightarrow> False)"

definition good_result :: "('a \<Rightarrow> bool) \<Rightarrow> 'a result \<Rightarrow> bool" where
  "good_result V r = (case r of Ok x \<Rightarrow> V x | Throw e \<Rightarrow> handled_exn e | Undefined \<Rightarrow> False | Diverges \<Rightarrow> True)"

definition yields :: "(table \<Rightarrow> bool) \<Rightarrow> (world, 'a) prog \<Rightarrow> ('a \<Rightarrow> bool) \<Rightarrow> bool" where
  "yields P m V \<longleftrightarrow> (\<forall>w. world_inv P w \<longrightarrow>
     world_inv P (snd (m w)) \<and> good_result V (fst (m w)))"

lemma good_result_simps [simp]:
  "good_result V (Ok x) = V x" "good_result V (Throw e) = handled_exn e"
  "\<not> good_result V Undefined" "good_result V Diverges"
  by (simp_all add: good_result_def)

lemma handled_exn_simps [simp]:
  "handled_exn (Sql_Exception c m s k)" "handled_exn (Action_Exception n m)"
  "\<not> handled_exn (Out_of_range m)" "\<not> handled_exn (Runtime_error m)"
  "\<not> handled_exn (Logic_error m)" "\<not> handled_exn (Invalid_argument m)"
  by (simp_all add: handled_exn_def)

lemma yieldsI:
  "(\<And>w r w'. world_inv P w \<Longrightarrow> m w = (r, w') \<Longrightarrow> world_inv P w' \<and> good_result V r) \<Longrightarrow> yields P m V"
  by (metis yields_def prod.collapse)

lemma yieldsD:
  "yields P m V \<Longrightarrow> world_inv P w \<Longrightarrow> m w = (r, w') \<Longrightarrow> world_inv P w' \<and> good_result V r"
  by (metis yields_def fst_conv snd_conv)

lemma yields_mono: "yields P m V \<Longrightarrow> (\<And>x. V x \<Longrightarrow> U x) \<Longrightarrow> yields P m U"
  unfolding yields_def good_result_def by (fastforce split: result.splits)

lemma yields_ret [yields_intros]: "V x \<Longrightarrow> yields P (ret x) V"
  by (simp add: yields_def ret_def)

lemma yields_skip [yields_intros]: "V () \<Longrightarrow> yields P skip V"
  by (simp add: skip_def yields_ret)

lemma yields_throw [yields_intros]: "handled_exn e \<Longrightarrow> yields P (throw e) V"
  by (simp add: yields_def throw_def)

lemma yields_diverge [yields_intros]: "yields P diverge V"
  by (simp add: yields_def diverge_def)

lemma yields_lift: "good_result V r \<Longrightarrow> yields P (lift_result r) V"
  by (simp add: yields_def lift_result_def)

lemma yields_lift_Ok [yields_intros]: "(\<exists>x. r = Ok x \<and> V x) \<Longrightarrow> yields P (lift_result r) V"
  by (auto intro: yields_lift)

lemma yields_gets [yields_intros]: "(\<And>w. V (f w)) \<Longrightarrow> yields P (gets f) V"
  by (simp add: yields_def gets_def)

lemma yields_bind:
  assumes m: "yields P m V" and f: "\<And>x. V x \<Longrightarrow> yields P (f x) U"
  shows "yields P (bind m f) U"
proof (rule yieldsI)
  fix w r w' assume w: "world_inv P w" and b: "bind m f w = (r, w')"
  obtain r1 w1 where m1: "m w = (r1, w1)" by fastforce
  from yieldsD [OF m w m1] have 1: "world_inv P w1" "good_result V r1" by simp_all
  show "world_inv P w' \<and> good_result U r"
  proof (cases r1)
    case (Ok x)
    with b m1 have "f x w1 = (r, w')" by (simp add: bind_def)
    with yieldsD [OF f 1(1)] 1(2) Ok show ?thesis by simp
  qed (use b m1 1 in \<open>auto simp: bind_def\<close>)
qed

lemma yields_seq [yields_intros]:
  "yields P m (\<lambda>_. True) \<Longrightarrow> yields P n U \<Longrightarrow> yields P (seq m n) U"
  unfolding seq_def by (rule yields_bind)

lemma yields_if [yields_intros]:
  "(b \<Longrightarrow> yields P m V) \<Longrightarrow> (\<not> b \<Longrightarrow> yields P n V) \<Longrightarrow> yields P (if b then m else n) V"
  by simp

lemma yields_when_do [yields_intros]: "(b \<Longrightarrow> yields P m V) \<Longrightarrow> V () \<Longrightarrow> yields P (when_do b m) V"
  by (simp add: when_do_def yields_skip)

lemma yields_case_option:
  "(x = None \<Longrightarrow> yields P m V) \<Longrightarrow> (\<And>y. x = Some y \<Longrightarrow> yields P (f y) V) \<Longrightarrow>
   yields P (case x of None \<Rightarrow> m | Some y \<Rightarrow> f y) V"
  by (cases x) auto

lemma yields_for_each [yields_intros]:
  "(\<And>x. x \<in> set xs \<Longrightarrow> yields P (f x) (\<lambda>_. True)) \<Longrightarrow> yields P (for_each xs f) (\<lambda>_. True)"
  by (induction xs) (auto intro: yields_skip yields_seq)

lemma yields_catch [yields_intros]:
  assumes m: "yields P m V" and h: "\<And>e. handled_exn e \<Longrightarrow> yields P (h e) V"
  shows "yields P (catch m h) V"
proof (rule yieldsI)
  fix w r w' assume w: "world_inv P w" and b: "catch m h w = (r, w')"
  obtain r1 w1 where m1: "m w = (r1, w1)" by fastforce
  from yieldsD [OF m w m1] have 1: "world_inv P w1" "good_result V r1" by simp_all
  show "world_inv P w' \<and> good_result V r"
  proof (cases r1)
    case (Throw e)
    with b m1 have "h e w1 = (r, w')" by (simp add: catch_def)
    with yieldsD [OF h 1(1)] 1(2) Throw show ?thesis by simp
  qed (use b m1 1 in \<open>auto simp: catch_def\<close>)
qed

lemma yields_destructor [yields_intros]:
  assumes m: "yields P m V" and f: "\<And>w. world_inv P w \<Longrightarrow> world_inv P (f w)"
  shows "yields P (destructor m f) V"
proof (rule yieldsI)
  fix w r w' assume w: "world_inv P w" and b: "destructor m f w = (r, w')"
  obtain r1 w1 where m1: "m w = (r1, w1)" by fastforce
  from yieldsD [OF m w m1] b m1 f show "world_inv P w' \<and> good_result V r"
    by (cases r1) (auto simp: destructor_def)
qed

subsection \<open>Steps\<close>

lemma world_inv_local [simp]:
  "world_inv P (w\<lparr>w_rng := g\<rparr>) = world_inv P w" "world_inv P (w\<lparr>conn := c\<rparr>) = world_inv P w"
  "world_inv P (w\<lparr>clock := n\<rparr>) = world_inv P w"
  by (simp_all add: world_inv_def)

lemma interfere_ok:
  assumes "header_blind P" and "world_inv P w"
  obtains g where "interfere w = (Ok (), w\<lparr>registry := g, clock := Suc (clock w)\<rparr>)"
    "world_inv P (w\<lparr>registry := g, clock := Suc (clock w)\<rparr>)"
proof -
  have "\<exists>is g. registry_run (others w (clock w)) (registry w) = Ok (is, g) \<and> catalog_inv (tables g) \<and>
      all_tables P (catalog_byId (tables g))"
    by (rule registry_run_keeps [OF assms(1)]) (use assms(2) in \<open>auto simp: world_inv_def\<close>)
  then show ?thesis using that assms(2) by (auto simp: interfere_def world_inv_def)
qed

lemma yields_interfere: "header_blind P \<Longrightarrow> yields P interfere (\<lambda>_. True)"
  by (rule yieldsI, erule (1) interfere_ok) auto

lemma yields_in_rng:
  assumes "\<And>g. good_result V (fst (m g))"
  shows "yields P (in_rng m) V"
proof (rule yieldsI)
  fix w r w' assume w: "world_inv P w" "in_rng m w = (r, w')"
  with assms [of "w_rng w"] show "world_inv P w' \<and> good_result V r"
    by (auto simp: in_rng_def split: prod.splits)
qed

lemma yields_in_conn:
  assumes "\<And>g. good_result V (fst (m g))"
  shows "yields P (in_conn m) V"
proof (rule yieldsI)
  fix w r w' assume w: "world_inv P w" "in_conn m w = (r, w')"
  with assms [of "conn w"] show "world_inv P w' \<and> good_result V r"
    by (auto simp: in_conn_def split: prod.splits)
qed

lemma yields_draw [yields_intros]: "lo \<le> hi \<Longrightarrow> yields P (draw lo hi) (\<lambda>n. lo \<le> n \<and> n \<le> hi)"
  unfolding draw_def
proof (rule yields_in_rng)
  fix g assume "lo \<le> hi"
  then show "good_result (\<lambda>n. lo \<le> n \<and> n \<le> hi) (fst (random_number lo hi g))"
    by (cases rule: random_number_cases [of lo hi g]) auto
qed

lemma yields_run_sql [yields_intros]: "(\<And>r. V r) \<Longrightarrow> yields P (run_sql q) V"
  unfolding run_sql_def conn_executeQuery_def sql_send_def
  by (rule yields_in_conn) (simp add: Let_def)

lemma yields_maybeThrow: "V () \<Longrightarrow> yields P (lift_result (maybeThrow r)) V"
  by (rule yields_lift) (simp add: maybeThrow_def result_exception_def)

lemma yields_exec_sql [yields_intros]: "V () \<Longrightarrow> yields P (exec_sql q) V"
  unfolding exec_sql_def
  by (rule yields_bind [OF yields_run_sql [where V = "\<lambda>_. True"]]) (auto intro: yields_maybeThrow)

subsection \<open>Catalog steps\<close>

lemma view_of_wf: "world_inv P w \<Longrightarrow> view_wf (view_of ctx w)"
  by (cases ctx; cases "buffer w") (auto simp: view_of_def world_inv_def buffer_inv_def)

lemma view_of_tables:
  assumes "world_inv P w" and "view_byId (view_of ctx w) i = Some t"
  shows "P t \<and> obj_id t = i \<and> i \<noteq> 0"
proof -
  have "P t"
    using assms
    by (cases ctx; cases "buffer w")
      (auto simp: view_of_def world_inv_def buffer_inv_def overlay_defs ran_def
        split: if_splits option.splits dest: all_tablesD)
  with view.get_id [OF view_of_wf [OF assms(1)] assms(2)] show ?thesis by simp
qed

lemma view_randomPick_live:
  assumes "view_wf v"
  shows "\<exists>x g'. view_randomPick v g = (Ok x, g') \<and> (x = None \<longleftrightarrow> view_byId v = Map.empty) \<and>
    (\<forall>t. x = Some t \<longrightarrow> view_byId v (obj_id t) = Some t)"
proof (cases v rule: view_wf.cases)
  case (1 c)
  with assms catalog_randomPick_ok [of c g] show ?thesis by simp
next
  case (2 c b)
  from view_snapshotAll_ok [OF assms] obtain xs where
    xs: "view_snapshotAll v = Ok xs" "set xs = ran (view_byId v)" by blast
  show ?thesis
  proof (cases "xs = []")
    case True
    with xs(2) have "view_byId v = Map.empty" by (auto simp: ran_def fun_eq_iff) (metis not_Some_eq)
    with 2 xs True show ?thesis
      by (auto simp: bind_def lift_result_def ret_def simp del: view_snapshotAll.simps)
  next
    case False
    obtain k where k: "k \<le> length xs - 1"
      "random_number 0 (length xs - 1) g = (Ok k, g\<lparr>drawn := Suc (drawn g)\<rparr>)"
      by (rule random_number_cases [of 0 "length xs - 1" g]) auto
    with False have "xs ! k \<in> ran (view_byId v)" using xs(2) nth_mem [of k xs]
      by (cases xs) auto
    then obtain i where "view_byId v i = Some (xs ! k)" by (auto simp: ran_def)
    with view.get_id [OF assms this] k False 2 xs(1) show ?thesis
      by (auto simp: bind_def lift_result_def ret_def simp del: view_snapshotAll.simps view_byId.simps)
  qed
qed

lemma yields_after_interfere:
  assumes "header_blind P"
    and "\<And>w r w'. world_inv P w \<Longrightarrow> m w = (r, w') \<Longrightarrow> world_inv P w' \<and> good_result V r"
  shows "yields P (seq interfere m) V"
  by (rule yields_seq [OF yields_interfere [OF assms(1)] yieldsI [OF assms(2)]])

lemma yields_randomPick:
  assumes "header_blind P"
  shows "yields P (tables_randomPick ctx) (\<lambda>x. \<forall>t. x = Some t \<longrightarrow> P t \<and> obj_id t \<noteq> 0)"
  unfolding tables_randomPick_def
proof (rule yields_after_interfere [OF assms])
  fix w r w' assume w: "world_inv P w" "in_rng (view_randomPick (view_of ctx w)) w = (r, w')"
  obtain x g' where x: "view_randomPick (view_of ctx w) (w_rng w) = (Ok x, g')"
    "\<forall>t. x = Some t \<longrightarrow> view_byId (view_of ctx w) (obj_id t) = Some t"
    using view_randomPick_live [OF view_of_wf [OF w(1), of ctx], of "w_rng w"] by blast
  from w x(1) have "w' = w\<lparr>w_rng := g'\<rparr>" "r = Ok x"
    by (auto simp: in_rng_def)
  with w(1) x(2) view_of_tables [OF w(1), of ctx]
  show "world_inv P w' \<and> good_result (\<lambda>x. \<forall>t. x = Some t \<longrightarrow> P t \<and> obj_id t \<noteq> 0) r"
    by (auto simp del: view_byId.simps)
qed

lemma yields_read:
  assumes "header_blind P" and "\<And>v. view_wf v \<Longrightarrow> \<exists>x. f v = Ok x"
  shows "yields P (read_view ctx f) (\<lambda>_. True)"
  unfolding read_view_def
proof (rule yields_after_interfere [OF assms(1)])
  fix w r w' assume "world_inv P w" "(f (view_of ctx w), w) = (r, w')"
  with assms(2) [OF view_of_wf, of P w ctx] show "world_inv P w' \<and> good_result (\<lambda>_. True) r"
    by auto
qed

lemma yields_size: "header_blind P \<Longrightarrow> yields P (tables_size ctx) (\<lambda>_. True)"
  unfolding tables_size_def
proof (rule yields_read)
  fix v :: "table view" assume "view_wf v"
  then show "\<exists>x. view_size v = Ok x"
    using view_snapshotAll_ok [of v]
    by (cases v rule: view_wf.cases) (auto simp del: view_snapshotAll.simps)
qed

lemma yields_byId: "header_blind P \<Longrightarrow> yields P (tables_byId ctx i) (\<lambda>_. True)"
  unfolding tables_byId_def by (rule yields_read) auto

lemma yields_snapshotAll: "header_blind P \<Longrightarrow> yields P (tables_snapshotAll ctx) (\<lambda>_. True)"
  unfolding tables_snapshotAll_def
  by (rule yields_read) (use view_snapshotAll_ok in blast)+

subsection \<open>Writes\<close>

definition view_keeps :: "(table \<Rightarrow> bool) \<Rightarrow> table view \<Rightarrow> bool" where
  "view_keeps P v \<longleftrightarrow> catalog_inv (fst v) \<and> all_tables P (catalog_byId (fst v)) \<and> buffer_inv P (snd v)"

lemma view_keeps_of: "world_inv P w \<Longrightarrow> view_keeps P (view_of ctx w)"
  by (cases ctx) (auto simp: view_keeps_def view_of_def world_inv_def buffer_inv_def)

lemma world_inv_put: "world_inv P w \<Longrightarrow> view_keeps P v \<Longrightarrow> world_inv P (put_view ctx v w)"
  by (cases ctx) (auto simp: view_keeps_def put_view_def world_inv_def Let_def)

lemma catalog_op_keeps:
  assumes "header_blind P" "catalog_inv c" "all_tables P (catalog_byId c)" "op_keeps P op"
    and "catalog_apply op c = Ok (b, c')"
  shows "catalog_inv c' \<and> all_tables P (catalog_byId c')"
  using catalog_apply_keeps [OF assms(1-4)] assms(5) by auto

lemma view_insert_keeps:
  assumes "header_blind P" "view_keeps P v" "P t"
  shows "view_keeps P (snd (view_insert t v))"
proof (cases v rule: view_wf.cases)
  case (1 c)
  with assms catalog_op_keeps [OF assms(1), of c "Op_insert t"] show ?thesis
    by (auto simp: view_keeps_def split: prod.splits)
next
  case (2 c b)
  have "buffer_inv P (Some (txn_insert t b))" if "obj_id t \<noteq> 0"
    using assms that txn_wf_ops(1) [of b t] 2
    by (auto simp: view_keeps_def buffer_inv_def txn_insert_def applyInsert_def Let_def ran_def
        split: if_splits)
  with 2 assms show ?thesis by (auto simp: view_keeps_def)
qed

lemma view_update_keeps:
  assumes "header_blind P" "view_keeps P v" "delta_keeps P d"
  shows "view_keeps P (snd (view_update i d v))"
proof (cases v rule: view_wf.cases)
  case (1 c)
  with assms catalog_op_keeps [OF assms(1), of c "Op_update i d"] show ?thesis
    by (auto simp: view_keeps_def split: prod.splits)
next
  case (2 c b)
  have wf: "txn_wf (snd (txn_update i d c b))"
    using assms(2) 2 by (intro txn_wf_ops(2)) (auto simp: view_keeps_def buffer_inv_def)
  have "buffer_inv P (Some (snd (txn_update i d c b)))"
  proof (cases rule: applyUpdate_cases [of c b i d])
    case skip
    with assms 2 show ?thesis by (simp add: txn_update_def view_keeps_def)
  next
    case (hit base copy)
    have "P base"
      using hit(1,3) assms(2) 2
      by (auto simp: view_keeps_def buffer_inv_def overlay_defs ran_def split: option.splits dest: all_tablesD)
    with hit(2) assms(3) have "P (copy\<lparr>obj_id := i\<rparr>)"
      by (auto simp: delta_keeps_def header_blind_id [OF assms(1)])
    with wf hit assms(2,3) 2 show ?thesis
      by (auto simp: view_keeps_def buffer_inv_def txn_update_def ran_def split: if_splits)
  qed
  with 2 assms(2) show ?thesis by (auto simp: view_keeps_def split: prod.splits)
qed

lemma view_erase_keeps:
  assumes "header_blind P" "view_keeps P v"
  shows "\<exists>b v'. view_erase i v = Ok (b, v') \<and> view_keeps P v'"
proof (cases v rule: view_wf.cases)
  case (1 c)
  with assms catalog_apply_keeps [OF assms(1), of c "Op_erase i"] show ?thesis
    by (auto simp: view_keeps_def)
next
  case (2 c b)
  have "txn_wf (snd (txn_erase i c b))"
    using assms(2) 2 by (intro txn_wf_ops(3)) (auto simp: view_keeps_def buffer_inv_def)
  then have "buffer_inv P (Some (snd (txn_erase i c b)))"
    using assms(2) 2
    by (auto simp: view_keeps_def buffer_inv_def txn_erase_def applyErase_def Let_def ran_def
        split: if_splits)
  with 2 assms(2) show ?thesis by (auto simp: view_keeps_def split: prod.splits)
qed

lemma yields_insert:
  assumes "header_blind P" and "P t"
  shows "yields P (tables_insert ctx t) (\<lambda>_. True)"
  unfolding tables_insert_def
proof (rule yields_after_interfere [OF assms(1)])
  fix w r w' assume w: "world_inv P w" and
    s: "(let (b, v) = view_insert t (view_of ctx w) in (Ok b, put_view ctx v w)) = (r, w')"
  obtain b v where v: "view_insert t (view_of ctx w) = (b, v)" by (rule prod.exhaust)
  from view_insert_keeps [OF assms(1) view_keeps_of [OF w] assms(2), of ctx] v
  have "view_keeps P v" by simp
  from world_inv_put [OF w this] s v show "world_inv P w' \<and> good_result (\<lambda>_. True) r" by auto
qed

lemma yields_update:
  assumes "header_blind P" and "delta_keeps P d"
  shows "yields P (tables_update ctx i d) (\<lambda>_. True)"
  unfolding tables_update_def
proof (rule yields_after_interfere [OF assms(1)])
  fix w r w' assume w: "world_inv P w" and
    s: "(let (b, v) = view_update i d (view_of ctx w) in (Ok b, put_view ctx v w)) = (r, w')"
  obtain b v where v: "view_update i d (view_of ctx w) = (b, v)" by (rule prod.exhaust)
  from view_update_keeps [OF assms(1) view_keeps_of [OF w] assms(2), of i ctx] v
  have "view_keeps P v" by simp
  from world_inv_put [OF w this] s v show "world_inv P w' \<and> good_result (\<lambda>_. True) r" by auto
qed

lemma yields_erase:
  assumes "header_blind P"
  shows "yields P (tables_erase ctx i) (\<lambda>_. True)"
  unfolding tables_erase_def
proof (rule yields_after_interfere [OF assms])
  fix w r w' assume w: "world_inv P w" and s: "(case view_erase i (view_of ctx w) of
       Ok (b, v) \<Rightarrow> (Ok b, put_view ctx v w)
     | Throw e \<Rightarrow> (Throw e, w) | Undefined \<Rightarrow> (Undefined, w) | Diverges \<Rightarrow> (Diverges, w)) = (r, w')"
  obtain b v where "view_erase i (view_of ctx w) = Ok (b, v)" "view_keeps P v"
    using view_erase_keeps [OF assms view_keeps_of [OF w]] by blast
  with s world_inv_put [OF w, of v ctx] show "world_inv P w' \<and> good_result (\<lambda>_. True) r" by auto
qed

lemma yields_nextId: "header_blind P \<Longrightarrow> yields P ctx_nextId (\<lambda>_. True)"
  unfolding ctx_nextId_def
  by (rule yields_after_interfere) (auto simp: registry_nextId_def world_inv_def)

lemma yields_find_random_table:
  "header_blind P \<Longrightarrow> yields P (find_random_table ctx) (\<lambda>t. P t \<and> obj_id t \<noteq> 0)"
  unfolding find_random_table_def
  by (rule yields_bind [OF yields_randomPick])
    (auto intro: yields_ret yields_throw split: option.splits)

text \<open>Composite, repeated and custom actions inherit what their parts yield.\<close>

lemma yields_composite:
  "(\<And>a. a \<in> set as \<Longrightarrow> yields P (a ctx) (\<lambda>_. True)) \<Longrightarrow> yields P (composite_execute as ctx) (\<lambda>_. True)"
  unfolding composite_execute_def by (rule yields_for_each)

lemma yields_repeat:
  "yields P (a ctx) (\<lambda>_. True) \<Longrightarrow> yields P (repeat_execute a n ctx) (\<lambda>_. True)"
  unfolding repeat_execute_def by (rule yields_for_each)

lemma yields_inject:
  "header_blind P \<Longrightarrow> set ps \<subseteq> {''table''} \<Longrightarrow> yields P (inject_all ctx ps s) (\<lambda>_. True)"
proof (induction ps arbitrary: s)
  case Nil
  then show ?case by (simp add: yields_ret)
next
  case (Cons p ps)
  then have "yields P (doInject ctx p) (\<lambda>_. True)"
    unfolding doInject_def
    by (auto intro!: yields_bind [OF yields_find_random_table] yields_ret)
  with Cons show ?case by (auto intro: yields_bind)
qed

lemma yields_custom:
  "header_blind P \<Longrightarrow> custom_sql_new injects = Ok () \<Longrightarrow> yields P (custom_execute s injects ctx) (\<lambda>_. True)"
  unfolding custom_execute_def
  by (rule yields_bind [OF yields_inject])
    (auto intro: yields_exec_sql simp: custom_sql_new_def split: if_splits)

section \<open>Statements sent\<close>

lemma exec_sql_eq:
  "exec_sql q w = (let res = server (conn w) (sent (conn w)) (Sql_query q);
       w' = snd (run_sql q w) in
     (if qr_success res then Ok () else Throw (result_exception res), w'))"
  by (simp add: exec_sql_def run_sql_def in_conn_def conn_executeQuery_def sql_send_def bind_def
      lift_result_def maybeThrow_def Let_def)

lemma run_sql_sent [simp]:
  "sent (conn (snd (run_sql q w))) = sent (conn w) @ [Sql_query q]"
  "server (conn (snd (run_sql q w))) = server (conn w)"
  "conn_info (conn (snd (run_sql q w))) = conn_info (conn w)"
  by (simp_all add: run_sql_def in_conn_def conn_executeQuery_def sql_send_def observeResult_def Let_def)

text \<open>Statements one after the other, up to the first that fails.\<close>

lemma for_each_exec_sql:
  assumes "for_each qs exec_sql w = (r, w')"
  shows "\<exists>k \<le> length qs. sent (conn w') = sent (conn w) @ map Sql_query (take k qs) \<and>
    (r = Ok () \<and> k = length qs \<or> (\<exists>e. r = Throw e) \<and> 0 < k)"
  using assms
proof (induction qs arbitrary: w)
  case Nil
  then show ?case by (simp add: skip_def ret_def)
next
  case (Cons q qs)
  obtain r1 w1 where q: "exec_sql q w = (r1, w1)" by fastforce
  then have s: "sent (conn w1) = sent (conn w) @ [Sql_query q]" by (auto simp: exec_sql_eq Let_def)
  show ?case
  proof (cases r1)
    case (Ok x)
    with Cons.prems q have "for_each qs exec_sql w1 = (r, w')" by (simp add: seq_def bind_def)
    from Cons.IH [OF this] obtain k where k: "k \<le> length qs"
      "sent (conn w') = sent (conn w1) @ map Sql_query (take k qs)"
      "r = Ok () \<and> k = length qs \<or> (\<exists>e. r = Throw e) \<and> 0 < k" by blast
    with s show ?thesis by (intro exI [of _ "Suc k"]) auto
  next
    case (Throw e)
    with Cons.prems q s show ?thesis by (intro exI [of _ 1]) (auto simp: seq_def bind_def)
  qed (use q in \<open>auto simp: exec_sql_eq Let_def split: if_splits\<close>)
qed

lemma draw_cases:
  assumes "lo \<le> hi"
  obtains n w' where "draw lo hi w = (Ok n, w')" "lo \<le> n" "n \<le> hi" "conn w' = conn w"
proof -
  obtain r g where g: "random_number lo hi (w_rng w) = (r, g)" by fastforce
  with assms obtain n where "r = Ok n" by (auto simp: random_number_def)
  with g random_number_range [of lo hi "w_rng w" n g] that [of n "w\<lparr>w_rng := g\<rparr>"] show ?thesis
    by (simp add: draw_def in_rng_def)
qed

section \<open>A worker alone\<close>

text \<open>\<open>quiet w\<close>: no other worker acts. The catalog steps are then plain view operations.\<close>

definition quiet :: "world \<Rightarrow> bool" where
  "quiet w \<longleftrightarrow> (\<forall>n. others w n = [])"

lemma interfere_quiet: "quiet w \<Longrightarrow> interfere w = (Ok (), w\<lparr>clock := Suc (clock w)\<rparr>)"
  by (simp add: interfere_def quiet_def)

lemma quiet_local [simp]:
  "quiet (w\<lparr>clock := n\<rparr>) = quiet w" "quiet (w\<lparr>conn := c\<rparr>) = quiet w"
  "quiet (w\<lparr>w_rng := g\<rparr>) = quiet w" "quiet (w\<lparr>registry := r\<rparr>) = quiet w"
  "quiet (w\<lparr>buffer := b\<rparr>) = quiet w" "quiet (put_view ctx v w) = quiet w"
  by (simp_all add: quiet_def put_view_def Let_def split: ctx_kind.splits)

text \<open>The store a program works on, and the relation "the store is as it was".\<close>

definition store_of :: "world \<Rightarrow> table_catalog \<times> table txn_buffer option" where
  "store_of w = (tables (registry w), buffer w)"

definition quiet_same :: "world \<Rightarrow> world \<Rightarrow> bool" where
  "quiet_same w w' \<longleftrightarrow> (quiet w \<longrightarrow> quiet w' \<and> store_of w' = store_of w)"

lemma preord_quiet_same [keeps_intros, simp]: "preord quiet_same"
  by (auto simp: preord_def quiet_same_def reflp_def transp_def)

lemma keeps_in_rng [keeps_intros]: "keeps quiet_same (in_rng m)"
  by (auto simp: keeps_def quiet_same_def in_rng_def store_of_def split: prod.splits)

lemma keeps_in_conn [keeps_intros]: "keeps quiet_same (in_conn m)"
  by (auto simp: keeps_def quiet_same_def in_conn_def store_of_def split: prod.splits)

lemma keeps_draw [keeps_intros]: "keeps quiet_same (draw lo hi)"
  unfolding draw_def by (rule keeps_in_rng)

lemma keeps_interfere [keeps_intros]: "keeps quiet_same interfere"
  by (rule keepsI) (simp add: quiet_same_def interfere_quiet store_of_def)

lemma keeps_world_reads [keeps_intros]:
  "keeps quiet_same (tables_randomPick ctx)" "keeps quiet_same (read_view ctx f)"
  "keeps quiet_same (tables_size ctx)" "keeps quiet_same (tables_byId ctx i)"
  "keeps quiet_same (tables_snapshotAll ctx)"
proof -
  show r: "keeps quiet_same (read_view ctx f)" for f :: "table view \<Rightarrow> 'a result"
    unfolding read_view_def
    by (intro keeps_seq keeps_interfere preord_quiet_same) (simp add: keeps_def quiet_same_def)
  show "keeps quiet_same (tables_randomPick ctx)"
    unfolding tables_randomPick_def
    by (intro keeps_seq keeps_interfere preord_quiet_same)
      (auto simp: keeps_def quiet_same_def in_rng_def store_of_def split: prod.splits)
  show "keeps quiet_same (tables_size ctx)" "keeps quiet_same (tables_byId ctx i)"
    "keeps quiet_same (tables_snapshotAll ctx)"
    unfolding tables_size_def tables_byId_def tables_snapshotAll_def read_view_def
    by (intro keeps_seq keeps_interfere preord_quiet_same, simp add: keeps_def quiet_same_def)+
qed

lemma keeps_nextId [keeps_intros]: "keeps quiet_same ctx_nextId"
  unfolding ctx_nextId_def
  by (intro keeps_seq keeps_interfere preord_quiet_same)
    (auto simp: keeps_def quiet_same_def registry_nextId_def store_of_def)

lemma keeps_sql [keeps_intros]: "keeps quiet_same (run_sql q)" "keeps quiet_same (exec_sql q)"
  unfolding exec_sql_def run_sql_def
  by (intro keeps_bind keeps_in_conn preord_quiet_same keeps_pure)+

lemma keeps_find_random_table [keeps_intros]: "keeps quiet_same (find_random_table ctx)"
  unfolding find_random_table_def
  by (intro keeps_bind keeps_world_reads preord_quiet_same keeps_case_option keeps_pure)

end
