(* ===== verification/Variable_Fuzzing.thy ===== *)
theory Variable_Fuzzing
  imports World "HOL-Library.Code_Target_Nat"
begin

text \<open>
  \<open>SetVariable\<close> (core/include/action/variable.hpp, core/src/action/variable.cpp): picks one of the
  configured server variables that fit the server and the way of setting it, by weight, draws a
  value and sends the statements that set it. \<open>std::int64_t\<close> values are \<open>int\<close>; a signed overflow is
  \<open>Undefined\<close>, and the random source's integer path goes through \<open>size_t\<close>.
\<close>

section \<open>Specifications\<close>

datatype variable_mechanism = Vm_session | Vm_global | Vm_reload | Vm_startup

definition mechanism_bits :: "variable_mechanism \<Rightarrow> 8 word" where
  "mechanism_bits m = (case m of Vm_session \<Rightarrow> 1 | Vm_global \<Rightarrow> 2 | Vm_reload \<Rightarrow> 4 | Vm_startup \<Rightarrow> 8)"

record variable_int_range =
  ir_min :: int
  ir_max :: int
  ir_step :: int
  ir_suffix :: string

datatype variable_generator = Vg_choices "string list" | Vg_int_range variable_int_range | Vg_bool

record variable_spec =
  vs_name :: string
  vs_flavor :: flavor
  min_version :: "64 word"
  max_version :: "64 word"
  mechanisms :: "8 word"
  vs_weight :: nat
  generator :: variable_generator

section \<open>Choice\<close>

definition eligible :: "variable_spec \<Rightarrow> variable_mechanism \<Rightarrow> server_info \<Rightarrow> bool" where
  "eligible spec mechanism info =
     (if and (mechanisms spec) (mechanism_bits mechanism) = 0 then False
      else if \<not> matching_any info (vs_flavor spec) then False
      else if min_version spec \<noteq> 0 \<and> si_version info < min_version spec then False
      else if max_version spec \<noteq> 0 \<and> si_version info > max_version spec then False
      else True)"

definition eligible_total :: "variable_spec list \<Rightarrow> variable_mechanism \<Rightarrow> server_info \<Rightarrow> nat" where
  "eligible_total specs mechanism info = foldl (\<lambda>total spec.
     if eligible spec mechanism info then size_wrap (total + vs_weight spec) else total) 0 specs"

fun pick_at :: "nat \<Rightarrow> variable_mechanism \<Rightarrow> server_info \<Rightarrow> variable_spec list \<Rightarrow> variable_spec option" where
  "pick_at roll mechanism info [] = None"
| "pick_at roll mechanism info (spec # specs) =
     (if \<not> eligible spec mechanism info then pick_at roll mechanism info specs
      else if roll \<le> vs_weight spec then Some spec
      else pick_at (roll - vs_weight spec) mechanism info specs)"

definition pick ::
  "variable_spec list \<Rightarrow> variable_mechanism \<Rightarrow> server_info \<Rightarrow> (world, variable_spec option) prog" where
  "pick specs mechanism info =
     (let total = eligible_total specs mechanism info in
      if total = 0 then ret None
      else bind (draw 1 total) (\<lambda>roll. ret (pick_at roll mechanism info specs)))"

section \<open>Values\<close>

text \<open>\<open>random_number<std::int64_t>\<close>: the bounds and the result pass through \<open>size_t\<close>.\<close>

definition to_size :: "int \<Rightarrow> nat" where
  "to_size k = nat (k mod 2 ^ 64)"

definition from_size :: "nat \<Rightarrow> int" where
  "from_size n = (if n < 2 ^ 63 then int n else int n - 2 ^ 64)"

definition draw_int64 :: "int \<Rightarrow> int \<Rightarrow> (world, int) prog" where
  "draw_int64 lo hi = bind (draw (to_size lo) (to_size hi)) (\<lambda>n. ret (from_size n))"

definition times_int64 :: "int \<Rightarrow> int \<Rightarrow> int result" where
  "times_int64 a b = (if - (2 ^ 63) \<le> a * b \<and> a * b < 2 ^ 63 then Ok (a * b) else Undefined)"

definition vector_at :: "'a list \<Rightarrow> nat \<Rightarrow> 'a result" where
  "vector_at xs n = (if n < length xs then Ok (xs ! n) else Throw (Out_of_range ''vector''))"

definition render_value :: "variable_spec \<Rightarrow> server_info \<Rightarrow> (world, string) prog" where
  "render_value spec info = (case generator spec of
       Vg_choices values \<Rightarrow>
         bind (draw 0 (if values = [] then size_max else length values - 1)) (\<lambda>n.
         lift_result (vector_at values n))
     | Vg_int_range gen \<Rightarrow>
         bind (draw_int64 (ir_min gen) (ir_max gen)) (\<lambda>k.
         bind (lift_result (times_int64 k (ir_step gen))) (\<lambda>v.
         let value = fmt_int v @ ir_suffix gen in
         ret (if is_pg_like info \<and> ir_suffix gen \<noteq> [] then [CHR 0x27] @ value @ [CHR 0x27] else value)))
     | Vg_bool \<Rightarrow> bind (in_rng random_bool) (\<lambda>on.
         ret (if is_pg_like info then (if on then ''on'' else ''off'')
              else (if on then ''ON'' else ''OFF''))))"

section \<open>Statements\<close>

definition build_sql ::
  "variable_spec \<Rightarrow> string \<Rightarrow> variable_mechanism \<Rightarrow> server_info \<Rightarrow> string list result" where
  "build_sql spec value mechanism info = (case mechanism of
       Vm_session \<Rightarrow>
         if is_pg_like info then Ok [''SET '' @ vs_name spec @ '' = '' @ value]
         else Ok [''SET SESSION '' @ vs_name spec @ '' = '' @ value]
     | Vm_global \<Rightarrow> Ok [''SET GLOBAL '' @ vs_name spec @ '' = '' @ value]
     | Vm_reload \<Rightarrow> Ok [''ALTER SYSTEM SET '' @ vs_name spec @ '' = '' @ value, ''SELECT pg_reload_conf()'']
     | Vm_startup \<Rightarrow> Throw (Action_Exception ''invalid-variable-mechanism''
         ''startup is not a runtime mechanism''))"

definition SetVariable_execute :: "variable_spec list \<Rightarrow> variable_mechanism \<Rightarrow> action" where
  "SetVariable_execute specs mechanism ctx =
     bind server_is (\<lambda>info.
     bind (pick specs mechanism info) (\<lambda>spec. case spec of
         None \<Rightarrow> skip
       | Some s \<Rightarrow>
           bind (render_value s info) (\<lambda>value.
           bind (lift_result (build_sql s value mechanism info)) (\<lambda>sqls.
           for_each sqls exec_sql))))"

section \<open>The choice respects weights\<close>

definition weights_of :: "variable_spec list \<Rightarrow> variable_mechanism \<Rightarrow> server_info \<Rightarrow> nat" where
  "weights_of specs mechanism info = sum_list (map vs_weight (filter (\<lambda>s. eligible s mechanism info) specs))"

lemma weights_of_simps [simp]:
  "weights_of [] mechanism info = 0"
  "weights_of (s # specs) mechanism info =
     (if eligible s mechanism info then vs_weight s else 0) + weights_of specs mechanism info"
  by (simp_all add: weights_of_def)

lemma foldl_total:
  "foldl (\<lambda>total spec. if eligible spec mechanism info then size_wrap (total + vs_weight spec) else total)
     (size_wrap a) specs = size_wrap (a + weights_of specs mechanism info)"
  by (induction specs arbitrary: a) (simp_all add: size_wrap_def mod_add_left_eq add.assoc)

lemma eligible_total_sum: "eligible_total specs mechanism info = size_wrap (weights_of specs mechanism info)"
  using foldl_total [of mechanism info 0 specs] by (simp add: eligible_total_def size_wrap_def)

lemma eligible_total_le: "eligible_total specs mechanism info \<le> weights_of specs mechanism info"
  by (simp add: eligible_total_sum size_wrap_def)

lemma pick_at_some:
  "1 \<le> roll \<Longrightarrow> roll \<le> weights_of specs mechanism info \<Longrightarrow>
   \<exists>s \<in> set specs. pick_at roll mechanism info specs = Some s \<and> eligible s mechanism info \<and> 0 < vs_weight s"
  by (induction roll mechanism info specs rule: pick_at.induct) (auto split: if_splits)

lemma pick_at_mem: "pick_at roll mechanism info specs = Some s \<Longrightarrow> s \<in> set specs \<and> eligible s mechanism info"
  by (induction roll mechanism info specs rule: pick_at.induct) (auto split: if_splits)

lemma pick_at_card:
  "distinct specs \<Longrightarrow> s \<in> set specs \<Longrightarrow> eligible s mechanism info \<Longrightarrow>
   card {roll \<in> {a<..a + weights_of specs mechanism info}. pick_at (roll - a) mechanism info specs = Some s}
     = vs_weight s"
proof (induction specs arbitrary: a)
  case (Cons t specs)
  let ?b = "a + vs_weight t"
  consider "t = s" | "t \<noteq> s" "eligible t mechanism info" | "t \<noteq> s" "\<not> eligible t mechanism info" by blast
  then show ?case
  proof cases
    case 1
    with Cons.prems have "{roll \<in> {a<..a + weights_of (t # specs) mechanism info}.
        pick_at (roll - a) mechanism info (t # specs) = Some s} = {a<..?b}"
      by (auto dest: pick_at_mem split: if_splits)
    with 1 show ?thesis by simp
  next
    case 2
    then have "{roll \<in> {a<..a + weights_of (t # specs) mechanism info}.
        pick_at (roll - a) mechanism info (t # specs) = Some s}
      = {roll \<in> {?b<..?b + weights_of specs mechanism info}. pick_at (roll - ?b) mechanism info specs = Some s}"
      by auto
    with 2 Cons show ?thesis by simp
  qed (use Cons in simp)
qed simp

text \<open>
  The choice among variables. As long as the weights of the eligible specifications add up to
  less than \<open>2 ^ 64\<close>, every roll the action can draw leads to an eligible specification of positive
  weight (the \<open>nullptr\<close> after the loop is indeed unreachable), and each eligible specification is
  reached by exactly as many rolls as its weight. When no weight is left nothing is drawn.
\<close>

theorem pick_respects_weights:
  assumes "distinct specs" and "weights_of specs mechanism info < 2 ^ 64"
  shows "(eligible_total specs mechanism info = 0 \<longrightarrow> pick specs mechanism info w = (Ok None, w)) \<and>
    (\<forall>roll \<in> {1..eligible_total specs mechanism info}. \<exists>s \<in> set specs.
       pick_at roll mechanism info specs = Some s \<and> eligible s mechanism info \<and> 0 < vs_weight s) \<and>
    (\<forall>s \<in> set specs. eligible s mechanism info \<longrightarrow>
       card {roll \<in> {1..eligible_total specs mechanism info}. pick_at roll mechanism info specs = Some s} = vs_weight s)"
proof (intro conjI ballI impI)
  have total: "eligible_total specs mechanism info = weights_of specs mechanism info"
    using assms(2) by (simp add: eligible_total_sum size_wrap_def)
  show "pick specs mechanism info w = (Ok None, w)" if "eligible_total specs mechanism info = 0"
    using that by (simp add: pick_def ret_def)
  show "\<exists>s \<in> set specs. pick_at roll mechanism info specs = Some s \<and> eligible s mechanism info \<and> 0 < vs_weight s"
    if "roll \<in> {1..eligible_total specs mechanism info}" for roll
    using that by (intro pick_at_some) (simp_all add: total)
  show "card {roll \<in> {1..eligible_total specs mechanism info}. pick_at roll mechanism info specs = Some s} = vs_weight s"
    if "s \<in> set specs" "eligible s mechanism info" for s
  proof -
    have "{1..weights_of specs mechanism info} = {0<..0 + weights_of specs mechanism info}" by auto
    with pick_at_card [OF assms(1) that, of 0] show ?thesis by (simp add: total)
  qed
qed

definition sample_specs :: "variable_spec list" where
  "sample_specs =
    [\<lparr>vs_name = ''work_mem'', vs_flavor = ANY_PG, min_version = 0, max_version = 0, mechanisms = 7, vs_weight = 10,
      generator = Vg_int_range \<lparr>ir_min = 1, ir_max = 8, ir_step = 64, ir_suffix = ''kB''\<rparr>\<rparr>,
     \<lparr>vs_name = ''sql_mode'', vs_flavor = ANY_MYSQL, min_version = 0, max_version = 0, mechanisms = 3, vs_weight = 5,
      generator = Vg_choices [''ANSI'']\<rparr>,
     \<lparr>vs_name = ''jit'', vs_flavor = fl_postgres, min_version = 110000, max_version = 0, mechanisms = 1, vs_weight = 3,
      generator = Vg_bool\<rparr>]"

lemma pick_respects_weights_witness:
  "card {roll \<in> {1..13}. pick_at roll Vm_session \<lparr>si_flavor = fl_postgres, si_version = 170000\<rparr> sample_specs
      = Some (sample_specs ! 2)} = 3"
proof -
  let ?info = "\<lparr>si_flavor = fl_postgres, si_version = 170000\<rparr>"
  have d: "distinct sample_specs" by (simp add: sample_specs_def)
  have w: "weights_of sample_specs Vm_session ?info = 13" by code_simp
  have t: "eligible_total sample_specs Vm_session ?info = 13" using w by (simp add: eligible_total_sum size_wrap_def)
  have "eligible (sample_specs ! 2) Vm_session ?info" by code_simp
  moreover have "sample_specs ! 2 \<in> set sample_specs" "vs_weight (sample_specs ! 2) = 3"
    by (simp_all add: sample_specs_def)
  ultimately show ?thesis using pick_respects_weights [OF d, of Vm_session ?info] w t by auto
qed

section \<open>What is sent\<close>

text \<open>
  The values a specification stands for, and what the source calls a trusted range: not negative,
  and every multiple of the step fits \<open>std::int64_t\<close>.
\<close>

definition admissible :: "variable_spec \<Rightarrow> server_info \<Rightarrow> string \<Rightarrow> bool" where
  "admissible spec info v = (case generator spec of
       Vg_choices values \<Rightarrow> v \<in> set values
     | Vg_int_range gen \<Rightarrow> \<exists>k. ir_min gen \<le> k \<and> k \<le> ir_max gen \<and>
         (let s = fmt_int (k * ir_step gen) @ ir_suffix gen
          in v = (if is_pg_like info \<and> ir_suffix gen \<noteq> [] then [CHR 0x27] @ s @ [CHR 0x27] else s))
     | Vg_bool \<Rightarrow> v \<in> set (if is_pg_like info then [''on'', ''off''] else [''ON'', ''OFF'']))"

definition trusted :: "variable_spec \<Rightarrow> bool" where
  "trusted spec = (case generator spec of
       Vg_choices values \<Rightarrow> values \<noteq> []
     | Vg_int_range gen \<Rightarrow> 0 \<le> ir_min gen \<and> ir_min gen \<le> ir_max gen \<and> ir_max gen < 2 ^ 63 \<and>
         0 \<le> ir_step gen \<and> ir_max gen * ir_step gen < 2 ^ 63
     | Vg_bool \<Rightarrow> True)"

lemma to_size_id: "0 \<le> k \<Longrightarrow> k < 2 ^ 63 \<Longrightarrow> to_size k = nat k"
  by (simp add: to_size_def)

lemma draw_int64_cases:
  assumes "0 \<le> lo" "lo \<le> hi" "hi < 2 ^ 63"
  obtains k w' where "draw_int64 lo hi w = (Ok k, w')" "lo \<le> k" "k \<le> hi" "conn w' = conn w"
proof -
  have size: "to_size lo = nat lo" "to_size hi = nat hi" using assms by (simp_all add: to_size_id)
  have "nat lo \<le> nat hi" using assms by simp
  from draw_cases [OF this, of w]
  obtain n w' where n: "draw (nat lo) (nat hi) w = (Ok n, w')" "nat lo \<le> n" "n \<le> nat hi" "conn w' = conn w" .
  moreover have "from_size n = int n" using n(3) assms by (simp add: from_size_def)
  ultimately show ?thesis using that [of "int n" w'] assms size by (simp add: draw_int64_def bind_def ret_def)
qed

lemma times_int64_ok:
  assumes "0 \<le> k" "k \<le> hi" "0 \<le> step" "hi * step < 2 ^ 63"
  shows "times_int64 k step = Ok (k * step)"
proof -
  have "k * step \<le> hi * step" using assms by (simp add: mult_right_mono)
  moreover have "0 \<le> k * step" using assms by simp
  ultimately show ?thesis using assms(4) by (simp add: times_int64_def)
qed

lemma render_value_admissible:
  assumes "trusted spec"
  obtains v w' where "render_value spec info w = (Ok v, w')" "admissible spec info v" "conn w' = conn w"
proof (cases "generator spec")
  case (Vg_choices vs)
  with assms have ne: "vs \<noteq> []" by (simp add: trusted_def)
  obtain n w' where n: "draw 0 (length vs - 1) w = (Ok n, w')" "n \<le> length vs - 1" "conn w' = conn w"
    using draw_cases [of 0 "length vs - 1" w] by auto
  moreover have "n < length vs" using n(2) ne by (cases "vs") simp_all
  ultimately show ?thesis using that [of "vs ! n" w'] ne Vg_choices
    by (simp add: render_value_def bind_def lift_result_def vector_at_def admissible_def)
next
  case (Vg_int_range gen)
  with assms have t: "0 \<le> ir_min gen" "ir_min gen \<le> ir_max gen" "ir_max gen < 2 ^ 63" "0 \<le> ir_step gen"
    "ir_max gen * ir_step gen < 2 ^ 63" by (simp_all add: trusted_def)
  obtain k w' where k: "draw_int64 (ir_min gen) (ir_max gen) w = (Ok k, w')" "ir_min gen \<le> k" "k \<le> ir_max gen"
    "conn w' = conn w" using draw_int64_cases [OF t(1-3)] by blast
  moreover have "times_int64 k (ir_step gen) = Ok (k * ir_step gen)"
    using t k by (intro times_int64_ok [of k "ir_max gen"]) auto
  ultimately show ?thesis using that [OF _ _ k(4)] Vg_int_range
    by (auto simp: render_value_def bind_def lift_result_def ret_def admissible_def Let_def)
next
  case Vg_bool
  obtain n w' where "draw 0 1 w = (Ok n, w')" "conn w' = conn w" by (rule draw_cases [of 0 1 w]) simp_all
  then show ?thesis using that [of _ w'] Vg_bool
    by (auto simp: render_value_def draw_def in_rng_def random_bool_def bind_def ret_def admissible_def
        split: prod.splits)
qed

text \<open>
  C25: one assignment, within the specification. With trusted specifications and a mechanism that
  exists at run time the action never fails by itself: if nothing fits the server it does nothing,
  else it sends, in order and up to the first that the server refuses, the statements that set one
  eligible variable to one of its admissible values, and reports the refusal.
\<close>

theorem set_variable_sends_one_assignment:
  assumes trust: "list_all trusted specs" and "mechanism \<noteq> Vm_startup"
    and run: "SetVariable_execute specs mechanism ctx w = (r, w')" and info: "info = conn_info (conn w)"
  shows "if eligible_total specs mechanism info = 0 then r = Ok () \<and> w' = w
    else \<exists>s \<in> set specs. \<exists>v sqls k. eligible s mechanism info \<and> admissible s info v \<and>
      build_sql s v mechanism info = Ok sqls \<and> 0 < k \<and> k \<le> length sqls \<and>
      sent (conn w') = sent (conn w) @ map Sql_query (take k sqls) \<and>
      (r = Ok () \<and> k = length sqls \<or> (\<exists>e. r = Throw e))"
proof (cases "eligible_total specs mechanism info = 0")
  case True
  with run info show ?thesis
    by (simp add: SetVariable_execute_def pick_def server_is_def bind_def gets_def ret_def skip_def Let_def)
next
  case False
  let ?total = "eligible_total specs mechanism info"
  obtain roll w1 where roll: "draw 1 ?total w = (Ok roll, w1)" "1 \<le> roll" "roll \<le> ?total" "conn w1 = conn w"
    using draw_cases [of 1 ?total w] False by auto
  with eligible_total_le pick_at_some [of roll specs mechanism info] obtain s where
    s: "s \<in> set specs" "pick_at roll mechanism info specs = Some s" "eligible s mechanism info"
    using le_trans by blast
  then have "trusted s" using trust by (auto simp: list_all_iff)
  then obtain v w2 where v: "render_value s info w1 = (Ok v, w2)" "admissible s info v" "conn w2 = conn w1"
    using render_value_admissible [of s info w1] by blast
  obtain sqls where q: "build_sql s v mechanism info = Ok sqls" "sqls \<noteq> []"
    using assms(2) by (cases mechanism; cases "is_pg_like info") (auto simp: build_sql_def)
  have "for_each sqls exec_sql w2 = (r, w')"
    using run roll s v q False info
    by (simp add: SetVariable_execute_def pick_def server_is_def bind_def gets_def ret_def lift_result_def Let_def)
  from for_each_exec_sql [OF this] obtain k where "k \<le> length sqls"
    "sent (conn w') = sent (conn w2) @ map Sql_query (take k sqls)"
    "r = Ok () \<and> k = length sqls \<or> (\<exists>e. r = Throw e) \<and> 0 < k" by blast
  note k = this
  have c: "conn w2 = conn w" using v(3) roll(4) by simp
  have "0 < k" using k(3) q(2) by auto
  then have "eligible s mechanism info \<and> admissible s info v \<and>
      build_sql s v mechanism info = Ok sqls \<and> 0 < k \<and> k \<le> length sqls \<and>
      sent (conn w') = sent (conn w) @ map Sql_query (take k sqls) \<and>
      (r = Ok () \<and> k = length sqls \<or> (\<exists>e. r = Throw e))"
    using k v(2) q(1) s(3) c by auto
  with s(1) False show ?thesis by (simp only: if_False) blast
qed

definition variable_world :: world where
  "variable_world = \<lparr>w_rng = \<lparr>draws = (\<lambda>n. 2), drawn = 0\<rparr>, registry = new_registry, conn = sample_conn,
     buffer = None, others = (\<lambda>n. []), clock = 0\<rparr>"

lemma set_variable_sends_one_assignment_witness:
  "\<exists>r w'. SetVariable_execute sample_specs Vm_reload Direct variable_world = (r, w') \<and>
     hd (sent (conn w')) = Sql_query (''ALTER SYSTEM SET work_mem = '' @ [CHR 0x27] @ ''192kB'' @ [CHR 0x27]) \<and>
     length (sent (conn w')) \<le> 2"
proof -
  let ?run = "SetVariable_execute sample_specs Vm_reload Direct variable_world"
  let ?info = "conn_info (conn variable_world)"
  obtain r w' where r: "?run = (r, w')" by fastforce
  have "hd (sent (conn (snd ?run))) = Sql_query (''ALTER SYSTEM SET work_mem = '' @ [CHR 0x27] @ ''192kB'' @ [CHR 0x27])"
    by code_simp
  moreover have "list_all trusted sample_specs" by code_simp
  from set_variable_sends_one_assignment [OF this _ r refl]
  have "length (sent (conn w')) \<le> 2"
    by (auto simp: variable_world_def sample_conn_def build_sql_def split: if_splits)
  ultimately show ?thesis using r by simp
qed

end
