(* ===== verification/Action_Registry.thy ===== *)
theory Action_Registry
  imports Variable_Fuzzing
begin

text \<open>
  \<open>ActionRegistry\<close> (core/include/action/action_registry.hpp, core/src/action/action_registry.cpp): the
  list of factories a worker draws its next action from, by weight. Every operation holds the
  registry's mutex; the registry is the state of its operations.

  A factory's \<open>builder\<close> is a function object; its type is the parameter \<open>'b\<close>. For the default
  registry it is \<open>builder\<close>, one constructor per lambda of the source. Weights are \<open>size_t\<close> and wrap.
\<close>

datatype action_type = At_ddl | At_dml | At_transaction | At_other

record 'b action_factory =
  fac_name :: string
  fac_builder :: 'b
  fac_weight :: "64 word"
  fac_type :: action_type
  txn_safe :: bool

type_synonym 'b action_registry = "'b action_factory list"

section \<open>Operations\<close>

definition not_found :: "string \<Rightarrow> exn" where
  "not_found name = Action_Exception ''action-not-found''
     (''Action '' @ name @ '' does not exists in this registy'')"

definition reg_insert :: "'b action_factory \<Rightarrow> ('b action_registry, nat) prog" where
  "reg_insert a = (\<lambda>fs. if list_ex (\<lambda>f. fac_name f = fac_name a) fs
     then (Throw (Action_Exception ''action-already-exists''
             (''Action '' @ fac_name a @ '' already exists in this registy'')), fs)
     else (Ok (length fs), fs @ [a]))"

definition reg_remove :: "string \<Rightarrow> ('b action_registry, unit) prog" where
  "reg_remove name = (\<lambda>fs. if \<not> list_ex (\<lambda>f. fac_name f = name) fs then (Throw (not_found name), fs)
     else (Ok (), erase_first (\<lambda>f. fac_name f = name) fs))"

definition reg_get :: "string \<Rightarrow> ('b action_registry, 'b action_factory) prog" where
  "reg_get name = (\<lambda>fs. case find (\<lambda>f. fac_name f = name) fs of
       None \<Rightarrow> (Throw (not_found name), fs) | Some f \<Rightarrow> (Ok f, fs))"

text \<open>What a caller does with \<open>getReference(name)\<close>: an assignment through the reference.\<close>

definition reg_assign ::
  "string \<Rightarrow> ('b action_factory \<Rightarrow> 'b action_factory) \<Rightarrow> ('b action_registry, unit) prog" where
  "reg_assign name g = (\<lambda>fs. if \<not> list_ex (\<lambda>f. fac_name f = name) fs then (Throw (not_found name), fs)
     else (Ok (), update_first (\<lambda>f. fac_name f = name) g fs))"

definition reg_size :: "'b action_registry \<Rightarrow> nat" where
  "reg_size fs = length fs"

definition totalWeight :: "'b action_registry \<Rightarrow> 64 word" where
  "totalWeight fs = foldl (\<lambda>a f. a + fac_weight f) 0 fs"

definition reg_has :: "string \<Rightarrow> 'b action_registry \<Rightarrow> bool" where
  "reg_has name fs = list_ex (\<lambda>f. fac_name f = name) fs"

fun find_by_weight :: "64 word \<Rightarrow> 64 word \<Rightarrow> 'b action_registry \<Rightarrow> 'b action_factory option" where
  "find_by_weight accum offset [] = None"
| "find_by_weight accum offset (f # fs) = (let accum' = accum + fac_weight f in
     if accum' \<ge> offset then Some f else find_by_weight accum' offset fs)"

definition lookupByWeightOffset :: "64 word \<Rightarrow> 'b action_registry \<Rightarrow> 'b action_factory result" where
  "lookupByWeightOffset offset fs = (case find_by_weight 0 offset fs of
       None \<Rightarrow> Throw (Action_Exception ''weight-offset-out-of-range''
         (''Weight offset '' @ fmt_nat (unat offset) @ '' is outside of this registy''))
     | Some f \<Rightarrow> Ok f)"

definition filtered :: "('b action_factory \<Rightarrow> bool) \<Rightarrow> 'b action_registry \<Rightarrow> 'b action_registry" where
  "filtered pred fs = filter pred fs"

definition reg_use :: "'b action_registry \<Rightarrow> ('b action_registry, unit) prog" where
  "reg_use other = modify (\<lambda>_. other)"

section \<open>The default registry\<close>

datatype builder =
    B_create_normal_table | B_create_partitioned_table | B_drop_table | B_alter_table | B_rename_table
  | B_create_index | B_drop_index | B_create_partition | B_drop_partition
  | B_insert nat | B_delete | B_update_one_row | B_select_then_delete | B_select_then_update
  | B_select_query | B_transaction | B_set_variable variable_mechanism
  | B_custom_sql string "string list"

definition custom_factory ::
  "string \<Rightarrow> string \<Rightarrow> string list \<Rightarrow> 64 word \<Rightarrow> action_type \<Rightarrow> builder action_factory" where
  "custom_factory name sql injects weight ty = \<lparr>fac_name = name, fac_builder = B_custom_sql sql injects,
     fac_weight = weight, fac_type = ty, txn_safe = True\<rparr>"

definition makeCustomSqlAction ::
  "string \<Rightarrow> string \<Rightarrow> 64 word \<Rightarrow> action_type \<Rightarrow> (builder action_registry, unit) prog" where
  "makeCustomSqlAction name sql weight ty =
     seq (reg_insert (custom_factory name sql [] weight ty)) skip"

definition makeCustomTableSqlAction ::
  "string \<Rightarrow> string \<Rightarrow> 64 word \<Rightarrow> action_type \<Rightarrow> (builder action_registry, unit) prog" where
  "makeCustomTableSqlAction name sql weight ty =
     seq (reg_insert (custom_factory name sql [''table''] weight ty)) skip"

definition default_factory ::
  "string \<Rightarrow> builder \<Rightarrow> 64 word \<Rightarrow> action_type \<Rightarrow> builder action_factory" where
  "default_factory name b weight ty = \<lparr>fac_name = name, fac_builder = b, fac_weight = weight,
     fac_type = ty, txn_safe = True\<rparr>"

definition default_factories :: "builder action_factory list" where
  "default_factories =
    [default_factory ''create_normal_table'' B_create_normal_table 100 At_ddl,
     default_factory ''create_partitioned_table'' B_create_partitioned_table 100 At_ddl,
     default_factory ''drop_table'' B_drop_table 100 At_ddl,
     default_factory ''alter_table'' B_alter_table 100 At_ddl,
     default_factory ''rename_table'' B_rename_table 100 At_ddl,
     default_factory ''create_index'' B_create_index 100 At_ddl,
     default_factory ''drop_index'' B_drop_index 100 At_ddl,
     default_factory ''create_partition'' B_create_partition 100 At_ddl,
     default_factory ''drop_partition'' B_drop_partition 100 At_ddl,
     default_factory ''insert_some_data'' (B_insert 10) 1000 At_dml,
     default_factory ''delete_some_data'' B_delete 1000 At_dml,
     default_factory ''update_one_row'' B_update_one_row 1000 At_dml,
     default_factory ''delete_selected'' B_select_then_delete 1000 At_dml,
     default_factory ''update_selected'' B_select_then_update 1000 At_dml,
     default_factory ''select_query'' B_select_query 1000 At_dml,
     default_factory ''transaction'' B_transaction 100 At_transaction,
     default_factory ''set_session_variable'' (B_set_variable Vm_session) 0 At_other,
     default_factory ''set_global_variable'' (B_set_variable Vm_global) 0 At_other,
     (default_factory ''reload_global_variable'' (B_set_variable Vm_reload) 0 At_other)\<lparr>txn_safe := False\<rparr>]"

definition initializeDefaultRegistry :: "builder action_registry result" where
  "initializeDefaultRegistry = (case for_each default_factories (\<lambda>f. seq (reg_insert f) skip) [] of
       (Ok _, fs) \<Rightarrow> Ok fs | (Throw e, _) \<Rightarrow> Throw e | (Undefined, _) \<Rightarrow> Undefined
     | (Diverges, _) \<Rightarrow> Diverges)"

section \<open>Names stay distinct\<close>

definition registry_names_ok :: "'b action_registry \<Rightarrow> bool" where
  "registry_names_ok fs \<longleftrightarrow> distinct (map fac_name fs)"

text \<open>The calls of a client; weights are changed through \<open>getReference\<close>.\<close>

datatype 'b reg_call =
    Rc_insert "'b action_factory"
  | Rc_remove string
  | Rc_weight string "64 word"
  | Rc_filter "'b action_factory \<Rightarrow> bool"

fun registry_call :: "'b reg_call \<Rightarrow> ('b action_registry, unit) prog" where
  "registry_call (Rc_insert a) = seq (reg_insert a) skip"
| "registry_call (Rc_remove n) = reg_remove n"
| "registry_call (Rc_weight n w) = reg_assign n (\<lambda>f. f\<lparr>fac_weight := w\<rparr>)"
| "registry_call (Rc_filter p) = modify (filtered p)"

definition registry_calls :: "'b reg_call list \<Rightarrow> 'b action_registry \<Rightarrow> 'b action_registry" where
  "registry_calls cs fs = foldl (\<lambda>fs c. snd (registry_call c fs)) fs cs"

lemma set_map_erase_first: "set (map g (erase_first p xs)) \<subseteq> set (map g xs)"
  by (induction xs) auto

lemma distinct_erase_first: "distinct (map g xs) \<Longrightarrow> distinct (map g (erase_first p xs))"
  using set_map_erase_first [of g p] by (induction xs) fastforce+

lemma registry_call_names:
  "registry_names_ok fs \<Longrightarrow> registry_names_ok (snd (registry_call c fs))"
  by (cases c) (auto simp: registry_names_ok_def reg_insert_def reg_remove_def reg_assign_def seq_def
      bind_def skip_def ret_def modify_def filtered_def list_ex_iff map_update_first distinct_erase_first
      distinct_map_filter)

lemma registry_calls_names:
  "registry_names_ok fs \<Longrightarrow> registry_names_ok (registry_calls cs fs)"
  unfolding registry_calls_def by (induction cs arbitrary: fs) (auto simp: registry_call_names)

section \<open>Choice by weight\<close>

text \<open>Weights as numbers, as long as their sum fits 64 bits.\<close>

definition weight_sum :: "'b action_registry \<Rightarrow> nat" where
  "weight_sum fs = sum_list (map (\<lambda>f. unat (fac_weight f)) fs)"

lemma weight_sum_simps [simp]:
  "weight_sum [] = 0" "weight_sum (f # fs) = unat (fac_weight f) + weight_sum fs"
  by (simp_all add: weight_sum_def)

lemma unat_add_weight:
  "unat a + unat (b :: 64 word) < 2 ^ 64 \<Longrightarrow> unat (a + b) = unat a + unat b"
  using unat_add_lem [of a b] by simp

lemma foldl_weights:
  "unat a + weight_sum fs < 2 ^ 64 \<Longrightarrow>
   unat (foldl (\<lambda>a f. a + fac_weight f) a fs) = unat a + weight_sum fs"
proof (induction fs arbitrary: a)
  case (Cons f fs)
  then have "unat (a + fac_weight f) = unat a + unat (fac_weight f)" by (simp add: unat_add_weight)
  with Cons show ?case by simp
qed simp

lemma totalWeight_sum: "weight_sum fs < 2 ^ 64 \<Longrightarrow> unat (totalWeight fs) = weight_sum fs"
  using foldl_weights [of 0 fs] by (simp add: totalWeight_def)

fun find_offset :: "nat \<Rightarrow> nat \<Rightarrow> 'b action_registry \<Rightarrow> 'b action_factory option" where
  "find_offset a n [] = None"
| "find_offset a n (f # fs) = (if n \<le> a + unat (fac_weight f) then Some f
     else find_offset (a + unat (fac_weight f)) n fs)"

lemma find_by_weight_nat:
  "unat a + weight_sum fs < 2 ^ 64 \<Longrightarrow> find_by_weight a w fs = find_offset (unat a) (unat w) fs"
proof (induction fs arbitrary: a)
  case (Cons f fs)
  then have "unat (a + fac_weight f) = unat a + unat (fac_weight f)" by (simp add: unat_add_weight)
  with Cons show ?case by (simp add: Let_def word_le_nat_alt)
qed simp

lemma find_offset_total: "fs \<noteq> [] \<Longrightarrow> n \<le> a + weight_sum fs \<Longrightarrow> find_offset a n fs \<noteq> None"
proof (induction fs arbitrary: a)
  case (Cons f fs)
  then show ?case by (cases "fs = []") (auto simp: add.assoc)
qed simp

lemma find_offset_mem: "find_offset a n fs = Some f \<Longrightarrow> f \<in> set fs"
  by (induction fs arbitrary: a) (auto split: if_splits)

text \<open>The offsets above \<open>a\<close> that lead to a factory are as many as its weight.\<close>

lemma find_offset_card:
  "distinct fs \<Longrightarrow> f \<in> set fs \<Longrightarrow>
   card {n \<in> {a<..a + weight_sum fs}. find_offset a n fs = Some f} = unat (fac_weight f)"
proof (induction fs arbitrary: a)
  case (Cons g fs)
  let ?b = "a + unat (fac_weight g)"
  show ?case
  proof (cases "f = g")
    case True
    with Cons.prems have "{n \<in> {a<..a + weight_sum (g # fs)}. find_offset a n (g # fs) = Some f} = {a<..?b}"
      by (auto dest: find_offset_mem split: if_splits)
    with True show ?thesis by simp
  next
    case False
    then have "{n \<in> {a<..a + weight_sum (g # fs)}. find_offset a n (g # fs) = Some f}
        = {n \<in> {?b<..?b + weight_sum fs}. find_offset ?b n fs = Some f}"
      by auto
    with Cons False show ?thesis by simp
  qed
qed simp

lemma find_offset_zero: "find_offset 0 0 (f # fs) = Some f"
  by simp

text \<open>
  C20: the choice by weight. For every non-empty registry whose weights add up to less than
  \<open>2 ^ 64\<close>, every offset from 0 to the total weight leads to a factory of the registry, and the
  number of offsets that lead to a factory is its weight, except for the first one, which gets one
  more: offset 0 leads to it even if its weight is 0.
\<close>

theorem lookup_respects_weights:
  assumes "fs \<noteq> []" and "distinct fs" and "weight_sum fs < 2 ^ 64"
  shows "(\<forall>n \<le> unat (totalWeight fs). \<exists>f \<in> set fs. lookupByWeightOffset (of_nat n) fs = Ok f) \<and>
    (\<forall>f \<in> set fs. card {n. n \<le> unat (totalWeight fs) \<and> lookupByWeightOffset (of_nat n) fs = Ok f}
       = unat (fac_weight f) + (if f = hd fs then 1 else 0))"
proof -
  let ?t = "weight_sum fs"
  have total: "unat (totalWeight fs) = ?t" by (rule totalWeight_sum [OF assms(3)])
  have look: "lookupByWeightOffset (of_nat n) fs = Ok f \<longleftrightarrow> find_offset 0 n fs = Some f" if "n \<le> ?t" for n f
  proof -
    have "unat (of_nat n :: 64 word) = n" using that assms(3) by (simp add: unat_of_nat)
    with find_by_weight_nat [of 0 fs "of_nat n"] assms(3) show ?thesis
      by (simp add: lookupByWeightOffset_def split: option.splits)
  qed
  have "\<exists>f \<in> set fs. lookupByWeightOffset (of_nat n) fs = Ok f" if "n \<le> ?t" for n
    using find_offset_total [OF assms(1), of n 0] that look [OF that] find_offset_mem by fastforce
  moreover have "card {n. n \<le> ?t \<and> lookupByWeightOffset (of_nat n) fs = Ok f}
       = unat (fac_weight f) + (if f = hd fs then 1 else 0)" if f: "f \<in> set fs" for f
  proof -
    let ?A = "{n \<in> {0<..0 + ?t}. find_offset 0 n fs = Some f}"
    have zero: "find_offset 0 0 fs = Some (hd fs)" using assms(1) by (cases fs) simp_all
    have "{n. n \<le> ?t \<and> lookupByWeightOffset (of_nat n) fs = Ok f}
        = {n. n \<le> ?t \<and> find_offset 0 n fs = Some f}" using look by auto
    also have "\<dots> = ?A \<union> (if f = hd fs then {0} else {})"
      using zero by (auto intro: gr0I)
    finally have "card {n. n \<le> ?t \<and> lookupByWeightOffset (of_nat n) fs = Ok f}
        = card ?A + (if f = hd fs then 1 else 0)"
      by (simp add: card_Un_disjoint)
    with find_offset_card [OF assms(2) f, of 0] show ?thesis by simp
  qed
  ultimately show ?thesis by (simp add: total)
qed

lemma default_registry_value: "initializeDefaultRegistry = Ok default_factories"
  by code_simp

lemma lookup_respects_weights_witness:
  "\<exists>f \<in> set default_factories. lookupByWeightOffset (of_nat 7000) default_factories = Ok f"
proof -
  have "weight_sum default_factories = 7000" by code_simp
  moreover have "distinct default_factories" "default_factories \<noteq> []" by code_simp+
  moreover have "unat (totalWeight default_factories) = 7000" by code_simp
  ultimately show ?thesis using lookup_respects_weights [of default_factories] by auto
qed

text \<open>
  Names identify factories. Starting from the default registry, after any calls (insertions,
  custom actions, removals, weight changes, filters) no two factories have the same name, and the
  lookup by name returns the factory of that name if there is one and otherwise throws.
\<close>

theorem registry_names_unique:
  assumes "initializeDefaultRegistry = Ok fs0" and "fs = registry_calls cs fs0"
  shows "distinct (map fac_name fs) \<and> reg_get n fs =
    (if reg_has n fs then (Ok (THE f. f \<in> set fs \<and> fac_name f = n), fs) else (Throw (not_found n), fs))"
proof -
  have "registry_names_ok default_factories" by code_simp
  moreover have "fs0 = default_factories"
    using assms(1) unfolding default_registry_value by (simp only: result.inject)
  ultimately have d: "distinct (map fac_name fs)"
    using registry_calls_names assms(2) by (simp add: registry_names_ok_def)
  have "reg_get n fs = (if reg_has n fs then (Ok (THE f. f \<in> set fs \<and> fac_name f = n), fs)
      else (Throw (not_found n), fs))"
  proof (cases "find (\<lambda>f. fac_name f = n) fs")
    case None
    then have "\<not> reg_has n fs" by (auto simp: reg_has_def list_ex_iff find_None_iff)
    with None show ?thesis by (simp add: reg_get_def)
  next
    case (Some f)
    then have f: "f \<in> set fs" "fac_name f = n" by (auto simp: find_Some_iff)
    with d have "(THE f. f \<in> set fs \<and> fac_name f = n) = f"
      by (intro the_equality) (auto simp: distinct_map inj_on_def)
    with Some f show ?thesis by (auto simp: reg_get_def reg_has_def list_ex_iff)
  qed
  with d show ?thesis by simp
qed

lemma registry_names_unique_witness:
  "distinct (map fac_name (registry_calls [Rc_insert (custom_factory ''c'' ''VACUUM'' [] 5 At_other),
     Rc_remove ''drop_table'', Rc_weight ''transaction'' 300] default_factories))"
  using registry_names_unique [OF default_registry_value refl] by blast

end
