(* ===== verification/Transaction_Action.thy ===== *)
theory Transaction_Action
  imports Action_Registry
begin

text \<open>
  \<open>TransactionAction\<close> (core/include/action/transaction.hpp, transaction_config.hpp,
  core/src/action/transaction.cpp): several sub-actions, drawn from a pool by weight, inside one
  database transaction, with their metadata changes buffered until COMMIT.

  The worker runs it with an unbuffered context, and pools hold no transaction actions, so the
  world's buffer is this action's \<open>TxnBuffer\<close>: there while the function runs, gone afterwards. The
  local variables live in \<open>txn_locals\<close> beside the world, since the destructors of the recorder and
  the guard read them when an exception unwinds. \<open>exec b\<close> is what the action built by the factory
  with builder \<open>b\<close> does; the theorems hold for every \<open>exec\<close> that meets their assumptions.
\<close>

section \<open>Configuration\<close>

record isolation_weights =
  iw_server_default :: nat
  iw_read_committed :: nat
  iw_repeatable_read :: nat
  iw_serializable :: nat

datatype error_mode = Em_savepoint | Em_abort
datatype mysql_ddl_mode = Mm_mirror | Mm_exclude

record transaction_config =
  min_sub_actions :: nat
  max_sub_actions :: nat
  commit_probability :: nat
  rollback_to_savepoint_probability :: nat
  tc_error_mode :: error_mode
  tc_mysql_ddl_mode :: mysql_ddl_mode
  tc_isolation_weights :: isolation_weights

definition default_transaction_config :: transaction_config where
  "default_transaction_config = \<lparr>min_sub_actions = 2, max_sub_actions = 10, commit_probability = 95,
     rollback_to_savepoint_probability = 10, tc_error_mode = Em_savepoint, tc_mysql_ddl_mode = Mm_mirror,
     tc_isolation_weights = \<lparr>iw_server_default = 1, iw_read_committed = 1, iw_repeatable_read = 1,
       iw_serializable = 1\<rparr>\<rparr>"

definition pickIsolation :: "isolation_weights \<Rightarrow> (world, isolation_level) prog" where
  "pickIsolation w =
     (let total = size_wrap (iw_server_default w + iw_read_committed w + iw_repeatable_read w +
            iw_serializable w)
      in if total = 0 then ret Iso_serverDefault
      else bind (draw 1 total) (\<lambda>roll.
        if roll \<le> iw_server_default w then ret Iso_serverDefault
        else let roll = roll - iw_server_default w in
          if roll \<le> iw_read_committed w then ret Iso_readCommitted
          else let roll = roll - iw_read_committed w in
            if roll \<le> iw_repeatable_read w then ret Iso_repeatableRead else ret Iso_serializable))"

text \<open>The constructor's two pools.\<close>

definition poolAll :: "'b action_registry \<Rightarrow> 'b action_registry" where
  "poolAll pool = filtered (\<lambda>f. fac_type f \<noteq> At_transaction \<and> txn_safe f) pool"

definition poolNoDdl :: "'b action_registry \<Rightarrow> 'b action_registry" where
  "poolNoDdl pool = filtered (\<lambda>f. fac_type f \<noteq> At_transaction \<and> fac_type f \<noteq> At_ddl \<and> txn_safe f) pool"

section \<open>Local state\<close>

record savepoint =
  sp_name :: nat
  sp_mark :: nat

record txn_locals =
  out :: transaction_outcome
  armed :: bool
  inTrx :: bool
  savepoints :: "savepoint list"
  spCounter :: nat

type_synonym txn_state = "world \<times> txn_locals"

definition on_world :: "(world, 'a) prog \<Rightarrow> (txn_state, 'a) prog" where
  "on_world m = (\<lambda>(w, l). let (r, w') = m w in (r, (w', l)))"

definition on_locals :: "(txn_locals \<Rightarrow> txn_locals) \<Rightarrow> (txn_state, unit) prog" where
  "on_locals f = modify (\<lambda>(w, l). (w, f l))"

definition locals :: "(txn_state, txn_locals) prog" where
  "locals = gets snd"

definition count_ok :: "txn_locals \<Rightarrow> txn_locals" where
  "count_ok l = l\<lparr>out := (out l)\<lparr>subOk := subOk (out l) + 1\<rparr>\<rparr>"

definition count_fail :: "txn_locals \<Rightarrow> txn_locals" where
  "count_fail l = l\<lparr>out := (out l)\<lparr>subFail := subFail (out l) + 1\<rparr>\<rparr>"

definition disarm :: "txn_locals \<Rightarrow> txn_locals" where
  "disarm l = l\<lparr>armed := False\<rparr>"

definition set_end :: "txn_end \<Rightarrow> txn_locals \<Rightarrow> txn_locals" where
  "set_end e l = l\<lparr>out := (out l)\<lparr>out_end := e\<rparr>\<rparr>"

definition count_rewind :: "txn_locals \<Rightarrow> txn_locals" where
  "count_rewind l = l\<lparr>out := (out l)\<lparr>out_savepointRollbacks := out_savepointRollbacks (out l) + 1\<rparr>\<rparr>"

section \<open>The buffer\<close>

text \<open>
  \<open>publishAll\<close> and \<open>rollbackTo\<close> lock the catalog once per operation of the log, so other workers may
  act between two of them.
\<close>

definition publish_op :: "table log_op \<Rightarrow> (world, unit) prog" where
  "publish_op op = seq interfere (\<lambda>w. case catalog_apply (publish_call op) (tables (registry w)) of
       Ok (_, c) \<Rightarrow> (Ok (), put_view Direct (c, None) w)
     | Throw e \<Rightarrow> (Throw e, w) | Undefined \<Rightarrow> (Undefined, w) | Diverges \<Rightarrow> (Diverges, w))"

definition current_txn :: "world \<Rightarrow> table txn_buffer" where
  "current_txn w = (case buffer w of None \<Rightarrow> empty_txn | Some t \<Rightarrow> t)"

definition publishAll :: "(world, unit) prog" where
  "publishAll = bind (gets (\<lambda>w. op_log (current_txn w))) (\<lambda>ops.
     seq (for_each ops publish_op) (modify (\<lambda>w. w\<lparr>buffer := Some (txn_discard (current_txn w))\<rparr>)))"

definition replay_step :: "table log_op \<Rightarrow> (world, unit) prog" where
  "replay_step op = seq interfere (modify (\<lambda>w.
     w\<lparr>buffer := Some (replay_op (tables (registry w)) (current_txn w) op)\<rparr>))"

definition rollbackTo :: "nat \<Rightarrow> (world, unit) prog" where
  "rollbackTo m = bind (gets (\<lambda>w. take (min m (length (op_log (current_txn w)))) (op_log (current_txn w)))) (\<lambda>ops.
     seq (modify (\<lambda>w. w\<lparr>buffer := Some \<lparr>op_log = ops, local_recs = [], erased_ids = {}\<rparr>\<rparr>))
     (for_each ops replay_step))"

section \<open>One sub-action\<close>

text \<open>\<open>scopedActionName\<close> around a program on the world.\<close>

definition named_scope :: "string \<Rightarrow> (world, unit) prog \<Rightarrow> (world, unit) prog" where
  "named_scope n m = (\<lambda>w. destructor (seq (modify (\<lambda>w. w\<lparr>conn := conn_setCurrentAction n (conn w)\<rparr>)) m)
     (\<lambda>w'. w'\<lparr>conn := conn_setCurrentAction (currentAction (conn w)) (conn w')\<rparr>) w)"

text \<open>A handler for the two exception classes the action catches; anything else passes.\<close>

definition on_failure ::
  "(exn \<Rightarrow> (txn_state, 'a) prog) \<Rightarrow> (txn_state, 'a) prog \<Rightarrow> exn \<Rightarrow> (txn_state, 'a) prog" where
  "on_failure sql act e = (case e of Sql_Exception _ _ _ _ \<Rightarrow> sql e | Action_Exception _ _ \<Rightarrow> act | _ \<Rightarrow> throw e)"

text \<open>The SAVEPOINT statements.\<close>

definition savepoint_sql :: "nat \<Rightarrow> string" where
  "savepoint_sql n = ''SAVEPOINT sp'' @ fmt_nat n @ '';''"

definition rollback_to_sql :: "nat \<Rightarrow> string" where
  "rollback_to_sql n = ''ROLLBACK TO SAVEPOINT sp'' @ fmt_nat n @ '';''"

text \<open>DDL on a server without transactional DDL: it commits what is open, if a statement is sent.\<close>

definition mirror_step :: "string \<Rightarrow> (world, unit) prog \<Rightarrow> (txn_state, unit) prog" where
  "mirror_step name sub =
     bind (gets (\<lambda>(w, l). queryCount (conn w))) (\<lambda>queriesBefore.
     bind (catch (seq (on_world (named_scope name sub)) (seq (on_locals count_ok) (ret False)))
       (on_failure
         (\<lambda>e. if serverGone e then seq (on_locals disarm) (throw e)
              else seq (on_locals count_fail) (ret True))
         (seq (on_locals count_fail) (ret True)))) (\<lambda>subFailed.
     bind (gets (\<lambda>(w, l). queryCount (conn w) > queriesBefore)) (\<lambda>sentAny.
     seq (when_do (subFailed \<and> sentAny) (on_world (exec_sql ''COMMIT;'')))
     (bind (gets (\<lambda>(w, l). queryCount (conn w) > queriesBefore)) (\<lambda>sentAny.
     when_do sentAny (
       seq (on_world publishAll)
       (on_locals (\<lambda>l. l\<lparr>inTrx := False, armed := False, savepoints := [],
          out := (out l)\<lparr>out_implicitCommits := out_implicitCommits (out l) + 1,
            out_end := committed_end\<rparr>\<rparr>))))))))"

text \<open>After an implicit commit: autocommit.\<close>

definition tail_step :: "string \<Rightarrow> (world, unit) prog \<Rightarrow> (txn_state, unit) prog" where
  "tail_step name sub =
     catch (seq (on_world (named_scope name sub)) (on_locals count_ok))
       (on_failure (\<lambda>e. if serverGone e then throw e else on_locals count_fail) (on_locals count_fail))"

text \<open>Savepoint mode: the recovery both handlers share, the random rewind, and the step.\<close>

definition recover :: "(txn_state, unit) prog" where
  "recover = bind locals (\<lambda>l.
     if savepoints l = [] then undef
     else seq (on_world (exec_sql (rollback_to_sql (sp_name (last (savepoints l))))))
       (seq (on_locals count_rewind)
       (seq (on_world (rollbackTo (sp_mark (last (savepoints l)))))
       (on_locals count_fail))))"

definition random_rewind :: "transaction_config \<Rightarrow> (txn_state, unit) prog" where
  "random_rewind config = bind (on_world (draw 1 100)) (\<lambda>roll.
     when_do (roll \<le> rollback_to_savepoint_probability config) (
       bind locals (\<lambda>l.
       bind (on_world (draw 0 (length (savepoints l) - 1))) (\<lambda>pick.
       let sp = savepoints l ! pick in
       seq (on_world (exec_sql (rollback_to_sql (sp_name sp))))
       (seq (on_locals count_rewind)
       (seq (on_world (rollbackTo (sp_mark sp)))
       (on_locals (\<lambda>l. l\<lparr>savepoints := take (pick + 1) (savepoints l)\<rparr>))))))))"

definition savepoint_step ::
  "transaction_config \<Rightarrow> string \<Rightarrow> (world, unit) prog \<Rightarrow> (txn_state, unit) prog" where
  "savepoint_step config name sub =
     seq (on_locals (\<lambda>l. l\<lparr>spCounter := spCounter l + 1\<rparr>))
     (bind locals (\<lambda>l.
     seq (on_world (exec_sql (savepoint_sql (spCounter l))))
     (seq (modify (\<lambda>(w, l). (w, l\<lparr>savepoints := savepoints l @
            [\<lparr>sp_name = spCounter l, sp_mark = txn_mark (current_txn w)\<rparr>]\<rparr>)))
     (catch (seq (on_world (named_scope name sub)) (seq (on_locals count_ok) (random_rewind config)))
       (on_failure (\<lambda>e. if serverGone e then seq (on_locals disarm) (throw e) else recover) recover)))))"

text \<open>Abort mode: the first failure ends the transaction.\<close>

definition abort_step :: "string \<Rightarrow> (world, unit) prog \<Rightarrow> (txn_state, unit) prog" where
  "abort_step name sub =
     catch (seq (on_world (named_scope name sub)) (on_locals count_ok))
       (\<lambda>e. seq (on_locals (if serverGone e then disarm else id)) (throw e))"

section \<open>The transaction\<close>

definition sub_step ::
  "transaction_config \<Rightarrow> bool \<Rightarrow> ('b \<Rightarrow> action) \<Rightarrow> 'b action_registry \<Rightarrow> (txn_state, unit) prog" where
  "sub_step config ddlTransactional exec pool =
     bind (on_world (draw 0 (unat (totalWeight pool)))) (\<lambda>w.
     bind (lift_result (lookupByWeightOffset (of_nat w) pool)) (\<lambda>factory.
     let sub = exec (fac_builder factory) in
     bind locals (\<lambda>l.
     if inTrx l \<and> \<not> ddlTransactional \<and> fac_type factory = At_ddl
       then mirror_step (fac_name factory) (sub Direct)
     else if \<not> inTrx l then tail_step (fac_name factory) (sub Direct)
     else if tc_error_mode config = Em_savepoint
       then savepoint_step config (fac_name factory) (sub Buffered)
     else abort_step (fac_name factory) (sub Buffered))))"

definition finish_transaction :: "transaction_config \<Rightarrow> (txn_state, unit) prog" where
  "finish_transaction config = bind locals (\<lambda>l. when_do (inTrx l) (
     bind (on_world (draw 1 100)) (\<lambda>roll.
     if roll \<le> commit_probability config
     then bind (on_world (run_sql ''COMMIT;'')) (\<lambda>res.
       seq (on_locals disarm)
       (seq (lift_result (maybeThrow res))
       (seq (on_locals (set_end committed_end))
       (on_world publishAll))))
     else seq (on_locals disarm)
       (seq (on_world (exec_sql ''ROLLBACK;''))
       (on_locals (set_end rolledBackIntentional_end))))))"

definition transaction_body ::
  "transaction_config \<Rightarrow> bool \<Rightarrow> ('b \<Rightarrow> action) \<Rightarrow> 'b action_registry \<Rightarrow> (txn_state, unit) prog" where
  "transaction_body config ddlTransactional exec pool =
     bind (on_world (draw (min_sub_actions config) (max_sub_actions config))) (\<lambda>subCount.
     seq (for_each [0..<subCount] (\<lambda>_. sub_step config ddlTransactional exec pool))
     (finish_transaction config))"

text \<open>
  The part with destructors: the buffer and the locals come to life, the body runs, and on the way
  out the guard rolls back if it is still armed, then the recorder reports the outcome.
\<close>

definition fresh_locals :: txn_locals where
  "fresh_locals = \<lparr>out = new_outcome, armed = True, inTrx = True, savepoints = [], spCounter = 0\<rparr>"

definition leave_transaction :: "txn_locals \<Rightarrow> world \<Rightarrow> world" where
  "leave_transaction l w = (let w1 = (guard_exit (armed l) w)\<lparr>buffer := None\<rparr> in
     w1\<lparr>conn := conn_recordTransactionOutcome (out l) (conn w1)\<rparr>)"

definition in_transaction :: "(txn_state, unit) prog \<Rightarrow> (world, unit) prog" where
  "in_transaction body = (\<lambda>w. case body (w\<lparr>buffer := Some empty_txn\<rparr>, fresh_locals) of
       (Ok x, (w', l)) \<Rightarrow> (Ok x, leave_transaction l w')
     | (Throw e, (w', l)) \<Rightarrow> (Throw e, leave_transaction l w')
     | (Undefined, (w', l)) \<Rightarrow> (Undefined, w')
     | (Diverges, (w', l)) \<Rightarrow> (Diverges, w'))"

definition chosen_pool :: "transaction_config \<Rightarrow> dialect \<Rightarrow> 'b action_registry \<Rightarrow> 'b action_registry" where
  "chosen_pool config d registered =
     (let excludeDdl = (\<not> transactionalDDL d \<and> tc_mysql_ddl_mode config = Mm_exclude)
      in if excludeDdl then poolNoDdl registered else poolAll registered)"

definition begin_transaction :: "isolation_weights \<Rightarrow> dialect \<Rightarrow> (world, unit) prog" where
  "begin_transaction weights d = bind (pickIsolation weights) (\<lambda>isolation.
     for_each (beginStatements d isolation) exec_sql)"

definition TransactionAction_execute ::
  "transaction_config \<Rightarrow> ('b \<Rightarrow> action) \<Rightarrow> 'b action_registry \<Rightarrow> (world, unit) prog" where
  "TransactionAction_execute config exec registered =
     bind server_is (\<lambda>info.
     let d = dialect_for info;
         pool = chosen_pool config d registered
     in if reg_size pool = 0 then skip
     else seq (begin_transaction (tc_isolation_weights config) d)
       (in_transaction (transaction_body config (transactionalDDL d) exec pool)))"

end
