(* ===== verification/Ddl_Actions.thy ===== *)
theory Ddl_Actions
  imports World
begin

text \<open>
  The DDL actions (core/include/action/ddl.hpp, core/src/action/ddl.cpp) with the flag set
  \<open>BitFlags\<close> (core/include/bitflags.hpp). Each \<open>execute\<close> method is a program on the world with the
  same order of draws, SQL statements and catalog calls as the source; the lambdas passed to
  \<open>update\<close> are the \<open>_delta\<close> functions.

  \<open>AlterTable\<close>'s \<open>while (!addedSubcommand)\<close> may never end; it is a \<open>partial_function\<close>, and a run that
  does not end is \<open>Diverges\<close>.
\<close>

unbundle bit_operations_syntax

section \<open>Flags\<close>

type_synonym bit_flags = "8 word"

definition flags_IsSet :: "bit_flags \<Rightarrow> bit_flags \<Rightarrow> bool" where
  "flags_IsSet fl v \<longleftrightarrow> fl AND v = v"

definition flags_Set :: "bit_flags \<Rightarrow> bit_flags \<Rightarrow> bit_flags" where
  "flags_Set v fl = fl OR v"

definition flags_Unset :: "bit_flags \<Rightarrow> bit_flags \<Rightarrow> bit_flags" where
  "flags_Unset v fl = fl AND NOT v"

datatype alter_subcommand = addColumn | dropColumn | changeColumn | changeAccessMethod

fun subcommand_flag :: "alter_subcommand \<Rightarrow> bit_flags" where
  "subcommand_flag addColumn = 1"
| "subcommand_flag dropColumn = 2"
| "subcommand_flag changeColumn = 4"
| "subcommand_flag changeAccessMethod = 8"

definition all_subcommands :: "alter_subcommand list" where
  "all_subcommands = [addColumn, dropColumn, changeColumn, changeAccessMethod]"

definition flags_All :: "bit_flags \<Rightarrow> alter_subcommand list" where
  "flags_All fl = filter (\<lambda>c. flags_IsSet fl (subcommand_flag c)) all_subcommands"

definition flags_AllSet :: bit_flags where
  "flags_AllSet = foldl (\<lambda>fl c. flags_Set (subcommand_flag c) fl) 0 all_subcommands"

section \<open>Configuration and helpers\<close>

record ddl_config =
  min_table_count :: nat
  max_table_count :: nat
  max_column_count :: nat
  max_alter_clauses :: nat
  min_partition_count :: nat
  max_partition_count :: nat
  ct_foreign_key_percentage :: nat
  access_methods :: "string list"

definition default_ddl_config :: ddl_config where
  "default_ddl_config = \<lparr>min_table_count = 3, max_table_count = 20, max_column_count = 20,
     max_alter_clauses = 5, min_partition_count = 3, max_partition_count = 10,
     ct_foreign_key_percentage = 50, access_methods = [''heap'', ''tde_heap'']\<rparr>"

datatype table_type = TT_normal | TT_partitioned | TT_temporary

definition column_types :: "column_type list" where
  "column_types = [CT_INT, CT_CHAR, CT_VARCHAR, CT_REAL, CT_BOOL, CT_BYTEA, CT_TEXT]"

definition randomColumnType :: "(world, column_type) prog" where
  "randomColumnType = bind (draw 0 (length column_types - 1)) (\<lambda>i. ret (column_types ! i))"

definition randomColumnLength :: "column_type \<Rightarrow> (world, nat) prog" where
  "randomColumnLength ty = (case ty of CT_CHAR \<Rightarrow> draw 1 100 | CT_VARCHAR \<Rightarrow> draw 1 100 | _ \<Rightarrow> ret 0)"

definition randomColumn :: "bool \<Rightarrow> (world, column) prog" where
  "randomColumn forceInt =
     bind (draw 0 size_max) (\<lambda>n.
     bind (if forceInt then ret CT_INT else randomColumnType) (\<lambda>ty.
     bind (randomColumnLength ty) (\<lambda>len.
     ret (default_column\<lparr>col_name := ''col'' @ fmt_nat n, col_type := ty, col_length := len\<rparr>))))"

fun find_partitioned :: "nat \<Rightarrow> ctx_kind \<Rightarrow> ddl_config \<Rightarrow> (world, table option) prog" where
  "find_partitioned 0 ctx config = ret None"
| "find_partitioned (Suc n) ctx config = bind (tables_randomPick ctx) (\<lambda>pick. case pick of
       None \<Rightarrow> find_partitioned n ctx config
     | Some t \<Rightarrow> (case partitioning t of
           None \<Rightarrow> find_partitioned n ctx config
         | Some p \<Rightarrow> if length (ranges p) \<ge> max_partition_count config \<or>
                         length (ranges p) \<le> min_partition_count config
                      then find_partitioned n ctx config else ret (Some t)))"

definition findPartitionedTable :: "ctx_kind \<Rightarrow> ddl_config \<Rightarrow> (world, table option) prog" where
  "findPartitionedTable = find_partitioned 10"

definition the_dialect :: "(world, dialect) prog" where
  "the_dialect = bind server_is (\<lambda>info. ret (dialect_for info))"

section \<open>CreateTable\<close>

definition id_column :: "bool \<Rightarrow> column \<Rightarrow> column" where
  "id_column partitioned c = (let c' = c\<lparr>col_name := ''id'', primary_key := True, nullable := False\<rparr> in
     if partitioned then c'\<lparr>partition_key := True\<rparr> else c'\<lparr>auto_increment := True\<rparr>)"

definition is_action_exception :: "exn \<Rightarrow> bool" where
  "is_action_exception e = (case e of Action_Exception _ _ \<Rightarrow> True | _ \<Rightarrow> False)"

text \<open>The table to reference, if foreign keys apply and there is one.\<close>

definition pick_fk_target :: "ctx_kind \<Rightarrow> bool \<Rightarrow> (world, table option) prog" where
  "pick_fk_target ctx wanted = (if \<not> wanted then ret None
     else catch (bind (find_random_table ctx) (\<lambda>t. ret (Some t)))
       (\<lambda>e. if is_action_exception e then ret None else throw e))"

definition fk_index :: "string \<Rightarrow> index" where
  "fk_index col = \<lparr>idx_name = ''fk_'' @ col, idx_unique = False,
     idx_fields = [\<lparr>ic_name = col, ic_ordering = IO_asc\<rparr>]\<rparr>"

definition range_list :: "nat \<Rightarrow> range_partition list" where
  "range_list cnt = map (\<lambda>i. \<lparr>rangebase = i\<rparr>) [0..<cnt]"

text \<open>Up to three attempts at one partition, and the ranges none of whose attempts succeeded.\<close>

fun try_sql :: "nat \<Rightarrow> string \<Rightarrow> (world, bool) prog" where
  "try_sql 0 q = ret False"
| "try_sql (Suc n) q = bind (run_sql q) (\<lambda>res. if qr_success res then ret True else try_sql n q)"

fun add_partitions :: "dialect \<Rightarrow> table \<Rightarrow> range_partition list \<Rightarrow> (world, nat list) prog" where
  "add_partitions d t [] = ret []"
| "add_partitions d t (r # rs) =
     bind (lift_result (addPartition d t (rangebase r))) (\<lambda>q.
     bind (try_sql 3 q) (\<lambda>ok.
     bind (add_partitions d t rs) (\<lambda>failed.
     ret (if ok then failed else rangebase r # failed))))"

definition remove_failed :: "nat list \<Rightarrow> table \<Rightarrow> table" where
  "remove_failed failed t = t\<lparr>partitioning := map_option (\<lambda>p.
     p\<lparr>ranges := filter (\<lambda>r. rangebase r \<notin> set failed) (ranges p)\<rparr>) (partitioning t)\<rparr>"

text \<open>
  Step 1: the record, private until it is inserted, with the name of the referenced table (empty
  without one). \<open>assemble_table\<close> is what is done with the drawn values.
\<close>

definition assemble_table ::
  "bool \<Rightarrow> dialect \<Rightarrow> object_id \<Rightarrow> nat \<Rightarrow> column list \<Rightarrow> table option \<Rightarrow> nat \<Rightarrow> table \<times> string" where
  "assemble_table partitioned d i n cols target cnt =
     (let fkTargetName = (case target of None \<Rightarrow> [] | Some r \<Rightarrow> obj_name r);
          cols1 = cols[0 := id_column partitioned (cols ! 0)];
          cols2 = (case target of None \<Rightarrow> cols1
                  | Some r \<Rightarrow> cols1[1 := (cols1 ! 1)\<lparr>foreign_key_references := obj_id r\<rparr>]);
          idxs = (if fkTargetName \<noteq> [] \<and> fkRequiresIndex d then [fk_index (col_name (cols2 ! 1))] else [])
      in (default_table\<lparr>obj_id := i, obj_name := ''foo'' @ fmt_nat n, columns := cols2, indexes := idxs,
            partitioning := (if partitioned then Some \<lparr>rangeSize = 10000000, ranges = range_list cnt\<rparr>
                             else None)\<rparr>,
          fkTargetName))"

definition build_table :: "ddl_config \<Rightarrow> table_type \<Rightarrow> ctx_kind \<Rightarrow> dialect \<Rightarrow> (world, table \<times> string) prog"
where
  "build_table config ty ctx d =
     bind ctx_nextId (\<lambda>i.
     bind (draw 1 100000000) (\<lambda>n.
     bind (draw 2 (max_column_count config)) (\<lambda>column_count.
     bind (draw 1 100) (\<lambda>fk_roll.
     let partitioned = (ty = TT_partitioned);
         add_foreign_key = (fk_roll \<le> ct_foreign_key_percentage config);
         fkAllowed = (\<not> partitioned \<or> supportsFkOnPartitionedTables d) in
     bind (map_prog (\<lambda>idx. randomColumn (idx = 0 \<or> (add_foreign_key \<and> idx = 1))) [0..<column_count]) (\<lambda>cols.
     bind (pick_fk_target ctx (add_foreign_key \<and> fkAllowed)) (\<lambda>target.
     bind (if partitioned then draw (min_partition_count config) (max_partition_count config)
           else ret 0) (\<lambda>cnt.
     ret (assemble_table partitioned d i n cols target cnt))))))))"

text \<open>Step 3: publish, and drop the reference if its target disappeared meanwhile.\<close>

definition publish_table ::
  "table \<Rightarrow> (table option \<Rightarrow> (world, unit) prog) option \<Rightarrow> ctx_kind \<Rightarrow> (world, unit) prog" where
  "publish_table t callback ctx =
     (let fkRef = (if length (columns t) > 1 then foreign_key_references (columns t ! 1) else 0) in
      seq (tables_insert ctx t) (
      seq (if fkRef \<noteq> 0
           then bind (tables_byId ctx fkRef) (\<lambda>r. case r of
                  None \<Rightarrow> seq (tables_update ctx (obj_id t) (removeReferences_delta fkRef)) skip
                | Some _ \<Rightarrow> skip)
           else skip) (
      (case callback of None \<Rightarrow> skip | Some cb \<Rightarrow> bind (tables_byId ctx (obj_id t)) cb))))"

definition CreateTable_execute ::
  "ddl_config \<Rightarrow> table_type \<Rightarrow> (table option \<Rightarrow> (world, unit) prog) option \<Rightarrow> action" where
  "CreateTable_execute config ty callback ctx =
     bind the_dialect (\<lambda>d.
     bind (tables_size ctx) (\<lambda>count.
     if count \<ge> max_table_count config then skip
     else
     bind (build_table config ty ctx d) (\<lambda>(t, fkTargetName).
     bind (lift_result (createTable d t fkTargetName)) (\<lambda>q.
     seq (exec_sql q) (
     bind (case partitioning t of
             Some p \<Rightarrow> if \<not> partitionsInlineInCreate d
                        then bind (add_partitions d t (ranges p)) (\<lambda>failed. ret (remove_failed failed t))
                        else ret t
           | None \<Rightarrow> ret t) (\<lambda>t'.
     publish_table t' callback ctx))))))"

section \<open>DropTable\<close>

definition fk_checks_off :: string where "fk_checks_off = ''SET FOREIGN_KEY_CHECKS=0;''"
definition fk_checks_on :: string where "fk_checks_on = ''SET FOREIGN_KEY_CHECKS=1;''"

text \<open>The sweep over a snapshot that removes references to a table.\<close>

definition sweep_references :: "ctx_kind \<Rightarrow> object_id \<Rightarrow> (world, unit) prog" where
  "sweep_references ctx target = bind (tables_snapshotAll ctx) (\<lambda>ts.
     for_each ts (\<lambda>other. if hasReferenceTo other target
       then seq (tables_update ctx (obj_id other) (removeReferences_delta target)) skip else skip))"

definition drop_statement :: "bool \<Rightarrow> table \<Rightarrow> (world, unit) prog" where
  "drop_statement mysqlLike t =
     seq (when_do mysqlLike (exec_sql fk_checks_off)) (
     seq (catch (exec_sql (''DROP TABLE '' @ obj_name t @ '' CASCADE;''))
           (\<lambda>e. seq (when_do mysqlLike (seq (run_sql fk_checks_on) skip)) (throw e)))
         (when_do mysqlLike (exec_sql fk_checks_on)))"

definition DropTable_execute :: "ddl_config \<Rightarrow> action" where
  "DropTable_execute config ctx =
     bind (tables_size ctx) (\<lambda>count.
     if count \<le> min_table_count config then skip
     else bind (tables_randomPick ctx) (\<lambda>snap. case snap of
         None \<Rightarrow> skip
       | Some t \<Rightarrow>
           bind server_is (\<lambda>info.
           seq (drop_statement (is_mysql_like info) t) (
           seq (tables_erase ctx (obj_id t)) (
           sweep_references ctx (obj_id t))))))"

section \<open>AlterTable\<close>

record type_change =
  tc_name :: string
  tc_type :: column_type
  tc_length :: nat

record alter_state =
  alterSubcommands :: "string list"
  availableColumns :: "nat list"
  droppedColumns :: "nat list"
  droppedColumnNames :: "string list"
  newColumns :: "column list"
  typeChanges :: "type_change list"
  changingAm :: bool

definition alter_start :: "table \<Rightarrow> alter_state" where
  "alter_start t = \<lparr>alterSubcommands = [], availableColumns = [0..<length (columns t)],
     droppedColumns = [], droppedColumnNames = [], newColumns = [], typeChanges = [],
     changingAm = False\<rparr>"

definition changeable :: "column \<Rightarrow> bool" where
  "changeable c \<longleftrightarrow> (col_type c = CT_INT \<or> col_type c = CT_REAL) \<and>
     foreign_key_references c = 0 \<and> \<not> primary_key c"

text \<open>The position in \<open>availableColumns\<close> of the first column that can change its type.\<close>

fun first_changeable :: "table \<Rightarrow> nat list \<Rightarrow> nat option" where
  "first_changeable t [] = None"
| "first_changeable t (i # is) = (if changeable (columns t ! i) then Some 0
     else map_option Suc (first_changeable t is))"

text \<open>One round of the \<open>while\<close> loop: \<open>True\<close> when a subcommand was added.\<close>

definition alter_try_drop :: "dialect \<Rightarrow> table \<Rightarrow> alter_state \<Rightarrow> (world, bool \<times> alter_state) prog" where
  "alter_try_drop d t st =
     (if length (columns t) - length (droppedColumns st) < 3 \<or> availableColumns st = []
      then ret (False, st)
      else bind (draw 0 (length (availableColumns st) - 1)) (\<lambda>k.
        let i = availableColumns st ! k in
        if i = 0 then ret (False, st)
        else if \<not> canDropFkColumn d \<and> foreign_key_references (columns t ! i) \<noteq> 0
        then ret (False, st)
        else ret (True, st\<lparr>
          alterSubcommands := alterSubcommands st @ [''DROP COLUMN '' @ col_name (columns t ! i)],
          droppedColumnNames := droppedColumnNames st @ [col_name (columns t ! i)],
          droppedColumns := droppedColumns st @ [i],
          availableColumns := erase_at k (availableColumns st)\<rparr>)))"

definition alter_try_change :: "dialect \<Rightarrow> table \<Rightarrow> alter_state \<Rightarrow> bool \<times> alter_state" where
  "alter_try_change d t st = (case first_changeable t (availableColumns st) of
       None \<Rightarrow> (False, st)
     | Some k \<Rightarrow> (let c = columns t ! (availableColumns st ! k) in
         (True, st\<lparr>
           alterSubcommands := alterSubcommands st @ [alterColumnType d (col_name c) CT_VARCHAR 32],
           availableColumns := erase_at k (availableColumns st),
           typeChanges := typeChanges st @ [\<lparr>tc_name = col_name c, tc_type = CT_VARCHAR, tc_length = 32\<rparr>]\<rparr>)))"

definition alter_round ::
  "ddl_config \<Rightarrow> dialect \<Rightarrow> table \<Rightarrow> alter_subcommand list \<Rightarrow> alter_state \<Rightarrow>
   (world, bool \<times> alter_state) prog" where
  "alter_round config d t commands st =
     (if commands = [] then undef
      else bind (draw 0 (length commands - 1)) (\<lambda>k. case commands ! k of
          addColumn \<Rightarrow> bind (randomColumn False) (\<lambda>c. ret (True, st\<lparr>
            alterSubcommands := alterSubcommands st @ [''ADD COLUMN '' @ columnDefinition d c],
            newColumns := newColumns st @ [c]\<rparr>))
        | dropColumn \<Rightarrow> alter_try_drop d t st
        | changeColumn \<Rightarrow> ret (alter_try_change d t st)
        | changeAccessMethod \<Rightarrow>
            if changingAm st then ret (False, st)
            else if access_methods config = [] then undef
            else bind (draw 0 (length (access_methods config) - 1)) (\<lambda>a. ret (True, st\<lparr>
              alterSubcommands := alterSubcommands st @ [alterStorage d (access_methods config ! a)],
              changingAm := True\<rparr>))))"

partial_function (option) until_added ::
  "(alter_state \<Rightarrow> (world, bool \<times> alter_state) prog) \<Rightarrow> alter_state \<Rightarrow> world \<Rightarrow>
   (alter_state result \<times> world) option" where
  "until_added round st w = (case round st w of
       (Ok (added, st'), w') \<Rightarrow> if added then Some (Ok st', w') else until_added round st' w'
     | (Throw e, w') \<Rightarrow> Some (Throw e, w')
     | (Undefined, w') \<Rightarrow> Some (Undefined, w')
     | (Diverges, w') \<Rightarrow> Some (Diverges, w'))"

definition alter_clause ::
  "ddl_config \<Rightarrow> dialect \<Rightarrow> table \<Rightarrow> alter_subcommand list \<Rightarrow> alter_state \<Rightarrow> (world, alter_state) prog" where
  "alter_clause config d t commands st = (\<lambda>w.
     case until_added (alter_round config d t commands) st w of
       None \<Rightarrow> (Diverges, w) | Some rw \<Rightarrow> rw)"

fun alter_clauses ::
  "nat \<Rightarrow> ddl_config \<Rightarrow> dialect \<Rightarrow> table \<Rightarrow> alter_subcommand list \<Rightarrow> alter_state \<Rightarrow> (world, alter_state) prog"
where
  "alter_clauses 0 config d t commands st = ret st"
| "alter_clauses (Suc n) config d t commands st =
     bind (alter_clause config d t commands st) (alter_clauses n config d t commands)"

text \<open>The delta: columns by name, indexes on a dropped column as the server treats them.\<close>

definition drop_column_delta :: "bool \<Rightarrow> string \<Rightarrow> table \<Rightarrow> table" where
  "drop_column_delta wholeIndexDrop n t =
     (let t' = t\<lparr>columns := erase_first (\<lambda>c. col_name c = n) (columns t)\<rparr> in
      if wholeIndexDrop
      then t'\<lparr>indexes := filter (\<lambda>i. \<not> list_ex (\<lambda>f. ic_name f = n) (idx_fields i)) (indexes t')\<rparr>
      else t'\<lparr>indexes := filter (\<lambda>i. idx_fields i \<noteq> [])
        (map (\<lambda>i. i\<lparr>idx_fields := filter (\<lambda>f. ic_name f \<noteq> n) (idx_fields i)\<rparr>) (indexes t'))\<rparr>)"

definition type_change_delta :: "type_change \<Rightarrow> table \<Rightarrow> table" where
  "type_change_delta tc t = t\<lparr>columns := update_first (\<lambda>c. col_name c = tc_name tc)
     (\<lambda>c. c\<lparr>col_type := tc_type tc, col_length := tc_length tc\<rparr>) (columns t)\<rparr>"

definition alter_delta :: "bool \<Rightarrow> alter_state \<Rightarrow> table \<Rightarrow> table option" where
  "alter_delta wholeIndexDrop st t =
     (let t1 = foldl (\<lambda>t n. drop_column_delta wholeIndexDrop n t) t (droppedColumnNames st);
          t2 = foldl (\<lambda>t tc. type_change_delta tc t) t1 (typeChanges st)
      in Some (t2\<lparr>columns := columns t2 @ newColumns st\<rparr>))"

definition AlterTable_execute :: "ddl_config \<Rightarrow> bit_flags \<Rightarrow> action" where
  "AlterTable_execute config possibleCommands ctx =
     bind the_dialect (\<lambda>d.
     bind (tables_randomPick ctx) (\<lambda>snap. case snap of
         None \<Rightarrow> skip
       | Some t \<Rightarrow>
           bind (draw 1 (max_alter_clauses config)) (\<lambda>howMany.
           bind (alter_clauses howMany config d t (flags_All possibleCommands) (alter_start t)) (\<lambda>st.
           seq (exec_sql (''ALTER TABLE '' @ obj_name t @ [CHR '' '', CHR 0x0A, CHR '' ''] @
                  join comma_newline (alterSubcommands st) @ '';''))
           (seq (tables_update ctx (obj_id t) (alter_delta (dropColumnRemovesWholeIndex d) st)) skip)))))"

section \<open>RenameTable\<close>

definition rename_delta :: "string \<Rightarrow> table \<Rightarrow> table option" where
  "rename_delta n t = Some (t\<lparr>obj_name := n\<rparr>)"

definition RenameTable_execute :: action where
  "RenameTable_execute ctx = bind (tables_randomPick ctx) (\<lambda>snap. case snap of
       None \<Rightarrow> skip
     | Some t \<Rightarrow> bind (draw 1 1000000) (\<lambda>n.
         seq (exec_sql (''ALTER TABLE '' @ obj_name t @ '' RENAME TO foo'' @ fmt_nat n @ '';''))
         (seq (tables_update ctx (obj_id t) (rename_delta (''foo'' @ fmt_nat n))) skip)))"

section \<open>CreateIndex and DropIndex\<close>

fun pick_indexable :: "nat \<Rightarrow> nat \<Rightarrow> ctx_kind \<Rightarrow> (world, table option) prog" where
  "pick_indexable 0 maxTableIndexes ctx = ret None"
| "pick_indexable (Suc n) maxTableIndexes ctx = bind (tables_randomPick ctx) (\<lambda>candidate.
     case candidate of
       None \<Rightarrow> ret None
     | Some t \<Rightarrow> if length (indexes t) \<ge> maxTableIndexes then pick_indexable n maxTableIndexes ctx
                  else ret (Some t))"

definition random_bool_draw :: "(world, bool) prog" where
  "random_bool_draw = in_rng random_bool"

text \<open>The loop over the shuffled columns: take what fits until \<open>columnCount\<close> columns are in.\<close>

fun choose_fields ::
  "dialect \<Rightarrow> table \<Rightarrow> nat \<Rightarrow> nat list \<Rightarrow> nat \<Rightarrow> index_column list \<Rightarrow> (world, index_column list) prog" where
  "choose_fields d t columnCount [] keyBytes flds = ret flds"
| "choose_fields d t columnCount (i # is) keyBytes flds =
     (if \<not> length flds < columnCount then ret flds
      else let c = columns t ! i; partBytes = indexKeyPartBytes d c in
        if partBytes > maxIndexKeyBytes d - keyBytes
        then choose_fields d t columnCount is keyBytes flds
        else bind random_bool_draw (\<lambda>ascending.
          choose_fields d t columnCount is (keyBytes + partBytes)
            (flds @ [\<lparr>ic_name = col_name c, ic_ordering = (if ascending then IO_asc else IO_desc)\<rparr>])))"

definition add_index_delta :: "index \<Rightarrow> table \<Rightarrow> table option" where
  "add_index_delta i t = Some (if list_ex (\<lambda>j. idx_name j = idx_name i) (indexes t) then t
     else t\<lparr>indexes := indexes t @ [i]\<rparr>)"

definition CreateIndex_execute :: action where
  "CreateIndex_execute ctx =
     bind the_dialect (\<lambda>d.
     bind (pick_indexable 10 (maxIndexesPerTable d) ctx) (\<lambda>snap. case snap of
         None \<Rightarrow> skip
       | Some t \<Rightarrow>
           bind (draw 1 100000000) (\<lambda>n.
           bind (in_rng (shuffle [0..<length (columns t)])) (\<lambda>available.
           bind (draw 1 (min (if columns t = [] then size_max else length (columns t) - 1)
                             (maxIndexColumns d))) (\<lambda>columnCount.
           bind (choose_fields d t columnCount available 0 []) (\<lambda>flds.
           if flds = [] then skip
           else bind random_bool_draw (\<lambda>unique.
             let i = \<lparr>idx_name = ''idx'' @ fmt_nat n, idx_unique = unique, idx_fields = flds\<rparr> in
             bind random_bool_draw (\<lambda>concurrent.
             bind random_bool_draw (\<lambda>only.
             seq (exec_sql (createIndex d t i \<lparr>opt_concurrent = concurrent, opt_only = only\<rparr>))
             (seq (tables_update ctx (obj_id t) (add_index_delta i)) skip))))))))))"

definition drop_index_delta :: "string \<Rightarrow> table \<Rightarrow> table option" where
  "drop_index_delta n t = Some (t\<lparr>indexes := erase_first (\<lambda>i. idx_name i = n) (indexes t)\<rparr>)"

fun drop_index_tries :: "nat \<Rightarrow> server_info \<Rightarrow> action" where
  "drop_index_tries 0 info ctx = skip"
| "drop_index_tries (Suc n) info ctx = bind (tables_randomPick ctx) (\<lambda>snap. case snap of
       None \<Rightarrow> drop_index_tries n info ctx
     | Some t \<Rightarrow> if indexes t = [] then drop_index_tries n info ctx
         else bind (draw 0 (length (indexes t) - 1)) (\<lambda>k.
           let indexName = idx_name (indexes t ! k) in
           bind (run_sql (dropIndex (dialect_for info) (obj_name t) indexName)) (\<lambda>res.
           if \<not> qr_success res
           then if is_mysql_like info \<and> errorCode (errorInfo res) = ''1553''
                then drop_index_tries n info ctx
                else throw (result_exception res)
           else seq (tables_update ctx (obj_id t) (drop_index_delta indexName)) skip)))"

definition DropIndex_execute :: action where
  "DropIndex_execute ctx = bind server_is (\<lambda>info. drop_index_tries 10 info ctx)"

section \<open>CreatePartition and DropPartition\<close>

definition add_range_delta :: "nat \<Rightarrow> table \<Rightarrow> table option" where
  "add_range_delta n t = (case partitioning t of
       None \<Rightarrow> None
     | Some p \<Rightarrow> if list_ex (\<lambda>r. rangebase r = n) (ranges p) then None
                  else Some (t\<lparr>partitioning := Some (p\<lparr>ranges := ranges p @ [\<lparr>rangebase = n\<rparr>]\<rparr>)\<rparr>))"

definition CreatePartition_execute :: "ddl_config \<Rightarrow> action" where
  "CreatePartition_execute config ctx =
     bind the_dialect (\<lambda>d.
     bind (findPartitionedTable ctx config) (\<lambda>snap. case snap of
         None \<Rightarrow> skip
       | Some t \<Rightarrow>
           bind (draw 1 100000000) (\<lambda>partIdx.
           bind (lift_result (addPartition d t partIdx)) (\<lambda>q.
           seq (exec_sql q)
           (seq (tables_update ctx (obj_id t) (add_range_delta partIdx)) skip)))))"

definition drop_range_delta :: "nat \<Rightarrow> table \<Rightarrow> table option" where
  "drop_range_delta n t = (case partitioning t of
       None \<Rightarrow> None
     | Some p \<Rightarrow> if list_ex (\<lambda>r. rangebase r = n) (ranges p)
         then Some (t\<lparr>partitioning := Some (p\<lparr>ranges := erase_first (\<lambda>r. rangebase r = n) (ranges p)\<rparr>)\<rparr>)
         else None)"

definition DropPartition_execute :: "ddl_config \<Rightarrow> action" where
  "DropPartition_execute config ctx =
     bind the_dialect (\<lambda>d.
     bind (findPartitionedTable ctx config) (\<lambda>snap. case snap of
         None \<Rightarrow> skip
       | Some t \<Rightarrow> (case partitioning t of
             None \<Rightarrow> undef
           | Some p \<Rightarrow> if ranges p = [] then undef
               else bind (draw 0 (length (ranges p) - 1)) (\<lambda>k.
                 let partIdx = rangebase (ranges p ! k) in
                 seq (exec_sql (dropPartition d t partIdx))
                 (seq (tables_update ctx (obj_id t) (drop_range_delta partIdx))
                 (sweep_references ctx (obj_id t)))))))"

end
