(* ===== verification/Ddl_Safety.thy ===== *)
theory Ddl_Safety
  imports Ddl_Actions
begin

text \<open>
  What every DDL action guarantees whatever the server answers and whatever the other workers do
  between its steps: the catalog stays consistent, every table in it stays well-formed, the action
  never runs into undefined behaviour, and only the two handled exception classes leave it.
\<close>

section \<open>Well-formed tables\<close>

text \<open>
  The first column is the primary key \<open>id\<close> and no other column has that name; index names are
  distinct and no index is empty; ranges are distinct.
\<close>

definition table_wf :: "table \<Rightarrow> bool" where
  "table_wf t \<longleftrightarrow>
     (case columns t of [] \<Rightarrow> False | c # cs \<Rightarrow>
        col_name c = ''id'' \<and> primary_key c \<and> \<not> nullable c \<and> (\<forall>x\<in>set cs. col_name x \<noteq> ''id'')) \<and>
     distinct (map idx_name (indexes t)) \<and> (\<forall>i\<in>set (indexes t). idx_fields i \<noteq> []) \<and>
     (case partitioning t of None \<Rightarrow> True | Some p \<Rightarrow> distinct (map rangebase (ranges p)))"

definition two_columns :: "table \<Rightarrow> bool" where
  "two_columns t \<longleftrightarrow> table_wf t \<and> 2 \<le> length (columns t)"

lemma table_wf_blind: "header_blind table_wf"
  by (simp add: header_blind_def table_wf_def)

lemma two_columns_blind: "header_blind two_columns"
  by (simp add: header_blind_def two_columns_def table_wf_def)

lemma wf_columns: "table_wf t \<Longrightarrow> columns t \<noteq> []"
  by (auto simp: table_wf_def split: list.splits)

lemma wf_other_names:
  "table_wf t \<Longrightarrow> 0 < i \<Longrightarrow> i < length (columns t) \<Longrightarrow> col_name (columns t ! i) \<noteq> ''id''"
  by (cases i) (auto simp: table_wf_def split: list.splits)

section \<open>The deltas keep tables well-formed\<close>

definition head_ok :: "column list \<Rightarrow> bool" where
  "head_ok cols \<longleftrightarrow> (case cols of [] \<Rightarrow> False | c # cs \<Rightarrow>
     col_name c = ''id'' \<and> primary_key c \<and> \<not> nullable c \<and> (\<forall>x\<in>set cs. col_name x \<noteq> ''id''))"

lemma table_wf_head: "table_wf t \<longleftrightarrow> head_ok (columns t) \<and>
     distinct (map idx_name (indexes t)) \<and> (\<forall>i\<in>set (indexes t). idx_fields i \<noteq> []) \<and>
     (case partitioning t of None \<Rightarrow> True | Some p \<Rightarrow> distinct (map rangebase (ranges p)))"
  by (simp add: table_wf_def head_ok_def)

lemma head_ok_map:
  "head_ok cols \<Longrightarrow> (\<And>c. col_name (f c) = col_name c \<and> primary_key (f c) = primary_key c \<and>
     nullable (f c) = nullable c) \<Longrightarrow> head_ok (map f cols)"
  by (auto simp: head_ok_def split: list.splits)

lemma head_ok_erase: "head_ok cols \<Longrightarrow> n \<noteq> ''id'' \<Longrightarrow> head_ok (erase_first (\<lambda>c. col_name c = n) cols)"
  using set_erase_first by (fastforce simp: head_ok_def split: list.splits)

lemma update_first_members:
  "x \<in> set (update_first P f xs) \<Longrightarrow> x \<in> set xs \<or> (\<exists>y\<in>set xs. P y \<and> x = f y)"
  by (induction xs) (auto split: if_splits)

lemma head_ok_update:
  "head_ok cols \<Longrightarrow> (\<And>c. col_name (f c) = col_name c \<and> primary_key (f c) = primary_key c \<and>
     nullable (f c) = nullable c) \<Longrightarrow> head_ok (update_first Q f cols)"
  using update_first_members by (fastforce simp: head_ok_def split: list.splits)

lemma head_ok_append:
  "head_ok cols \<Longrightarrow> \<forall>c\<in>set cs. col_name c \<noteq> ''id'' \<Longrightarrow> head_ok (cols @ cs)"
  by (auto simp: head_ok_def split: list.splits)

lemma removeReferences_keeps_wf: "delta_keeps table_wf (removeReferences_delta target)"
  by (auto simp: delta_keeps_def removeReferences_delta_simps table_wf_head intro!: head_ok_map
      split: if_splits)

lemma rename_keeps_wf: "delta_keeps table_wf (rename_delta n)"
  by (simp add: delta_keeps_def rename_delta_def table_wf_head)

lemma add_index_keeps_wf: "idx_fields i \<noteq> [] \<Longrightarrow> delta_keeps table_wf (add_index_delta i)"
  by (auto simp: delta_keeps_def add_index_delta_def table_wf_head list_ex_iff)

lemma drop_index_keeps_wf: "delta_keeps table_wf (drop_index_delta n)"
  using set_erase_first
  by (fastforce simp: delta_keeps_def drop_index_delta_def table_wf_head intro: distinct_map_erase_first)

lemma add_range_keeps_wf: "delta_keeps table_wf (add_range_delta n)"
  by (auto simp: delta_keeps_def add_range_delta_def table_wf_head list_ex_iff
      split: option.splits if_splits)

lemma drop_range_keeps_wf: "delta_keeps table_wf (drop_range_delta n)"
  by (auto simp: delta_keeps_def drop_range_delta_def table_wf_head intro: distinct_map_erase_first
      split: option.splits if_splits)

lemma drop_column_delta_wf:
  assumes "table_wf t" and "n \<noteq> ''id''"
  shows "table_wf (drop_column_delta b n t)"
proof (cases b)
  case True
  with assms head_ok_erase [of "columns t" n] show ?thesis
    by (simp add: table_wf_head drop_column_delta_def Let_def distinct_map_filter)
next
  case False
  define is' where "is' = map (\<lambda>i. i\<lparr>idx_fields := filter (\<lambda>f. ic_name f \<noteq> n) (idx_fields i)\<rparr>) (indexes t)"
  have "map idx_name is' = map idx_name (indexes t)" by (simp add: is'_def)
  then have d: "distinct (map idx_name (filter (\<lambda>i. idx_fields i \<noteq> []) is'))"
    using assms(1) by (simp add: table_wf_head distinct_map_filter del: map_map)
  have "drop_column_delta b n t = t\<lparr>columns := erase_first (\<lambda>c. col_name c = n) (columns t),
      indexes := filter (\<lambda>i. idx_fields i \<noteq> []) is'\<rparr>"
    using False by (simp add: drop_column_delta_def Let_def is'_def)
  with d assms head_ok_erase [of "columns t" n] show ?thesis
    by (simp add: table_wf_head)
qed

lemma alter_delta_keeps_wf:
  assumes "''id'' \<notin> set (droppedColumnNames st)" and "\<forall>c\<in>set (newColumns st). col_name c \<noteq> ''id''"
  shows "delta_keeps table_wf (alter_delta b st)"
proof -
  have 1: "table_wf (foldl (\<lambda>t n. drop_column_delta b n t) t ns)"
    if "table_wf t" "''id'' \<notin> set ns" for t ns
    using that by (induction ns arbitrary: t) (auto simp: drop_column_delta_wf)
  have "table_wf (type_change_delta tc t)" if "table_wf t" for tc t
    using that by (auto simp: table_wf_head type_change_delta_def intro!: head_ok_update)
  then have 2: "table_wf (foldl (\<lambda>t tc. type_change_delta tc t) t tcs)" if "table_wf t" for t tcs
    using that by (induction tcs arbitrary: t) auto
  have "table_wf (t\<lparr>columns := columns t @ newColumns st\<rparr>)" if "table_wf t" for t
    using that assms(2) by (auto simp: table_wf_head intro: head_ok_append)
  with 1 2 assms(1) show ?thesis
    by (auto simp: delta_keeps_def alter_delta_def Let_def)
qed

section \<open>Drawing\<close>

lemma yields_map_prog:
  "(\<And>x. x \<in> set xs \<Longrightarrow> yields P (f x) V) \<Longrightarrow>
   yields P (map_prog f xs) (\<lambda>ys. length ys = length xs \<and> (\<forall>y\<in>set ys. V y))"
proof (induction xs)
  case Nil
  then show ?case by (simp add: yields_ret)
next
  case (Cons x xs)
  then show ?case
    by (auto intro!: yields_bind [OF Cons.prems] yields_bind [OF Cons.IH] yields_ret)
qed

lemma yields_the_dialect: "yields P the_dialect (\<lambda>d. d = pg_dialect \<or> d = mysql_dialect)"
  unfolding the_dialect_def server_is_def
  by (rule yields_bind [OF yields_gets [where V = "\<lambda>_. True"]])
    (auto intro!: yields_ret simp: dialect_for_def)

lemma dialect_choice_laws: "d = pg_dialect \<or> d = mysql_dialect \<Longrightarrow> dialect_laws d"
  using pg.dialect_laws_axioms mysql.dialect_laws_axioms by auto

definition column_ok :: "column \<Rightarrow> bool" where
  "column_ok c \<longleftrightarrow> col_length c \<le> 100 \<and> col_name c \<noteq> ''id'' \<and> \<not> primary_key c \<and>
     foreign_key_references c = 0"

lemma col_prefix: "''col'' @ x \<noteq> ''id''" by simp

lemma yields_randomColumn: "yields P (randomColumn b) column_ok"
proof -
  have ty: "yields P randomColumnType (\<lambda>_. True)"
    unfolding randomColumnType_def
    by (rule yields_bind [OF yields_draw]) (auto intro: yields_ret)
  have len: "yields P (randomColumnLength ty) (\<lambda>n. n \<le> 100)" for ty
    unfolding randomColumnLength_def
    by (cases ty) (auto intro!: yields_ret yields_mono [OF yields_draw])
  show ?thesis
    unfolding randomColumn_def
    by (rule yields_bind [OF yields_draw], simp, rule yields_bind [where V = "\<lambda>_. True"])
      (auto intro!: yields_ret ty yields_bind [OF len] simp: column_ok_def default_column_def)
qed

lemma yields_findPartitioned:
  assumes "header_blind P"
  shows "yields P (find_partitioned n ctx config) (\<lambda>x. \<forall>t. x = Some t \<longrightarrow> P t \<and> obj_id t \<noteq> 0 \<and>
    (\<exists>p. partitioning t = Some p \<and> min_partition_count config < length (ranges p) \<and>
       length (ranges p) < max_partition_count config))"
proof (induction n)
  case 0
  then show ?case by (simp add: yields_ret)
next
  case (Suc n)
  show ?case unfolding find_partitioned.simps
    by (rule yields_bind [OF yields_randomPick [OF assms]])
      (auto intro!: Suc yields_ret split: option.splits)
qed

section \<open>CreateTable\<close>

definition config_ok :: "ddl_config \<Rightarrow> bool" where
  "config_ok c \<longleftrightarrow> 2 \<le> max_column_count c \<and> min_partition_count c \<le> max_partition_count c \<and>
     1 \<le> max_alter_clauses c \<and> access_methods c \<noteq> []"

lemma yields_pick_fk:
  assumes "header_blind P"
  shows "yields P (pick_fk_target ctx b) (\<lambda>x. \<forall>t. x = Some t \<longrightarrow> P t \<and> obj_id t \<noteq> 0)"
  unfolding pick_fk_target_def
  by (auto intro!: yields_if yields_ret yields_catch yields_throw
      yields_bind [OF yields_find_random_table [OF assms]])

text \<open>What the freshly built record is like.\<close>

definition fresh_table_ok :: "ddl_config \<Rightarrow> table_type \<Rightarrow> dialect \<Rightarrow> table \<Rightarrow> bool" where
  "fresh_table_ok config ty d t \<longleftrightarrow> table_wf t \<and> 2 \<le> length (columns t) \<and>
     length (columns t) \<le> max_column_count config \<and> (\<forall>c\<in>set (columns t). col_length c \<le> 100) \<and>
     (\<forall>c\<in>set (tl (columns t)). \<not> primary_key c) \<and>
     (case partitioning t of
        None \<Rightarrow> ty \<noteq> TT_partitioned
      | Some p \<Rightarrow> ty = TT_partitioned \<and> (\<exists>n. ranges p = range_list n \<and>
          min_partition_count config \<le> n \<and> n \<le> max_partition_count config) \<and>
          (\<not> supportsFkOnPartitionedTables d \<longrightarrow> foreign_key_references (columns t ! 1) = 0))"

lemma distinct_range_list: "distinct (map rangebase (range_list n))"
  by (simp add: range_list_def distinct_map inj_on_def o_def)

lemma assemble_table_ok:
  assumes cols: "2 \<le> length cols" "length cols \<le> max_column_count config" "\<forall>c\<in>set cols. column_ok c"
    and cnt: "ty = TT_partitioned \<longrightarrow> min_partition_count config \<le> cnt \<and> cnt \<le> max_partition_count config"
    and target: "ty = TT_partitioned \<and> \<not> supportsFkOnPartitionedTables d \<longrightarrow> target = None"
  shows "fresh_table_ok config ty d (fst (assemble_table (ty = TT_partitioned) d i n cols target cnt))"
proof -
  obtain c0 c1 cs where c: "cols = c0 # c1 # cs"
    using cols(1) by (cases cols; cases "tl cols") auto
  with cols(2,3) cnt target show ?thesis
    by (auto simp: assemble_table_def fresh_table_ok_def table_wf_head head_ok_def id_column_def
        column_ok_def default_table_def fk_index_def distinct_range_list Let_def split: option.splits)
qed

lemma yields_build_table:
  assumes P: "header_blind P" and conf: "config_ok config"
  shows "yields P (build_table config ty ctx d) (\<lambda>(t, _). fresh_table_ok config ty d t)"
proof -
  have fk: "yields P (pick_fk_target ctx b) (\<lambda>x. \<not> b \<longrightarrow> x = None)" for b
    using yields_mono [OF yields_pick_fk [OF P], where U = "\<lambda>_. True"]
    by (cases b) (auto simp: pick_fk_target_def [of ctx False] yields_ret)
  have cnt: "yields P (if ty = TT_partitioned then draw (min_partition_count config) (max_partition_count config)
      else ret 0) (\<lambda>cnt. ty = TT_partitioned \<longrightarrow> min_partition_count config \<le> cnt \<and> cnt \<le> max_partition_count config)"
    using conf by (auto intro!: yields_mono [OF yields_draw] yields_ret simp: config_ok_def)
  have fin: "yields P (ret (assemble_table (ty = TT_partitioned) d i n cols target cnt))
      (\<lambda>(t, _). fresh_table_ok config ty d t)"
    if "2 \<le> cc \<and> cc \<le> max_column_count config" "length cols = length [0..<cc] \<and> (\<forall>c\<in>set cols. column_ok c)"
      "ty = TT_partitioned \<longrightarrow> min_partition_count config \<le> cnt \<and> cnt \<le> max_partition_count config"
      "\<not> (a \<and> (\<not> ty = TT_partitioned \<or> supportsFkOnPartitionedTables d)) \<longrightarrow> target = None"
    for i n cols target cnt cc a
    using assemble_table_ok [of cols config ty cnt d target i n] that
    by (intro yields_ret) (auto simp: case_prod_beta)
  show ?thesis
    unfolding build_table_def Let_def
    using conf
    by (intro yields_bind [OF yields_nextId [OF P]] yields_bind [OF yields_draw]
        yields_bind [OF yields_map_prog [OF yields_randomColumn]] yields_bind [OF fk] yields_bind [OF cnt])
      (auto simp: config_ok_def intro: fin)
qed

lemma yields_try_sql: "yields P (try_sql n q) (\<lambda>_. True)"
  by (induction n)
    (auto intro!: yields_ret yields_bind [OF yields_run_sql [where V = "\<lambda>_. True"]] yields_if)

lemma yields_add_partitions:
  "dialect_laws d \<Longrightarrow> partitioning t \<noteq> None \<Longrightarrow> yields P (add_partitions d t rs) (\<lambda>_. True)"
proof (induction rs)
  case Nil
  then show ?case by (simp add: yields_ret)
next
  case (Cons r rs)
  have "\<exists>q. addPartition d t (rangebase r) = Ok q"
    using dialect_laws.add_partition_renders [OF Cons.prems] .
  then show ?case
    using Cons by (auto intro!: yields_bind [OF yields_lift_Ok [where V = "\<lambda>_. True"]]
        yields_bind [OF yields_try_sql] yields_bind [OF Cons.IH] yields_ret)
qed

lemma remove_failed_wf: "table_wf t \<Longrightarrow> table_wf (remove_failed failed t)"
  by (auto simp: table_wf_head remove_failed_def distinct_map_filter split: option.splits)

lemma yields_publish_table:
  assumes "table_wf t" and cb: "\<And>f x. callback = Some f \<Longrightarrow> yields table_wf (f x) (\<lambda>_. True)"
  shows "yields table_wf (publish_table t callback ctx) (\<lambda>_. True)"
proof -
  have callback: "yields table_wf (case callback of None \<Rightarrow> skip
      | Some f \<Rightarrow> bind (tables_byId ctx (obj_id t)) f) (\<lambda>_. True)"
    using cb by (cases callback) (auto intro!: yields_skip yields_bind [OF yields_byId [OF table_wf_blind]])
  have repair: "yields table_wf (bind (tables_byId ctx i) (\<lambda>r. case r of
      None \<Rightarrow> seq (tables_update ctx (obj_id t) (removeReferences_delta i)) skip | Some _ \<Rightarrow> skip)) (\<lambda>_. True)" for i
    by (intro yields_bind [OF yields_byId [OF table_wf_blind]])
      (auto intro!: yields_skip yields_seq yields_update [OF table_wf_blind] removeReferences_keeps_wf
        split: option.splits)
  show ?thesis
    unfolding publish_table_def Let_def
    by (intro yields_seq yields_insert [OF table_wf_blind assms(1)] yields_if repair yields_skip callback) simp
qed

lemma yields_CreateTable:
  assumes conf: "config_ok config"
    and cb: "\<And>f x. callback = Some f \<Longrightarrow> yields table_wf (f x) (\<lambda>_. True)"
  shows "yields table_wf (CreateTable_execute config ty callback ctx) (\<lambda>_. True)"
proof -
  have rest: "yields table_wf (bind (lift_result (createTable d t target)) (\<lambda>q.
      seq (exec_sql q) (bind (case partitioning t of
             Some p \<Rightarrow> if \<not> partitionsInlineInCreate d
                        then bind (add_partitions d t (ranges p)) (\<lambda>failed. ret (remove_failed failed t))
                        else ret t
           | None \<Rightarrow> ret t) (\<lambda>t'. publish_table t' callback ctx)))) (\<lambda>_. True)"
    if d: "d = pg_dialect \<or> d = mysql_dialect" and t: "fresh_table_ok config ty d t" for d t target
  proof -
    note laws = dialect_choice_laws [OF d]
    have wf: "table_wf t" using t by (simp add: fresh_table_ok_def)
    have part: "yields table_wf (case partitioning t of
             Some p \<Rightarrow> if \<not> partitionsInlineInCreate d
                        then bind (add_partitions d t (ranges p)) (\<lambda>failed. ret (remove_failed failed t))
                        else ret t
           | None \<Rightarrow> ret t) table_wf"
      using wf laws
      by (auto intro!: yields_ret yields_bind [OF yields_add_partitions] remove_failed_wf split: option.splits)
    from dialect_laws.create_renders [OF laws wf_columns [OF wf]]
    show ?thesis
      by (intro yields_bind [OF yields_lift_Ok [where V = "\<lambda>_. True"]] yields_seq [OF yields_exec_sql]
          yields_bind [OF part] yields_publish_table cb) auto
  qed
  show ?thesis
    unfolding CreateTable_execute_def
    by (intro yields_bind [OF yields_the_dialect] yields_bind [OF yields_size [OF table_wf_blind]]
        yields_if yields_skip yields_bind [OF yields_build_table [OF table_wf_blind conf]])
      (auto intro: rest)
qed

section \<open>DropTable, RenameTable, partitions, indexes\<close>

lemma yields_sweep: "yields table_wf (sweep_references ctx target) (\<lambda>_. True)"
  unfolding sweep_references_def
  by (intro yields_bind [OF yields_snapshotAll [OF table_wf_blind]] yields_for_each yields_if yields_seq
      yields_update [OF table_wf_blind] removeReferences_keeps_wf yields_skip) simp_all

lemma yields_drop_statement: "yields P (drop_statement b t) (\<lambda>_. True)"
  unfolding drop_statement_def
  by (intro yields_seq yields_when_do yields_exec_sql yields_catch yields_throw yields_run_sql
      yields_skip) simp_all

lemma yields_server_is: "yields P server_is (\<lambda>_. True)"
  unfolding server_is_def by (rule yields_gets) simp

lemma yields_DropTable: "yields table_wf (DropTable_execute config ctx) (\<lambda>_. True)"
  unfolding DropTable_execute_def
  by (intro yields_bind [OF yields_size [OF table_wf_blind]] yields_if yields_skip
      yields_bind [OF yields_randomPick [OF table_wf_blind]])
    (auto intro!: yields_skip yields_bind [OF yields_server_is] yields_seq yields_drop_statement
      yields_erase [OF table_wf_blind] yields_sweep split: option.splits)

lemma yields_RenameTable: "yields table_wf (RenameTable_execute ctx) (\<lambda>_. True)"
  unfolding RenameTable_execute_def
  by (intro yields_bind [OF yields_randomPick [OF table_wf_blind]])
    (auto intro!: yields_skip yields_bind [OF yields_draw] yields_seq yields_exec_sql
      yields_update [OF table_wf_blind rename_keeps_wf] split: option.splits)

lemma yields_CreatePartition: "yields table_wf (CreatePartition_execute config ctx) (\<lambda>_. True)"
proof -
  have step: "yields table_wf (bind (draw 1 100000000) (\<lambda>n. bind (lift_result (addPartition d t n))
      (\<lambda>q. seq (exec_sql q) (seq (tables_update ctx (obj_id t) (add_range_delta n)) skip)))) (\<lambda>_. True)"
    if "d = pg_dialect \<or> d = mysql_dialect" "partitioning t \<noteq> None" for d t
    using dialect_laws.add_partition_renders [OF dialect_choice_laws [OF that(1)], of t] that(2)
    by (auto intro!: yields_bind [OF yields_draw] yields_bind [OF yields_lift_Ok [where V = "\<lambda>_. True"]]
        yields_seq yields_exec_sql yields_skip yields_update [OF table_wf_blind add_range_keeps_wf])
  show ?thesis
    unfolding CreatePartition_execute_def findPartitionedTable_def
    by (intro yields_bind [OF yields_the_dialect] yields_bind [OF yields_findPartitioned [OF table_wf_blind]])
      (auto intro!: yields_skip step split: option.splits simp del: One_nat_def)
qed

lemma yields_DropPartition: "yields table_wf (DropPartition_execute config ctx) (\<lambda>_. True)"
  unfolding DropPartition_execute_def findPartitionedTable_def Let_def
  by (intro yields_bind [OF yields_the_dialect] yields_bind [OF yields_findPartitioned [OF table_wf_blind]])
    (auto intro!: yields_skip yields_bind [OF yields_draw] yields_seq yields_exec_sql yields_sweep
      yields_update [OF table_wf_blind drop_range_keeps_wf] split: option.splits)

lemma yields_drop_index_tries: "yields table_wf (drop_index_tries n info ctx) (\<lambda>_. True)"
proof (induction n)
  case 0
  then show ?case by (simp add: yields_skip)
next
  case (Suc n)
  show ?case unfolding drop_index_tries.simps Let_def
    by (intro yields_bind [OF yields_randomPick [OF table_wf_blind]])
      (auto intro!: Suc yields_if yields_bind [OF yields_draw]
        yields_bind [OF yields_run_sql [where V = "\<lambda>_. True"]] yields_throw yields_seq yields_skip
        yields_update [OF table_wf_blind drop_index_keeps_wf] simp: result_exception_def
        split: option.splits)
qed

lemma yields_DropIndex: "yields table_wf (DropIndex_execute ctx) (\<lambda>_. True)"
  unfolding DropIndex_execute_def
  by (rule yields_bind [OF yields_server_is yields_drop_index_tries])

section \<open>CreateIndex\<close>

lemma yields_random_bool: "yields P random_bool_draw (\<lambda>_. True)"
  unfolding random_bool_draw_def
proof (rule yields_in_rng)
  fix g
  show "good_result (\<lambda>_. True) (fst (random_bool g))"
    by (cases rule: random_number_cases [of 0 1 g])
      (auto simp: random_bool_def bind_def ret_def)
qed

lemma mset_upt_distinct: "mset ys = mset_set {0..<(n::nat)} \<Longrightarrow> distinct ys"
  using mset_eq_imp_distinct_iff [of ys "[0..<n]"] by simp

lemma yields_shuffle: "yields P (in_rng (shuffle xs)) (\<lambda>ys. mset ys = mset xs)"
proof (rule yields_in_rng)
  fix g
  show "good_result (\<lambda>ys. mset ys = mset xs) (fst (shuffle xs g))"
    using shuffle_ok [of xs g] by auto
qed

text \<open>
  What the chosen fields satisfy: they are fields of distinct positions in the order tried, no more
  than wanted, and their key bytes stay within the dialect's limit.
\<close>

definition field_of :: "table \<Rightarrow> nat \<Rightarrow> index_column \<Rightarrow> bool" where
  "field_of t i f \<longleftrightarrow> ic_name f = col_name (columns t ! i) \<and> ic_ordering f \<in> {IO_asc, IO_desc}"

definition fields_ok :: "dialect \<Rightarrow> table \<Rightarrow> nat \<Rightarrow> nat list \<Rightarrow> index_column list \<Rightarrow> bool" where
  "fields_ok d t columnCount is flds \<longleftrightarrow> (\<exists>js. distinct js \<and> set js \<subseteq> set is \<and>
     list_all2 (field_of t) js flds \<and> length flds \<le> columnCount \<and>
     sum_list (map (\<lambda>i. indexKeyPartBytes d (columns t ! i)) js) \<le> maxIndexKeyBytes d)"

lemma yields_choose_fields_gen:
  assumes "distinct (js @ is)" and "list_all2 (field_of t) js flds"
    and "keyBytes = sum_list (map (\<lambda>i. indexKeyPartBytes d (columns t ! i)) js)"
    and "keyBytes \<le> maxIndexKeyBytes d" and "length flds \<le> columnCount"
  shows "yields P (choose_fields d t columnCount is keyBytes flds)
    (\<lambda>fs. fields_ok d t columnCount (js @ is) fs \<and> length flds \<le> length fs)"
  using assms
proof (induction "is" arbitrary: js keyBytes flds)
  case Nil
  then show ?case by (auto intro!: yields_ret exI [of _ js] simp: fields_ok_def)
next
  case (Cons i "is")
  let ?b = "indexKeyPartBytes d (columns t ! i)"
  show ?case
  proof (cases "length flds < columnCount")
    case False
    with Cons.prems show ?thesis
      by (auto intro!: yields_ret exI [of _ js] simp: fields_ok_def)
  next
    case True
    show ?thesis
    proof (cases "?b > maxIndexKeyBytes d - keyBytes")
      case True
      have "distinct (js @ is)" using Cons.prems(1) by auto
      from Cons.IH [OF this Cons.prems(2-5)] have
        "yields P (choose_fields d t columnCount is keyBytes flds)
          (\<lambda>fs. fields_ok d t columnCount (js @ i # is) fs \<and> length flds \<le> length fs)"
        by (rule yields_mono) (auto simp: fields_ok_def)
      with True \<open>length flds < columnCount\<close> show ?thesis by simp
    next
      case False
      have "yields P (choose_fields d t columnCount is (keyBytes + ?b)
          (flds @ [\<lparr>ic_name = col_name (columns t ! i), ic_ordering = (if asc then IO_asc else IO_desc)\<rparr>]))
          (\<lambda>fs. fields_ok d t columnCount (js @ i # is) fs \<and> length flds \<le> length fs)" for asc
      proof (rule yields_mono [OF Cons.IH [of "js @ [i]"]])
        show "distinct ((js @ [i]) @ is)" using Cons.prems(1) by simp
        show "list_all2 (field_of t) (js @ [i])
          (flds @ [\<lparr>ic_name = col_name (columns t ! i), ic_ordering = (if asc then IO_asc else IO_desc)\<rparr>])"
          by (rule list_all2_appendI [OF Cons.prems(2)]) (simp add: field_of_def)
      qed (use Cons.prems False \<open>length flds < columnCount\<close> in auto)
      with False \<open>length flds < columnCount\<close> show ?thesis
        by (auto simp: Let_def intro!: yields_bind [OF yields_random_bool])
    qed
  qed
qed

lemma yields_choose_fields:
  assumes "distinct is"
  shows "yields P (choose_fields d t columnCount is 0 []) (fields_ok d t columnCount is)"
  using yields_choose_fields_gen [of "[]" "is" t "[]" 0 d columnCount P] assms
  by (auto intro: yields_mono)

lemma yields_pick_indexable:
  assumes "header_blind P"
  shows "yields P (pick_indexable n k ctx) (\<lambda>x. \<forall>t. x = Some t \<longrightarrow> P t \<and> length (indexes t) < k)"
proof (induction n)
  case 0
  then show ?case by (simp add: yields_ret)
next
  case (Suc n)
  show ?case unfolding pick_indexable.simps
    by (rule yields_bind [OF yields_randomPick [OF assms]])
      (auto intro!: Suc yields_ret split: option.splits)
qed

text \<open>
  \<open>CreateIndex\<close> is safe on tables with two columns. (With one column its draw has an empty range.)
\<close>

lemma add_index_keeps_two: "idx_fields i \<noteq> [] \<Longrightarrow> delta_keeps two_columns (add_index_delta i)"
  using add_index_keeps_wf [of i] by (auto simp: delta_keeps_def two_columns_def add_index_delta_def)

lemma yields_CreateIndex: "yields two_columns (CreateIndex_execute ctx) (\<lambda>_. True)"
proof -
  have step: "yields two_columns (bind (draw 1 100000000) (\<lambda>n.
      bind (in_rng (shuffle [0..<length (columns t)])) (\<lambda>available.
      bind (draw 1 (min (if columns t = [] then size_max else length (columns t) - 1) (maxIndexColumns d)))
       (\<lambda>columnCount. bind (choose_fields d t columnCount available 0 []) (\<lambda>flds.
        if flds = [] then skip
        else bind random_bool_draw (\<lambda>unique. bind random_bool_draw (\<lambda>concurrent. bind random_bool_draw (\<lambda>only.
          seq (exec_sql (createIndex d t \<lparr>idx_name = ''idx'' @ fmt_nat n, idx_unique = unique, idx_fields = flds\<rparr>
             \<lparr>opt_concurrent = concurrent, opt_only = only\<rparr>))
          (seq (tables_update ctx (obj_id t)
             (add_index_delta \<lparr>idx_name = ''idx'' @ fmt_nat n, idx_unique = unique, idx_fields = flds\<rparr>)) skip)))))))))
      (\<lambda>_. True)"
    if d: "d = pg_dialect \<or> d = mysql_dialect" and t: "two_columns t" for d t
  proof -
    have "1 \<le> min (if columns t = [] then size_max else length (columns t) - 1) (maxIndexColumns d)"
      using dialect_laws.some_index_column [OF dialect_choice_laws [OF d]] t
      by (auto simp: two_columns_def size_max_def)
    then show ?thesis
      by (intro yields_bind [OF yields_draw] yields_bind [OF yields_shuffle]
          yields_bind [OF yields_choose_fields] yields_if yields_skip yields_bind [OF yields_random_bool]
          yields_seq yields_exec_sql yields_update [OF two_columns_blind] add_index_keeps_two)
        (auto dest: mset_upt_distinct)
  qed
  show ?thesis
    unfolding CreateIndex_execute_def Let_def
    by (intro yields_bind [OF yields_the_dialect] yields_bind [OF yields_pick_indexable [OF two_columns_blind]]
        yields_case_option)
      (blast intro: yields_skip step [unfolded Let_def])+
qed

section \<open>AlterTable\<close>

text \<open>
  What the loop collects: positions of the table's columns, never the first; names to drop and new
  columns that are not \<open>id\<close>.
\<close>

definition alter_ok :: "table \<Rightarrow> alter_state \<Rightarrow> bool" where
  "alter_ok t st \<longleftrightarrow> distinct (droppedColumns st @ availableColumns st) \<and>
     set (droppedColumns st @ availableColumns st) \<subseteq> {0..<length (columns t)} \<and>
     0 \<notin> set (droppedColumns st) \<and>
     droppedColumnNames st = map (\<lambda>i. col_name (columns t ! i)) (droppedColumns st) \<and>
     length (droppedColumns st) \<le> length (columns t) - 2 \<and>
     (\<forall>c\<in>set (newColumns st). col_name c \<noteq> ''id'') \<and>
     (\<forall>tc\<in>set (typeChanges st). tc_type tc = CT_VARCHAR)"

lemma alter_start_ok: "alter_ok t (alter_start t)"
  by (simp add: alter_ok_def alter_start_def)

lemma alter_ok_no_id: "table_wf t \<Longrightarrow> alter_ok t st \<Longrightarrow> ''id'' \<notin> set (droppedColumnNames st)"
proof
  assume t: "table_wf t" "alter_ok t st" and "''id'' \<in> set (droppedColumnNames st)"
  then obtain i where i: "i \<in> set (droppedColumns st)" "col_name (columns t ! i) = ''id''"
    by (auto simp: alter_ok_def)
  moreover from i(1) t(2) have "i \<noteq> 0" "i < length (columns t)"
    by (auto simp: alter_ok_def subset_iff)
  ultimately show False using wf_other_names [OF t(1), of i] by simp
qed

lemma alter_ok_erase:
  assumes "alter_ok t st" and "k < length (availableColumns st)"
  shows "alter_ok t (st\<lparr>availableColumns := erase_at k (availableColumns st)\<rparr>)"
  using assms set_erase_at [of k "availableColumns st"] distinct_erase_at [of "availableColumns st" k]
  by (auto simp: alter_ok_def)

lemma first_changeable_lt: "first_changeable t is = Some k \<Longrightarrow> k < length is"
  by (induction "is" arbitrary: k) (auto split: if_splits)

lemma yields_try_drop:
  assumes ok: "alter_ok t st"
  shows "yields P (alter_try_drop d t st) (\<lambda>(_, st'). alter_ok t st')"
proof -
  have step: "alter_ok t (st\<lparr>alterSubcommands := ss, droppedColumnNames := droppedColumnNames st @
        [col_name (columns t ! (availableColumns st ! k))],
      droppedColumns := droppedColumns st @ [availableColumns st ! k],
      availableColumns := erase_at k (availableColumns st)\<rparr>)"
    if "3 \<le> length (columns t) - length (droppedColumns st)" "availableColumns st \<noteq> []"
      "k \<le> length (availableColumns st) - 1" "availableColumns st ! k \<noteq> 0" for k ss
  proof -
    from that(2,3) have k: "k < length (availableColumns st)" by (cases "availableColumns st") auto
    have "distinct (availableColumns st)" using ok by (simp add: alter_ok_def)
    from nth_notin_erase_at [OF this k] nth_mem [OF k] ok that(1,4)
      set_erase_at [of k "availableColumns st"] distinct_erase_at [of "availableColumns st" k]
    show ?thesis by (auto simp: alter_ok_def)
  qed
  show ?thesis
    unfolding alter_try_drop_def Let_def
    by (intro yields_if yields_ret yields_bind [OF yields_draw]) (auto simp: ok intro: step)
qed

lemma try_change_ok:
  assumes "alter_ok t st"
  shows "alter_ok t (snd (alter_try_change d t st))"
proof (cases "first_changeable t (availableColumns st)")
  case None
  with assms show ?thesis by (simp add: alter_try_change_def)
next
  case (Some k)
  from alter_ok_erase [OF assms first_changeable_lt [OF Some]] Some show ?thesis
    by (auto simp: alter_try_change_def Let_def alter_ok_def)
qed

lemma yields_alter_round:
  assumes ok: "alter_ok t st" and "commands \<noteq> []" and "access_methods config \<noteq> []"
  shows "yields P (alter_round config d t commands st) (\<lambda>(_, st'). alter_ok t st')"
proof -
  have add: "alter_ok t (st\<lparr>alterSubcommands := ss, newColumns := newColumns st @ [c]\<rparr>)"
    if "column_ok c" for c ss
    using ok that by (auto simp: alter_ok_def column_ok_def)
  have am: "alter_ok t (st\<lparr>alterSubcommands := ss, changingAm := True\<rparr>)" for ss
    using ok by (simp add: alter_ok_def)
  have change: "case alter_try_change d t st of (_, st') \<Rightarrow> alter_ok t st'"
    using try_change_ok [OF ok, of d] by (simp add: case_prod_beta)
  show ?thesis
    using assms(2,3) unfolding alter_round_def
    by (auto intro!: yields_bind [OF yields_draw] yields_bind [OF yields_randomColumn] yields_ret
        yields_try_drop ok add am change split: alter_subcommand.splits)
qed

lemma until_added_yields:
  assumes "until_added round st w = Some rw"
    and "\<And>st. alter_ok t st \<Longrightarrow> yields P (round st) (\<lambda>(_, st'). alter_ok t st')"
    and "alter_ok t st" and "world_inv P w"
  shows "world_inv P (snd rw) \<and> good_result (alter_ok t) (fst rw)"
  using assms
proof (induction rule: until_added.raw_induct [rotated 1, consumes 1])
  case (1 loop round st w rw)
  obtain r w1 where r: "round st w = (r, w1)" by fastforce
  from yieldsD [OF 1(3) [OF 1(4)] 1(5) r]
  have inv: "world_inv P w1" "good_result (\<lambda>(_, st'). alter_ok t st') r" by simp_all
  show ?case
  proof (cases r)
    case (Ok x)
    obtain added st1 where x: "x = (added, st1)" by fastforce
    show ?thesis
    proof (cases added)
      case True
      with 1(2) r Ok x inv show ?thesis by auto
    next
      case False
      with 1(2) r Ok x have "loop round st1 w1 = Some rw" by simp
      from 1(1) [OF this 1(3)] inv Ok x show ?thesis by simp
    qed
  qed (use 1(2) r inv in auto)
qed

lemma yields_alter_clause:
  assumes "alter_ok t st" and "commands \<noteq> []" and "access_methods config \<noteq> []"
  shows "yields P (alter_clause config d t commands st) (alter_ok t)"
proof (rule yieldsI)
  fix w r w' assume w: "world_inv P w" and c: "alter_clause config d t commands st w = (r, w')"
  show "world_inv P w' \<and> good_result (alter_ok t) r"
  proof (cases "until_added (alter_round config d t commands) st w")
    case None
    with c w show ?thesis by (auto simp: alter_clause_def)
  next
    case (Some rw)
    from until_added_yields [OF Some yields_alter_round [OF _ assms(2,3)] assms(1) w] c Some
    show ?thesis by (simp add: alter_clause_def)
  qed
qed

lemma yields_alter_clauses:
  assumes "commands \<noteq> []" and "access_methods config \<noteq> []"
  shows "alter_ok t st \<Longrightarrow> yields P (alter_clauses n config d t commands st) (alter_ok t)"
proof (induction n arbitrary: st)
  case 0
  then show ?case by (simp add: yields_ret)
next
  case (Suc n)
  then show ?case unfolding alter_clauses.simps
    by (intro yields_bind [OF yields_alter_clause [OF _ assms]])
qed

lemma yields_AlterTable:
  assumes conf: "config_ok config" and "flags_All fl \<noteq> []"
  shows "yields table_wf (AlterTable_execute config fl ctx) (\<lambda>_. True)"
proof -
  have am: "access_methods config \<noteq> []" "1 \<le> max_alter_clauses config"
    using conf by (simp_all add: config_ok_def)
  have step: "yields table_wf (bind (draw 1 (max_alter_clauses config)) (\<lambda>howMany.
      bind (alter_clauses howMany config d t (flags_All fl) (alter_start t)) (\<lambda>st.
       seq (exec_sql (sql st)) (seq (tables_update ctx (obj_id t) (alter_delta b st)) skip)))) (\<lambda>_. True)"
    if t: "table_wf t" for t d b and sql :: "alter_state \<Rightarrow> string"
  proof -
    have "delta_keeps table_wf (alter_delta b st)" if "alter_ok t st" for st
      using that alter_ok_no_id [OF t that] by (intro alter_delta_keeps_wf) (simp_all add: alter_ok_def)
    then have fin: "yields table_wf (seq (exec_sql (sql st))
        (seq (tables_update ctx (obj_id t) (alter_delta b st)) skip)) (\<lambda>_. True)" if "alter_ok t st" for st
      using that by (intro yields_seq yields_exec_sql yields_skip yields_update [OF table_wf_blind]) simp_all
    show ?thesis
      by (rule yields_bind [OF yields_draw [OF am(2)]],
          rule yields_bind [OF yields_alter_clauses [OF assms(2) am(1) alter_start_ok] fin])
  qed
  show ?thesis
    unfolding AlterTable_execute_def
  proof (intro yields_bind [OF yields_the_dialect] yields_bind [OF yields_randomPick [OF table_wf_blind]]
        yields_case_option)
    fix d :: dialect and x t
    assume "\<forall>t. x = Some t \<longrightarrow> table_wf t \<and> obj_id t \<noteq> 0" "x = Some t"
    then show "yields table_wf (bind (draw 1 (max_alter_clauses config)) (\<lambda>howMany.
      bind (alter_clauses howMany config d t (flags_All fl) (alter_start t)) (\<lambda>st.
       seq (exec_sql (''ALTER TABLE '' @ obj_name t @ [CHR '' '', CHR 0x0A, CHR '' ''] @
                  join comma_newline (alterSubcommands st) @ '';''))
         (seq (tables_update ctx (obj_id t) (alter_delta (dropColumnRemovesWholeIndex d) st)) skip)))) (\<lambda>_. True)"
      by (intro step) simp
  qed (rule yields_skip, simp)
qed

text \<open>The invariant without a condition on the tables.\<close>

abbreviation any_table :: "table \<Rightarrow> bool" where
  "any_table \<equiv> \<lambda>_. True"

lemma any_blind: "header_blind any_table" by (simp add: header_blind_def)

lemma any_delta: "delta_keeps any_table d" by (simp add: delta_keeps_def)

section \<open>All DDL actions\<close>

datatype ddl_action =
    DA_create table_type | DA_drop | DA_alter bit_flags | DA_rename | DA_create_index | DA_drop_index
  | DA_create_partition | DA_drop_partition

fun ddl_execute :: "ddl_config \<Rightarrow> ddl_action \<Rightarrow> action" where
  "ddl_execute config (DA_create ty) = CreateTable_execute config ty None"
| "ddl_execute config DA_drop = DropTable_execute config"
| "ddl_execute config (DA_alter fl) = AlterTable_execute config fl"
| "ddl_execute config DA_rename = RenameTable_execute"
| "ddl_execute config DA_create_index = CreateIndex_execute"
| "ddl_execute config DA_drop_index = DropIndex_execute"
| "ddl_execute config DA_create_partition = CreatePartition_execute config"
| "ddl_execute config DA_drop_partition = DropPartition_execute config"

definition flags_ok :: "ddl_action \<Rightarrow> bool" where
  "flags_ok a \<longleftrightarrow> (case a of DA_alter fl \<Rightarrow> flags_All fl \<noteq> [] | _ \<Rightarrow> True)"

lemma yields_ddl:
  assumes "config_ok config" and "flags_ok a" and "a \<noteq> DA_create_index"
  shows "yields table_wf (ddl_execute config a ctx) (\<lambda>_. True)"
  using assms yields_CreateTable [OF assms(1), of None]
  by (cases a) (simp_all add: yields_DropTable yields_AlterTable yields_RenameTable
      yields_DropIndex yields_CreatePartition yields_DropPartition flags_ok_def)

text \<open>
  C12: the DDL actions, CreateIndex apart (a table of one column breaks it), are safe under any concurrency and any
  server. Whatever the other workers do
  between the steps (as long as they too publish well-formed tables) and whatever the server
  answers, the action leaves the catalog consistent with every table well-formed (its first column
  the primary key \<open>id\<close>, no other column of that name, no empty index, distinct index names and
  ranges), never runs into undefined behaviour, and throws only SQL and action exceptions.
\<close>

theorem ddl_actions_safe:
  assumes "config_ok config" and "flags_ok a" and "a \<noteq> DA_create_index"
    and "world_inv table_wf w" and "ddl_execute config a ctx w = (r, w')"
  shows "world_inv table_wf w' \<and> r \<noteq> Undefined \<and> (\<forall>e. r = Throw e \<longrightarrow> handled_exn e)"
  using yieldsD [OF yields_ddl [OF assms(1-3)] assms(4,5)] by auto

text \<open>A world to run actions in: an empty registry, a server that accepts everything.\<close>

definition accept_all :: "sql_call list \<Rightarrow> sql_call \<Rightarrow> query_result" where
  "accept_all h c = \<lparr>qr_query = [], executionTime = 1,
     errorInfo = \<lparr>errorCode = [], errorMessage = [], errorStatus = St_success, errorClass = Ec_none\<rparr>,
     affectedRows = 0, qr_data = None\<rparr>"

definition refuse_all :: "sql_call list \<Rightarrow> sql_call \<Rightarrow> query_result" where
  "refuse_all h c = \<lparr>qr_query = [], executionTime = 1,
     errorInfo = \<lparr>errorCode = ''42'', errorMessage = ''no'', errorStatus = St_error, errorClass = Ec_other\<rparr>,
     affectedRows = 0, qr_data = None\<rparr>"

definition sample_world ::
  "flavor \<Rightarrow> (sql_call list \<Rightarrow> sql_call \<Rightarrow> query_result) \<Rightarrow> (nat \<Rightarrow> nat) \<Rightarrow> table list \<Rightarrow> world" where
  "sample_world fl srv ds ts = \<lparr>w_rng = \<lparr>draws = ds, drawn = 0\<rparr>,
     registry = \<lparr>tables = foldl (\<lambda>c t. snd (catalog_insert t c)) empty_catalog ts, next_id = 100\<rparr>,
     conn = sample_conn\<lparr>conn_info := \<lparr>si_flavor = fl, si_version = 80036\<rparr>, server := srv\<rparr>,
     buffer = None, others = (\<lambda>n. []), clock = 0\<rparr>"

definition sample_table :: "object_id \<Rightarrow> string \<Rightarrow> table" where
  "sample_table i n = default_table\<lparr>obj_id := i, obj_name := n,
     columns := [default_column\<lparr>col_name := ''id'', primary_key := True, nullable := False\<rparr>,
       default_column\<lparr>col_name := ''col1''\<rparr>, default_column\<lparr>col_name := ''col2''\<rparr>]\<rparr>"

lemma sample_table_wf: "table_wf (sample_table i n)" "two_columns (sample_table i n)"
  by (simp_all add: two_columns_def table_wf_def sample_table_def default_table_def default_column_def)

lemma foldl_insert_inv:
  "header_blind P \<Longrightarrow> catalog_inv c \<Longrightarrow> all_tables P (catalog_byId c) \<Longrightarrow> \<forall>t\<in>set ts. P t \<Longrightarrow>
   catalog_inv (foldl (\<lambda>c t. snd (catalog_insert t c)) c ts) \<and>
   all_tables P (catalog_byId (foldl (\<lambda>c t. snd (catalog_insert t c)) c ts))"
proof (induction ts arbitrary: c)
  case (Cons t ts)
  have "catalog_apply (Op_insert t) c = Ok (fst (catalog_insert t c), snd (catalog_insert t c))" by simp
  from catalog_op_keeps [OF Cons.prems(1-3) _ this] Cons show ?case by simp
qed simp

lemma sample_world_inv:
  "header_blind P \<Longrightarrow> \<forall>t\<in>set ts. P t \<Longrightarrow> world_inv P (sample_world fl srv ds ts)"
  using foldl_insert_inv [of P empty_catalog ts]
  by (simp add: world_inv_def sample_world_def buffer_inv_def catalog_empty_inv all_tables_def)

lemma default_config_ok: "config_ok default_ddl_config"
  by (simp add: config_ok_def default_ddl_config_def)

lemma ddl_actions_safe_witness:
  "\<exists>r w'. ddl_execute default_ddl_config DA_rename Direct
      (sample_world fl_mysql accept_all (\<lambda>n. n) [sample_table 1 ''foo1'']) = (r, w') \<and>
     world_inv table_wf w' \<and> r \<noteq> Undefined"
proof -
  let ?w = "sample_world fl_mysql accept_all (\<lambda>n. n) [sample_table 1 ''foo1'']"
  obtain r w' where e: "ddl_execute default_ddl_config DA_rename Direct ?w = (r, w')" by fastforce
  have "world_inv table_wf ?w"
    by (rule sample_world_inv [OF table_wf_blind]) (simp add: sample_table_wf)
  from ddl_actions_safe [OF default_config_ok _ _ this e] e show ?thesis by (auto simp: flags_ok_def)
qed

text \<open>
  \<open>CreateIndex\<close> is as safe, as long as no table has fewer than two columns.
\<close>

theorem create_index_safe:
  assumes "world_inv two_columns w" and "CreateIndex_execute ctx w = (r, w')"
  shows "world_inv two_columns w' \<and> r \<noteq> Undefined \<and> (\<forall>e. r = Throw e \<longrightarrow> handled_exn e)"
  using yieldsD [OF yields_CreateIndex assms] by auto

lemma create_index_safe_witness:
  "\<exists>r w'. CreateIndex_execute Direct
      (sample_world fl_mysql accept_all (\<lambda>n. n) [sample_table 1 ''foo1'']) = (r, w') \<and>
     world_inv two_columns w' \<and> r \<noteq> Undefined"
proof -
  let ?w = "sample_world fl_mysql accept_all (\<lambda>n. n) [sample_table 1 ''foo1'']"
  obtain r w' where e: "CreateIndex_execute Direct ?w = (r, w')" by fastforce
  have "world_inv two_columns ?w"
    by (rule sample_world_inv [OF two_columns_blind]) (simp add: sample_table_wf)
  from create_index_safe [OF this e] e show ?thesis by auto
qed

end
