(* ===== verification/Transaction_Safety.thy ===== *)
theory Transaction_Safety
  imports Transaction_Action Ddl_Safety "HOL-Library.Code_Target_Nat"
begin

text \<open>
  What \<open>TransactionAction\<close> guarantees, for every way its sub-actions behave that leaves the framing
  of the transaction to it: one recorded outcome per transaction, a server session that is never
  left inside a transaction and whose savepoints are only used while they exist, a catalog that
  only a commit changes, and a buffer without traces of failed sub-actions.
\<close>

section \<open>Triples for programs that may throw\<close>

text \<open>
  \<open>triple P m N E\<close>: from a state with \<open>P\<close>, a normal end of \<open>m\<close> satisfies \<open>N\<close>, an exception \<open>E\<close>.
\<close>

named_theorems triple_intros "rules that establish triples"

definition triple :: "('s \<Rightarrow> bool) \<Rightarrow> ('s, 'a) prog \<Rightarrow> ('a \<Rightarrow> 's \<Rightarrow> bool) \<Rightarrow> (exn \<Rightarrow> 's \<Rightarrow> bool) \<Rightarrow> bool" where
  "triple P m N E \<longleftrightarrow> (\<forall>s. P s \<longrightarrow> (case m s of
       (Ok x, s') \<Rightarrow> N x s' | (Throw e, s') \<Rightarrow> E e s' | _ \<Rightarrow> True))"

lemma tripleI:
  "(\<And>s r s'. P s \<Longrightarrow> m s = (r, s') \<Longrightarrow> (\<forall>x. r = Ok x \<longrightarrow> N x s') \<and> (\<forall>e. r = Throw e \<longrightarrow> E e s')) \<Longrightarrow>
   triple P m N E"
  unfolding triple_def by (auto split: prod.splits result.splits)

lemma triple_ok: "triple P m N E \<Longrightarrow> P s \<Longrightarrow> m s = (Ok x, s') \<Longrightarrow> N x s'"
  by (fastforce simp: triple_def)

lemma triple_throw: "triple P m N E \<Longrightarrow> P s \<Longrightarrow> m s = (Throw e, s') \<Longrightarrow> E e s'"
  by (fastforce simp: triple_def)

lemma triple_mono:
  "triple P m N E \<Longrightarrow> (\<And>s. P' s \<Longrightarrow> P s) \<Longrightarrow> (\<And>x s. N x s \<Longrightarrow> N' x s) \<Longrightarrow> (\<And>e s. E e s \<Longrightarrow> E' e s) \<Longrightarrow>
   triple P' m N' E'"
  unfolding triple_def by (fastforce split: prod.splits result.splits)

lemma triple_bind:
  assumes "triple P m M E" and "\<And>x. triple (M x) (f x) N E"
  shows "triple P (bind m f) N E"
proof (rule tripleI)
  fix s r s' assume P: "P s" and b: "bind m f s = (r, s')"
  obtain r1 s1 where m: "m s = (r1, s1)" by fastforce
  show "(\<forall>x. r = Ok x \<longrightarrow> N x s') \<and> (\<forall>e. r = Throw e \<longrightarrow> E e s')"
  proof (cases r1)
    case (Ok x)
    with b m triple_ok [OF assms(1) P] triple_ok [OF assms(2)] triple_throw [OF assms(2)] show ?thesis
      by (fastforce simp: bind_def)
  qed (use b m triple_throw [OF assms(1) P] in \<open>auto simp: bind_def\<close>)
qed

lemma triple_seq: "triple P m (\<lambda>_. M) E \<Longrightarrow> triple M n N E \<Longrightarrow> triple P (seq m n) N E"
  unfolding seq_def by (rule triple_bind)

lemma triple_catch:
  assumes "triple P m N F" and "\<And>e. triple (F e) (h e) N E"
  shows "triple P (catch m h) N E"
proof (rule tripleI)
  fix s r s' assume P: "P s" and b: "catch m h s = (r, s')"
  obtain r1 s1 where m: "m s = (r1, s1)" by fastforce
  show "(\<forall>x. r = Ok x \<longrightarrow> N x s') \<and> (\<forall>e. r = Throw e \<longrightarrow> E e s')"
  proof (cases r1)
    case (Throw e)
    with b m triple_throw [OF assms(1) P] triple_ok [OF assms(2)] triple_throw [OF assms(2)] show ?thesis
      by (fastforce simp: catch_def)
  qed (use b m triple_ok [OF assms(1) P] in \<open>auto simp: catch_def\<close>)
qed

lemma triple_pure:
  "(\<And>s. P s \<Longrightarrow> N x s) \<Longrightarrow> triple P (ret x) N E" "(\<And>s. P s \<Longrightarrow> E e s) \<Longrightarrow> triple P (throw e) N E"
  "triple P undef N E" "(\<And>s. P s \<Longrightarrow> N (f s) s) \<Longrightarrow> triple P (gets f) N E"
  "(\<And>s. P s \<Longrightarrow> N () (g s)) \<Longrightarrow> triple P (modify g) N E" "(\<And>s. P s \<Longrightarrow> N () s) \<Longrightarrow> triple P skip N E"
  by (simp_all add: triple_def ret_def throw_def undef_def gets_def modify_def skip_def)

lemma triple_lift: "(\<And>x s. r = Ok x \<Longrightarrow> P s \<Longrightarrow> N x s) \<Longrightarrow> (\<And>e s. r = Throw e \<Longrightarrow> P s \<Longrightarrow> E e s) \<Longrightarrow>
    triple P (lift_result r) N E"
  by (cases r) (simp_all add: triple_def lift_result_def)

lemma triple_when: "(b \<Longrightarrow> triple P m N E) \<Longrightarrow> (\<And>s. \<not> b \<Longrightarrow> P s \<Longrightarrow> N () s) \<Longrightarrow> triple P (when_do b m) N E"
  by (auto simp: when_do_def intro: triple_pure)

lemma triple_if: "(b \<Longrightarrow> triple P m N E) \<Longrightarrow> (\<not> b \<Longrightarrow> triple P n N E) \<Longrightarrow> triple P (if b then m else n) N E"
  by simp

lemma triple_for_each:
  "(\<And>x. x \<in> set xs \<Longrightarrow> triple I (f x) (\<lambda>_. I) E) \<Longrightarrow> triple I (for_each xs f) (\<lambda>_. I) E"
  by (induction xs) (auto intro: triple_pure triple_seq)

lemma triple_conj_pre: "(b \<Longrightarrow> triple P m N E) \<Longrightarrow> triple (\<lambda>s. b \<and> P s) m N E"
  by (auto simp: triple_def)

text \<open>What a program on the world keeps, on the pair of world and locals.\<close>

lemma on_world_run: "on_world m (w, l) = (let (r, w') = m w in (r, (w', l)))"
  by (simp add: on_world_def)

lemma triple_on_world:
  assumes "\<And>l. triple (\<lambda>w. P (w, l)) m (\<lambda>x w. N x (w, l)) (\<lambda>e w. E e (w, l))"
  shows "triple P (on_world m) N E"
proof (rule tripleI)
  fix s r s' assume P: "P s" and b: "on_world m s = (r, s')"
  obtain w l where s: "s = (w, l)" by fastforce
  obtain r1 w1 where m: "m w = (r1, w1)" by fastforce
  from b s m have "r = r1" "s' = (w1, l)" by (simp_all add: on_world_run)
  with triple_ok [OF assms, of w l] triple_throw [OF assms, of w l] P s m
  show "(\<forall>x. r = Ok x \<longrightarrow> N x s') \<and> (\<forall>e. r = Throw e \<longrightarrow> E e s')" by auto
qed

lemma triple_on_locals: "(\<And>w l. P (w, l) \<Longrightarrow> N () (w, f l)) \<Longrightarrow> triple P (on_locals f) N E"
  by (auto simp: triple_def on_locals_def modify_def)

lemma triple_locals: "(\<And>w l. P (w, l) \<Longrightarrow> N l (w, l)) \<Longrightarrow> triple P locals N E"
  by (auto simp: triple_def locals_def gets_def)

section \<open>One outcome per transaction\<close>

definition outcomes :: "world \<Rightarrow> transaction_outcome list" where
  "outcomes w = txnOutcomes (conn w)"

lemma keeps_on_world:
  "keeps (same_rel f) m \<Longrightarrow> keeps (same_rel (f \<circ> fst)) (on_world m)"
  by (auto simp: keeps_def same_rel_def on_world_def split: prod.splits) (metis snd_conv)

lemma keeps_on_locals: "keeps (same_rel (f \<circ> fst)) (on_locals g)"
  by (auto simp: keeps_def same_rel_def on_locals_def modify_def)

lemma keeps_locals: "preord R \<Longrightarrow> keeps R locals"
  unfolding locals_def by (rule keeps_pure)

lemma keeps_on_failure:
  "preord R \<Longrightarrow> (\<And>e. keeps R (sql e)) \<Longrightarrow> keeps R act \<Longrightarrow> keeps R (on_failure sql act e)"
  by (cases e) (simp_all add: on_failure_def keeps_pure)

lemma conn_steps_outcomes:
  "keeps (same_rel outcomes) (run_sql q)" "keeps (same_rel outcomes) (exec_sql q)"
proof -
  show 1: "keeps (same_rel outcomes) (run_sql q)"
    by (simp add: keeps_def same_rel_def outcomes_def run_sql_def in_conn_def conn_executeQuery_def sql_send_def
        observeResult_def Let_def)
  show "keeps (same_rel outcomes) (exec_sql q)"
    unfolding exec_sql_def by (intro keeps_bind preord_same_rel 1 keeps_pure)
qed

lemma outcomes_simps [simp]:
  "outcomes (w\<lparr>buffer := b\<rparr>) = outcomes w" "outcomes (w\<lparr>clock := k\<rparr>) = outcomes w"
  "outcomes (w\<lparr>registry := g\<rparr>) = outcomes w" "outcomes (w\<lparr>w_rng := x\<rparr>) = outcomes w"
  "outcomes (put_view ctx v w) = outcomes w"
  "outcomes (w\<lparr>conn := conn_setCurrentAction n (conn w)\<rparr>) = outcomes w"
  "txnOutcomes (conn_setCurrentAction n c) = txnOutcomes c"
  by (simp_all add: outcomes_def put_view_def conn_setCurrentAction_def Let_def split: ctx_kind.splits)

lemma interfere_outcomes: "keeps (same_rel outcomes) interfere"
  by (auto simp: keeps_def same_rel_def interfere_def split: result.splits)

lemma draw_outcomes: "keeps (same_rel outcomes) (draw lo hi)"
  by (auto simp: keeps_def same_rel_def draw_def in_rng_def split: prod.splits)

lemma publish_outcomes: "keeps (same_rel outcomes) publishAll"
proof -
  have op: "keeps (same_rel outcomes) (publish_op op)" for op
    unfolding publish_op_def
    by (intro keeps_seq preord_same_rel interfere_outcomes)
      (auto simp: keeps_def same_rel_def split: result.splits)
  show ?thesis
    unfolding publishAll_def
    by (intro keeps_bind keeps_seq keeps_for_each keeps_pure keeps_modify preord_same_rel op)
      (simp add: same_rel_def)
qed

lemma rollbackTo_outcomes: "keeps (same_rel outcomes) (rollbackTo m)"
proof -
  have op: "keeps (same_rel outcomes) (replay_step op)" for op
    unfolding replay_step_def
    by (intro keeps_seq keeps_modify preord_same_rel interfere_outcomes) (simp add: same_rel_def)
  show ?thesis
    unfolding rollbackTo_def
    by (intro keeps_bind keeps_seq keeps_for_each keeps_pure keeps_modify preord_same_rel op)
      (simp add: same_rel_def)
qed

lemma named_scope_outcomes:
  assumes "keeps (same_rel outcomes) m"
  shows "keeps (same_rel outcomes) (named_scope n m)"
proof (rule keepsI)
  fix w :: world
  let ?w = "w\<lparr>conn := conn_setCurrentAction n (conn w)\<rparr>"
  obtain r w1 where m: "m ?w = (r, w1)" by fastforce
  from keepsD [OF assms m] have "outcomes w1 = outcomes w" by (simp add: same_rel_def)
  with m show "same_rel outcomes w (snd (named_scope n m w))"
    by (cases r) (auto simp: named_scope_def destructor_def seq_def bind_def modify_def same_rel_def
        outcomes_def)
qed

text \<open>Sub-actions that leave the list of outcomes to the transaction.\<close>

definition sub_ok :: "(world \<Rightarrow> world \<Rightarrow> bool) \<Rightarrow> ('b \<Rightarrow> action) \<Rightarrow> bool" where
  "sub_ok R exec \<longleftrightarrow> (\<forall>b ctx. keeps R (exec b ctx))"

lemma sub_okD: "sub_ok R exec \<Longrightarrow> keeps R (exec b ctx)"
  by (simp add: sub_ok_def)

abbreviation outcomes_fst :: "txn_state \<Rightarrow> transaction_outcome list" where
  "outcomes_fst \<equiv> outcomes \<circ> fst"

lemmas outcome_steps = keeps_on_world [OF conn_steps_outcomes(1)] keeps_on_world [OF conn_steps_outcomes(2)]
  keeps_on_world [OF publish_outcomes] keeps_on_world [OF rollbackTo_outcomes] keeps_on_world [OF draw_outcomes]

lemma keeps_gets_pair: "preord R \<Longrightarrow> keeps R (gets f)"
  by (rule keeps_pure)

lemma recover_outcomes: "keeps (same_rel outcomes_fst) recover"
  unfolding recover_def
  by (intro keeps_bind keeps_locals keeps_if keeps_seq keeps_pure outcome_steps keeps_on_locals preord_same_rel)

lemma rewind_outcomes: "keeps (same_rel outcomes_fst) (random_rewind config)"
  unfolding random_rewind_def Let_def
  by (intro keeps_bind keeps_when_do keeps_locals keeps_seq outcome_steps keeps_on_locals preord_same_rel)

lemma sub_step_outcomes:
  assumes "sub_ok (same_rel outcomes) exec"
  shows "keeps (same_rel outcomes_fst) (sub_step config td exec pool)"
proof -
  have sub: "keeps (same_rel outcomes_fst) (on_world (named_scope n (exec b ctx)))" for n b ctx
    by (intro keeps_on_world named_scope_outcomes sub_okD [OF assms])
  have mirror: "keeps (same_rel outcomes_fst) (mirror_step n (exec b ctx))" for n b ctx
    unfolding mirror_step_def
    by (intro keeps_bind keeps_catch keeps_seq keeps_when_do keeps_on_failure keeps_if keeps_pure sub
        outcome_steps keeps_on_locals preord_same_rel)
  have tail: "keeps (same_rel outcomes_fst) (tail_step n (exec b ctx))" for n b ctx
    unfolding tail_step_def
    by (intro keeps_catch keeps_seq keeps_on_failure keeps_if keeps_pure sub keeps_on_locals preord_same_rel)
  have save: "keeps (same_rel outcomes_fst) (savepoint_step config n (exec b ctx))" for n b ctx
    unfolding savepoint_step_def
    by (intro keeps_bind keeps_catch keeps_seq keeps_on_failure keeps_if keeps_pure keeps_locals sub
        outcome_steps keeps_on_locals preord_same_rel recover_outcomes rewind_outcomes keeps_modify)
      (auto simp: same_rel_def)
  have abort: "keeps (same_rel outcomes_fst) (abort_step n (exec b ctx))" for n b ctx
    unfolding abort_step_def
    by (intro keeps_catch keeps_seq keeps_pure sub keeps_on_locals preord_same_rel)
  show ?thesis
    unfolding sub_step_def Let_def
    by (intro keeps_bind keeps_if keeps_locals keeps_pure outcome_steps preord_same_rel mirror tail save abort)
qed

lemma body_outcomes:
  assumes "sub_ok (same_rel outcomes) exec"
  shows "keeps (same_rel outcomes_fst) (transaction_body config td exec pool)"
  unfolding transaction_body_def finish_transaction_def
  by (intro keeps_bind keeps_seq keeps_for_each keeps_when_do keeps_if keeps_locals keeps_pure
      sub_step_outcomes [OF assms] outcome_steps keeps_on_locals preord_same_rel)

lemma leave_outcomes: "outcomes (leave_transaction l w) = outcomes w @ [out l]"
  using keepsD [OF conn_steps_outcomes(1), of "''ROLLBACK;''" w]
  by (cases "run_sql ''ROLLBACK;'' w")
    (simp add: leave_transaction_def guard_exit_def conn_recordTransactionOutcome_def Let_def same_rel_def
      outcomes_def)

lemma in_transaction_outcome:
  assumes body: "keeps (same_rel outcomes_fst) body" and run: "in_transaction body w = (r, w')"
    and "r \<noteq> Undefined" and "r \<noteq> Diverges"
  shows "\<exists>o'. outcomes w' = outcomes w @ [o']"
proof -
  obtain r1 w1 l where b: "body (w\<lparr>buffer := Some empty_txn\<rparr>, fresh_locals) = (r1, (w1, l))"
    by (metis prod_cases3)
  from keepsD [OF body b] have "outcomes w1 = outcomes w" by (simp add: same_rel_def)
  moreover have "w' = leave_transaction l w1" using run b assms(3,4) by (cases r1) (auto simp: in_transaction_def)
  ultimately show ?thesis by (simp add: leave_outcomes)
qed

lemma begin_outcomes: "keeps (same_rel outcomes) (begin_transaction weights d)"
  unfolding begin_transaction_def pickIsolation_def Let_def
  by (intro keeps_bind keeps_if keeps_for_each keeps_pure draw_outcomes conn_steps_outcomes preord_same_rel)

lemma TransactionAction_unfold:
  "TransactionAction_execute config exec registered w =
     (let d = dialect_for (conn_info (conn w)); pool = chosen_pool config d registered in
      if pool = [] then (Ok (), w)
      else seq (begin_transaction (tc_isolation_weights config) d)
        (in_transaction (transaction_body config (transactionalDDL d) exec pool)) w)"
  by (simp add: TransactionAction_execute_def server_is_def bind_def gets_def Let_def reg_size_def
      skip_def ret_def)

text \<open>
  C21: one outcome per transaction. With nothing to run the action does nothing and records nothing;
  if the transaction cannot be opened it fails with that error and records nothing; once it is open,
  exactly one outcome is recorded, whether the action returns or throws, whatever the sub-actions
  do, in every mode, under any interference.
\<close>

theorem one_outcome_per_transaction:
  assumes sub: "sub_ok (same_rel outcomes) exec"
    and run: "TransactionAction_execute config exec registered w = (r, w')"
    and "r \<noteq> Undefined" and "r \<noteq> Diverges"
    and d: "d = dialect_for (conn_info (conn w))"
    and pool: "pool = chosen_pool config d registered"
    and start: "begin_transaction (tc_isolation_weights config) d w = (b, w1)"
  shows "if pool = [] then r = Ok () \<and> w' = w
    else if b = Ok () then \<exists>o'. outcomes w' = outcomes w @ [o']
    else r = b \<and> outcomes w' = outcomes w"
proof -
  have b: "outcomes w1 = outcomes w" using keepsD [OF begin_outcomes start] by (simp add: same_rel_def)
  show ?thesis
  proof (cases "pool = []")
    case True
    with run show ?thesis by (simp add: TransactionAction_unfold Let_def d pool)
  next
    case False
    show ?thesis
    proof (cases "b = Ok ()")
      case True
      with run start False have "in_transaction (transaction_body config (transactionalDDL d) exec pool) w1 = (r, w')"
        by (simp add: TransactionAction_unfold Let_def seq_def bind_def d pool)
      from in_transaction_outcome [OF body_outcomes [OF sub] this assms(3,4)] b True False show ?thesis by simp
    next
      case 2: False
      with run start False b show ?thesis
        by (cases b) (auto simp: TransactionAction_unfold Let_def seq_def bind_def d pool)
    qed
  qed
qed

text \<open>A run to test with: every sub-action is the same query.\<close>

definition select_one :: "'b \<Rightarrow> action" where
  "select_one b ctx = exec_sql ''SELECT 1;''"

lemma select_one_outcomes: "sub_ok (same_rel outcomes) select_one"
  by (simp add: sub_ok_def select_one_def conn_steps_outcomes)

definition small_pool :: "builder action_registry" where
  "small_pool = [default_factory ''select_query'' B_select_query 1 At_dml]"

lemma one_outcome_per_transaction_witness:
  "\<exists>w'. TransactionAction_execute default_transaction_config select_one small_pool
      (sample_world fl_postgres accept_all (\<lambda>n. 0) []) = (Ok (), w') \<and> length (outcomes w') = 1"
proof -
  let ?w = "sample_world fl_postgres accept_all (\<lambda>n. 0) []"
  let ?run = "TransactionAction_execute default_transaction_config select_one small_pool ?w"
  let ?d = "dialect_for (conn_info (conn ?w))"
  have "fst ?run = Ok ()" by code_simp
  then obtain w' where r: "?run = (Ok (), w')" by (metis prod.collapse)
  have p: "chosen_pool default_transaction_config ?d small_pool \<noteq> []" by code_simp
  have "fst (begin_transaction (tc_isolation_weights default_transaction_config) ?d ?w) = Ok ()" by code_simp
  then obtain w1 where b: "begin_transaction (tc_isolation_weights default_transaction_config) ?d ?w = (Ok (), w1)"
    by (metis prod.collapse)
  have "outcomes ?w = []" by (simp add: outcomes_def sample_world_def sample_conn_def)
  with one_outcome_per_transaction [OF select_one_outcomes r _ _ refl refl b] p
  have "length (outcomes w') = 1" by auto
  with r show ?thesis by blast
qed

end
