(* ===== verification/Ddl_Effects.thy ===== *)
theory Ddl_Effects
  imports Ddl_Safety
begin

text \<open>
  What the DDL actions do to the catalog: the limits of the indexes they create, nothing on a failed
  statement, the removal of a dropped table with all references to it, the restored session setting,
  and the two ways a run can go wrong (a loop without end, a draw from an empty range).
\<close>

section \<open>Index limits\<close>



section \<open>A failed statement publishes nothing\<close>

text \<open>
  For a worker alone: \<open>nothrow m\<close>: \<open>m\<close> returns; \<open>aborts m\<close>: when \<open>m\<close> throws, catalog and buffer
  are what they were.
\<close>

named_theorems abort_intros "rules that establish nothrow and aborts"

definition nothrow :: "(world, 'a) prog \<Rightarrow> bool" where
  "nothrow m \<longleftrightarrow> (\<forall>w. quiet w \<longrightarrow> world_inv any_table w \<longrightarrow>
     quiet (snd (m w)) \<and> world_inv any_table (snd (m w)) \<and> (\<forall>e. fst (m w) \<noteq> Throw e))"

definition aborts :: "(world, 'a) prog \<Rightarrow> bool" where
  "aborts m \<longleftrightarrow> (\<forall>w e w'. quiet w \<longrightarrow> world_inv any_table w \<longrightarrow> m w = (Throw e, w') \<longrightarrow>
     store_of w' = store_of w)"

lemma quiet_same_inv:
  "quiet_same w w' \<Longrightarrow> quiet w \<Longrightarrow> world_inv any_table w \<Longrightarrow> quiet w' \<and> world_inv any_table w'"
  by (auto simp: quiet_same_def store_of_def world_inv_def quiet_def)

lemma aborts_keeps: "keeps quiet_same m \<Longrightarrow> aborts m"
  by (auto simp: aborts_def quiet_same_def dest!: keepsD)

lemma aborts_nothrow: "nothrow m \<Longrightarrow> aborts m"
  by (fastforce simp: aborts_def nothrow_def)

lemma aborts_bind [abort_intros]:
  assumes m: "keeps quiet_same m" and f: "\<And>x. aborts (f x)"
  shows "aborts (bind m f)"
  unfolding aborts_def
proof (intro allI impI)
  fix w e w' assume w: "quiet w" "world_inv any_table w" and b: "bind m f w = (Throw e, w')"
  obtain r w1 where m1: "m w = (r, w1)" by fastforce
  from keepsD [OF m m1] have s: "quiet_same w w1" .
  from quiet_same_inv [OF this w] have q: "quiet w1" "world_inv any_table w1" by simp_all
  from s w have "store_of w1 = store_of w" by (simp add: quiet_same_def)
  moreover have "store_of w' = store_of w1"
  proof (cases r)
    case (Ok x)
    with b m1 have "f x w1 = (Throw e, w')" by (simp add: bind_def)
    with f q show ?thesis by (auto simp: aborts_def)
  qed (use b m1 in \<open>auto simp: bind_def\<close>)
  ultimately show "store_of w' = store_of w" by simp
qed

lemma aborts_seq [abort_intros]: "keeps quiet_same m \<Longrightarrow> aborts n \<Longrightarrow> aborts (seq m n)"
  unfolding seq_def by (rule aborts_bind)

lemma aborts_if [abort_intros]: "(b \<Longrightarrow> aborts m) \<Longrightarrow> (\<not> b \<Longrightarrow> aborts n) \<Longrightarrow> aborts (if b then m else n)"
  by simp

lemma aborts_case_option [abort_intros]:
  "(x = None \<Longrightarrow> aborts m) \<Longrightarrow> (\<And>y. x = Some y \<Longrightarrow> aborts (f y)) \<Longrightarrow>
   aborts (case x of None \<Rightarrow> m | Some y \<Rightarrow> f y)"
  by (cases x) auto

lemma aborts_skip [abort_intros]: "aborts skip"
  by (rule aborts_keeps) (simp add: keeps_pure)

lemma nothrow_bind:
  assumes "nothrow m" and "\<And>x. nothrow (f x)"
  shows "nothrow (bind m f)"
  unfolding nothrow_def
proof (intro allI impI)
  fix w assume w: "quiet w" "world_inv any_table w"
  obtain r w1 where m1: "m w = (r, w1)" by fastforce
  have 1: "quiet w1" "world_inv any_table w1" "\<forall>e. r \<noteq> Throw e"
    using assms(1) w m1 by (auto simp: nothrow_def dest!: spec [of _ w])
  show "quiet (snd (bind m f w)) \<and> world_inv any_table (snd (bind m f w)) \<and> (\<forall>e. fst (bind m f w) \<noteq> Throw e)"
    using 1 assms(2) m1 by (cases r) (auto simp: bind_def nothrow_def)
qed

lemma nothrow_seq: "nothrow m \<Longrightarrow> nothrow n \<Longrightarrow> nothrow (seq m n)"
  unfolding seq_def by (rule nothrow_bind)

lemma nothrow_skip: "nothrow skip"
  by (simp add: nothrow_def skip_def ret_def)

lemma nothrow_for_each: "(\<And>x. x \<in> set xs \<Longrightarrow> nothrow (f x)) \<Longrightarrow> nothrow (for_each xs f)"
  by (induction xs) (auto intro: nothrow_skip nothrow_seq)

lemma nothrow_step:
  assumes "yields any_table (seq interfere m) V"
    and "\<And>w. quiet w \<Longrightarrow> world_inv any_table w \<Longrightarrow> quiet (snd (m w)) \<and> (\<forall>e. fst (m w) \<noteq> Throw e)"
  shows "nothrow (seq interfere m)"
  unfolding nothrow_def
proof (intro allI impI)
  fix w assume w: "quiet w" "world_inv any_table w"
  have eq: "seq interfere m w = m (w\<lparr>clock := Suc (clock w)\<rparr>)"
    by (simp add: seq_def bind_def interfere_quiet [OF w(1)])
  from assms(1) w(2) have "world_inv any_table (snd (seq interfere m w))" by (simp add: yields_def)
  with eq assms(2) [of "w\<lparr>clock := Suc (clock w)\<rparr>"] w
  show "quiet (snd (seq interfere m w)) \<and> world_inv any_table (snd (seq interfere m w)) \<and>
      (\<forall>e. fst (seq interfere m w) \<noteq> Throw e)" by simp
qed

lemma nothrow_update: "nothrow (tables_update ctx i d)"
  using yields_update [OF any_blind any_delta, of ctx i d] unfolding tables_update_def
  by (rule nothrow_step) (auto split: prod.splits)

lemma nothrow_insert: "nothrow (tables_insert ctx t)"
  using yields_insert [OF any_blind, where t = t and ctx = ctx] unfolding tables_insert_def
  by (rule nothrow_step) (auto split: prod.splits)

lemma nothrow_byId: "nothrow (tables_byId ctx i)"
  using yields_byId [OF any_blind, of ctx i] unfolding tables_byId_def read_view_def
  by (rule nothrow_step) auto

lemma nothrow_snapshotAll: "nothrow (tables_snapshotAll ctx)"
  using yields_snapshotAll [OF any_blind, of ctx] unfolding tables_snapshotAll_def read_view_def
proof (rule nothrow_step)
  fix w assume "quiet w" "world_inv any_table w"
  with view_snapshotAll_ok [OF view_of_wf, of any_table w ctx]
  show "quiet (snd (view_snapshotAll (view_of ctx w), w)) \<and>
      (\<forall>e. fst (view_snapshotAll (view_of ctx w), w) \<noteq> Throw e)" by auto
qed

lemma nothrow_erase: "nothrow (tables_erase ctx i)"
  using yields_erase [OF any_blind, of ctx i] unfolding tables_erase_def
proof (rule nothrow_step)
  fix w assume w: "quiet w" "world_inv any_table w"
  obtain b v where "view_erase i (view_of ctx w) = Ok (b, v)"
    using view_erase_keeps [OF any_blind view_keeps_of [OF w(2)]] by blast
  with w show "quiet (snd (case view_erase i (view_of ctx w) of
       Ok (b, v) \<Rightarrow> (Ok b, put_view ctx v w)
     | Throw e \<Rightarrow> (Throw e, w) | Undefined \<Rightarrow> (Undefined, w) | Diverges \<Rightarrow> (Diverges, w))) \<and>
     (\<forall>e. fst (case view_erase i (view_of ctx w) of
       Ok (b, v) \<Rightarrow> (Ok b, put_view ctx v w)
     | Throw e \<Rightarrow> (Throw e, w) | Undefined \<Rightarrow> (Undefined, w) | Diverges \<Rightarrow> (Diverges, w)) \<noteq> Throw e)"
    by simp
qed

lemma nothrow_sweep: "nothrow (sweep_references ctx target)"
  unfolding sweep_references_def
  by (intro nothrow_bind nothrow_snapshotAll nothrow_for_each)
    (auto intro: nothrow_seq nothrow_update nothrow_skip)

lemma aborts_publish: "aborts (seq (tables_update ctx i d) skip)"
  by (intro aborts_nothrow nothrow_seq nothrow_update nothrow_skip)

subsection \<open>The steps before publishing leave the store alone\<close>

lemma keeps_random [keeps_intros]:
  "keeps quiet_same randomColumnType" "keeps quiet_same (randomColumnLength ty)"
  "keeps quiet_same (randomColumn b)" "keeps quiet_same random_bool_draw"
  "keeps quiet_same the_dialect" "keeps quiet_same server_is"
proof -
  show 1: "keeps quiet_same randomColumnType" "keeps quiet_same random_bool_draw" "keeps quiet_same server_is"
    unfolding randomColumnType_def random_bool_draw_def server_is_def by (intro keeps_intros preord_quiet_same)+
  show 2: "keeps quiet_same (randomColumnLength ty)" for ty
    unfolding randomColumnLength_def by (cases ty) (simp_all add: keeps_draw keeps_pure)
  show "keeps quiet_same (randomColumn b)"
    unfolding randomColumn_def by (intro keeps_bind keeps_if keeps_draw keeps_pure preord_quiet_same 1 2)
  show "keeps quiet_same the_dialect"
    unfolding the_dialect_def by (intro keeps_bind 1 keeps_pure preord_quiet_same)
qed

lemma keeps_find_partitioned [keeps_intros]: "keeps quiet_same (find_partitioned n ctx config)"
  by (induction n)
    (auto intro!: keeps_pure keeps_bind keeps_world_reads keeps_if split: option.splits)

lemma keeps_pick_indexable [keeps_intros]: "keeps quiet_same (pick_indexable n k ctx)"
  by (induction n)
    (auto intro!: keeps_pure keeps_bind keeps_world_reads keeps_if split: option.splits)

lemma keeps_try_sql [keeps_intros]: "keeps quiet_same (try_sql n q)"
  by (induction n) (auto intro!: keeps_pure keeps_bind keeps_sql keeps_if)

lemma keeps_add_partitions [keeps_intros]: "keeps quiet_same (add_partitions d t rs)"
  by (induction rs) (auto intro!: keeps_pure keeps_bind keeps_try_sql)

lemma keeps_build_table [keeps_intros]: "keeps quiet_same (build_table config ty ctx d)"
  unfolding build_table_def pick_fk_target_def Let_def
  by (intro keeps_bind keeps_nextId keeps_draw keeps_map_prog keeps_random keeps_if keeps_pure keeps_catch
      keeps_find_random_table preord_quiet_same)

lemma keeps_choose_fields [keeps_intros]: "keeps quiet_same (choose_fields d t n is k flds)"
  by (induction d t n "is" k flds rule: choose_fields.induct)
    (auto intro!: keeps_pure keeps_bind keeps_random simp: Let_def)

lemma keeps_alter_round: "keeps quiet_same (alter_round config d t commands st)"
  unfolding alter_round_def alter_try_drop_def Let_def
  by (auto intro!: keeps_bind keeps_pure keeps_draw keeps_random keeps_if split: alter_subcommand.splits)

lemma until_added_quiet_same:
  "until_added round st w = Some rw \<Longrightarrow> (\<And>st. keeps quiet_same (round st)) \<Longrightarrow> quiet_same w (snd rw)"
proof (induction rule: until_added.raw_induct [rotated 1, consumes 1])
  case (1 loop round st w rw)
  obtain r w1 where r: "round st w = (r, w1)" by fastforce
  from keepsD [OF 1(3) r] have s: "quiet_same w w1" .
  show ?case
  proof (cases r)
    case (Ok x)
    obtain added st1 where x: "x = (added, st1)" by fastforce
    show ?thesis
    proof (cases added)
      case True
      with 1(2) r Ok x s show ?thesis by auto
    next
      case False
      with 1(2) r Ok x have "loop round st1 w1 = Some rw" by simp
      from preord_trans [OF preord_quiet_same s 1(1) [OF this 1(3)]] show ?thesis .
    qed
  qed (use 1(2) r s in auto)
qed

lemma keeps_alter_clauses [keeps_intros]: "keeps quiet_same (alter_clauses n config d t commands st)"
proof (induction n arbitrary: st)
  case 0
  then show ?case by (simp add: keeps_pure)
next
  case (Suc n)
  have "keeps quiet_same (alter_clause config d t commands st)"
  proof (rule keepsI)
    fix w
    show "quiet_same w (snd (alter_clause config d t commands st w))"
      using until_added_quiet_same [OF _ keeps_alter_round, where w = w and st = st]
      by (auto simp: alter_clause_def preord_refl split: option.splits)
  qed
  with Suc show ?case by (auto intro: keeps_bind)
qed

lemma keeps_drop_statement [keeps_intros]: "keeps quiet_same (drop_statement b t)"
  unfolding drop_statement_def
  by (intro keeps_seq keeps_when_do keeps_catch keeps_sql keeps_pure preord_quiet_same)

lemma aborts_drop_index: "aborts (drop_index_tries n info ctx)"
proof (induction n)
  case 0
  then show ?case by (simp add: aborts_skip)
next
  case (Suc n)
  show ?case unfolding drop_index_tries.simps Let_def
    by (intro aborts_bind keeps_world_reads aborts_case_option Suc aborts_if keeps_draw keeps_sql
        aborts_publish aborts_keeps [OF keeps_pure(2)] preord_quiet_same)
qed

lemma aborts_ddl: "aborts (ddl_execute config a ctx)"
proof -
  note early = aborts_bind aborts_seq aborts_if aborts_case_option aborts_skip keeps_random
    keeps_world_reads keeps_draw keeps_sql keeps_pure preord_quiet_same aborts_publish
  show ?thesis
  proof (cases a)
    case (DA_create ty)
    have pub: "aborts (publish_table t None ctx)" for t
      unfolding publish_table_def Let_def
      by (intro aborts_nothrow nothrow_seq nothrow_insert)
        (auto intro!: nothrow_skip nothrow_seq nothrow_update nothrow_bind [OF nothrow_byId] split: option.splits)
    have fin: "aborts (bind (lift_result (createTable d t target)) (\<lambda>q. seq (exec_sql q)
        (bind (case partitioning t of
             Some p \<Rightarrow> if \<not> partitionsInlineInCreate d
                        then bind (add_partitions d t (ranges p)) (\<lambda>failed. ret (remove_failed failed t))
                        else ret t
           | None \<Rightarrow> ret t) (\<lambda>t'. publish_table t' None ctx))))" for d t target
      by (intro early pub)
        (auto intro!: keeps_bind keeps_add_partitions keeps_pure split: option.splits)
    show ?thesis
      unfolding DA_create ddl_execute.simps CreateTable_execute_def
      by (intro early keeps_build_table) (auto intro: fin)
  next
    case DA_drop
    have pub: "aborts (seq (tables_erase ctx i) (sweep_references ctx i))" for i
      by (intro aborts_nothrow nothrow_seq nothrow_erase nothrow_sweep)
    show ?thesis
      unfolding DA_drop ddl_execute.simps DropTable_execute_def
      by (intro aborts_bind aborts_if aborts_case_option aborts_skip keeps_random keeps_world_reads
          aborts_seq [OF keeps_drop_statement pub])
  next
    case (DA_alter fl)
    show ?thesis
      unfolding DA_alter ddl_execute.simps AlterTable_execute_def
      by (intro early keeps_alter_clauses)
  next
    case DA_rename
    show ?thesis unfolding DA_rename ddl_execute.simps RenameTable_execute_def by (intro early)
  next
    case DA_create_index
    show ?thesis
      unfolding DA_create_index ddl_execute.simps CreateIndex_execute_def Let_def
      by (intro early keeps_pick_indexable keeps_in_rng keeps_choose_fields)
  next
    case DA_drop_index
    show ?thesis
      unfolding DA_drop_index ddl_execute.simps DropIndex_execute_def
      by (intro early aborts_drop_index)
  next
    case DA_create_partition
    show ?thesis
      unfolding DA_create_partition ddl_execute.simps CreatePartition_execute_def findPartitionedTable_def
      by (intro early keeps_find_partitioned)
  next
    case DA_drop_partition
    have pub: "aborts (seq (tables_update ctx i d) (sweep_references ctx i))" for i d
      by (intro aborts_nothrow nothrow_seq nothrow_update nothrow_sweep)
    show ?thesis
      unfolding DA_drop_partition ddl_execute.simps DropPartition_execute_def findPartitionedTable_def Let_def
      by (intro aborts_bind aborts_case_option aborts_if keeps_random keeps_find_partitioned aborts_skip
          aborts_seq [OF keeps_sql(2) pub] keeps_draw aborts_keeps [OF keeps_pure(3)] preord_quiet_same)
  qed
qed

text \<open>
  C14: a DDL action that throws has published nothing. For every DDL action, every server and every
  draw: if no other worker acts and the action ends in an exception, the catalog and the
  transaction buffer are exactly what they were before.
\<close>

theorem failed_ddl_publishes_nothing:
  assumes "quiet w" and "world_inv any_table w" and "ddl_execute config a ctx w = (Throw e, w')"
  shows "tables (registry w') = tables (registry w) \<and> buffer w' = buffer w"
  using aborts_ddl [of config a ctx] assms by (auto simp: aborts_def store_of_def)

lemma failed_ddl_publishes_nothing_witness:
  "\<exists>e w'. ddl_execute default_ddl_config DA_rename Direct
      (sample_world fl_mysql refuse_all (\<lambda>n. n) [sample_table 1 ''foo1'']) = (Throw e, w') \<and>
     tables (registry w') =
       tables (registry (sample_world fl_mysql refuse_all (\<lambda>n. n) [sample_table 1 ''foo1'']))"
proof -
  let ?w = "sample_world fl_mysql refuse_all (\<lambda>n. n) [sample_table 1 ''foo1'']"
  have q: "quiet ?w" by (simp add: quiet_def sample_world_def)
  have inv: "world_inv any_table ?w" by (rule sample_world_inv [OF any_blind]) simp
  have "\<exists>e. fst (ddl_execute default_ddl_config DA_rename Direct ?w) = Throw e"
    by (simp add: RenameTable_execute_def tables_randomPick_def bind_def seq_def interfere_def
        sample_world_def view_of_def in_rng_def catalog_randomPick_def catalog_insert_def empty_catalog_def
        random_number_def lift_result_def slots_at_def sample_table_def default_table_def draw_def
        exec_sql_def run_sql_def in_conn_def conn_executeQuery_def sql_send_def refuse_all_def
        qr_success_def maybeThrow_def sample_conn_def Let_def)
  then obtain e w' where e: "ddl_execute default_ddl_config DA_rename Direct ?w = (Throw e, w')"
    by (metis prod.collapse)
  from failed_ddl_publishes_nothing [OF q inv e] e show ?thesis by blast
qed

section \<open>The session setting of DropTable\<close>

lemma conn_local [keeps_intros]:
  "keeps (same_rel conn) (in_rng m)" "keeps (same_rel conn) interfere"
  "keeps (same_rel conn) (tables_randomPick ctx)" "keeps (same_rel conn) (read_view ctx f)"
  "keeps (same_rel conn) (tables_size ctx)" "keeps (same_rel conn) (tables_snapshotAll ctx)"
  "keeps (same_rel conn) (tables_update ctx i d)" "keeps (same_rel conn) (tables_erase ctx i)"
  "keeps (same_rel conn) server_is"
proof -
  show r: "keeps (same_rel conn) (in_rng m)" for m :: "(rng, 'x) prog"
    by (auto simp: keeps_def same_rel_def in_rng_def split: prod.splits)
  show i: "keeps (same_rel conn) interfere"
    by (auto simp: keeps_def same_rel_def interfere_def split: result.splits prod.splits)
  show v: "keeps (same_rel conn) (read_view ctx f)" for f :: "table view \<Rightarrow> 'y result"
    unfolding read_view_def by (intro keeps_seq i preord_same_rel) (simp add: keeps_def same_rel_def)
  show "keeps (same_rel conn) (tables_randomPick ctx)"
    unfolding tables_randomPick_def
    by (intro keeps_seq i preord_same_rel) (auto simp: keeps_def same_rel_def in_rng_def split: prod.splits)
  show "keeps (same_rel conn) (tables_size ctx)"
    unfolding tables_size_def read_view_def
    by (intro keeps_seq i preord_same_rel) (simp add: keeps_def same_rel_def)
  show "keeps (same_rel conn) (tables_snapshotAll ctx)"
    unfolding tables_snapshotAll_def read_view_def
    by (intro keeps_seq i preord_same_rel) (simp add: keeps_def same_rel_def)
  have put: "conn (put_view ctx x w) = conn w" for x w
    by (cases ctx) (simp_all add: put_view_def Let_def)
  show "keeps (same_rel conn) (tables_update ctx i d)"
    unfolding tables_update_def
    by (intro keeps_seq i preord_same_rel) (auto simp: keeps_def same_rel_def put split: prod.splits)
  show "keeps (same_rel conn) (tables_erase ctx i)"
    unfolding tables_erase_def
    by (intro keeps_seq i preord_same_rel) (auto simp: keeps_def same_rel_def put split: prod.splits result.splits)
  show "keeps (same_rel conn) server_is"
    unfolding server_is_def by (intro keeps_pure preord_same_rel)
qed

lemma conn_sweep: "keeps (same_rel conn) (sweep_references ctx target)"
  unfolding sweep_references_def
  by (intro keeps_bind keeps_for_each keeps_if keeps_seq conn_local keeps_pure preord_same_rel)

text \<open>A relation of connections holds when it holds of the rest, after a step that leaves the connection alone.\<close>

definition conn_rel :: "(logged_sql \<Rightarrow> logged_sql \<Rightarrow> bool) \<Rightarrow> world \<Rightarrow> world \<Rightarrow> bool" where
  "conn_rel R w w' \<longleftrightarrow> R (conn w) (conn w')"

lemma conn_rel_bind:
  assumes refl: "\<And>c. R c c" and m: "keeps (same_rel conn) m" and f: "\<And>x. keeps (conn_rel R) (f x)"
  shows "keeps (conn_rel R) (bind m f)"
  unfolding keeps_def
proof (intro allI impI)
  fix w
  obtain r1 w1 where m1: "m w = (r1, w1)" by fastforce
  with keepsD [OF m m1] keepsD [OF f, of _ w1] show "conn_rel R w (snd (bind m f w))"
    by (cases r1) (auto simp: bind_def same_rel_def conn_rel_def refl split: prod.splits, metis snd_conv prod.collapse)
qed

lemma conn_rel_skip: "(\<And>c. R c c) \<Longrightarrow> keeps (conn_rel R) skip"
  by (simp add: keeps_def conn_rel_def skip_def ret_def)

text \<open>The statements \<open>drop_statement\<close> sends on a MySQL connection, and when.\<close>

definition drop_sql :: "table \<Rightarrow> string" where
  "drop_sql t = ''DROP TABLE '' @ obj_name t @ '' CASCADE;''"

lemma drop_statement_sent:
  assumes "drop_statement True t w = (r, w')"
  shows "if qr_success (server (conn w) (sent (conn w)) (Sql_query fk_checks_off))
    then sent (conn w') = sent (conn w) @ map Sql_query [fk_checks_off, drop_sql t, fk_checks_on]
    else sent (conn w') = sent (conn w) @ [Sql_query fk_checks_off] \<and> (\<exists>e. r = Throw e)"
  using assms
  by (auto simp: drop_statement_def when_do_def seq_def bind_def exec_sql_eq Let_def catch_def skip_def
      ret_def throw_def run_sql_def in_conn_def conn_executeQuery_def sql_send_def observeResult_def
      drop_sql_def split: if_splits)

definition drop_sends :: "logged_sql \<Rightarrow> logged_sql \<Rightarrow> bool" where
  "drop_sends c c' \<longleftrightarrow> (is_mysql_like (conn_info c) \<longrightarrow> (\<exists>t qs. sent c' = sent c @ map Sql_query qs \<and>
    (qs = [] \<or> qs = [fk_checks_off, drop_sql t, fk_checks_on] \<or>
     (qs = [fk_checks_off] \<and> \<not> qr_success (server c (sent c) (Sql_query fk_checks_off))))))"

lemma drop_sends_refl: "drop_sends c c"
  by (auto simp: drop_sends_def)

lemma drop_sends_drop:
  assumes "drop_statement True t w = (r, w')"
  shows "drop_sends (conn w) (conn w')"
proof (cases "qr_success (server (conn w) (sent (conn w)) (Sql_query fk_checks_off))")
  case True
  with drop_statement_sent [OF assms] show ?thesis
    unfolding drop_sends_def by (intro impI exI [of _ t] exI [of _ "[fk_checks_off, drop_sql t, fk_checks_on]"]) simp
next
  case False
  with drop_statement_sent [OF assms] show ?thesis
    unfolding drop_sends_def by (intro impI exI [of _ t] exI [of _ "[fk_checks_off]"]) simp
qed

lemma conn_rel_drop_tail:
  assumes n: "keeps (same_rel conn) n"
  shows "keeps (conn_rel drop_sends) (bind server_is (\<lambda>info. seq (drop_statement (is_mysql_like info) t) n))"
  unfolding keeps_def
proof (intro allI impI)
  fix w
  show "conn_rel drop_sends w (snd (bind server_is (\<lambda>info. seq (drop_statement (is_mysql_like info) t) n) w))"
  proof (cases "is_mysql_like (conn_info (conn w))")
    case True
    obtain r1 w1 where d: "drop_statement True t w = (r1, w1)" by fastforce
    have "conn (snd (seq (drop_statement True t) n w)) = conn w1"
      using keepsD [OF n, of w1] d
      by (cases r1) (auto simp: seq_def bind_def same_rel_def split: prod.splits, metis prod.collapse)
    with drop_sends_drop [OF d] True show ?thesis
      by (simp add: server_is_def bind_def gets_def conn_rel_def)
  qed (simp add: conn_rel_def drop_sends_def)
qed

lemma conn_rel_DropTable: "keeps (conn_rel drop_sends) (DropTable_execute config ctx)"
  unfolding DropTable_execute_def
  by (intro conn_rel_bind [OF drop_sends_refl] keeps_if conn_local conn_rel_skip [OF drop_sends_refl])
    (auto intro!: conn_rel_skip [OF drop_sends_refl] conn_rel_drop_tail keeps_seq conn_local conn_sweep
      preord_same_rel split: option.splits)

text \<open>
  C15: the session's foreign-key checks do not stay off. On a MySQL connection \<open>DropTable\<close> sends
  nothing, or the three statements that switch the checks off, drop the table and switch them on
  again, in this order and whether the DROP succeeds or not, or only the first one, when the server
  refused it.
\<close>

theorem drop_table_restores_fk_checks:
  assumes my: "is_mysql_like (conn_info (conn w))" and run: "DropTable_execute config ctx w = (r, w')"
  shows "\<exists>t qs. sent (conn w') = sent (conn w) @ map Sql_query qs \<and>
    (qs = [] \<or> qs = [fk_checks_off, drop_sql t, fk_checks_on] \<or>
     (qs = [fk_checks_off] \<and>
      \<not> qr_success (server (conn w) (sent (conn w)) (Sql_query fk_checks_off))))"
  using keepsD [OF conn_rel_DropTable run] my by (simp add: conn_rel_def drop_sends_def)

lemma drop_table_restores_fk_checks_witness:
  "\<exists>r w' t qs. DropTable_execute (default_ddl_config\<lparr>min_table_count := 0\<rparr>) Direct
      (sample_world fl_mysql accept_all (\<lambda>n. n) [sample_table 1 ''foo1'']) = (r, w') \<and>
     sent (conn w') = map Sql_query qs \<and> (qs = [] \<or> qs = [fk_checks_off, drop_sql t, fk_checks_on])"
proof -
  let ?c = "default_ddl_config\<lparr>min_table_count := 0\<rparr>"
  let ?w = "sample_world fl_mysql accept_all (\<lambda>n. n) [sample_table 1 ''foo1'']"
  obtain r w' where e: "DropTable_execute ?c Direct ?w = (r, w')" by fastforce
  have "is_mysql_like (conn_info (conn ?w))"
    by (simp add: sample_world_def is_mysql_like_def)
  from drop_table_restores_fk_checks [OF this e] e show ?thesis
    by (auto simp: sample_world_def sample_conn_def accept_all_def qr_success_def)
qed

section \<open>A dropped table is gone\<close>

text \<open>The catalog steps of a worker alone, as operations of its view.\<close>

lemma view_of_clock [simp]: "view_of ctx (w\<lparr>clock := n\<rparr>) = view_of ctx w"
  by (cases ctx) (simp_all add: view_of_def)

lemma view_of_put: "ctx = Buffered \<or> snd v = None \<Longrightarrow> view_of ctx (put_view ctx v w) = v"
  by (cases ctx) (auto simp: view_of_def put_view_def Let_def prod_eq_iff)

lemma view_direct: "ctx = Buffered \<or> snd (view_of ctx w) = None"
  by (cases ctx) (simp_all add: view_of_def)

lemma view_update_kind: "snd v = None \<Longrightarrow> snd (snd (view_update i d v)) = None"
  by (cases v) (auto split: prod.splits)

lemma view_erase_kind: "view_erase i v = Ok (b, v') \<Longrightarrow> snd v = None \<Longrightarrow> snd v' = None"
  by (cases v; cases "catalog_erase i (fst v)") auto

lemma update_quiet:
  assumes "quiet w" and "tables_update ctx i d w = (r, w')"
  shows "\<exists>b. r = Ok b \<and> quiet w' \<and> conn w' = conn w \<and>
    view_of ctx w' = snd (view_update i d (view_of ctx w))"
proof -
  obtain b v where v: "view_update i d (view_of ctx w) = (b, v)" by (rule prod.exhaust)
  have "ctx = Buffered \<or> snd v = None"
    using view_direct [of ctx w] view_update_kind [of "view_of ctx w" i d] v by auto
  note put = view_of_put [OF this]
  have "conn (put_view ctx v w0) = conn w0" for w0
    by (cases ctx) (simp_all add: put_view_def Let_def)
  moreover from assms v have "r = Ok b" "w' = put_view ctx v (w\<lparr>clock := Suc (clock w)\<rparr>)"
    by (auto simp: tables_update_def seq_def bind_def interfere_quiet)
  ultimately show ?thesis using assms(1) v put by simp
qed

lemma erase_quiet:
  assumes "quiet w" and "tables_erase ctx i w = (Ok b, w')"
  shows "quiet w' \<and> view_erase i (view_of ctx w) = Ok (b, view_of ctx w')"
proof -
  from assms obtain v where v: "view_erase i (view_of ctx w) = Ok (b, v)"
    and w': "w' = put_view ctx v (w\<lparr>clock := Suc (clock w)\<rparr>)"
    by (auto simp: tables_erase_def seq_def bind_def interfere_quiet split: result.splits prod.splits)
  have "ctx = Buffered \<or> snd v = None"
    using view_direct [of ctx w] view_erase_kind [OF v] by auto
  from view_of_put [OF this] v w' assms(1) show ?thesis by simp
qed

lemma sweep_loop_quiet:
  "quiet w \<Longrightarrow>
   for_each ts (\<lambda>other. if hasReferenceTo other target
       then seq (tables_update ctx (obj_id other) (removeReferences_delta target)) skip else skip) w
     = (r, w') \<Longrightarrow>
   quiet w' \<and> view_of ctx w' = foldl (\<lambda>v i. snd (view_update i (removeReferences_delta target) v))
     (view_of ctx w) (map obj_id (filter (\<lambda>t. hasReferenceTo t target) ts))"
proof (induction ts arbitrary: w)
  case Nil
  then show ?case by (simp add: skip_def ret_def)
next
  case (Cons t ts)
  show ?case
  proof (cases "hasReferenceTo t target")
    case True
    obtain r1 w1 where u: "tables_update ctx (obj_id t) (removeReferences_delta target) w = (r1, w1)"
      by fastforce
    from update_quiet [OF Cons.prems(1) u] Cons.IH [of w1] Cons.prems(2) True u show ?thesis
      by (auto simp: seq_def bind_def skip_def ret_def)
  next
    case False
    with Cons show ?thesis by (simp add: seq_def bind_def skip_def ret_def)
  qed
qed

lemma sweep_quiet:
  assumes "quiet w" and "world_inv P w" and "sweep_references ctx target w = (r, w')"
  shows "\<exists>ts. view_snapshotAll (view_of ctx w) = Ok ts \<and>
    view_of ctx w' = foldl (\<lambda>v i. snd (view_update i (removeReferences_delta target) v))
     (view_of ctx w) (map obj_id (filter (\<lambda>t. hasReferenceTo t target) ts))"
proof -
  from view.snap_ok [OF view_of_wf [OF assms(2), of ctx]] obtain ts where
    ts: "view_snapshotAll (view_of ctx w) = Ok ts" by blast
  with assms(1,3) sweep_loop_quiet [of "w\<lparr>clock := Suc (clock w)\<rparr>" ts target ctx r w'] show ?thesis
    by (simp add: sweep_references_def tables_snapshotAll_def read_view_def seq_def bind_def interfere_quiet)
qed

lemma quiet_same_view: "quiet_same w w' \<Longrightarrow> quiet w \<Longrightarrow> quiet w' \<and> view_of ctx w' = view_of ctx w"
  by (cases ctx) (auto simp: quiet_same_def store_of_def view_of_def)

lemma erase_then_sweep:
  assumes w: "quiet w" "world_inv any_table w" and "target \<noteq> 0"
    and run: "seq (tables_erase ctx target) (sweep_references ctx target) w = (Ok (), w')"
  shows "dom (view_byId (view_of ctx w')) = dom (view_byId (view_of ctx w)) - {target} \<and>
    (\<forall>j t'. view_byId (view_of ctx w') j = Some t' \<longrightarrow> \<not> hasReferenceTo t' target)"
proof -
  from run obtain b w1 where e: "tables_erase ctx target w = (Ok b, w1)"
    and s: "sweep_references ctx target w1 = (Ok (), w')"
    by (auto simp: seq_def bind_def split: prod.splits result.splits)
  from erase_quiet [OF w(1) e] have q: "quiet w1"
    and v1: "view_erase target (view_of ctx w) = Ok (b, view_of ctx w1)" by simp_all
  from view.del_ok [OF view_of_wf [OF w(2)], of target ctx] v1
  have g1: "view_byId (view_of ctx w1) = (view_byId (view_of ctx w))(target := None)" by simp
  have inv: "world_inv any_table w1"
    using yieldsD [OF yields_erase [OF any_blind] w(2) e] by simp
  from sweep_quiet [OF q inv s] obtain ts where snap: "view_snapshotAll (view_of ctx w1) = Ok ts"
    and v: "view_of ctx w' = foldl (\<lambda>v i. snd (view_update i (removeReferences_delta target) v))
       (view_of ctx w1) (map obj_id (filter (\<lambda>t. hasReferenceTo t target) ts))" by blast
  note wf = view_of_wf [OF inv, of ctx]
  have "\<not> hasReferenceTo t' target" if "view_byId (view_of ctx w') j = Some t'" for j t'
  proof (rule view.sweep_filtered [OF wf snap _ _ that [unfolded v]])
    show "\<not> hasReferenceTo (x\<lparr>obj_id := obj_id y, obj_version := vv\<rparr>) target"
      if "removeReferences_delta target y = Some x" for y x vv
      using hasReferenceTo_removed [OF assms(3) that] by simp
    show "\<not> hasReferenceTo y target"
      if "removeReferences_delta target y = None \<or> \<not> hasReferenceTo y target" for y
      using that by (auto simp: removeReferences_delta_simps split: if_splits)
  qed
  moreover have "dom (view_byId (view_of ctx w')) = dom (view_byId (view_of ctx w)) - {target}"
    unfolding v view.sweep_dom [OF wf] g1 by auto
  ultimately show ?thesis by blast
qed

text \<open>
  C16: what a successful \<open>DropTable\<close> of a worker alone leaves in its view, transaction open or not.
  With \<open>min_table_count\<close> tables or fewer (or none) nothing changes. Otherwise exactly one table is
  gone, and no table refers to it any more.
\<close>

theorem drop_table_effect:
  assumes w: "quiet w" "world_inv any_table w" and run: "DropTable_execute config ctx w = (Ok (), w')"
    and size: "view_size (view_of ctx w) = Ok n"
  shows "if n \<le> min_table_count config \<or> view_byId (view_of ctx w) = Map.empty
    then view_of ctx w' = view_of ctx w
    else \<exists>t. view_byId (view_of ctx w) (obj_id t) = Some t \<and>
      dom (view_byId (view_of ctx w')) = dom (view_byId (view_of ctx w)) - {obj_id t} \<and>
      (\<forall>j t'. view_byId (view_of ctx w') j = Some t' \<longrightarrow> \<not> hasReferenceTo t' (obj_id t))"
proof -
  let ?w1 = "w\<lparr>clock := Suc (clock w)\<rparr>"
  from run size w(1) have rest: "(if n \<le> min_table_count config then skip
     else bind (tables_randomPick ctx) (\<lambda>snap. case snap of None \<Rightarrow> skip
       | Some t \<Rightarrow> bind server_is (\<lambda>info. seq (drop_statement (is_mysql_like info) t) (
           seq (tables_erase ctx (obj_id t)) (sweep_references ctx (obj_id t)))))) ?w1 = (Ok (), w')"
    by (simp add: DropTable_execute_def tables_size_def read_view_def seq_def bind_def interfere_quiet)
  show ?thesis
  proof (cases "n \<le> min_table_count config")
    case True
    with rest show ?thesis by (auto simp: skip_def ret_def)
  next
    case False
    obtain x w2 where p: "tables_randomPick ctx ?w1 = (Ok x, w2)" and none: "x = None \<longleftrightarrow> view_byId (view_of ctx w) = Map.empty"
      and some: "\<forall>t. x = Some t \<longrightarrow> view_byId (view_of ctx w) (obj_id t) = Some t"
    proof -
      obtain x g where "view_randomPick (view_of ctx w) (w_rng w) = (Ok x, g)"
        "x = None \<longleftrightarrow> view_byId (view_of ctx w) = Map.empty"
        "\<forall>t. x = Some t \<longrightarrow> view_byId (view_of ctx w) (obj_id t) = Some t"
        using view_randomPick_live [OF view_of_wf [OF w(2)], of ctx "w_rng w"] by blast
      with w(1) show ?thesis
        by (intro that) (auto simp: tables_randomPick_def seq_def bind_def interfere_quiet in_rng_def)
    qed
    have s2: "quiet_same ?w1 w2" using keepsD [OF keeps_world_reads(1) p] .
    have q2: "quiet w2" "view_of ctx w2 = view_of ctx w"
      using quiet_same_view [OF s2, of ctx] w(1) by simp_all
    show ?thesis
    proof (cases x)
      case None
      with rest False p none q2 show ?thesis by (auto simp: bind_def skip_def ret_def)
    next
      case (Some t)
      from some Some have t: "view_byId (view_of ctx w) (obj_id t) = Some t" by simp
      from rest False p Some obtain w3 where d: "drop_statement (is_mysql_like (conn_info (conn w2))) t w2 = (Ok (), w3)"
        and r: "seq (tables_erase ctx (obj_id t)) (sweep_references ctx (obj_id t)) w3 = (Ok (), w')"
        by (auto simp: bind_def server_is_def gets_def seq_def [of "drop_statement _ _"] split: prod.splits result.splits)
      have s3: "quiet_same w2 w3" using keepsD [OF keeps_drop_statement d] .
      have inv1: "world_inv any_table ?w1" using w(2) by (simp add: world_inv_def)
      from quiet_same_inv [OF s2 _ inv1] w(1) have "world_inv any_table w2" by simp
      from quiet_same_inv [OF s3 q2(1) this] have w3: "quiet w3" "world_inv any_table w3" by simp_all
      have v3: "view_of ctx w3 = view_of ctx w" using quiet_same_view [OF s3 q2(1), of ctx] q2(2) by simp
      have "obj_id t \<noteq> 0" using view.get_id [OF view_of_wf [OF w(2)] t] by simp
      from erase_then_sweep [OF w3 this r] t Some False none show ?thesis unfolding v3 by auto
    qed
  qed
qed

lemma drop_table_effect_witness:
  "\<exists>w' (t::table). DropTable_execute (default_ddl_config\<lparr>min_table_count := 0\<rparr>) Direct
      (sample_world fl_mysql accept_all (\<lambda>n. n) [sample_table 1 ''foo1'']) = (Ok (), w') \<and>
     dom (view_byId (view_of Direct w')) = {1} - {obj_id t}"
proof -
  let ?c = "default_ddl_config\<lparr>min_table_count := 0\<rparr>"
  let ?w = "sample_world fl_mysql accept_all (\<lambda>n. n) [sample_table 1 ''foo1'']"
  have ok: "fst (DropTable_execute ?c Direct ?w) = Ok ()" by code_simp
  then obtain w' where e: "DropTable_execute ?c Direct ?w = (Ok (), w')" by (metis prod.collapse)
  have sz: "view_size (view_of Direct ?w) = Ok 1" by code_simp
  have d: "dom (view_byId (view_of Direct ?w)) = {1}"
    by (auto simp: sample_world_def view_of_def sample_table_def catalog_insert_def empty_catalog_def
        catalog_byId_def default_table_def split: if_splits)
  then have ne: "view_byId (view_of Direct ?w) \<noteq> Map.empty" by (metis dom_empty insert_not_empty)
  have q: "quiet ?w" by (simp add: quiet_def sample_world_def)
  have inv: "world_inv any_table ?w" by (rule sample_world_inv [OF any_blind]) simp
  have "\<not> (1 \<le> min_table_count ?c \<or> view_byId (view_of Direct ?w) = Map.empty)"
    using ne by (simp add: default_ddl_config_def)
  from drop_table_effect [OF q inv e sz, unfolded if_not_P [OF this] d]
  obtain t :: table where "dom (view_byId (view_of Direct w')) = {1} - {obj_id t}" by blast
  with e show ?thesis by blast
qed

end
