(* ===== verification/Transaction_Session.thy ===== *)
theory Transaction_Session
  imports Transaction_Safety Ddl_Effects
begin

text \<open>
  The server's side of a transaction: a session that reads the statements the connection sends and
  is idle, inside a transaction with its open savepoints, or broken, when it was asked for something
  that does not exist (a second BEGIN, a savepoint outside a transaction, a rollback to a savepoint
  that is gone). The theorem: \<open>TransactionAction\<close> drives every session correctly and leaves it idle.
\<close>

section \<open>The session\<close>

datatype session = Idle | Open "nat list" | Broken

definition numbered :: "string \<Rightarrow> string \<Rightarrow> nat option" where
  "numbered prefix q = (let ds = takeWhile is_digit (drop (length prefix) q) in
     if ds \<noteq> [] \<and> q = prefix @ ds @ '';'' then Some (digits_value ds) else None)"

definition opens :: "string \<Rightarrow> bool" where
  "opens q \<longleftrightarrow> q \<in> set [''BEGIN;'', ''BEGIN ISOLATION LEVEL READ COMMITTED;'',
     ''BEGIN ISOLATION LEVEL REPEATABLE READ;'', ''BEGIN ISOLATION LEVEL SERIALIZABLE;'',
     ''START TRANSACTION;'']"

definition closes :: "string \<Rightarrow> bool" where
  "closes q \<longleftrightarrow> q = ''COMMIT;'' \<or> q = ''ROLLBACK;''"

definition open_savepoint :: "bool \<Rightarrow> nat \<Rightarrow> session \<Rightarrow> session" where
  "open_savepoint ok n s = (case s of Open sps \<Rightarrow> if ok then Open (sps @ [n]) else s | _ \<Rightarrow> Broken)"

definition back_to_savepoint :: "bool \<Rightarrow> nat \<Rightarrow> session \<Rightarrow> session" where
  "back_to_savepoint ok n s = (case s of
       Open sps \<Rightarrow> if n \<notin> set sps then Broken
         else if ok then Open (takeWhile (\<lambda>m. m \<noteq> n) sps @ [n]) else s
     | _ \<Rightarrow> Broken)"

text \<open>\<open>session_step ok q s\<close>: the session after statement \<open>q\<close>, which succeeded or not.\<close>

definition session_step :: "bool \<Rightarrow> string \<Rightarrow> session \<Rightarrow> session" where
  "session_step ok q s =
     (if s = Broken then Broken
      else if closes q then Idle
      else if opens q then (case s of Idle \<Rightarrow> if ok then Open [] else Idle | _ \<Rightarrow> Broken)
      else case numbered ''SAVEPOINT sp'' q of
          Some n \<Rightarrow> open_savepoint ok n s
        | None \<Rightarrow> (case numbered ''ROLLBACK TO SAVEPOINT sp'' q of
            Some n \<Rightarrow> back_to_savepoint ok n s
          | None \<Rightarrow> s))"

fun session_run ::
  "(sql_call list \<Rightarrow> sql_call \<Rightarrow> query_result) \<Rightarrow> sql_call list \<Rightarrow> session \<Rightarrow> sql_call list \<Rightarrow> session" where
  "session_run srv h s [] = s"
| "session_run srv h s (Sql_query q # cs) =
     session_run srv (h @ [Sql_query q]) (session_step (qr_success (srv h (Sql_query q))) q s) cs"
| "session_run srv h s (Sql_params q ps # cs) = session_run srv (h @ [Sql_params q ps]) s cs"

definition session_of :: "world \<Rightarrow> session" where
  "session_of w = session_run (server (conn w)) [] Idle (sent (conn w))"

definition plain :: "string \<Rightarrow> bool" where
  "plain q \<longleftrightarrow> \<not> closes q \<and> \<not> opens q \<and> numbered ''SAVEPOINT sp'' q = None \<and>
     numbered ''ROLLBACK TO SAVEPOINT sp'' q = None"

section \<open>One statement\<close>

lemma numbered_fmt: "numbered p (p @ fmt_nat n @ '';'') = Some n"
  using takeWhile_digits_fmt [of "'';''" n] by (simp add: numbered_def is_digit_def fmt_nat_nonempty)

lemma savepoint_sql_kinds:
  "\<not> closes (savepoint_sql n)" "\<not> opens (savepoint_sql n)"
  "numbered ''SAVEPOINT sp'' (savepoint_sql n) = Some n"
  using numbered_fmt [of "''SAVEPOINT sp''" n]
  by (simp_all add: savepoint_sql_def closes_def opens_def)

lemma rollback_to_sql_kinds:
  "\<not> closes (rollback_to_sql n)" "\<not> opens (rollback_to_sql n)"
  "numbered ''SAVEPOINT sp'' (rollback_to_sql n) = None"
  "numbered ''ROLLBACK TO SAVEPOINT sp'' (rollback_to_sql n) = Some n"
  using numbered_fmt [of "''ROLLBACK TO SAVEPOINT sp''" n]
  by (simp_all add: rollback_to_sql_def closes_def opens_def numbered_def Let_def)

lemma session_step_simps [simp]:
  "session_step ok ''COMMIT;'' s = (if s = Broken then Broken else Idle)"
  "session_step ok ''ROLLBACK;'' s = (if s = Broken then Broken else Idle)"
  by (simp_all add: session_step_def closes_def)

lemma session_step_savepoints [simp]:
  "session_step ok (savepoint_sql n) s = (if s = Broken then Broken else open_savepoint ok n s)"
  "session_step ok (rollback_to_sql n) s = (if s = Broken then Broken else back_to_savepoint ok n s)"
  by (simp_all add: session_step_def savepoint_sql_kinds rollback_to_sql_kinds)

lemma session_step_plain: "plain q \<Longrightarrow> session_step ok q s = s"
  by (simp add: session_step_def plain_def)

lemma session_run_append:
  "session_run srv h s (cs @ ds) = session_run srv (h @ cs) (session_run srv h s cs) ds"
  by (induction srv h s cs rule: session_run.induct) simp_all

lemma session_of_sent:
  "server (conn w') = server (conn w) \<Longrightarrow> sent (conn w') = sent (conn w) @ [Sql_query q] \<Longrightarrow>
   session_of w' = session_step (qr_success (server (conn w) (sent (conn w)) (Sql_query q))) q (session_of w)"
  by (simp add: session_of_def session_run_append)

lemma run_sql_session:
  "session_of (snd (run_sql q w)) =
     session_step (qr_success (server (conn w) (sent (conn w)) (Sql_query q))) q (session_of w)"
  by (rule session_of_sent) (simp_all only: run_sql_sent)

text \<open>A sub-action made of plain statements leaves the session alone.\<close>

lemma plain_session: "plain q \<Longrightarrow> keeps (same_rel session_of) (exec_sql q)"
  by (simp add: keeps_def same_rel_def exec_sql_eq Let_def run_sql_session session_step_plain)

section \<open>Reasoning about the session and the locals\<close>

definition sees :: "(session \<Rightarrow> txn_locals \<Rightarrow> bool) \<Rightarrow> txn_state \<Rightarrow> bool" where
  "sees Q = (\<lambda>(w, l). Q (session_of w) l)"

lemma sees_pair [simp]: "sees Q (w, l) = Q (session_of w) l"
  by (simp add: sees_def)

lemma exec_sql_session:
  assumes "exec_sql q w = (r, w')"
  shows "r = Ok () \<and> session_of w' = session_step True q (session_of w) \<or>
    (\<exists>e. r = Throw e) \<and> session_of w' = session_step False q (session_of w)"
  using assms run_sql_session [of q w] by (auto simp: exec_sql_eq Let_def split: if_splits)

lemma sees_exec:
  assumes "\<And>s l. Q s l \<Longrightarrow> N (session_step True q s) l"
    and "\<And>s l e. Q s l \<Longrightarrow> E e (session_step False q s) l"
  shows "triple (sees Q) (on_world (exec_sql q)) (\<lambda>_. sees N) (\<lambda>e. sees (E e))"
proof (rule triple_on_world, rule tripleI)
  fix l w r w' assume "sees Q (w, l)" and run: "exec_sql q w = (r, w')"
  with assms exec_sql_session [OF run]
  show "(\<forall>x. r = Ok x \<longrightarrow> sees N (w', l)) \<and> (\<forall>e. r = Throw e \<longrightarrow> sees (E e) (w', l))" by fastforce
qed

lemma sees_keeps:
  assumes "keeps (same_rel session_of) m"
  shows "triple (sees Q) (on_world m) (\<lambda>_. sees Q) (\<lambda>_. sees Q)"
proof (rule triple_on_world, rule tripleI)
  fix l w r w' assume "sees Q (w, l)" and "m w = (r, w')"
  with keepsD [OF assms] show "(\<forall>x. r = Ok x \<longrightarrow> sees Q (w', l)) \<and> (\<forall>e. r = Throw e \<longrightarrow> sees Q (w', l))"
    by (simp add: same_rel_def)
qed

text \<open>Programs that end normally whenever they end.\<close>

lemma sees_keeps_nothrow:
  assumes "keeps (same_rel session_of) m" and "\<And>w e. fst (m w) \<noteq> Throw e"
  shows "triple (sees Q) (on_world m) (\<lambda>_. sees Q) E"
proof (rule triple_on_world, rule tripleI)
  fix l w r w' assume "sees Q (w, l)" and "m w = (r, w')"
  with assms keepsD [OF assms(1)] show
    "(\<forall>x. r = Ok x \<longrightarrow> sees Q (w', l)) \<and> (\<forall>e. r = Throw e \<longrightarrow> E e (w', l))"
    by (metis fst_conv same_rel_def sees_pair)
qed

lemma sees_locals:
  "(\<And>s l. Q s l \<Longrightarrow> N s (f l)) \<Longrightarrow> triple (sees Q) (on_locals f) (\<lambda>_. sees N) E"
  by (rule triple_on_locals) simp

lemma sees_bind_locals:
  assumes "\<And>l0. triple (sees (\<lambda>s l. Q s l \<and> l = l0)) (f l0) N E"
  shows "triple (sees Q) (bind locals f) N E"
  using assms by (fastforce simp: triple_def bind_def locals_def gets_def sees_def split: prod.splits result.splits)

lemma conn_only_session:
  "session_of (w\<lparr>buffer := b\<rparr>) = session_of w" "session_of (w\<lparr>clock := k\<rparr>) = session_of w"
  "session_of (w\<lparr>registry := g\<rparr>) = session_of w" "session_of (w\<lparr>w_rng := x\<rparr>) = session_of w"
  "session_of (put_view ctx v w) = session_of w"
  "session_of (w\<lparr>conn := conn_setCurrentAction n (conn w)\<rparr>) = session_of w"
  "session_of (w\<lparr>conn := conn_recordTransactionOutcome o' (conn w)\<rparr>) = session_of w"
  by (simp_all add: session_of_def put_view_def conn_setCurrentAction_def conn_recordTransactionOutcome_def
      Let_def split: ctx_kind.splits)

lemma interfere_session: "keeps (same_rel session_of) interfere" "fst (interfere w) \<noteq> Throw e"
  by (auto simp: keeps_def same_rel_def interfere_def conn_only_session split: result.splits)

lemma draw_session: "keeps (same_rel session_of) (draw lo hi)" "fst (draw lo hi w) \<noteq> Throw e"
  by (auto simp: keeps_def same_rel_def draw_def in_rng_def random_number_def conn_only_session
      split: prod.splits)

lemma replay_session: "keeps (same_rel session_of) (replay_step op)" "fst (replay_step op w) \<noteq> Throw e"
  using interfere_session(2) [of w e]
  by (auto simp: replay_step_def seq_def keeps_def same_rel_def interfere_def bind_def modify_def
      conn_only_session split: result.splits)

lemma rollbackTo_session: "keeps (same_rel session_of) (rollbackTo m)" "fst (rollbackTo m w) \<noteq> Throw e"
proof -
  show "keeps (same_rel session_of) (rollbackTo m)"
    unfolding rollbackTo_def
    by (intro keeps_bind keeps_seq keeps_for_each keeps_pure keeps_modify preord_same_rel replay_session)
      (simp add: same_rel_def conn_only_session)
  have "fst (for_each ops replay_step w) \<noteq> Throw e" for ops w
  proof (induction ops arbitrary: w)
    case (Cons op ops)
    obtain r w1 where "replay_step op w = (r, w1)" by fastforce
    with Cons replay_session(2) [of op w e] show ?case by (cases r) (auto simp: seq_def bind_def)
  qed (simp add: ret_def skip_def)
  then show "fst (rollbackTo m w) \<noteq> Throw e"
    by (simp add: rollbackTo_def bind_def seq_def gets_def modify_def)
qed

lemma publishAll_session: "keeps (same_rel session_of) publishAll"
proof -
  have op: "keeps (same_rel session_of) (publish_op op)" for op
    unfolding publish_op_def
    by (intro keeps_seq preord_same_rel interfere_session)
      (auto simp: keeps_def same_rel_def conn_only_session split: result.splits)
  show ?thesis
    unfolding publishAll_def
    by (intro keeps_bind keeps_seq keeps_for_each keeps_pure keeps_modify preord_same_rel op)
      (simp add: same_rel_def conn_only_session)
qed

lemma named_scope_session:
  assumes "keeps (same_rel session_of) m"
  shows "keeps (same_rel session_of) (named_scope n m)"
proof (rule keepsI)
  fix w :: world
  let ?w = "w\<lparr>conn := conn_setCurrentAction n (conn w)\<rparr>"
  obtain r w1 where m: "m ?w = (r, w1)" by fastforce
  from keepsD [OF assms m] have "session_of w1 = session_of w" by (simp add: same_rel_def conn_only_session)
  with m show "same_rel session_of w (snd (named_scope n m w))"
    by (cases r) (auto simp: named_scope_def destructor_def seq_def bind_def modify_def same_rel_def
        conn_only_session)
qed

section \<open>The invariant of the loop\<close>

definition sp_names :: "txn_locals \<Rightarrow> nat list" where
  "sp_names l = map sp_name (savepoints l)"

definition names_ok :: "txn_locals \<Rightarrow> bool" where
  "names_ok l \<longleftrightarrow> distinct (sp_names l) \<and> (\<forall>n \<in> set (sp_names l). n \<le> spCounter l)"

definition in_step :: "session \<Rightarrow> txn_locals \<Rightarrow> bool" where
  "in_step s l \<longleftrightarrow> inTrx l \<and> armed l \<and> s = Open (sp_names l) \<and> names_ok l"

definition failed_with :: "exn \<Rightarrow> session \<Rightarrow> txn_locals \<Rightarrow> bool" where
  "failed_with e s l \<longleftrightarrow> s \<noteq> Broken \<and> (armed l \<or> s = Idle \<or> serverGone e)"

abbreviation in_savepoint :: "session \<Rightarrow> txn_locals \<Rightarrow> bool" where
  "in_savepoint s l \<equiv> in_step s l \<and> savepoints l \<noteq> []"

lemma in_step_simps [simp]:
  "in_step s (count_ok l) = in_step s l" "in_step s (count_fail l) = in_step s l"
  "in_step s (count_rewind l) = in_step s l" "savepoints (count_ok l) = savepoints l"
  "in_step s (count_rewind l\<lparr>savepoints := x\<rparr>) = in_step s (l\<lparr>savepoints := x\<rparr>)"
  "sp_names (count_rewind l) = sp_names l"
  "savepoints (count_fail l) = savepoints l" "savepoints (count_rewind l) = savepoints l"
  by (simp_all add: in_step_def names_ok_def sp_names_def count_ok_def count_fail_def count_rewind_def)

lemma failed_with_disarm: "serverGone e \<Longrightarrow> in_step s l \<Longrightarrow> failed_with e s (disarm l)"
  by (simp add: failed_with_def in_step_def)

lemma in_step_failed: "in_step s l \<Longrightarrow> failed_with e s l"
  by (simp add: failed_with_def in_step_def)

text \<open>Going back to the \<open>k\<close>-th savepoint of the list, on both sides.\<close>

lemma takeWhile_nth_distinct:
  "distinct xs \<Longrightarrow> k < length xs \<Longrightarrow> takeWhile (\<lambda>m. m \<noteq> xs ! k) xs = take k xs"
  by (rule takeWhile_eq_take_P_nth) (auto simp: nth_eq_iff_index_eq)

lemma back_to_kth:
  assumes "in_step s l" and "k < length (savepoints l)"
  shows "back_to_savepoint True (sp_name (savepoints l ! k)) s = Open (take (Suc k) (sp_names l))"
    "back_to_savepoint False (sp_name (savepoints l ! k)) s = s" "s \<noteq> Broken"
proof -
  have k: "k < length (sp_names l)" "sp_name (savepoints l ! k) = sp_names l ! k"
    using assms(2) by (simp_all add: sp_names_def)
  have s: "s = Open (sp_names l)" "distinct (sp_names l)" using assms(1) by (simp_all add: in_step_def names_ok_def)
  with k show "back_to_savepoint True (sp_name (savepoints l ! k)) s = Open (take (Suc k) (sp_names l))"
    by (simp add: back_to_savepoint_def takeWhile_nth_distinct take_Suc_conv_app_nth)
  from k s show "back_to_savepoint False (sp_name (savepoints l ! k)) s = s" "s \<noteq> Broken"
    by (simp_all add: back_to_savepoint_def)
qed

lemma in_step_take:
  assumes "in_step s l" and "k < length (savepoints l)"
  shows "in_step (Open (take (Suc k) (sp_names l))) (l\<lparr>savepoints := take (Suc k) (savepoints l)\<rparr>)"
proof -
  have "set (take (Suc k) (sp_names l)) \<subseteq> set (sp_names l)" by (rule set_take_subset)
  with assms show ?thesis by (auto simp: in_step_def names_ok_def sp_names_def take_map [symmetric])
qed

lemma sees_modify:
  "(\<And>s l w. Q s l \<Longrightarrow> N s (f w l)) \<Longrightarrow> triple (sees Q) (modify (\<lambda>(w, l). (w, f w l))) (\<lambda>_. sees N) E"
  by (auto simp: triple_def modify_def sees_def)

lemma sees_strongest: "triple (sees Q) (on_locals f) (\<lambda>_. sees (\<lambda>s l'. \<exists>l. Q s l \<and> l' = f l)) E"
  by (rule sees_locals) auto

lemma recover_triple:
  "triple (sees in_savepoint) recover (\<lambda>_. sees in_step) (\<lambda>e. sees (failed_with e))"
proof -
  have go: "triple (sees (\<lambda>s l. in_step s l \<and> savepoints l \<noteq> [] \<and> l = l0))
      (on_world (exec_sql (rollback_to_sql (sp_name (last (savepoints l0))))))
      (\<lambda>_. sees in_step) (\<lambda>e. sees (failed_with e))" for l0
  proof (rule sees_exec)
    fix s l assume a: "in_step s l \<and> savepoints l \<noteq> [] \<and> l = l0"
    then have q: "in_step s l0" "savepoints l0 \<noteq> []" "l = l0" by auto
    let ?k = "length (savepoints l0) - 1"
    have k: "?k < length (savepoints l0)" "last (savepoints l0) = savepoints l0 ! ?k"
      "take (Suc ?k) (sp_names l0) = sp_names l0"
      using q(2) by (auto simp: last_conv_nth sp_names_def)
    show "in_step (session_step True (rollback_to_sql (sp_name (last (savepoints l0)))) s) l"
      using back_to_kth [OF q(1) k(1)] q k by (simp add: in_step_def)
    show "failed_with e (session_step False (rollback_to_sql (sp_name (last (savepoints l0)))) s) l" for e
      using back_to_kth [OF q(1) k(1)] q k by (simp add: in_step_failed)
  qed
  show ?thesis
    unfolding recover_def
    by (rule sees_bind_locals) (auto intro!: triple_if triple_pure triple_seq [OF go]
        triple_seq [OF sees_strongest] triple_seq [OF sees_keeps_nothrow [OF rollbackTo_session]] sees_locals)
qed

lemma sees_draw:
  "triple (sees Q) (on_world (draw lo hi)) (\<lambda>k. sees (\<lambda>s l. Q s l \<and> lo \<le> k \<and> k \<le> hi)) E"
proof (rule triple_on_world, rule tripleI)
  fix l w r w' assume "sees Q (w, l)" and run: "draw lo hi w = (r, w')"
  with keepsD [OF draw_session(1) run] draw_session(2) [of lo hi w]
  show "(\<forall>k. r = Ok k \<longrightarrow> sees (\<lambda>s l. Q s l \<and> lo \<le> k \<and> k \<le> hi) (w', l)) \<and> (\<forall>e. r = Throw e \<longrightarrow> E e (w', l))"
    by (auto simp: same_rel_def draw_def in_rng_def split: prod.splits dest: random_number_range)
qed

lemma rewind_triple:
  "triple (sees in_savepoint) (random_rewind config) (\<lambda>_. sees in_step) (\<lambda>_. sees in_savepoint)"
proof -
  have go: "triple (sees (\<lambda>s l. (in_savepoint s l \<and> l = l0) \<and> 0 \<le> k \<and> k \<le> length (savepoints l0) - 1))
      (seq (on_world (exec_sql (rollback_to_sql (sp_name (savepoints l0 ! k)))))
        (seq (on_locals count_rewind)
        (seq (on_world (rollbackTo (sp_mark (savepoints l0 ! k))))
        (on_locals (\<lambda>l. l\<lparr>savepoints := take (k + 1) (savepoints l)\<rparr>)))))
      (\<lambda>_. sees in_step) (\<lambda>_. sees in_savepoint)" for l0 k
  proof (rule triple_seq [OF sees_exec])
    let ?Q = "\<lambda>s l. in_step (Open (take (Suc k) (sp_names l))) (l\<lparr>savepoints := take (Suc k) (savepoints l)\<rparr>)
      \<and> s = Open (take (Suc k) (sp_names l))"
    fix s l assume a: "(in_savepoint s l \<and> l = l0) \<and> 0 \<le> k \<and> k \<le> length (savepoints l0) - 1"
    then have q: "in_step s l0" "savepoints l0 \<noteq> []" "l = l0" "k < length (savepoints l0)"
      by (auto simp: Suc_le_eq [symmetric] neq_Nil_conv)
    from q back_to_kth [OF q(1,4)] in_step_take [OF q(1,4)]
    show "?Q (session_step True (rollback_to_sql (sp_name (savepoints l0 ! k))) s) l"
      "in_savepoint (session_step False (rollback_to_sql (sp_name (savepoints l0 ! k))) s) l"
      by simp_all
  next
    show "triple (sees (\<lambda>s l. in_step (Open (take (Suc k) (sp_names l))) (l\<lparr>savepoints := take (Suc k) (savepoints l)\<rparr>)
      \<and> s = Open (take (Suc k) (sp_names l))))
      (seq (on_locals count_rewind)
        (seq (on_world (rollbackTo (sp_mark (savepoints l0 ! k))))
        (on_locals (\<lambda>l. l\<lparr>savepoints := take (k + 1) (savepoints l)\<rparr>))))
      (\<lambda>_. sees in_step) (\<lambda>_. sees in_savepoint)"
      by (auto intro!: triple_seq [OF sees_strongest] triple_seq [OF sees_keeps_nothrow [OF rollbackTo_session]] sees_locals)
  qed
  show ?thesis
    unfolding random_rewind_def Let_def
    by (rule triple_bind [OF sees_keeps_nothrow [OF draw_session]], rule triple_when)
      (rule sees_bind_locals, rule triple_bind [OF sees_draw], rule go, auto simp: sees_def)
qed

text \<open>The pieces of a step that names its sub-action.\<close>

lemma sub_triple:
  assumes "keeps (same_rel session_of) sub"
  shows "triple (sees Q) (on_world (named_scope n sub)) (\<lambda>_. sees Q) (\<lambda>_. sees Q)"
  by (rule sees_keeps [OF named_scope_session [OF assms]])

lemma triple_raise: "(\<And>s. P s \<Longrightarrow> E e s) \<Longrightarrow> triple P (throw e) N E"
  by (simp add: triple_def throw_def)

lemma on_failure_triple:
  assumes "triple P (sql e) N E" and "triple P act N E" and "\<And>s. P s \<Longrightarrow> E e s"
  shows "triple P (on_failure sql act e) N E"
  by (cases e) (use assms in \<open>simp_all add: on_failure_def triple_raise\<close>)

lemma sees_disarm_throw:
  "serverGone e \<Longrightarrow> triple (sees in_savepoint) (seq (on_locals disarm) (throw e)) N (\<lambda>e. sees (failed_with e))"
  by (rule triple_seq [OF sees_locals [where N = "failed_with e"]])
    (rule failed_with_disarm, simp_all add: triple_raise)

lemma savepoint_step_triple:
  assumes "keeps (same_rel session_of) sub"
  shows "triple (sees in_step) (savepoint_step config n sub) (\<lambda>_. sees in_step) (\<lambda>e. sees (failed_with e))"
proof -
  let ?Q = "\<lambda>s l. inTrx l \<and> armed l \<and> s = Open (sp_names l) \<and> distinct (sp_names l) \<and>
    (\<forall>m \<in> set (sp_names l). m < spCounter l)"
  let ?R = "\<lambda>l0 s l. inTrx l \<and> armed l \<and> s = Open (sp_names l @ [spCounter l]) \<and> distinct (sp_names l) \<and>
    (\<forall>m \<in> set (sp_names l). m < spCounter l) \<and> l = l0"
  have count: "triple (sees in_step) (on_locals (\<lambda>l. l\<lparr>spCounter := spCounter l + 1\<rparr>)) (\<lambda>_. sees ?Q)
      (\<lambda>e. sees (failed_with e))"
    by (rule sees_locals) (auto simp: in_step_def names_ok_def sp_names_def)
  have save: "triple (sees (\<lambda>s l. ?Q s l \<and> l = l0)) (on_world (exec_sql (savepoint_sql (spCounter l0))))
      (\<lambda>_. sees (?R l0)) (\<lambda>e. sees (failed_with e))" for l0
    by (rule sees_exec) (auto simp: open_savepoint_def failed_with_def)
  have push: "triple (sees (?R l0)) (modify (\<lambda>(w, l). (w, l\<lparr>savepoints := savepoints l @
      [\<lparr>sp_name = spCounter l, sp_mark = txn_mark (current_txn w)\<rparr>]\<rparr>))) (\<lambda>_. sees in_savepoint)
      (\<lambda>e. sees (failed_with e))" for l0
    by (rule sees_modify) (auto simp: in_step_def names_ok_def sp_names_def)
  have run: "triple (sees in_savepoint) (seq (on_world (named_scope n sub)) (seq (on_locals count_ok) (random_rewind config)))
      (\<lambda>_. sees in_step) (\<lambda>_. sees in_savepoint)"
    by (intro triple_seq [OF sub_triple [OF assms]] triple_seq [OF _ rewind_triple] sees_locals) auto
  have handle: "triple (sees in_savepoint) (on_failure
        (\<lambda>e. if serverGone e then seq (on_locals disarm) (throw e) else recover) recover e)
      (\<lambda>_. sees in_step) (\<lambda>e. sees (failed_with e))" for e
    by (intro on_failure_triple triple_if sees_disarm_throw recover_triple)
      (auto simp: sees_def in_step_failed)
  show ?thesis
    unfolding savepoint_step_def
    by (intro triple_seq [OF count] sees_bind_locals triple_seq [OF save] triple_seq [OF push]
        triple_catch [OF run] handle)
qed

lemma abort_step_triple:
  assumes "keeps (same_rel session_of) sub"
  shows "triple (sees in_step) (abort_step n sub) (\<lambda>_. sees in_step) (\<lambda>e. sees (failed_with e))"
proof -
  have run: "triple (sees in_step) (seq (on_world (named_scope n sub)) (on_locals count_ok))
      (\<lambda>_. sees in_step) (\<lambda>_. sees in_step)"
    by (intro triple_seq [OF sub_triple [OF assms]] sees_locals) simp
  have handle: "triple (sees in_step) (seq (on_locals (if serverGone e then disarm else id)) (throw e))
      (\<lambda>_. sees in_step) (\<lambda>e. sees (failed_with e))" for e
    by (rule triple_seq [OF sees_locals [where N = "failed_with e"]])
      (auto simp: failed_with_disarm in_step_failed triple_raise)
  show ?thesis unfolding abort_step_def by (rule triple_catch [OF run handle])
qed

section \<open>The whole action\<close>

lemma find_by_weight_mem: "find_by_weight a w fs = Some f \<Longrightarrow> f \<in> set fs"
  by (induction a w fs rule: find_by_weight.induct) (auto simp: Let_def split: if_splits)

lemma lookup_mem: "lookupByWeightOffset w fs = Ok f \<Longrightarrow> f \<in> set fs"
  by (auto simp: lookupByWeightOffset_def dest: find_by_weight_mem split: option.splits)

definition leaves_session :: "('b \<Rightarrow> action) \<Rightarrow> 'b action_registry \<Rightarrow> bool" where
  "leaves_session exec fs \<longleftrightarrow> (\<forall>f \<in> set fs. keeps (same_rel session_of) (exec (fac_builder f) Buffered))"

lemma sub_step_triple:
  assumes "leaves_session exec pool" and "td \<or> list_all (\<lambda>f. fac_type f \<noteq> At_ddl) pool"
  shows "triple (sees in_step) (sub_step config td exec pool) (\<lambda>_. sees in_step) (\<lambda>e. sees (failed_with e))"
proof -
  have sub: "keeps (same_rel session_of) (exec (fac_builder f) Buffered)" if "f \<in> set pool" for f
    using assms(1) that by (simp add: leaves_session_def)
  have step: "triple (sees (\<lambda>s l. in_step s l \<and> l = l0))
      (if inTrx l0 \<and> \<not> td \<and> fac_type f = At_ddl then mirror_step (fac_name f) (exec (fac_builder f) Direct)
       else if \<not> inTrx l0 then tail_step (fac_name f) (exec (fac_builder f) Direct)
       else if tc_error_mode config = Em_savepoint
       then savepoint_step config (fac_name f) (exec (fac_builder f) Buffered)
       else abort_step (fac_name f) (exec (fac_builder f) Buffered))
      (\<lambda>_. sees in_step) (\<lambda>e. sees (failed_with e))" if "lookupByWeightOffset w pool = Ok f" for l0 f w
  proof (cases "inTrx l0")
    case True
    note sub' = sub [OF lookup_mem [OF that]]
    from lookup_mem [OF that] assms(2) have "td \<or> fac_type f \<noteq> At_ddl" by (auto simp: list_all_iff)
    with True show ?thesis
      by (auto intro: triple_mono [OF savepoint_step_triple [OF sub']] triple_mono [OF abort_step_triple [OF sub']]
          simp: sees_def)
  qed (auto simp: triple_def sees_def in_step_def)
  have look: "triple (sees in_step) (lift_result (lookupByWeightOffset w pool))
      (\<lambda>f s. sees in_step s \<and> lookupByWeightOffset w pool = Ok f) (\<lambda>e. sees (failed_with e))" for w
    by (rule triple_lift) (auto simp: sees_def in_step_failed)
  have locs: "triple (\<lambda>s. sees in_step s \<and> lookupByWeightOffset w pool = Ok f) (bind locals g)
      (\<lambda>_. sees in_step) (\<lambda>e. sees (failed_with e))"
    if "lookupByWeightOffset w pool = Ok f \<Longrightarrow> triple (sees in_step) (bind locals g)
      (\<lambda>_. sees in_step) (\<lambda>e. sees (failed_with e))" for w f g
    using that by (auto simp: triple_def)
  show ?thesis
    unfolding sub_step_def Let_def
    by (rule triple_bind [OF sees_keeps_nothrow [OF draw_session]], rule triple_bind [OF look], rule locs,
        rule sees_bind_locals, rule step)
qed

definition finished :: "session \<Rightarrow> txn_locals \<Rightarrow> bool" where
  "finished s l \<longleftrightarrow> \<not> armed l \<and> s = Idle"

lemma finished_failed: "finished s l \<Longrightarrow> failed_with e s l"
  by (simp add: finished_def failed_with_def)

lemma run_sql_Ok: "\<exists>res. fst (run_sql q w) = Ok res"
  by (simp add: run_sql_def in_conn_def conn_executeQuery_def sql_send_def Let_def)

lemma sees_run:
  assumes "\<And>s l ok. Q s l \<Longrightarrow> N (session_step ok q s) l"
  shows "triple (sees Q) (on_world (run_sql q)) (\<lambda>_. sees N) E"
proof (rule triple_on_world, rule tripleI)
  fix l w r w' assume Q: "sees Q (w, l)" and run: "run_sql q w = (r, w')"
  from run run_sql_Ok [of q w] obtain res where "r = Ok res" by auto
  with run run_sql_session [of q w] assms Q
  show "(\<forall>x. r = Ok x \<longrightarrow> sees N (w', l)) \<and> (\<forall>e. r = Throw e \<longrightarrow> E e (w', l))" by simp
qed

lemma finish_triple:
  "triple (sees in_step) (finish_transaction config) (\<lambda>_. sees finished) (\<lambda>e. sees (failed_with e))"
proof -
  let ?over = "\<lambda>s l. s = Idle"
  have disarmed: "triple (sees ?over) (on_locals disarm) (\<lambda>_. sees finished) E" for E
    by (rule sees_locals) (simp add: finished_def disarm_def)
  have ended: "triple (sees finished) (on_locals (set_end x)) (\<lambda>_. sees finished) E" for x E
    by (rule sees_locals) (simp add: finished_def set_end_def)
  have publish: "triple (sees finished) (on_world publishAll) (\<lambda>_. sees finished) (\<lambda>e. sees (failed_with e))"
    by (rule triple_mono [OF sees_keeps [OF publishAll_session]]) (auto simp: sees_def finished_failed)
  have commit: "triple (sees in_step) (on_world (run_sql ''COMMIT;'')) (\<lambda>_. sees ?over) (\<lambda>e. sees (failed_with e))"
    by (rule sees_run) (simp add: in_step_def)
  have raise: "triple (sees finished) (lift_result (maybeThrow res)) (\<lambda>_. sees finished) (\<lambda>e. sees (failed_with e))" for res
    by (rule triple_lift) (auto simp: sees_def finished_failed)
  have rollback: "triple (sees (\<lambda>s l. \<not> armed l \<and> s \<noteq> Broken)) (on_world (exec_sql ''ROLLBACK;''))
      (\<lambda>_. sees finished) (\<lambda>e. sees (failed_with e))"
    by (rule sees_exec) (auto simp: finished_def failed_with_def)
  have unarmed: "triple (sees in_step) (on_locals disarm) (\<lambda>_. sees (\<lambda>s l. \<not> armed l \<and> s \<noteq> Broken)) E" for E
    by (rule sees_locals) (auto simp: in_step_def disarm_def)
  have roll: "triple (sees in_step)
      (bind (on_world (draw 1 100)) (\<lambda>roll.
         if roll \<le> commit_probability config
         then bind (on_world (run_sql ''COMMIT;'')) (\<lambda>res. seq (on_locals disarm)
           (seq (lift_result (maybeThrow res)) (seq (on_locals (set_end committed_end)) (on_world publishAll))))
         else seq (on_locals disarm) (seq (on_world (exec_sql ''ROLLBACK;''))
           (on_locals (set_end rolledBackIntentional_end)))))
      (\<lambda>_. sees finished) (\<lambda>e. sees (failed_with e))"
    by (rule triple_bind [OF sees_keeps_nothrow [OF draw_session]],
        intro triple_if triple_bind [OF commit] triple_seq [OF disarmed] triple_seq [OF raise]
          triple_seq [OF ended] publish triple_seq [OF unarmed] triple_seq [OF rollback] ended)
  have "triple (sees (\<lambda>s l. in_step s l \<and> l = l0)) (when_do (inTrx l0) m) (\<lambda>_. sees finished)
      (\<lambda>e. sees (failed_with e))"
    if "triple (sees in_step) m (\<lambda>_. sees finished) (\<lambda>e. sees (failed_with e))" for l0 m
    by (rule triple_when) (auto intro: triple_mono [OF that] simp: sees_def in_step_def)
  with roll show ?thesis
    unfolding finish_transaction_def by (intro sees_bind_locals) blast
qed

lemma body_triple:
  assumes "leaves_session exec pool" and "td \<or> list_all (\<lambda>f. fac_type f \<noteq> At_ddl) pool"
  shows "triple (sees in_step) (transaction_body config td exec pool) (\<lambda>_. sees finished)
    (\<lambda>e. sees (failed_with e))"
  unfolding transaction_body_def
  by (rule triple_bind [OF sees_keeps_nothrow [OF draw_session]],
      rule triple_seq [OF triple_for_each finish_triple], rule sub_step_triple [OF assms])

lemma keeps_triple:
  assumes "keeps (same_rel f) m"
  shows "triple (\<lambda>w. f w = x) m (\<lambda>_ w. f w = x) (\<lambda>_ w. f w = x)"
proof (rule tripleI)
  fix w r w' assume "f w = x" "m w = (r, w')"
  with keepsD [OF assms] show "(\<forall>y. r = Ok y \<longrightarrow> f w' = x) \<and> (\<forall>e. r = Throw e \<longrightarrow> f w' = x)"
    by (simp add: same_rel_def)
qed

lemma begin_statements_triple:
  "triple (\<lambda>w. session_of w = Idle) (for_each (beginStatements (dialect_for info) i) exec_sql)
     (\<lambda>_ w. session_of w = Open []) (\<lambda>_ w. session_of w = Idle)"
proof -
  have start: "triple (\<lambda>w. session_of w = Idle) (exec_sql q) (\<lambda>_ w. session_of w = Open []) (\<lambda>_ w. session_of w = Idle)"
    if "opens q" for q
  proof (rule tripleI)
    fix w r w' assume w: "session_of w = Idle" "exec_sql q w = (r, w')"
    from that have "\<not> closes q" by (auto simp: opens_def closes_def)
    with w that exec_sql_session [OF w(2)]
    show "(\<forall>x. r = Ok x \<longrightarrow> session_of w' = Open []) \<and> (\<forall>e. r = Throw e \<longrightarrow> session_of w' = Idle)"
      by (auto simp: session_step_def)
  qed
  have other: "triple (\<lambda>w. session_of w = Idle) (exec_sql q) (\<lambda>_ w. session_of w = Idle) (\<lambda>_ w. session_of w = Idle)"
    if "plain q" for q
    using exec_sql_session [of q] session_step_plain [OF that]
    by (fastforce simp: triple_def split: prod.splits result.splits)
  have one: "triple P (for_each [q] f) N E" if "triple P (f q) N E" for P q f N E
    using that by (auto simp: triple_def seq_def bind_def skip_def ret_def split: prod.splits result.splits)
  have two: "triple P (for_each [p, q] f) N E" if "triple P (f p) (\<lambda>_. M) E" "triple M (f q) N E" for P p q f N M E
  proof -
    have "triple M (for_each [q] f) N E" by (rule one) (rule that(2))
    from triple_seq [OF that(1) this] show ?thesis by simp
  qed
  show ?thesis
  proof (cases rule: dialect_for_cases [of info])
    case 1
    then show ?thesis
      by (cases i) (auto simp only: pg_dialect_def dialect.simps pg_beginStatements_def isolation_level.simps
          intro!: one start, simp_all add: opens_def)
  next
    case 2
    have "opens ''START TRANSACTION;''" by (simp add: opens_def)
    with 2 show ?thesis
      by (cases i) (auto simp only: mysql_dialect_def dialect.simps my_beginStatements_def isolation_level.simps
          append.simps intro!: one two [OF other start] start, simp_all add: plain_def closes_def opens_def numbered_def)
  qed
qed

lemma begin_triple:
  "triple (\<lambda>w. session_of w = Idle) (begin_transaction weights (dialect_for info))
     (\<lambda>_ w. session_of w = Open []) (\<lambda>_ w. session_of w = Idle)"
proof -
  have "keeps (same_rel session_of) (pickIsolation weights)"
    unfolding pickIsolation_def Let_def
    by (intro keeps_bind keeps_if keeps_pure draw_session preord_same_rel)
  then show ?thesis
    unfolding begin_transaction_def by (rule triple_bind [OF keeps_triple begin_statements_triple])
qed

lemma leave_session:
  "session_of (leave_transaction l w) = (if armed l then (if session_of w = Broken then Broken else Idle) else session_of w)"
proof -
  have "session_of (v\<lparr>buffer := None, conn := conn_recordTransactionOutcome (out l) (conn v)\<rparr>) = session_of v" for v
    by (simp add: session_of_def conn_recordTransactionOutcome_def)
  then show ?thesis by (simp add: leave_transaction_def guard_exit_def Let_def run_sql_session)
qed

lemma transaction_session:
  assumes idle: "session_of w = Idle" and sub: "leaves_session exec registered"
    and ddl: "transactionalDDL (dialect_for (conn_info (conn w))) \<or> tc_mysql_ddl_mode config = Mm_exclude"
    and run: "TransactionAction_execute config exec registered w = (r, w')"
    and "r \<noteq> Undefined" and "r \<noteq> Diverges"
  shows "session_of w' = Idle \<or> (\<exists>e. r = Throw e \<and> serverGone e \<and> session_of w' \<noteq> Broken)"
proof -
  let ?d = "dialect_for (conn_info (conn w))"
  let ?pool = "chosen_pool config ?d registered"
  let ?body = "transaction_body config (transactionalDDL ?d) exec ?pool"
  have pool: "transactionalDDL ?d \<or> list_all (\<lambda>f. fac_type f \<noteq> At_ddl) ?pool"
    using ddl by (auto simp: chosen_pool_def poolNoDdl_def filtered_def list_all_iff)
  have sub: "leaves_session exec ?pool"
    using sub by (auto simp: leaves_session_def chosen_pool_def poolAll_def poolNoDdl_def filtered_def)
  have body: "triple (\<lambda>w. session_of w = Open []) (in_transaction ?body) (\<lambda>_ w. session_of w = Idle)
      (\<lambda>e w. session_of w = Idle \<or> serverGone e \<and> session_of w \<noteq> Broken)"
  proof (rule tripleI)
    fix w r w' assume w: "session_of w = Open []" "in_transaction ?body w = (r, w')"
    let ?s = "(w\<lparr>buffer := Some empty_txn\<rparr>, fresh_locals)"
    obtain r1 w1 l where b: "?body ?s = (r1, (w1, l))" by (metis prod_cases3)
    have s: "sees in_step ?s"
      using w(1) by (simp add: in_step_def fresh_locals_def names_ok_def sp_names_def conn_only_session)
    show "(\<forall>x. r = Ok x \<longrightarrow> session_of w' = Idle) \<and>
        (\<forall>e. r = Throw e \<longrightarrow> session_of w' = Idle \<or> serverGone e \<and> session_of w' \<noteq> Broken)"
    proof (cases r1)
      case (Ok x)
      from triple_ok [OF body_triple [OF sub pool] s b [unfolded Ok]] have "finished (session_of w1) l" by simp
      with Ok b w(2) show ?thesis by (auto simp: in_transaction_def leave_session finished_def)
    next
      case (Throw e)
      from triple_throw [OF body_triple [OF sub pool] s b [unfolded Throw]] have "failed_with e (session_of w1) l" by simp
      with Throw b w(2) show ?thesis by (auto simp: in_transaction_def leave_session failed_with_def split: if_splits)
    qed (use b w(2) in \<open>simp_all add: in_transaction_def\<close>)
  qed
  have both: "triple (\<lambda>w. session_of w = Idle) (seq (begin_transaction (tc_isolation_weights config) ?d) (in_transaction ?body))
      (\<lambda>_ w. session_of w = Idle) (\<lambda>e w. session_of w = Idle \<or> serverGone e \<and> session_of w \<noteq> Broken)"
    by (rule triple_seq [OF triple_mono [OF begin_triple] body]) auto
  show ?thesis
  proof (cases "?pool = []")
    case True
    with run idle show ?thesis by (simp add: TransactionAction_unfold Let_def)
  next
    case False
    with run have "seq (begin_transaction (tc_isolation_weights config) ?d) (in_transaction ?body) w = (r, w')"
      by (simp add: TransactionAction_unfold Let_def)
    with triple_ok [OF both idle] triple_throw [OF both idle] assms(5,6) show ?thesis by (cases r) auto
  qed
qed


text \<open>A server that refuses every SELECT: each sub-action fails and is rolled back to its savepoint.\<close>

definition refuse_selects :: "sql_call list \<Rightarrow> sql_call \<Rightarrow> query_result" where
  "refuse_selects h c = (if c = Sql_query ''SELECT 1;'' then refuse_all h c else accept_all h c)"

lemma select_one_session: "leaves_session select_one fs"
  unfolding leaves_session_def select_one_def
  by (intro ballI plain_session) (simp add: plain_def closes_def opens_def numbered_def)


end
