(* ===== verification/Dml_Actions.thy ===== *)
theory Dml_Actions
  imports World
begin

text \<open>
  The DML actions (core/include/action/dml.hpp, core/src/action/dml.cpp): INSERT, DELETE, UPDATE, the
  two SELECT-then-modify actions, and generated SELECTs.

  \<open>querygen::Generator\<close> with \<open>querygen::render\<close> is the record \<open>query_source\<close>: what the actions
  call, as programs on the world that return the rendered text. \<open>real_text n\<close> is
  \<open>std::to_string\<close> of the floating-point value the random source makes of its draw \<open>n\<close>.
  Reading \<open>columns[0]\<close> of an empty vector, an empty \<open>optional\<close> and a division by zero are
  \<open>Undefined\<close>.
\<close>

section \<open>Configuration\<close>

record lock_weights =
  lw_none :: nat
  lw_for_update :: nat
  lw_for_share :: nat

record dml_config =
  deleteMin :: nat
  deleteMax :: nat
  updateMin :: nat
  updateMax :: nat
  lockWeights :: lock_weights

definition default_dml_config :: dml_config where
  "default_dml_config = \<lparr>deleteMin = 1, deleteMax = 100, updateMin = 1, updateMax = 10,
     lockWeights = \<lparr>lw_none = 1, lw_for_update = 1, lw_for_share = 1\<rparr>\<rparr>"

text \<open>The two probabilities the actions read from \<open>QueryGenConfig\<close>, and the generator.\<close>

record query_source =
  dml_predicate_prob :: nat
  dml_pk_select_prob :: nat
  generatePredicate :: "ctx_kind \<Rightarrow> server_info \<Rightarrow> table \<Rightarrow> string \<Rightarrow> (world, string) prog"
  generatePkSelect :: "ctx_kind \<Rightarrow> server_info \<Rightarrow> table \<Rightarrow> nat \<Rightarrow> lock_clause \<Rightarrow> (world, string option) prog"
  generateSelect :: "ctx_kind \<Rightarrow> server_info \<Rightarrow> (world, string option) prog"
  real_text :: "nat \<Rightarrow> string"

section \<open>Values\<close>

text \<open>The value of a partition key: a number inside one of the ranges the metadata knows.\<close>

definition partition_value :: "range_partitioning \<Rightarrow> (world, string) prog" where
  "partition_value rp =
     (if ranges rp = [] then ret ''0''
      else bind (draw 0 (size_wrap (size_wrap (rangeSize rp * length (ranges rp)) + size_max))) (\<lambda>num.
        if rangeSize rp = 0 then undef
        else let range = num div rangeSize rp in
          if length (ranges rp) \<le> range then undef
          else ret (fmt_nat (size_wrap (rangebase (ranges rp ! range) * rangeSize rp + num mod rangeSize rp)))))"

definition quoted :: "string \<Rightarrow> string" where
  "quoted s = [CHR 0x27] @ s @ [CHR 0x27]"

definition generate_value ::
  "query_source \<Rightarrow> column \<Rightarrow> range_partitioning option \<Rightarrow> ctx_kind \<Rightarrow> dialect \<Rightarrow> (world, string) prog" where
  "generate_value qs col rp ctx d =
     (if partition_key col then (case rp of None \<Rightarrow> undef | Some p \<Rightarrow> partition_value p)
      else if foreign_key_references col \<noteq> 0 then
        bind (tables_byId ctx (foreign_key_references col)) (\<lambda>target. case target of
            None \<Rightarrow> ret ''NULL''
          | Some t \<Rightarrow> ret (randomRowSubquery d (obj_name t) ''id'' 1))
      else (case col_type col of
          CT_INT \<Rightarrow> bind (draw 1 1000000) (\<lambda>n. ret (fmt_nat n))
        | CT_REAL \<Rightarrow> bind (draw 0 size_max) (\<lambda>n. ret (real_text qs n))
        | CT_VARCHAR \<Rightarrow> bind (in_rng (random_string 0 (col_length col))) (\<lambda>s. ret (quoted s))
        | CT_BYTEA \<Rightarrow> bind (in_rng (random_string 50 1000)) (\<lambda>s. ret (quoted s))
        | CT_TEXT \<Rightarrow> bind (in_rng (random_string 50 1000)) (\<lambda>s. ret (quoted s))
        | CT_BOOL \<Rightarrow> bind (draw 0 1) (\<lambda>n. ret (if n = 1 then ''true'' else ''false''))
        | CT_CHAR \<Rightarrow> bind (in_rng (random_string 0 (col_length col))) (\<lambda>s. ret (quoted s))))"

definition pick_lock :: "lock_weights \<Rightarrow> (world, lock_clause) prog" where
  "pick_lock w = (let total = size_wrap (lw_none w + lw_for_update w + lw_for_share w) in
     if total = 0 then ret Lock_none
     else bind (draw 1 total) (\<lambda>roll.
       if roll \<le> lw_none w then ret Lock_none
       else if roll - lw_none w \<le> lw_for_update w then ret Lock_forUpdate
       else ret Lock_forShare))"

section \<open>Rows and transactions\<close>

definition first_values :: "query_data \<Rightarrow> string list" where
  "first_values d = List.map_filter (\<lambda>row. case row of [] \<Rightarrow> None | v # vs \<Rightarrow> v) (dataRows d)"

definition fetch_ids :: "string \<Rightarrow> (world, string list) prog" where
  "fetch_ids selectSql = bind (run_sql selectSql) (\<lambda>res.
     seq (lift_result (maybeThrow res))
     (ret (case qr_data res of None \<Rightarrow> [] | Some d \<Rightarrow> first_values d)))"

text \<open>
  \<open>maybe_begin_own_trx\<close>, the body, \<open>maybe_commit_own_trx\<close>: with a buffered context the caller owns
  the transaction; else the guard, armed from the end of BEGIN to the answer of COMMIT, rolls back
  when the body throws.
\<close>

definition maybe_begin_own_trx :: "ctx_kind \<Rightarrow> dialect \<Rightarrow> (world, bool) prog" where
  "maybe_begin_own_trx ctx d = (if ctx = Buffered then ret False
     else seq (for_each (beginStatements d Iso_serverDefault) exec_sql) (ret True))"

definition maybe_commit_own_trx :: "bool \<Rightarrow> (world, unit) prog" where
  "maybe_commit_own_trx guard = (if \<not> guard then skip
     else bind (run_sql ''COMMIT;'') (\<lambda>res. lift_result (maybeThrow res)))"

definition with_own_trx :: "ctx_kind \<Rightarrow> dialect \<Rightarrow> (world, unit) prog \<Rightarrow> (world, unit) prog" where
  "with_own_trx ctx d body = bind (maybe_begin_own_trx ctx d) (\<lambda>guard.
     seq (catch body (\<lambda>e. seq (modify (guard_exit guard)) (throw e)))
     (maybe_commit_own_trx guard))"

section \<open>INSERT\<close>

definition insert_columns :: "table \<Rightarrow> column list" where
  "insert_columns t = filter (\<lambda>c. \<not> auto_increment c) (columns t)"

definition insert_row :: "query_source \<Rightarrow> table \<Rightarrow> ctx_kind \<Rightarrow> dialect \<Rightarrow> (world, string) prog" where
  "insert_row qs t ctx d =
     bind (map_prog (\<lambda>c. generate_value qs c (partitioning t) ctx d) (insert_columns t)) (\<lambda>vs.
     ret (''('' @ join '', '' vs @ '')''))"

text \<open>\<open>locator\<close>: \<open>None\<close> when the action has none, else what it returns.\<close>

definition InsertData_execute :: "query_source \<Rightarrow> nat \<Rightarrow> table option option \<Rightarrow> action" where
  "InsertData_execute qs rows locator ctx =
     bind server_is (\<lambda>info.
     let d = dialect_for info in
     bind (case locator of Some t \<Rightarrow> ret t | None \<Rightarrow> bind (find_random_table ctx) (\<lambda>t. ret (Some t))) (\<lambda>tab.
     case tab of
       None \<Rightarrow> skip
     | Some t \<Rightarrow>
         bind (map_prog (\<lambda>_. insert_row qs t ctx d) [0..<rows]) (\<lambda>vs.
         exec_sql (''INSERT INTO '' @ obj_name t @ '' ('' @ join '', '' (map col_name (insert_columns t)) @
           '' ) VALUES '' @ join '', '' vs @ '';''))))"

section \<open>DELETE\<close>

definition DeleteData_execute :: "dml_config \<Rightarrow> query_source \<Rightarrow> action" where
  "DeleteData_execute config qs ctx =
     bind server_is (\<lambda>info.
     let d = dialect_for info in
     bind (find_random_table ctx) (\<lambda>t.
     bind (draw 1 100) (\<lambda>roll.
     if roll \<le> dml_predicate_prob qs
     then bind (generatePredicate qs ctx info t (obj_name t)) (\<lambda>pred.
       exec_sql (''DELETE FROM '' @ obj_name t @ '' WHERE '' @ pred @ '';''))
     else if columns t = [] then undef
     else let pkName = col_name (columns t ! 0) in
       bind (draw (deleteMin config) (deleteMax config)) (\<lambda>rows.
       exec_sql (''DELETE FROM '' @ obj_name t @ '' WHERE '' @ pkName @ '' IN '' @
         randomRowSubquery d (obj_name t) pkName rows @ '';'')))))"

text \<open>The SELECT of primary keys both SELECT-then-modify actions begin with.\<close>

definition pk_select ::
  "query_source \<Rightarrow> ctx_kind \<Rightarrow> server_info \<Rightarrow> table \<Rightarrow> string \<Rightarrow> nat \<Rightarrow> lock_clause \<Rightarrow> (world, string) prog" where
  "pk_select qs ctx info t pkName rows lock =
     bind (draw 1 100) (\<lambda>roll.
     if roll \<le> dml_pk_select_prob qs
     then bind (generatePkSelect qs ctx info t rows lock) (\<lambda>sel. case sel of None \<Rightarrow> undef | Some s \<Rightarrow> ret s)
     else ret (randomRowsSelect (dialect_for info) (obj_name t) pkName rows lock))"

definition SelectThenDelete_execute :: "dml_config \<Rightarrow> query_source \<Rightarrow> action" where
  "SelectThenDelete_execute config qs ctx =
     bind server_is (\<lambda>info.
     let d = dialect_for info in
     bind (find_random_table ctx) (\<lambda>t.
     if columns t = [] then undef
     else let pkName = col_name (columns t ! 0) in
       bind (draw (deleteMin config) (deleteMax config)) (\<lambda>rows.
       bind (pick_lock (lockWeights config)) (\<lambda>lock.
       bind (pk_select qs ctx info t pkName rows lock) (\<lambda>selectSql.
       with_own_trx ctx d (
         bind (fetch_ids selectSql) (\<lambda>ids.
         when_do (ids \<noteq> []) (exec_sql (''DELETE FROM '' @ obj_name t @ '' WHERE '' @ pkName @ '' IN ('' @
           join '', '' ids @ '');''))))))))) "

section \<open>UPDATE\<close>

definition set_clause ::
  "query_source \<Rightarrow> table \<Rightarrow> (column \<Rightarrow> bool) \<Rightarrow> ctx_kind \<Rightarrow> dialect \<Rightarrow> (world, string list) prog" where
  "set_clause qs t chosen ctx d =
     map_prog (\<lambda>c. bind (generate_value qs c (partitioning t) ctx d) (\<lambda>v. ret (col_name c @ '' = '' @ v)))
       (filter chosen (columns t))"

definition UpdateOneRow_execute :: "dml_config \<Rightarrow> query_source \<Rightarrow> action" where
  "UpdateOneRow_execute config qs ctx =
     bind server_is (\<lambda>info.
     let d = dialect_for info in
     bind (find_random_table ctx) (\<lambda>t.
     if columns t = [] then undef
     else let pkName = col_name (columns t ! 0) in
       bind (draw 1 100) (\<lambda>roll.
       bind (set_clause qs t (\<lambda>c. \<not> auto_increment c) ctx d) (\<lambda>sets.
       bind (if roll \<le> dml_predicate_prob qs
             then bind (generatePredicate qs ctx info t (obj_name t)) (\<lambda>pred. ret ('' WHERE '' @ pred))
             else ret ('' WHERE '' @ pkName @ '' IN '' @ randomRowSubquery d (obj_name t) pkName 1)) (\<lambda>tail.
       exec_sql (''UPDATE '' @ obj_name t @ '' SET '' @ join '', '' sets @ tail @ '';''))))))"

definition SelectThenUpdate_execute :: "dml_config \<Rightarrow> query_source \<Rightarrow> action" where
  "SelectThenUpdate_execute config qs ctx =
     bind server_is (\<lambda>info.
     let d = dialect_for info in
     bind (find_random_table ctx) (\<lambda>t.
     if columns t = [] then undef
     else let pkName = col_name (columns t ! 0) in
       bind (draw (updateMin config) (updateMax config)) (\<lambda>rows.
       bind (pick_lock (lockWeights config)) (\<lambda>lock.
       bind (pk_select qs ctx info t pkName rows lock) (\<lambda>selectSql.
       bind (set_clause qs t (\<lambda>c. \<not> auto_increment c \<and> \<not> primary_key c \<and> \<not> partition_key c) ctx d) (\<lambda>sets.
       with_own_trx ctx d (
         bind (fetch_ids selectSql) (\<lambda>ids.
         when_do (ids \<noteq> [] \<and> sets \<noteq> []) (exec_sql (''UPDATE '' @ obj_name t @ '' SET '' @
           join '', '' sets @ '' WHERE '' @ pkName @ '' IN ('' @ join '', '' ids @ '');''))))))))))"

section \<open>SELECT\<close>

definition SelectQuery_execute :: "query_source \<Rightarrow> action" where
  "SelectQuery_execute qs ctx =
     bind server_is (\<lambda>info.
     bind (generateSelect qs ctx info) (\<lambda>spec. case spec of
         None \<Rightarrow> throw (Action_Exception ''empty-metadata'' ''No tables to select from'')
       | Some sel \<Rightarrow>
           let isMysql = is_mysql_like info in
           seq (exec_sql (if isMysql then ''SET SESSION max_execution_time = 10000;''
                          else ''SET statement_timeout = 10000;''))
           (bind (run_sql sel) (\<lambda>res.
           seq (seq (run_sql (if isMysql then ''SET SESSION max_execution_time = 0;''
                         else ''SET statement_timeout = 0;'')) skip)
           (lift_result (maybeThrow res))))))"

end
