(* ===== verification/Default_Actions.thy ===== *)
theory Default_Actions
  imports Transaction_Session Dml_Actions
begin

text \<open>
  The actions behind the default registry (core/src/action/action_registry.cpp): what the action that
  each factory builds does, and the theorem that none of them leaves a transaction open on the
  server, alone or as part of \<open>TransactionAction\<close>.

  The composite of the create actions stores the table the success callback gets and inserts rows
  into it; the callback is the last call of \<open>CreateTable\<close>, so the insertion is its continuation here.
\<close>

section \<open>What the factories build\<close>

record all_config =
  ddl :: ddl_config
  dml :: dml_config
  variables :: "variable_spec list"
  transaction :: transaction_config

definition create_and_fill :: "all_config \<Rightarrow> query_source \<Rightarrow> table_type \<Rightarrow> action" where
  "create_and_fill config qs ty ctx = CreateTable_execute (ddl config) ty
     (Some (\<lambda>ptr. repeat_execute (InsertData_execute qs 1000 (Some ptr)) 1 ctx)) ctx"

fun plain_action :: "all_config \<Rightarrow> query_source \<Rightarrow> builder \<Rightarrow> action" where
  "plain_action config qs B_create_normal_table = create_and_fill config qs TT_normal"
| "plain_action config qs B_create_partitioned_table = create_and_fill config qs TT_partitioned"
| "plain_action config qs B_drop_table = DropTable_execute (ddl config)"
| "plain_action config qs B_alter_table = AlterTable_execute (ddl config) flags_AllSet"
| "plain_action config qs B_rename_table = RenameTable_execute"
| "plain_action config qs B_create_index = CreateIndex_execute"
| "plain_action config qs B_drop_index = DropIndex_execute"
| "plain_action config qs B_create_partition = CreatePartition_execute (ddl config)"
| "plain_action config qs B_drop_partition = DropPartition_execute (ddl config)"
| "plain_action config qs (B_insert rows) = InsertData_execute qs rows None"
| "plain_action config qs B_delete = DeleteData_execute (dml config) qs"
| "plain_action config qs B_update_one_row = UpdateOneRow_execute (dml config) qs"
| "plain_action config qs B_select_then_delete = SelectThenDelete_execute (dml config) qs"
| "plain_action config qs B_select_then_update = SelectThenUpdate_execute (dml config) qs"
| "plain_action config qs B_select_query = SelectQuery_execute qs"
| "plain_action config qs (B_set_variable m) = SetVariable_execute (variables config) m"
| "plain_action config qs (B_custom_sql sql injects) = custom_execute sql injects"
| "plain_action config qs B_transaction = (\<lambda>ctx. undef)"

text \<open>
  A transaction takes its sub-actions from the registry it was drawn from; its pools hold no
  transactions, so the last clause of \<open>plain_action\<close> is never reached through the default registry.
\<close>

definition build :: "all_config \<Rightarrow> query_source \<Rightarrow> builder action_registry \<Rightarrow> builder \<Rightarrow> action" where
  "build config qs registered b = (if b = B_transaction
     then (\<lambda>ctx. TransactionAction_execute (transaction config) (plain_action config qs) registered)
     else plain_action config qs b)"

section \<open>Plain statements\<close>

text \<open>Two letters decide: transaction control starts with CO, RO, BE, ST or SA.\<close>

lemma plain_start:
  assumes "(a, b) \<notin> set [(CHR ''C'', CHR ''O''), (CHR ''R'', CHR ''O''), (CHR ''B'', CHR ''E''),
     (CHR ''S'', CHR ''T''), (CHR ''S'', CHR ''A'')]"
  shows "plain (a # b # q)"
  using assms by (auto simp: plain_def closes_def opens_def numbered_def Let_def)

lemma plain_texts [simp]:
  "plain (CHR ''D'' # CHR ''R'' # q)" "plain (CHR ''D'' # CHR ''E'' # q)" "plain (CHR ''C'' # CHR ''R'' # q)"
  "plain (CHR ''A'' # CHR ''L'' # q)" "plain (CHR ''S'' # CHR ''E'' # q)" "plain (CHR ''U'' # CHR ''P'' # q)"
  "plain (CHR ''I'' # CHR ''N'' # q)"
  by (rule plain_start, simp)+

definition speaks_plain :: "dialect \<Rightarrow> bool" where
  "speaks_plain d \<longleftrightarrow> (\<forall>t n q. createTable d t n = Ok q \<longrightarrow> plain q) \<and>
     (\<forall>t k q. addPartition d t k = Ok q \<longrightarrow> plain q) \<and> (\<forall>t k. plain (dropPartition d t k)) \<and>
     (\<forall>t i opts. plain (createIndex d t i opts)) \<and> (\<forall>t i. plain (dropIndex d t i)) \<and>
     (\<forall>t c n l. plain (randomRowsSelect d t c n l))"

lemma dialect_speaks_plain: "speaks_plain (dialect_for info)"
  by (cases rule: dialect_for_cases [of info])
    (auto simp: speaks_plain_def pg_dialect_def mysql_dialect_def pg_createTable_def my_createTable_def
      pg_addPartition_def my_addPartition_def pg_dropPartition_def my_dropPartition_def pg_createIndex_def
      my_createIndex_def pg_dropIndex_def my_dropIndex_def pg_randomRowsSelect_def my_randomRowsSelect_def
      first_column_name_def res_bind_eq_Ok split: option.splits list.splits)

lemma speaks_plainD:
  assumes "speaks_plain d"
  shows "createTable d t n = Ok q \<Longrightarrow> plain q" "addPartition d t k = Ok q \<Longrightarrow> plain q"
    "plain (dropPartition d t k)" "plain (createIndex d t i opts)" "plain (dropIndex d tn idn)"
    "plain (randomRowsSelect d tn c l lock)"
  using assms by (simp_all add: speaks_plain_def)

section \<open>Steps that leave the session alone\<close>

abbreviation quiet_session :: "(world, 'a) prog \<Rightarrow> bool" where
  "quiet_session m \<equiv> keeps (same_rel session_of) m"

named_theorems session_intros "rules for programs that leave the session alone"

lemma session_plain [session_intros]:
  "plain q \<Longrightarrow> quiet_session (exec_sql q)" "plain q \<Longrightarrow> quiet_session (run_sql q)"
proof -
  assume q: "plain q"
  then show "quiet_session (exec_sql q)" by (rule plain_session)
  show "quiet_session (run_sql q)"
    by (simp add: keeps_def same_rel_def run_sql_session session_step_plain q)
qed

lemma session_after_interfere:
  assumes "\<And>w. session_of (snd (m w)) = session_of w"
  shows "quiet_session (seq interfere m)"
proof -
  have "quiet_session m" using assms by (simp add: keeps_def same_rel_def)
  then show ?thesis by (intro keeps_seq interfere_session preord_same_rel)
qed

lemma session_world [session_intros]:
  "quiet_session (in_rng m)" "quiet_session (draw lo hi)" "quiet_session interfere"
  "quiet_session (tables_randomPick ctx)" "quiet_session (read_view ctx f)"
  "quiet_session (tables_insert ctx t)" "quiet_session (tables_update ctx i d)"
  "quiet_session (tables_erase ctx i)" "quiet_session ctx_nextId" "quiet_session server_is"
proof -
  have rng: "quiet_session (in_rng m)" for m :: "(rng, 'x) prog"
    by (auto simp: keeps_def same_rel_def in_rng_def conn_only_session split: prod.splits)
  show "quiet_session (in_rng m)" by (rule rng)
  show "quiet_session (draw lo hi)" "quiet_session interfere" by (rule draw_session interfere_session)+
  show "quiet_session (tables_randomPick ctx)"
    unfolding tables_randomPick_def
    by (rule session_after_interfere) (rule rng [unfolded keeps_def same_rel_def, rule_format])
  show "quiet_session (read_view ctx f)"
    unfolding read_view_def by (rule session_after_interfere) simp
  show "quiet_session (tables_insert ctx t)" "quiet_session (tables_update ctx i d)" "quiet_session (tables_erase ctx i)"
    unfolding tables_insert_def tables_update_def tables_erase_def
    by (rule session_after_interfere, simp add: conn_only_session split: prod.splits result.splits)+
  show "quiet_session ctx_nextId"
    unfolding ctx_nextId_def by (rule session_after_interfere) (simp add: conn_only_session split: prod.splits)
  show "quiet_session server_is" unfolding server_is_def by (simp add: keeps_pure)
qed

lemma session_reads [session_intros]:
  "quiet_session (tables_size ctx)" "quiet_session (tables_byId ctx i)" "quiet_session (tables_snapshotAll ctx)"
  "quiet_session random_bool_draw"
  unfolding tables_size_def tables_byId_def tables_snapshotAll_def random_bool_draw_def
  by (intro session_world)+

text \<open>What a step returned may be used to show that the next statement is plain.\<close>

lemma session_dialect [session_intros]:
  assumes "\<And>d. speaks_plain d \<Longrightarrow> quiet_session (f d)"
  shows "quiet_session (bind the_dialect f)"
  using assms dialect_speaks_plain
  by (auto simp: keeps_def the_dialect_def server_is_def bind_def gets_def ret_def)

lemma session_server [session_intros]:
  assumes "\<And>info. quiet_session (f info)"
  shows "quiet_session (bind server_is f)"
  by (intro keeps_bind session_world preord_same_rel assms)

lemma session_lift [session_intros]:
  assumes "\<And>q. r = Ok q \<Longrightarrow> quiet_session (f q)"
  shows "quiet_session (bind (lift_result r) f)"
  using assms by (cases r) (auto simp: keeps_def bind_def lift_result_def same_rel_def)

lemmas session_base = keeps_bind keeps_seq keeps_if keeps_case_option keeps_pure keeps_for_each
  keeps_map_prog keeps_catch keeps_when_do preord_same_rel

section \<open>The DDL actions\<close>

lemma session_random [session_intros]:
  "quiet_session randomColumnType" "quiet_session (randomColumnLength ty)" "quiet_session (randomColumn b)"
  "quiet_session (find_random_table ctx)" "quiet_session (pick_fk_target ctx wanted)"
proof -
  show 1: "quiet_session randomColumnType" unfolding randomColumnType_def by (intro session_intros session_base)
  show 2: "quiet_session (randomColumnLength ty)" for ty
    unfolding randomColumnLength_def by (cases ty) (simp_all add: draw_session keeps_pure)
  show "quiet_session (randomColumn b)" unfolding randomColumn_def by (intro session_intros session_base 1 2)
  show 3: "quiet_session (find_random_table ctx)" unfolding find_random_table_def by (intro session_intros session_base)
  show "quiet_session (pick_fk_target ctx wanted)" unfolding pick_fk_target_def by (intro session_intros session_base 3)
qed

lemma session_find_partitioned [session_intros]: "quiet_session (find_partitioned n ctx config)"
  by (induction n) (auto intro!: session_intros session_base split: option.splits)

lemma session_pick_indexable [session_intros]: "quiet_session (pick_indexable n k ctx)"
  by (induction n) (auto intro!: session_intros session_base split: option.splits)

lemma session_choose_fields [session_intros]: "quiet_session (choose_fields d t n is k flds)"
  by (induction d t n "is" k flds rule: choose_fields.induct) (auto intro!: session_intros session_base simp: Let_def)

lemma session_build_table [session_intros]: "quiet_session (build_table config ty ctx d)"
  unfolding build_table_def Let_def by (intro session_intros session_base)

lemma session_try_sql [session_intros]: "plain q \<Longrightarrow> quiet_session (try_sql n q)"
  by (induction n) (auto intro!: session_intros session_base)

lemma session_add_partitions [session_intros]: "speaks_plain d \<Longrightarrow> quiet_session (add_partitions d t rs)"
  by (induction rs) (auto intro!: session_intros session_base intro: speaks_plainD)

lemma session_sweep [session_intros]: "quiet_session (sweep_references ctx i)"
  unfolding sweep_references_def by (intro session_intros session_base)

lemma session_drop_statement [session_intros]: "quiet_session (drop_statement b t)"
  unfolding drop_statement_def fk_checks_off_def fk_checks_on_def by (intro session_intros session_base) simp_all

lemma session_alter_round: "quiet_session (alter_round config d t commands st)"
  unfolding alter_round_def alter_try_drop_def Let_def
  by (auto intro!: session_intros session_base split: alter_subcommand.splits)

lemma until_added_keeps:
  "until_added round st w = Some rw \<Longrightarrow> preord R \<Longrightarrow> (\<And>st. keeps R (round st)) \<Longrightarrow> R w (snd rw)"
proof (induction rule: until_added.raw_induct [rotated 1, consumes 1])
  case (1 loop round st w rw)
  obtain r w1 where r: "round st w = (r, w1)" by fastforce
  from keepsD [OF 1(4) r] have s: "R w w1" .
  show ?case
  proof (cases r)
    case (Ok x)
    obtain added st1 where x: "x = (added, st1)" by fastforce
    show ?thesis
    proof (cases added)
      case True
      with 1(2) r Ok x s show ?thesis by auto
    next
      case False
      with 1(2) r Ok x have "loop round st1 w1 = Some rw" by simp
      from preord_trans [OF 1(3) s 1(1) [OF this 1(3,4)]] show ?thesis .
    qed
  qed (use 1(2) r s in auto)
qed

lemma session_alter_clauses [session_intros]: "quiet_session (alter_clauses n config d t commands st)"
proof (induction n arbitrary: st)
  case (Suc n)
  have "quiet_session (alter_clause config d t commands st)"
  proof (rule keepsI)
    fix w
    show "same_rel session_of w (snd (alter_clause config d t commands st w))"
      using until_added_keeps [OF _ preord_same_rel session_alter_round, where w = w and st = st]
      by (auto simp: alter_clause_def preord_refl split: option.splits)
  qed
  with Suc show ?case by (auto intro: keeps_bind)
qed (simp add: keeps_pure)

lemma session_drop_index [session_intros]: "quiet_session (drop_index_tries n info ctx)"
proof (induction n)
  case (Suc n)
  then show ?case
    unfolding drop_index_tries.simps Let_def
    by (intro session_intros session_base speaks_plainD dialect_speaks_plain)
qed (simp add: keeps_pure)

lemma session_publish_table [session_intros]:
  assumes "\<And>t. quiet_session (cb t)"
  shows "quiet_session (publish_table t (Some cb) ctx)"
  unfolding publish_table_def Let_def option.case by (intro session_intros session_base assms)

lemma session_CreateTable [session_intros]:
  assumes "\<And>t. quiet_session (cb t)"
  shows "quiet_session (CreateTable_execute config ty (Some cb) ctx)"
  unfolding CreateTable_execute_def
  by (intro session_intros session_base) (auto intro!: session_intros session_base assms intro: speaks_plainD split: option.splits)

lemma session_ddl [session_intros]:
  "quiet_session (DropTable_execute config ctx)" "quiet_session (AlterTable_execute config fl ctx)"
  "quiet_session (RenameTable_execute ctx)" "quiet_session (CreateIndex_execute ctx)"
  "quiet_session (DropIndex_execute ctx)" "quiet_session (CreatePartition_execute config ctx)"
  "quiet_session (DropPartition_execute config ctx)"
  unfolding DropTable_execute_def AlterTable_execute_def RenameTable_execute_def CreateIndex_execute_def
    DropIndex_execute_def CreatePartition_execute_def DropPartition_execute_def findPartitionedTable_def Let_def
  by (auto intro!: session_intros session_base intro: speaks_plainD split: option.splits)

section \<open>The DML actions\<close>

text \<open>What the generator promises: it talks to no server, and its queries are plain.\<close>

definition plain_queries :: "query_source \<Rightarrow> bool" where
  "plain_queries qs \<longleftrightarrow>
     (\<forall>ctx info t n. quiet_session (generatePredicate qs ctx info t n)) \<and>
     (\<forall>ctx info t n l. quiet_session (generatePkSelect qs ctx info t n l)) \<and>
     (\<forall>ctx info. quiet_session (generateSelect qs ctx info)) \<and>
     (\<forall>ctx info t n l w s w'. generatePkSelect qs ctx info t n l w = (Ok (Some s), w') \<longrightarrow> plain s) \<and>
     (\<forall>ctx info w s w'. generateSelect qs ctx info w = (Ok (Some s), w') \<longrightarrow> plain s)"

lemma plain_queriesD:
  assumes "plain_queries qs"
  shows "quiet_session (generatePredicate qs ctx info t q)" "quiet_session (generatePkSelect qs ctx info t n l)"
    "quiet_session (generateSelect qs ctx info)"
  using assms by (simp_all add: plain_queries_def)

lemma plain_queries_text:
  assumes "plain_queries qs"
  shows "generatePkSelect qs ctx info t n l w = (Ok (Some s), w') \<Longrightarrow> plain s"
    "generateSelect qs ctx info w = (Ok (Some s), w') \<Longrightarrow> plain s"
  using assms unfolding plain_queries_def by blast+

text \<open>Results of a step, for statements whose text it returned.\<close>

definition returned :: "(world, 'a) prog \<Rightarrow> 'a \<Rightarrow> bool" where
  "returned m x \<longleftrightarrow> (\<exists>w w'. m w = (Ok x, w'))"

lemma quiet_bind_returned:
  assumes "quiet_session m" and "\<And>x. returned m x \<Longrightarrow> quiet_session (f x)"
  shows "quiet_session (bind m f)"
proof (rule keepsI)
  fix w
  obtain r w1 where m: "m w = (r, w1)" by fastforce
  from keepsD [OF assms(1) m] have 1: "session_of w1 = session_of w" by (simp add: same_rel_def)
  show "same_rel session_of w (snd (bind m f w))"
  proof (cases r)
    case (Ok x)
    with m have "returned m x" by (auto simp: returned_def)
    from assms(2) [OF this] have "session_of (snd (f x w1)) = session_of w1" by (simp add: keeps_def same_rel_def)
    with m Ok 1 show ?thesis by (simp add: bind_def same_rel_def)
  qed (use m 1 in \<open>simp_all add: bind_def same_rel_def\<close>)
qed

lemma session_values [session_intros]:
  "quiet_session (generate_value qs col rp ctx d)" "quiet_session (pick_lock lw)"
proof -
  have "quiet_session (partition_value p)" for p
    unfolding partition_value_def Let_def by (intro session_intros session_base)
  then show "quiet_session (generate_value qs col rp ctx d)"
    unfolding generate_value_def
    by (auto intro!: session_intros session_base split: option.splits column_type.splits)
  show "quiet_session (pick_lock lw)" unfolding pick_lock_def Let_def by (intro session_intros session_base)
qed

lemma session_rows [session_intros]:
  "quiet_session (insert_row qs t ctx d)" "quiet_session (set_clause qs t chosen ctx d)"
  "plain q \<Longrightarrow> quiet_session (fetch_ids q)"
  unfolding insert_row_def set_clause_def fetch_ids_def by (intro session_intros session_base; assumption?)+

lemma session_InsertData [session_intros]: "quiet_session (InsertData_execute qs rows locator ctx)"
  unfolding InsertData_execute_def Let_def
  by (auto intro!: session_intros session_base split: option.splits)

lemma session_DeleteData:
  assumes "plain_queries qs"
  shows "quiet_session (DeleteData_execute config qs ctx)" "quiet_session (UpdateOneRow_execute config qs ctx)"
  unfolding DeleteData_execute_def UpdateOneRow_execute_def Let_def
  by (auto intro!: session_intros session_base plain_queriesD [OF assms])

lemma session_SelectQuery:
  assumes "plain_queries qs"
  shows "quiet_session (SelectQuery_execute qs ctx)"
proof -
  have tail: "quiet_session (seq (exec_sql q1) (bind (run_sql sel) (\<lambda>res.
      seq (seq (run_sql q2) skip) (lift_result (maybeThrow res)))))" if "plain q1" "plain sel" "plain q2" for q1 q2 sel
    by (intro session_intros session_base that)
  have "returned (generateSelect qs ctx info) (Some sel) \<Longrightarrow> plain sel" for info sel
    using plain_queries_text(2) [OF assms] by (auto simp: returned_def)
  then show ?thesis
    unfolding SelectQuery_execute_def Let_def
    by (auto intro!: session_intros quiet_bind_returned [OF plain_queriesD(3) [OF assms]] tail keeps_pure
        split: option.splits)
qed

lemma pk_select_plain:
  assumes "plain_queries qs"
  shows "quiet_session (pk_select qs ctx info t pk rows lock)" "returned (pk_select qs ctx info t pk rows lock) s \<Longrightarrow> plain s"
proof -
  show "quiet_session (pk_select qs ctx info t pk rows lock)"
    unfolding pk_select_def by (intro session_intros session_base plain_queriesD [OF assms])
  have "pk_select qs ctx info t pk rows lock w = (Ok s, w') \<Longrightarrow> plain s" for w w'
    using plain_queries_text(1) [OF assms] speaks_plainD(6) [OF dialect_speaks_plain]
    by (auto simp: pk_select_def bind_def ret_def undef_def
        split: prod.splits result.splits if_splits option.splits)
  then show "returned (pk_select qs ctx info t pk rows lock) s \<Longrightarrow> plain s" by (auto simp: returned_def)
qed

text \<open>In a buffered context the SELECT-then-modify actions add no transaction of their own.\<close>

lemma with_own_trx_buffered: "quiet_session body \<Longrightarrow> quiet_session (with_own_trx Buffered d body)"
  unfolding with_own_trx_def maybe_begin_own_trx_def maybe_commit_own_trx_def
  by (rule keepsI)
    (auto simp: bind_def ret_def seq_def catch_def modify_def guard_exit_def throw_def skip_def same_rel_def keeps_def
      split: prod.splits result.splits; metis snd_conv)

text \<open>With a context of their own they end idle, if they started idle.\<close>

definition idles :: "(world, unit) prog \<Rightarrow> bool" where
  "idles m \<longleftrightarrow> triple (\<lambda>w. session_of w = Idle) m (\<lambda>_ w. session_of w = Idle) (\<lambda>_ w. session_of w = Idle)"

lemma quiet_idles: "quiet_session m \<Longrightarrow> idles m"
  unfolding idles_def by (rule keeps_triple)

lemma idles_bind:
  assumes "quiet_session m" and "\<And>x. returned m x \<Longrightarrow> idles (f x)"
  shows "idles (bind m f)"
proof -
  have "triple (\<lambda>w. session_of w = Idle) m (\<lambda>x w. session_of w = Idle \<and> returned m x) (\<lambda>_ w. session_of w = Idle)"
  proof (rule tripleI)
    fix w r w' assume w: "session_of w = Idle" "m w = (r, w')"
    with keepsD [OF assms(1) w(2)]
    show "(\<forall>x. r = Ok x \<longrightarrow> session_of w' = Idle \<and> returned m x) \<and> (\<forall>e. r = Throw e \<longrightarrow> session_of w' = Idle)"
      by (auto simp: same_rel_def returned_def)
  qed
  then show ?thesis
    unfolding idles_def
    by (rule triple_bind) (use assms(2) in \<open>auto simp: idles_def triple_def\<close>)
qed

lemma with_own_trx_direct:
  assumes "quiet_session body"
  shows "idles (with_own_trx Direct (dialect_for info) body)"
proof -
  let ?idle = "\<lambda>_ w. session_of w = Idle"
  have start: "triple (\<lambda>w. session_of w = Idle) (for_each (beginStatements (dialect_for info) Iso_serverDefault) exec_sql)
      (\<lambda>_ w. session_of w = Open []) ?idle"
    by (rule begin_statements_triple)
  have undo: "triple (\<lambda>w. session_of w = Open []) (seq (modify (guard_exit True)) (throw e)) (\<lambda>_ w. session_of w = Open []) ?idle" for e
    by (simp add: triple_def seq_def bind_def modify_def throw_def guard_exit_def run_sql_session)
  have run: "triple (\<lambda>w. session_of w = Open []) (catch body (\<lambda>e. seq (modify (guard_exit True)) (throw e)))
      (\<lambda>_ w. session_of w = Open []) ?idle"
    by (rule triple_catch [OF keeps_triple [OF assms] undo])
  have commit: "triple (\<lambda>w. session_of w = Open []) (maybe_commit_own_trx True) ?idle ?idle"
  proof (rule tripleI)
    fix w r w' assume w: "session_of w = Open []" "maybe_commit_own_trx True w = (r, w')"
    obtain res w1 where "run_sql ''COMMIT;'' w = (Ok res, w1)" using run_sql_Ok by (metis prod.collapse)
    with w run_sql_session [of "''COMMIT;''" w] have "session_of w' = Idle"
      by (simp add: maybe_commit_own_trx_def bind_def lift_result_def)
    then show "(\<forall>x. r = Ok x \<longrightarrow> session_of w' = Idle) \<and> (\<forall>e. r = Throw e \<longrightarrow> session_of w' = Idle)" by simp
  qed
  show ?thesis
  proof -
    let ?start = "for_each (beginStatements (dialect_for info) Iso_serverDefault) exec_sql"
    have "with_own_trx Direct (dialect_for info) body
        = seq ?start (seq (catch body (\<lambda>e. seq (modify (guard_exit True)) (throw e))) (maybe_commit_own_trx True))"
      by (rule ext) (simp add: with_own_trx_def maybe_begin_own_trx_def bind_def seq_def ret_def
          split: prod.splits result.splits)
    then show ?thesis
      unfolding idles_def by (simp only:) (rule triple_seq [OF start triple_seq [OF run commit]])
  qed
qed

definition no_custom :: "builder \<Rightarrow> bool" where
  "no_custom b = (case b of B_custom_sql _ _ \<Rightarrow> False | _ \<Rightarrow> True)"

lemma session_SetVariable: "quiet_session (SetVariable_execute specs m ctx)"
proof -
  have "quiet_session (pick specs m info)" for info
    unfolding pick_def Let_def by (intro session_intros session_base)
  moreover have "quiet_session (render_value s info)" for s info
    unfolding render_value_def draw_int64_def Let_def
    by (auto intro!: session_intros session_base split: variable_generator.splits)
  moreover have "plain q" if "build_sql s v m info = Ok sqls" "q \<in> set sqls" for s v info sqls q
    using that by (cases m) (auto simp: build_sql_def split: if_splits)
  ultimately show ?thesis
    unfolding SetVariable_execute_def by (auto intro!: session_intros session_base)
qed

lemma session_create_and_fill: "quiet_session (create_and_fill config qs ty ctx)"
  unfolding create_and_fill_def repeat_execute_def by (intro session_intros session_base)

lemma session_modify_rows:
  assumes "plain sel" and "\<And>ids. plain (f ids)"
  shows "quiet_session (bind (fetch_ids sel) (\<lambda>ids. when_do (P ids) (exec_sql (f ids))))"
  by (intro session_intros session_base assms)

lemma session_select_then:
  assumes "plain_queries qs" and "\<And>sel. plain sel \<Longrightarrow> quiet_session (g sel)"
  shows "quiet_session (bind (pk_select qs ctx info t pk rows lock) g)"
  using assms(2) pk_select_plain [OF assms(1)] by (intro quiet_bind_returned) auto

lemma idles_select_then:
  assumes "plain_queries qs" and "\<And>sel. plain sel \<Longrightarrow> idles (g sel)"
  shows "idles (bind (pk_select qs ctx info t pk rows lock) g)"
  using assms(2) pk_select_plain [OF assms(1)] by (intro idles_bind) auto

lemma select_then_quiet:
  assumes "plain_queries qs"
  shows "quiet_session (SelectThenDelete_execute config qs Buffered)"
    "quiet_session (SelectThenUpdate_execute config qs Buffered)"
  unfolding SelectThenDelete_execute_def SelectThenUpdate_execute_def Let_def
  by (intro session_server session_select_then [OF assms] with_own_trx_buffered session_modify_rows keeps_bind
      session_values session_rows session_world session_random keeps_if keeps_pure preord_same_rel; simp)+

lemma idles_if: "idles m \<Longrightarrow> idles n \<Longrightarrow> idles (if b then m else n)"
  by simp

lemma idles_undef: "idles undef"
  by (intro quiet_idles keeps_pure preord_same_rel)

lemma select_then_idles:
  assumes "plain_queries qs"
  shows "idles (SelectThenDelete_execute config qs Direct)" "idles (SelectThenUpdate_execute config qs Direct)"
  unfolding SelectThenDelete_execute_def SelectThenUpdate_execute_def Let_def
  by (intro idles_select_then [OF assms] with_own_trx_direct session_modify_rows idles_if idles_undef
      idles_bind session_values session_rows session_world session_random; simp)+

lemma plain_action_session:
  assumes "plain_queries qs" and "no_custom b"
  shows "quiet_session (plain_action config qs b Buffered)" "idles (plain_action config qs b Direct)"
proof -
  note quiet = session_ddl session_InsertData session_create_and_fill session_DeleteData [OF assms(1)]
    session_SelectQuery [OF assms(1)] session_SetVariable
  show "quiet_session (plain_action config qs b Buffered)"
    using assms(2) by (cases b) (simp_all add: no_custom_def quiet select_then_quiet [OF assms(1)] keeps_pure)
  show "idles (plain_action config qs b Direct)"
    using assms(2)
    by (cases b) (simp_all add: no_custom_def quiet [THEN quiet_idles] select_then_idles [OF assms(1)] idles_undef)
qed

text \<open>
  The contract between the actions and their source of queries, and what the actions guarantee under it: none of them
  leaves a transaction open. For every factory of the default registry, a worker alone or among others, any answers of
  the server: the action started on an idle session ends with the session idle, whether it returns or throws,
  \<open>TransactionAction\<close> with all of them as sub-actions included; only a lost connection, reported as such, may leave it
  otherwise.
\<close>

locale plain_source =
  fixes qs :: query_source
  assumes plain: "plain_queries qs"
begin

lemma leaves_session_idle:
  assumes idle: "session_of w = Idle"
    and custom: "list_all (\<lambda>f. no_custom (fac_builder f)) registered" "no_custom b"
    and ddl: "transactionalDDL (dialect_for (conn_info (conn w))) \<or>
      tc_mysql_ddl_mode (transaction config) = Mm_exclude"
    and run: "build config qs registered b Direct w = (r, w')"
    and r: "r \<noteq> Undefined" "r \<noteq> Diverges"
  shows "session_of w' = Idle \<or> (\<exists>e. r = Throw e \<and> serverGone e \<and> session_of w' \<noteq> Broken)"
proof (cases "b = B_transaction")
  case True
  have "leaves_session (plain_action config qs) registered"
    using custom(1) plain_action_session(1) [OF plain] by (auto simp: leaves_session_def list_all_iff)
  from transaction_session [OF idle this ddl _ r] run True show ?thesis by (simp add: build_def)
next
  case False
  with run have run: "plain_action config qs b Direct w = (r, w')" by (simp add: build_def)
  have t: "triple (\<lambda>w. session_of w = Idle) (plain_action config qs b Direct)
      (\<lambda>_ w. session_of w = Idle) (\<lambda>_ w. session_of w = Idle)"
    using plain_action_session(2) [OF plain custom(2)] by (simp add: idles_def)
  show ?thesis
  proof (cases r)
    case (Ok x)
    from triple_ok [OF t idle run [unfolded Ok]] show ?thesis by simp
  next
    case (Throw e)
    from triple_throw [OF t idle run [unfolded Throw]] show ?thesis by simp
  qed (use r in simp_all)
qed

end

text \<open>A generator that always answers the same, and a run on a server that refuses the SELECT.\<close>

definition simple_queries :: query_source where
  "simple_queries = \<lparr>dml_predicate_prob = 30, dml_pk_select_prob = 30,
     generatePredicate = (\<lambda>ctx info t n. ret ''TRUE''),
     generatePkSelect = (\<lambda>ctx info t n l. ret (Some (''SELECT id FROM '' @ obj_name t @ '';''))),
     generateSelect = (\<lambda>ctx info. ret (Some ''SELECT 1;'')), real_text = fmt_nat\<rparr>"

definition default_config :: all_config where
  "default_config = \<lparr>ddl = default_ddl_config, dml = default_dml_config, variables = [],
     transaction = default_transaction_config\<rparr>"

definition refuse_second :: "sql_call list \<Rightarrow> sql_call \<Rightarrow> query_result" where
  "refuse_second h c = (if length h = 1 then refuse_all h c else accept_all h c)"

end
