(* ===== verification/Workload.thy ===== *)
theory Workload
  imports Default_Actions
begin

unbundle bit_operations_syntax

text \<open>
  Workers (core/include/workload.hpp, core/src/workload.cpp): the loop that draws an action, runs it,
  records its outcome and reconnects when the server is gone, and the set of workers of a workload.

  A worker's thread is the state \<open>worker\<close>: the world its actions see (the connection and the random
  source are its own, the registry is shared), its statistics, and the locals of the loop. The
  clock is a stream of readings, \<open>ticks\<close> counts those used. What the connector returns on its
  \<open>n\<close>-th call after the start is \<open>connector n\<close>. An exception that leaves the thread function (which
  ends the process) is the result \<open>Throw\<close>. Sleeping and logging are not modelled.
\<close>

section \<open>Parameters and state\<close>

record workload_params =
  actionConfig :: all_config
  duration_in_seconds :: nat
  repeat_times :: nat
  number_of_workers :: nat
  max_reconnect_attempts :: nat
  seed :: "64 word"

record worker =
  wk_world :: world
  stats :: worker_statistics
  ticks :: nat
  connectionAttempts :: nat
  reconnects :: nat

record environment =
  readings :: "nat \<Rightarrow> int"
  connector :: "nat \<Rightarrow> logged_sql result"

text \<open>FNV-1a over the name, started from the seed.\<close>

definition derive_seed :: "64 word \<Rightarrow> string \<Rightarrow> 64 word" where
  "derive_seed s name =
     foldl (\<lambda>h c. (h XOR of_nat (of_char c)) * 1099511628211) (1469598103934665603 XOR s) name"

section \<open>Steps\<close>

definition in_world :: "(world, 'a) prog \<Rightarrow> (worker, 'a) prog" where
  "in_world m = (\<lambda>k. let (r, w) = m (wk_world k) in (r, k\<lparr>wk_world := w\<rparr>))"

definition read_clock :: "environment \<Rightarrow> (worker, int) prog" where
  "read_clock env = (\<lambda>k. (Ok (readings env (ticks k)), k\<lparr>ticks := Suc (ticks k)\<rparr>))"

definition record_stat :: "stat_call \<Rightarrow> (worker, unit) prog" where
  "record_stat c = (\<lambda>k. let (r, s) = worker_call c (stats k) in (r, k\<lparr>stats := s\<rparr>))"

text \<open>A call that reads the clock.\<close>

definition timed_stat :: "environment \<Rightarrow> (int \<Rightarrow> stat_call) \<Rightarrow> (worker, unit) prog" where
  "timed_stat env c = bind (read_clock env) (\<lambda>now. record_stat (c now))"

definition on_conn :: "(logged_sql \<Rightarrow> logged_sql) \<Rightarrow> (worker, unit) prog" where
  "on_conn f = modify (\<lambda>k. k\<lparr>wk_world := (wk_world k)\<lparr>conn := f (conn (wk_world k))\<rparr>\<rparr>)"

definition sql_time :: "worker \<Rightarrow> int" where
  "sql_time k = accumulatedSqlTime (conn (wk_world k))"

definition drainIntoStats :: "(worker, unit) prog" where
  "drainIntoStats =
     bind (gets (\<lambda>k. fst (conn_drainRowObservations (conn (wk_world k))))) (\<lambda>obs.
     seq (on_conn (\<lambda>c. snd (conn_drainRowObservations c)))
     (seq (for_each obs (\<lambda>ob. record_stat (S_recordRows (ro_action ob) (ro_kind ob) (ro_rows ob))))
     (bind (gets (\<lambda>k. fst (conn_drainTransactionOutcomes (conn (wk_world k))))) (\<lambda>txns.
     seq (on_conn (\<lambda>c. snd (conn_drainTransactionOutcomes c)))
     (for_each txns (\<lambda>txn. record_stat (S_recordTransaction txn)))))))"

definition reconnect :: "environment \<Rightarrow> (worker, unit) prog" where
  "reconnect env = (\<lambda>k. let k' = k\<lparr>reconnects := Suc (reconnects k)\<rparr> in
     case connector env (reconnects k) of
       Ok c \<Rightarrow> (Ok (), k'\<lparr>wk_world := (wk_world k')\<lparr>conn := c\<rparr>\<rparr>)
     | Throw e \<Rightarrow> (Throw e, k') | Undefined \<Rightarrow> (Undefined, k') | Diverges \<Rightarrow> (Diverges, k'))"

section \<open>One iteration\<close>

text \<open>
  The three handlers. The result says whether the loop is left by \<open>break\<close>; a statement that throws
  inside a handler is caught by none of them.
\<close>

definition handle_failure :: "workload_params \<Rightarrow> environment \<Rightarrow> string \<Rightarrow> exn \<Rightarrow> (worker, bool) prog" where
  "handle_failure params env name e = (case e of
       Action_Exception errorName msg \<Rightarrow>
         bind (gets sql_time) (\<lambda>sqlTime.
         seq (timed_stat env (\<lambda>now. S_recordActionFailure name errorName now sqlTime)) (ret False))
     | Sql_Exception code msg st cls \<Rightarrow>
         bind (gets sql_time) (\<lambda>sqlTime.
         seq (if cls = Ec_conflict then timed_stat env (\<lambda>now. S_recordConflict name code now sqlTime)
              else timed_stat env (\<lambda>now. S_recordSqlFailure name code now sqlTime))
         (if serverGone e then
            seq (modify (\<lambda>k. k\<lparr>connectionAttempts := connectionAttempts k + 1\<rparr>))
            (bind (gets connectionAttempts) (\<lambda>attempts.
             if attempts \<le> max_reconnect_attempts params
             then seq drainIntoStats (seq (reconnect env) (ret False))
             else seq drainIntoStats (ret True)))
          else ret False))
     | _ \<Rightarrow>
         bind (gets sql_time) (\<lambda>sqlTime.
         seq (timed_stat env (\<lambda>now. S_recordOtherFailure name now sqlTime)) (ret False)))"

definition attempt_action ::
  "workload_params \<Rightarrow> environment \<Rightarrow> string \<Rightarrow> (world, unit) prog \<Rightarrow> (worker, bool) prog" where
  "attempt_action params env name act =
     catch (seq (in_world act)
              (bind (gets sql_time) (\<lambda>sqlTime.
               seq (timed_stat env (\<lambda>now. S_recordSuccess name now sqlTime)) (ret False))))
       (handle_failure params env name)"

definition iteration ::
  "workload_params \<Rightarrow> environment \<Rightarrow> ('b \<Rightarrow> action) \<Rightarrow> 'b action_registry \<Rightarrow> (worker, bool) prog" where
  "iteration params env exec actions =
     bind (in_world (draw 0 (unat (totalWeight actions)))) (\<lambda>w.
     bind (lift_result (lookupByWeightOffset (of_nat w) actions)) (\<lambda>factory.
     let act = exec (fac_builder factory) in
     seq (timed_stat env (S_startAction (fac_name factory)))
     (seq (on_conn conn_resetAccumulatedSqlTime)
     (seq (on_conn (conn_setCurrentAction (fac_name factory)))
     (bind (attempt_action params env (fac_name factory) (act Direct)) (\<lambda>stop.
     if stop then ret True else seq drainIntoStats (ret False)))))))"

section \<open>The loop\<close>

definition elapsed_seconds :: "int \<Rightarrow> int \<Rightarrow> int" where
  "elapsed_seconds start now = sgn (now - start) * (\<bar>now - start\<bar> div 1000000000)"

partial_function (option) worker_loop ::
  "environment \<Rightarrow> int \<Rightarrow> (worker, bool) prog \<Rightarrow> int \<Rightarrow> int \<Rightarrow> worker \<Rightarrow> (unit result \<times> worker) option" where
  "worker_loop env duration body start now k =
     (if elapsed_seconds start now < duration
      then (case body k of
          (Ok stop, k') \<Rightarrow> if stop then Some (Ok (), k')
            else worker_loop env duration body start (readings env (ticks k')) (k'\<lparr>ticks := Suc (ticks k')\<rparr>)
        | (Throw e, k') \<Rightarrow> Some (Throw e, k')
        | (Undefined, k') \<Rightarrow> Some (Undefined, k')
        | (Diverges, k') \<Rightarrow> Some (Diverges, k'))
      else Some (Ok (), k))"

definition thread_function ::
  "workload_params \<Rightarrow> environment \<Rightarrow> ('b \<Rightarrow> action) \<Rightarrow> 'b action_registry \<Rightarrow> (worker, unit) prog" where
  "thread_function params env exec actions =
     seq (modify (\<lambda>k. k\<lparr>connectionAttempts := 0\<rparr>))
     (seq (on_conn conn_clearObservations)
     (bind (read_clock env) (\<lambda>start.
     bind (read_clock env) (\<lambda>now.
     seq (\<lambda>k. case worker_loop env (from_size (duration_in_seconds params))
                  (iteration params env exec actions) start now k of
            None \<Rightarrow> (Diverges, k) | Some rk \<Rightarrow> rk)
     (seq (timed_stat env S_stop)
     (seq (on_conn (conn_setCurrentAction []))
     (on_conn conn_clearObservations)))))))"

text \<open>
  \<open>run_thread\<close>, with the thread it starts run to its end; \<open>joinable\<close>: a thread started before has
  not been joined. The statistics are reset before that is looked at.
\<close>

definition run_thread ::
  "bool \<Rightarrow> workload_params \<Rightarrow> environment \<Rightarrow> ('b \<Rightarrow> action) \<Rightarrow> 'b action_registry \<Rightarrow> (worker, unit) prog" where
  "run_thread joinable params env exec actions =
     seq (timed_stat env S_reset)
     (seq (timed_stat env S_start)
     (if joinable then skip else thread_function params env exec actions))"

section \<open>Other operations of a worker\<close>

definition create_random_tables :: "workload_params \<Rightarrow> nat \<Rightarrow> (world, unit) prog" where
  "create_random_tables params n =
     for_each [0..<n] (\<lambda>_. CreateTable_execute (ddl (actionConfig params)) TT_normal None Direct)"

definition reset_metadata :: "(world, unit) prog" where
  "reset_metadata = seq interfere (modify (\<lambda>w. w\<lparr>registry := registry_reset (registry w)\<rparr>))"

definition normalized_metadata :: "(world, normalized_table list) prog" where
  "normalized_metadata = seq interfere (\<lambda>w. (normalize (registry w), w))"

text \<open>\<open>discover\<close>: what \<open>discover_existing_schema\<close> does to the metadata. The dump files are not modelled.\<close>

definition validate_metadata :: "(world, unit) prog \<Rightarrow> (world, bool) prog" where
  "validate_metadata discover = catch
     (bind normalized_metadata (\<lambda>original.
      seq (seq interfere (\<lambda>w. (res_bind (debug_dump_registry (registry w)) (\<lambda>_. Ok ()), w)))
      (seq reset_metadata
      (seq discover
      (bind normalized_metadata (\<lambda>found. ret (original = found)))))))
     (\<lambda>e. ret False)"

section \<open>Workloads\<close>

text \<open>The names and seeds of the workers a workload starts with; a seed of 0 asks for entropy.\<close>

definition worker_names :: "workload_params \<Rightarrow> string list" where
  "worker_names params = (if repeat_times params = 0 then []
     else map (\<lambda>idx. ''Worker '' @ fmt_nat (idx + 1)) [0..<number_of_workers params])"

definition worker_seed :: "workload_params \<Rightarrow> string \<Rightarrow> 64 word option" where
  "worker_seed params name = (if seed params = 0 then None else Some (derive_seed (seed params) name))"

definition workload_worker :: "nat \<Rightarrow> 'w list \<Rightarrow> 'w result" where
  "workload_worker idx workers = (if idx = 0 \<or> idx > length workers
     then Throw (Runtime_error (''No such worker '' @ fmt_nat idx @ '', maximum is '' @ fmt_nat (length workers)))
     else Ok (workers ! (idx - 1)))"

section \<open>Accounting\<close>

definition total :: "worker \<Rightarrow> counter" where
  "total k = getTotalActionCount (stats k)"

definition successes :: "worker \<Rightarrow> counter" where
  "successes k = getTotalSuccessCount (stats k)"

definition transactions :: "worker \<Rightarrow> counter" where
  "transactions k = txn_stats_total (txnStats (stats k))"

definition accounted :: "counter \<Rightarrow> counter \<Rightarrow> counter \<Rightarrow> worker \<Rightarrow> worker \<Rightarrow> bool" where
  "accounted a s t k k' \<longleftrightarrow> total k' = total k + a \<and> successes k' = successes k + s \<and>
     transactions k' = transactions k + t"

text \<open>What the statistics calls leave of the rest of the worker.\<close>

definition same_rest :: "worker \<Rightarrow> worker \<Rightarrow> bool" where
  "same_rest k k' \<longleftrightarrow> wk_world k' = wk_world k \<and> connectionAttempts k' = connectionAttempts k \<and>
     reconnects k' = reconnects k"

definition started :: "string \<Rightarrow> worker \<Rightarrow> bool" where
  "started n k \<longleftrightarrow> startTime (stats_for n (stats k)) \<noteq> 0"

definition observations :: "worker \<Rightarrow> row_observation list \<times> transaction_outcome list" where
  "observations k = (rowObservations (conn (wk_world k)), txnOutcomes (conn (wk_world k)))"

lemma getTotalSuccessCount_put:
  "getTotalSuccessCount (put_stats n s w) =
     getTotalSuccessCount w - successCount (stats_for n w) + successCount s"
  using sum_AList_update [of successCount n s "actionStats w"]
  by (simp add: total_counts put_stats_def stats_for_def action_stats_new_def split: option.splits)

lemma txnStats_put [simp]: "txnStats (put_stats n s w) = txnStats w"
  by (simp add: put_stats_def)

lemma stats_for_put [simp]: "stats_for n (put_stats n s w) = s"
  by (simp add: stats_for_def put_stats_def update_conv')

fun success_call :: "stat_call \<Rightarrow> bool" where
  "success_call (S_recordSuccess _ _ _) = True"
| "success_call _ = False"

lemma outcome_recorded:
  assumes "outcome_call c = Some n" and "startTime (stats_for n w) \<noteq> 0"
  shows "\<exists>w'. worker_call c w = (Ok (), w') \<and> getTotalActionCount w' = getTotalActionCount w + 1 \<and>
    getTotalSuccessCount w' = getTotalSuccessCount w + (if success_call c then 1 else 0) \<and> txnStats w' = txnStats w"
  using assms
  by (cases c)
    (auto simp: on_action_def Let_def action_record_defs calculateExecutionTime_def
      getTotalActionCount_put getTotalSuccessCount_put record_times_def action_getTotalCount_def)

lemma timed_outcome:
  assumes "\<And>now. outcome_call (c now) = Some n" and "\<And>now. success_call (c now) = b" and "started n k"
  shows "\<exists>k'. timed_stat env c k = (Ok (), k') \<and> accounted 1 (if b then 1 else 0) 0 k k' \<and> same_rest k k'"
proof -
  let ?c = "c (readings env (ticks k))"
  have s: "startTime (stats_for n (stats k)) \<noteq> 0" using assms(3) by (simp add: started_def)
  from outcome_recorded [OF assms(1) s, of "readings env (ticks k)"] assms(2) obtain w' where
    "worker_call ?c (stats k) = (Ok (), w')" "getTotalActionCount w' = getTotalActionCount (stats k) + 1"
    "getTotalSuccessCount w' = getTotalSuccessCount (stats k) + (if b then 1 else 0)" "txnStats w' = txnStats (stats k)"
    by auto
  then show ?thesis
    by (simp add: timed_stat_def read_clock_def record_stat_def bind_def accounted_def same_rest_def
        total_def successes_def transactions_def)
qed

lemma timed_start:
  assumes "readings env (ticks k) \<noteq> 0"
  shows "\<exists>k'. timed_stat env (S_startAction n) k = (Ok (), k') \<and> accounted 0 0 0 k k' \<and> same_rest k k' \<and> started n k'"
  using assms
  by (simp add: timed_stat_def read_clock_def record_stat_def bind_def on_action_def Let_def accounted_def
      same_rest_def total_def successes_def transactions_def started_def action_start_def
      getTotalActionCount_put getTotalSuccessCount_put action_getTotalCount_def)

lemma record_rows_loop:
  "\<exists>k'. for_each obs (\<lambda>ob. record_stat (S_recordRows (ro_action ob) (ro_kind ob) (ro_rows ob))) k = (Ok (), k') \<and>
     accounted 0 0 0 k k' \<and> same_rest k k'"
proof (induction obs arbitrary: k)
  case (Cons ob obs)
  let ?r = "record_stat (S_recordRows (ro_action ob) (ro_kind ob) (ro_rows ob)) k"
  obtain k1 where k1: "?r = (Ok (), k1)" "accounted 0 0 0 k k1" "same_rest k k1"
    by (simp add: record_stat_def on_action_def Let_def accounted_def same_rest_def total_def successes_def
        transactions_def getTotalActionCount_put getTotalSuccessCount_put action_recordRows_def
        action_getTotalCount_def)
  obtain k2 where "for_each obs (\<lambda>ob. record_stat (S_recordRows (ro_action ob) (ro_kind ob) (ro_rows ob))) k1 = (Ok (), k2)"
    "accounted 0 0 0 k1 k2" "same_rest k1 k2"
    using Cons by blast
  with k1 show ?case by (auto simp: seq_def bind_def accounted_def same_rest_def)
qed (simp add: skip_def ret_def accounted_def same_rest_def)

lemma record_transactions_loop:
  "\<exists>k'. for_each txns (\<lambda>txn. record_stat (S_recordTransaction txn)) k = (Ok (), k') \<and>
     accounted 0 0 (of_nat (length txns)) k k' \<and> same_rest k k'"
proof (induction txns arbitrary: k)
  case (Cons txn txns)
  have "txn_stats_total (txn_stats_record txn s) = txn_stats_total s + 1" for s
    by (cases "out_end txn") (simp_all add: txn_stats_total_def txn_stats_record_def Let_def)
  then obtain k1 where k1: "record_stat (S_recordTransaction txn) k = (Ok (), k1)" "accounted 0 0 1 k k1" "same_rest k k1"
    by (simp add: record_stat_def modify_def accounted_def same_rest_def total_def successes_def
        transactions_def total_counts)
  obtain k2 where "for_each txns (\<lambda>txn. record_stat (S_recordTransaction txn)) k1 = (Ok (), k2)"
    "accounted 0 0 (of_nat (length txns)) k1 k2" "same_rest k1 k2"
    using Cons by blast
  with k1 show ?case by (auto simp: seq_def bind_def accounted_def same_rest_def algebra_simps)
qed (simp add: skip_def ret_def accounted_def same_rest_def)

lemma drain_accounts:
  "\<exists>k'. drainIntoStats k = (Ok (), k') \<and> accounted 0 0 (of_nat (length (snd (observations k)))) k k' \<and>
     wk_world k' = (wk_world k)\<lparr>conn := conn_clearObservations (conn (wk_world k))\<rparr> \<and>
     connectionAttempts k' = connectionAttempts k \<and> reconnects k' = reconnects k"
proof -
  let ?c = "conn (wk_world k)"
  let ?k1 = "k\<lparr>wk_world := (wk_world k)\<lparr>conn := ?c\<lparr>rowObservations := []\<rparr>\<rparr>\<rparr>"
  obtain k2 where k2: "for_each (rowObservations ?c)
      (\<lambda>ob. record_stat (S_recordRows (ro_action ob) (ro_kind ob) (ro_rows ob))) ?k1 = (Ok (), k2)"
    "accounted 0 0 0 ?k1 k2" "same_rest ?k1 k2" using record_rows_loop by blast
  let ?k3 = "k2\<lparr>wk_world := (wk_world k2)\<lparr>conn := (conn (wk_world k2))\<lparr>txnOutcomes := []\<rparr>\<rparr>\<rparr>"
  obtain k4 where k4: "for_each (txnOutcomes ?c) (\<lambda>txn. record_stat (S_recordTransaction txn)) ?k3 = (Ok (), k4)"
    "accounted 0 0 (of_nat (length (txnOutcomes ?c))) ?k3 k4" "same_rest ?k3 k4"
    using record_transactions_loop by blast
  have "drainIntoStats k = (Ok (), k4)"
    using k2 k4 by (simp add: drainIntoStats_def bind_def gets_def seq_def on_conn_def modify_def
        conn_drainRowObservations_def conn_drainTransactionOutcomes_def same_rest_def)
  moreover have "accounted 0 0 (of_nat (length (snd (observations k)))) k k4"
    using k2(2) k4(2) by (simp add: accounted_def total_def successes_def transactions_def observations_def)
  ultimately show ?thesis
    using k2(3) k4(3) by (simp add: same_rest_def conn_clearObservations_def)
qed

lemma accounted_trans:
  "accounted a s t k k' \<Longrightarrow> accounted a' s' t' k' k'' \<Longrightarrow> accounted (a + a') (s + s') (t + t') k k''"
  by (simp add: accounted_def algebra_simps)

lemma accounted_same_stats: "stats k' = stats k \<Longrightarrow> accounted a s t k' k'' = accounted a s t k k''"
  by (simp add: accounted_def total_def successes_def transactions_def)

definition fresh_connections :: "environment \<Rightarrow> bool" where
  "fresh_connections env \<longleftrightarrow> (\<forall>n c. connector env n = Ok c \<longrightarrow> rowObservations c = [] \<and> txnOutcomes c = [])"

text \<open>
  A failure is recorded once; if the handler comes back, either the loop goes on with the observations
  still to be drained, or they have been drained.
\<close>

lemma handle_failure_accounts:
  assumes "started n k" and "fresh_connections env" and run: "handle_failure params env n e k = (Ok stop, k')"
  shows "\<exists>t. accounted 1 0 t k k' \<and>
    (t = 0 \<and> observations k' = observations k \<and> \<not> stop \<or>
     t = of_nat (length (snd (observations k))) \<and> observations k' = ([], []))"
proof -
  note timed = timed_outcome [OF _ _ assms(1), where env = env and b = False]
  show ?thesis
  proof (cases e)
    case (Action_Exception en msg)
    with timed [of "\<lambda>now. S_recordActionFailure n en now (sql_time k)"] run show ?thesis
      by (auto simp: handle_failure_def bind_def gets_def seq_def ret_def same_rest_def observations_def)
  next
    case (Sql_Exception code msg st cls)
    obtain k1 where k1: "(if cls = Ec_conflict then timed_stat env (\<lambda>now. S_recordConflict n code now (sql_time k))
              else timed_stat env (\<lambda>now. S_recordSqlFailure n code now (sql_time k))) k = (Ok (), k1)"
      "accounted 1 0 0 k k1" "same_rest k k1"
      using timed [of "\<lambda>now. S_recordConflict n code now (sql_time k)"]
        timed [of "\<lambda>now. S_recordSqlFailure n code now (sql_time k)"] by (cases "cls = Ec_conflict") auto
    show ?thesis
    proof (cases "serverGone e")
      case False
      with Sql_Exception k1 run show ?thesis
        by (auto simp: handle_failure_def bind_def gets_def seq_def ret_def same_rest_def observations_def
            split: if_splits)
    next
      case True
      let ?k2 = "k1\<lparr>connectionAttempts := connectionAttempts k1 + 1\<rparr>"
      obtain k3 where k3: "drainIntoStats ?k2 = (Ok (), k3)"
        "accounted 0 0 (of_nat (length (snd (observations ?k2)))) ?k2 k3"
        "wk_world k3 = (wk_world ?k2)\<lparr>conn := conn_clearObservations (conn (wk_world ?k2))\<rparr>"
        using drain_accounts by blast
      have o: "observations ?k2 = observations k" using k1(3) by (simp add: observations_def same_rest_def)
      have "accounted 0 0 (of_nat (length (snd (observations k)))) k1 k3"
        using k3(2) o by (simp add: accounted_def total_def successes_def transactions_def)
      from accounted_trans [OF k1(2) this] have a: "accounted 1 0 (of_nat (length (snd (observations k)))) k k3"
        by simp
      have c: "observations k3 = ([], [])" using k3(3) by (simp add: observations_def conn_clearObservations_def)
      have "(if connectionAttempts ?k2 \<le> max_reconnect_attempts params
          then seq (reconnect env) (ret False) else ret True) k3 = (Ok stop, k')"
        using run Sql_Exception True k1(1) k3(1)
        by (auto simp: handle_failure_def bind_def gets_def seq_def modify_def split: if_splits)
      then have "accounted 1 0 (of_nat (length (snd (observations k)))) k k' \<and> observations k' = ([], [])"
        using a c assms(2)
        by (auto simp: seq_def bind_def reconnect_def ret_def Let_def fresh_connections_def observations_def
            accounted_def total_def successes_def transactions_def split: if_splits result.splits)
      then show ?thesis by blast
    qed
  qed (use timed [of "\<lambda>now. S_recordOtherFailure n now (sql_time k)"] run in
      \<open>auto simp: handle_failure_def bind_def gets_def seq_def ret_def same_rest_def observations_def\<close>)
qed

lemma attempt_action_accounts:
  assumes st: "started n k" and fresh: "fresh_connections env"
    and act: "act (wk_world k) = (r, w1)" and run: "attempt_action params env n act k = (Ok stop, k')"
  shows "\<exists>t. accounted 1 (if r = Ok () then 1 else 0) t k k' \<and>
    (t = 0 \<and> snd (observations k') = txnOutcomes (conn w1) \<and> \<not> stop \<or>
     t = of_nat (length (txnOutcomes (conn w1))) \<and> observations k' = ([], []))"
proof -
  let ?k1 = "k\<lparr>wk_world := w1\<rparr>"
  have s1: "started n ?k1" using st by (simp add: started_def)
  have in_w: "in_world act k = (r, ?k1)" using act by (simp add: in_world_def)
  show ?thesis
  proof (cases r)
    case (Ok x)
    from timed_outcome [OF _ _ s1, of "\<lambda>now. S_recordSuccess n now (sql_time ?k1)" True env] in_w Ok run
    show ?thesis
      by (auto simp: attempt_action_def catch_def seq_def bind_def gets_def ret_def accounted_same_stats [of ?k1 k]
          same_rest_def observations_def)
  next
    case (Throw e)
    with in_w run have "handle_failure params env n e ?k1 = (Ok stop, k')"
      by (simp add: attempt_action_def catch_def seq_def bind_def)
    from handle_failure_accounts [OF s1 fresh this] Throw show ?thesis
      by (auto simp: accounted_same_stats [of ?k1 k] observations_def)
  qed (use in_w run in \<open>simp_all add: attempt_action_def catch_def seq_def bind_def\<close>)
qed

lemma bind_OkE:
  assumes "bind m f s = (Ok x, s')"
  obtains y s1 where "m s = (Ok y, s1)" "f y s1 = (Ok x, s')"
  using assms by (auto simp: bind_def split: prod.splits result.splits)

lemma bind_Ok: "m s = (Ok x, s1) \<Longrightarrow> bind m f s = f x s1"
  by (simp add: bind_def)

lemma seq_Ok: "m s = (Ok x, s1) \<Longrightarrow> seq m m' s = m' s1"
  by (simp add: seq_def bind_def)

lemma bind_lift_Ok: "bind (lift_result (Ok x)) f s = f x s"
  by (simp add: bind_def lift_result_def)

lemma seq_on_conn: "seq (on_conn f) m k = m (k\<lparr>wk_world := (wk_world k)\<lparr>conn := f (conn (wk_world k))\<rparr>\<rparr>)"
  by (simp add: on_conn_def modify_def seq_def bind_def)

lemma iteration_accounts:
  assumes clock: "readings env (ticks k) \<noteq> 0" and fresh: "fresh_connections env"
    and clean: "observations k = ([], [])"
    and run: "iteration params env exec actions k = (Ok stop, k')"
  shows "\<exists>f \<in> set actions. \<exists>w0 r w1. exec (fac_builder f) Direct w0 = (r, w1) \<and>
    txnOutcomes (conn w0) = [] \<and> currentAction (conn w0) = fac_name f \<and> registry w0 = registry (wk_world k) \<and>
    accounted 1 (if r = Ok () then 1 else 0) (of_nat (length (txnOutcomes (conn w1)))) k k' \<and>
    observations k' = ([], [])"
proof -
  from run obtain u k1 where k1: "in_world (draw 0 (unat (totalWeight actions))) k = (Ok u, k1)"
    and run1: "bind (lift_result (lookupByWeightOffset (of_nat u) actions)) (\<lambda>factory.
      let act = exec (fac_builder factory) in
      seq (timed_stat env (S_startAction (fac_name factory)))
      (seq (on_conn conn_resetAccumulatedSqlTime)
      (seq (on_conn (conn_setCurrentAction (fac_name factory)))
      (bind (attempt_action params env (fac_name factory) (act Direct)) (\<lambda>stop.
      if stop then ret True else seq drainIntoStats (ret False)))))) k1 = (Ok stop, k')"
    unfolding iteration_def by (rule bind_OkE)
  have same1: "conn (wk_world k1) = conn (wk_world k)" "registry (wk_world k1) = registry (wk_world k)"
    "stats k1 = stats k" "ticks k1 = ticks k"
    using k1 by (auto simp: in_world_def draw_def in_rng_def Let_def split: prod.splits)
  from run1 obtain f where f: "lookupByWeightOffset (of_nat u) actions = Ok f"
    by (auto simp: bind_def lift_result_def split: result.splits)
  obtain k2 where k2: "timed_stat env (S_startAction (fac_name f)) k1 = (Ok (), k2)"
    "accounted 0 0 0 k1 k2" "same_rest k1 k2" "started (fac_name f) k2"
    using timed_start [of env k1] clock same1(4) by auto
  let ?c = "conn_setCurrentAction (fac_name f) (conn_resetAccumulatedSqlTime (conn (wk_world k2)))"
  let ?k3 = "k2\<lparr>wk_world := (wk_world k2)\<lparr>conn := ?c\<rparr>\<rparr>"
  from run1 f k2(1) have run3: "bind (attempt_action params env (fac_name f) (exec (fac_builder f) Direct))
      (\<lambda>stop. if stop then ret True else seq drainIntoStats (ret False)) ?k3 = (Ok stop, k')"
    by (simp add: bind_lift_Ok seq_on_conn
        seq_Ok [where m = "timed_stat env (S_startAction (fac_name f))" and s = k1, OF k2(1)])
  then obtain stop4 k4 where k4: "attempt_action params env (fac_name f) (exec (fac_builder f) Direct) ?k3 = (Ok stop4, k4)"
    "(if stop4 then ret True else seq drainIntoStats (ret False)) k4 = (Ok stop, k')" by (rule bind_OkE)
  obtain r w1 where act: "exec (fac_builder f) Direct (wk_world ?k3) = (r, w1)" by fastforce
  have "started (fac_name f) ?k3" using k2(4) by (simp add: started_def)
  from attempt_action_accounts [OF this fresh act k4(1)] obtain t where
    t: "accounted 1 (if r = Ok () then 1 else 0) t ?k3 k4"
      "t = 0 \<and> snd (observations k4) = txnOutcomes (conn w1) \<and> \<not> stop4 \<or>
       t = of_nat (length (txnOutcomes (conn w1))) \<and> observations k4 = ([], [])" by blast
  have "accounted 1 (if r = Ok () then 1 else 0) t k2 k4"
    using t(1) by (simp add: accounted_same_stats [of ?k3 k2])
  from accounted_trans [OF k2(2) this] have t1: "accounted 1 (if r = Ok () then 1 else 0) t k k4"
    using accounted_same_stats [OF same1(3)] by simp
  have "accounted 1 (if r = Ok () then 1 else 0) (of_nat (length (txnOutcomes (conn w1)))) k k' \<and>
    observations k' = ([], [])"
  proof (cases stop4)
    case True
    with t(2) t1 k4(2) show ?thesis by (auto simp: ret_def)
  next
    case False
    obtain k5 where k5: "drainIntoStats k4 = (Ok (), k5)"
      "accounted 0 0 (of_nat (length (snd (observations k4)))) k4 k5"
      "wk_world k5 = (wk_world k4)\<lparr>conn := conn_clearObservations (conn (wk_world k4))\<rparr>"
      using drain_accounts by blast
    from False k4(2) k5(1) have "k' = k5" by (simp add: seq_def bind_def ret_def)
    moreover from accounted_trans [OF t1 k5(2)] t(2)
    have "accounted 1 (if r = Ok () then 1 else 0) (of_nat (length (txnOutcomes (conn w1)))) k k5" by auto
    ultimately show ?thesis using k5(3) by (simp add: observations_def conn_clearObservations_def)
  qed
  moreover have "txnOutcomes (conn (wk_world ?k3)) = []" "registry (wk_world ?k3) = registry (wk_world k)"
    "currentAction (conn (wk_world ?k3)) = fac_name f"
    using clean same1 k2(3)
    by (simp_all add: same_rest_def observations_def conn_setCurrentAction_def conn_resetAccumulatedSqlTime_def)
  ultimately show ?thesis using act lookup_mem [OF f] by blast
qed


section \<open>What the loop keeps\<close>

text \<open>\<open>terminates m\<close>: \<open>m\<close> comes back from every state, by a return, an exception or undefined behaviour.\<close>

definition terminates :: "('s, 'a) prog \<Rightarrow> bool" where
  "terminates m \<longleftrightarrow> (\<forall>s. fst (m s) \<noteq> Diverges)"

named_theorems terminates_intros "rules that establish terminates"

lemma terminatesD: "terminates m \<Longrightarrow> m s = (r, s') \<Longrightarrow> r \<noteq> Diverges"
  by (metis terminates_def fst_conv)

lemma terminates_basic [terminates_intros]:
  "terminates (ret x)" "terminates skip" "terminates (gets f)" "terminates (modify g)"
  by (simp_all add: terminates_def ret_def skip_def gets_def modify_def)

lemma terminates_lift [terminates_intros]: "r \<noteq> Diverges \<Longrightarrow> terminates (lift_result r)"
  by (simp add: terminates_def lift_result_def)

lemma terminates_bind [terminates_intros]:
  assumes "terminates m" and "\<And>x. terminates (f x)"
  shows "terminates (bind m f)"
  unfolding terminates_def
proof
  fix s
  obtain r s1 where m: "m s = (r, s1)" by fastforce
  with terminatesD [OF assms(1) m] assms(2) show "fst (bind m f s) \<noteq> Diverges"
    by (cases r) (auto simp: bind_def terminates_def)
qed

lemma terminates_seq [terminates_intros]: "terminates m \<Longrightarrow> terminates m' \<Longrightarrow> terminates (seq m m')"
  unfolding seq_def by (rule terminates_bind)

lemma terminates_catch [terminates_intros]:
  assumes "terminates m" and "\<And>e. terminates (h e)"
  shows "terminates (catch m h)"
  unfolding terminates_def
proof
  fix s
  obtain r s1 where m: "m s = (r, s1)" by fastforce
  with terminatesD [OF assms(1) m] assms(2) show "fst (catch m h s) \<noteq> Diverges"
    by (cases r) (auto simp: catch_def terminates_def)
qed

lemma terminates_for_each [terminates_intros]:
  "(\<And>x. x \<in> set xs \<Longrightarrow> terminates (f x)) \<Longrightarrow> terminates (for_each xs f)"
  by (induction xs) (auto intro!: terminates_intros)

lemma terminates_if [terminates_intros]:
  "(b \<Longrightarrow> terminates m) \<Longrightarrow> (\<not> b \<Longrightarrow> terminates m') \<Longrightarrow> terminates (if b then m else m')"
  by simp

lemma terminates_let [terminates_intros]: "terminates (f x) \<Longrightarrow> terminates (let y = x in f y)"
  by simp

lemma terminates_in_world [terminates_intros]: "terminates m \<Longrightarrow> terminates (in_world m)"
  by (simp add: terminates_def in_world_def split_beta)

lemma terminates_draw [terminates_intros]: "terminates (draw lo hi)"
  by (simp add: terminates_def draw_def in_rng_def random_number_def split_beta)

lemma terminates_record_stat [terminates_intros]: "terminates (record_stat c)"
  by (cases c) (auto simp: terminates_def record_stat_def split_beta on_action_def Let_def modify_def
      action_record_defs calculateExecutionTime_def split: option.splits result.splits)

lemma terminates_clock [terminates_intros]: "terminates (read_clock env)" "terminates (timed_stat env c)"
  by (auto simp: timed_stat_def intro!: terminates_intros) (simp_all add: terminates_def read_clock_def)

lemma terminates_on_conn [terminates_intros]: "terminates (on_conn f)"
  by (simp add: on_conn_def terminates_intros)

lemma terminates_drain [terminates_intros]: "terminates drainIntoStats"
  unfolding drainIntoStats_def by (intro terminates_intros)

text \<open>The statements of an iteration that touch neither the clock backwards nor the reconnection counters.\<close>

definition ticks_grow :: "worker \<Rightarrow> worker \<Rightarrow> bool" where
  "ticks_grow k k' \<longleftrightarrow> ticks k \<le> ticks k'"

lemma preord_ticks_grow [keeps_intros, simp]: "preord ticks_grow"
  by (auto simp: preord_def ticks_grow_def reflp_def transp_def)

definition counters :: "worker \<Rightarrow> nat \<times> nat" where
  "counters k = (connectionAttempts k, reconnects k)"

lemma keeps_in_world [keeps_intros]: "(\<And>k w. R k (k\<lparr>wk_world := w\<rparr>)) \<Longrightarrow> keeps R (in_world m)"
  by (simp add: keeps_def in_world_def split_beta)

lemma keeps_on_conn [keeps_intros]: "(\<And>k w. R k (k\<lparr>wk_world := w\<rparr>)) \<Longrightarrow> keeps R (on_conn f)"
  by (simp add: keeps_def on_conn_def modify_def)

lemma keeps_record_stat [keeps_intros]: "(\<And>k s. R k (k\<lparr>stats := s\<rparr>)) \<Longrightarrow> keeps R (record_stat c)"
  by (simp add: keeps_def record_stat_def split_beta)

lemma keeps_timed_stat [keeps_intros]:
  assumes "preord R" and "\<And>k s. R k (k\<lparr>stats := s\<rparr>)" and "\<And>k. R k (k\<lparr>ticks := Suc (ticks k)\<rparr>)"
  shows "keeps R (timed_stat env c)"
  unfolding timed_stat_def
  by (intro keeps_intros assms) (simp add: keeps_def read_clock_def assms(3))

lemma keeps_drain [keeps_intros]:
  assumes "preord R" and "\<And>k w. R k (k\<lparr>wk_world := w\<rparr>)" and "\<And>k s. R k (k\<lparr>stats := s\<rparr>)"
  shows "keeps R drainIntoStats"
  unfolding drainIntoStats_def by (intro keeps_intros assms)

lemma iteration_ticks_grow: "keeps ticks_grow (iteration params env exec actions)"
proof -
  have f: "ticks_grow k (k\<lparr>wk_world := w\<rparr>)" "ticks_grow k (k\<lparr>stats := s\<rparr>)"
    "ticks_grow k (k\<lparr>ticks := Suc (ticks k)\<rparr>)" "ticks_grow k (k\<lparr>connectionAttempts := a\<rparr>)" for k w s a
    by (simp_all add: ticks_grow_def)
  have "keeps ticks_grow (reconnect env)"
    by (simp add: keeps_def reconnect_def ticks_grow_def Let_def split: result.splits)
  then have "keeps ticks_grow (handle_failure params env n e)" for n e
    unfolding handle_failure_def by (cases e) (auto intro!: keeps_intros f)
  then show ?thesis
    unfolding iteration_def attempt_action_def by (intro keeps_intros f)
qed

lemma terminates_iteration:
  assumes "\<And>b. terminates (exec b Direct)" and "\<And>n. connector env n \<noteq> Diverges"
  shows "terminates (iteration params env exec actions)"
proof -
  have "terminates (reconnect env)"
    using assms(2) by (auto simp: terminates_def reconnect_def Let_def split: result.splits)
  then have "terminates (handle_failure params env n e)" for n e
    unfolding handle_failure_def by (cases e) (auto intro!: terminates_intros)
  moreover have "lookupByWeightOffset u actions \<noteq> Diverges" for u
    by (simp add: lookupByWeightOffset_def split: option.splits)
  ultimately show ?thesis
    unfolding iteration_def attempt_action_def by (intro terminates_intros assms(1))
qed

lemma worker_loop_ends:
  assumes body: "terminates body" "keeps ticks_grow body"
    and late: "\<And>n. N \<le> n \<Longrightarrow> duration \<le> elapsed_seconds start (readings env n)"
    and now: "now = readings env m" "m < ticks k"
  shows "\<exists>r k'. worker_loop env duration body start now k = Some (r, k') \<and> r \<noteq> Diverges"
  using now
proof (induction "N - m" arbitrary: m now k rule: less_induct)
  case less
  show ?case
  proof (cases "elapsed_seconds start now < duration")
    case False
    then show ?thesis by (subst worker_loop.simps) simp
  next
    case True
    with late [of m] less.prems(1) have m: "m < N" by force
    obtain r k1 where b: "body k = (r, k1)" by fastforce
    have r: "r \<noteq> Diverges" using terminatesD [OF body(1) b] .
    have "ticks k \<le> ticks k1" using keepsD [OF body(2) b] by (simp add: ticks_grow_def)
    with m less.prems(2) have "N - ticks k1 < N - m" by simp
    from less.hyps [OF this refl, of "k1\<lparr>ticks := Suc (ticks k1)\<rparr>"] True b r show ?thesis
      by (subst worker_loop.simps) (cases r; simp)
  qed
qed


lemma thread_function_ends:
  assumes exec: "\<And>b. terminates (exec b Direct)" and conn: "\<And>n. connector env n \<noteq> Diverges"
    and late: "\<And>n. N \<le> n \<Longrightarrow>
      from_size (duration_in_seconds params) \<le> elapsed_seconds (readings env (ticks k)) (readings env n)"
  shows "fst (thread_function params env exec actions k) \<noteq> Diverges"
proof -
  let ?body = "iteration params env exec actions"
  let ?c = "conn_clearObservations (conn (wk_world k))"
  let ?k1 = "k\<lparr>connectionAttempts := 0, wk_world := (wk_world k)\<lparr>conn := ?c\<rparr>, ticks := Suc (Suc (ticks k))\<rparr>"
  have body: "terminates ?body" using exec conn by (rule terminates_iteration)
  obtain r k2 where loop: "worker_loop env (from_size (duration_in_seconds params)) ?body
      (readings env (ticks k)) (readings env (Suc (ticks k))) ?k1 = Some (r, k2)" and r: "r \<noteq> Diverges"
    using worker_loop_ends [OF body iteration_ticks_grow late refl, where N = N and m = "Suc (ticks k)" and k = ?k1] by auto
  let ?fin = "seq (timed_stat env S_stop)
     (seq (on_conn (conn_setCurrentAction [])) (on_conn conn_clearObservations))"
  have "thread_function params env exec actions k = seq (\<lambda>_. (r, k2)) ?fin ?k1"
    using loop by (simp add: thread_function_def seq_def bind_def modify_def on_conn_def read_clock_def)
  moreover have "terminates ?fin" by (intro terminates_intros)
  ultimately show ?thesis
    using r by (cases r) (simp_all add: seq_def bind_def terminates_def)
qed

lemma thread_function_leaves_clean:
  assumes "thread_function params env exec actions k = (Ok (), k')"
  shows "currentAction (conn (wk_world k')) = [] \<and> observations k' = ([], [])"
  using assms unfolding thread_function_def seq_def
  by (elim bind_OkE) (auto simp: on_conn_def modify_def observations_def conn_setCurrentAction_def
    conn_clearObservations_def)

section \<open>Reconnecting\<close>

definition reconnects_within :: "nat \<Rightarrow> nat \<Rightarrow> worker \<Rightarrow> bool" where
  "reconnects_within m n k \<longleftrightarrow> reconnects k \<le> n + connectionAttempts k \<and> reconnects k \<le> n + m"

lemma reconnects_within_upd [simp]:
  "reconnects_within m n (k\<lparr>wk_world := w\<rparr>) = reconnects_within m n k"
  "reconnects_within m n (k\<lparr>stats := s\<rparr>) = reconnects_within m n k"
  "reconnects_within m n (k\<lparr>ticks := t\<rparr>) = reconnects_within m n k"
  by (simp_all add: reconnects_within_def)

lemma within_counters: "counters k' = counters k \<Longrightarrow> reconnects_within m n k' = reconnects_within m n k"
  by (simp add: counters_def reconnects_within_def)

lemma wp_same:
  assumes "keeps (same_rel f) m" and "\<And>r s'. f s' = f s \<Longrightarrow> Q r s'"
  shows "wp m Q s"
proof (rule wpI)
  fix r s' assume "m s = (r, s')"
  with assms(1) have "same_rel f s s'" by (rule keepsD)
  then show "Q r s'" by (intro assms(2)) (simp add: same_rel_def)
qed

lemma same_counters [keeps_intros]:
  "keeps (same_rel counters) (timed_stat env c)" "keeps (same_rel counters) drainIntoStats"
  "keeps (same_rel counters) (in_world m)" "keeps (same_rel counters) (on_conn f)"
  by (intro keeps_intros; simp add: same_rel_def counters_def)+

lemma wp_keeps_within:
  assumes "reconnects_within m n k" and "keeps (same_rel counters) p"
    and "\<And>x k'. reconnects_within m n k' \<Longrightarrow> P x k'"
  shows "wp p (on_ok P (\<lambda>_. reconnects_within m n)) k"
proof (rule wp_same [OF assms(2)])
  fix r k' assume "counters k' = counters k"
  from within_counters [OF this] assms(1) have "reconnects_within m n k'" by simp
  with assms(3) show "on_ok P (\<lambda>_. reconnects_within m n) r k'" by (cases r) simp_all
qed

lemma handle_failure_within:
  "keeps (inv_rel (reconnects_within (max_reconnect_attempts params) n)) (handle_failure params env a e)"
  unfolding keeps_wp
proof
  fix k
  let ?I = "reconnects_within (max_reconnect_attempts params) n"
  have "wp (handle_failure params env a e) (\<lambda>_. ?I) k" if k: "?I k"
  proof (cases e)
    case (Sql_Exception code msg st cls)
    have same: "keeps (same_rel counters) (if cls = Ec_conflict then timed_stat env (\<lambda>now. S_recordConflict a code now t)
              else timed_stat env (\<lambda>now. S_recordSqlFailure a code now t))" for t
      by (intro keeps_intros)
    have again: "wp (seq drainIntoStats (seq (reconnect env) (ret False))) (\<lambda>_. ?I) k1"
      if c: "reconnects k1 < n + connectionAttempts k1" "connectionAttempts k1 \<le> max_reconnect_attempts params" for k1
    proof -
      have "wp (seq (reconnect env) (ret False)) (\<lambda>_. ?I) k2" if "counters k2 = counters k1" for k2
        using that c by (auto simp: wp_def seq_def bind_def reconnect_def ret_def Let_def counters_def
            reconnects_within_def split: result.splits)
      with c show ?thesis
        by (auto simp: wp_seq intro!: wp_same [OF same_counters(2)])
           (auto simp: on_ok_def counters_def reconnects_within_def split: result.splits)
    qed
    have stop: "wp (seq drainIntoStats (ret True)) (\<lambda>_. ?I) k1" if "?I k1" for k1
      unfolding wp_seq wp_basic by (rule wp_keeps_within [OF that same_counters(2)])
    show ?thesis
      unfolding handle_failure_def Sql_Exception exn.case wp_bind [of "gets _"] wp_basic on_ok_simps wp_seq
    proof (rule wp_keeps_within [OF k same])
      fix x :: unit and k1 assume "?I k1"
      then show "wp (if serverGone (Sql_Exception code msg st cls) then
           seq (modify (\<lambda>k. k\<lparr>connectionAttempts := connectionAttempts k + 1\<rparr>))
            (bind (gets connectionAttempts) (\<lambda>attempts.
             if attempts \<le> max_reconnect_attempts params
             then seq drainIntoStats (seq (reconnect env) (ret False))
             else seq drainIntoStats (ret True)))
          else ret False) (\<lambda>_. ?I) k1"
        unfolding wp_if wp_seq [of "modify _"] wp_bind wp_basic on_ok_simps
        by (auto simp: reconnects_within_def intro!: again stop)
    qed
  qed (use k in \<open>auto simp: handle_failure_def prog_simps intro!: wp_keeps_within same_counters\<close>)
  then show "wp (handle_failure params env a e) (\<lambda>_ s'. inv_rel ?I k s') k"
    by (auto simp: inv_rel_def wp_def split: prod.splits)
qed


lemma within_upd:
  "inv_rel (reconnects_within m n) k (k\<lparr>wk_world := w\<rparr>)" "inv_rel (reconnects_within m n) k (k\<lparr>stats := s\<rparr>)"
  "inv_rel (reconnects_within m n) k (k\<lparr>ticks := t\<rparr>)"
  by (simp_all add: inv_rel_def)

lemma iteration_within:
  "keeps (inv_rel (reconnects_within (max_reconnect_attempts params) n)) (iteration params env exec actions)"
  unfolding iteration_def attempt_action_def
  by (intro keeps_intros handle_failure_within within_upd)

lemma worker_loop_keeps:
  assumes R: "preord R" "keeps R body" "\<And>k t. R k (k\<lparr>ticks := t\<rparr>)"
    and run: "worker_loop env duration body start now k = Some rk"
  shows "R k (snd rk)"
proof -
  have "body = body \<longrightarrow> R k (snd rk)"
  proof (rule worker_loop.raw_induct [where P = "\<lambda>env d b st now k rk. b = body \<longrightarrow> R k (snd rk)", OF _ run],
      intro impI)
    fix loop env d b start now k rk
    assume IH: "\<And>env d b st now k rk. loop env d b st now k = Some rk \<Longrightarrow> b = body \<longrightarrow> R k (snd rk)"
      and step: "(if elapsed_seconds start now < d
          then case b k of
              (Ok stop, k') \<Rightarrow> if stop then Some (Ok (), k')
                else loop env d b start (readings env (ticks k')) (k'\<lparr>ticks := Suc (ticks k')\<rparr>)
            | (Throw e, k') \<Rightarrow> Some (Throw e, k') | (Undefined, k') \<Rightarrow> Some (Undefined, k')
            | (Diverges, k') \<Rightarrow> Some (Diverges, k')
          else Some (Ok (), k)) = Some rk" and b: "b = body"
    obtain r k1 where k1: "b k = (r, k1)" by fastforce
    have R1: "R k k1" using keepsD [OF R(2)] k1 b by blast
    have R2: "R k1 (snd rk)" if "loop env d b start (readings env (ticks k1)) (k1\<lparr>ticks := Suc (ticks k1)\<rparr>) = Some rk"
      using IH [OF that] b R(3) [of k1] preord_trans [OF R(1)] by blast
    show "R k (snd rk)"
      using step k1 R1 preord_trans [OF R(1) R1 R2] preord_refl [OF R(1)]
      by (auto split: if_splits result.splits)
  qed
  then show ?thesis by simp
qed

lemma thread_function_within:
  "reconnects (snd (thread_function params env exec actions k)) \<le> reconnects k + max_reconnect_attempts params"
proof -
  let ?m = "max_reconnect_attempts params" and ?n = "reconnects k"
  let ?R = "inv_rel (reconnects_within ?m ?n)"
  let ?loop = "\<lambda>start now k. case worker_loop env (from_size (duration_in_seconds params))
        (iteration params env exec actions) start now k of None \<Rightarrow> (Diverges, k) | Some rk \<Rightarrow> rk"
  have "keeps ?R (?loop start now)" for start now
    using worker_loop_keeps [OF preord_inv_rel iteration_within within_upd(3)] preord_refl [OF preord_inv_rel]
    by (auto simp: keeps_def split: option.splits)
  then have "keeps ?R (seq (on_conn conn_clearObservations)
     (bind (read_clock env) (\<lambda>start. bind (read_clock env) (\<lambda>now.
     seq (?loop start now) (seq (timed_stat env S_stop)
     (seq (on_conn (conn_setCurrentAction [])) (on_conn conn_clearObservations)))))))"
    by (intro keeps_intros within_upd) (simp_all add: keeps_def read_clock_def within_upd)
  moreover have "reconnects_within ?m ?n (k\<lparr>connectionAttempts := 0\<rparr>)" by (simp add: reconnects_within_def)
  ultimately have "reconnects_within ?m ?n (snd (thread_function params env exec actions k))"
    unfolding thread_function_def seq_def [of "modify _"] by (simp add: bind_def modify_def keeps_def inv_rel_def)
  then show ?thesis by (simp add: reconnects_within_def)
qed

section \<open>Properties\<close>

text \<open>A worker whose server is gone, the registry of one custom query, and a clock of one reading per second.\<close>

definition sample_worker :: worker where
  "sample_worker = \<lparr>wk_world = (sample_world fl_postgres accept_all (\<lambda>n. n) [])\<lparr>conn := sample_conn\<rparr>,
     stats = worker_stats_new, ticks = 1, connectionAttempts = 0, reconnects = 0\<rparr>"

definition one_query :: "string action_registry" where
  "one_query = [\<lparr>fac_name = ''q'', fac_builder = ''SELECT 1'', fac_weight = 1, fac_type = At_other, txn_safe = True\<rparr>]"

definition run_query :: "string \<Rightarrow> action" where
  "run_query q ctx = exec_sql q"

definition seconds_clock :: "logged_sql result \<Rightarrow> environment" where
  "seconds_clock c = \<lparr>readings = (\<lambda>n. int n * 1000000000), connector = (\<lambda>n. c)\<rparr>"

definition sample_params :: workload_params where
  "sample_params = \<lparr>actionConfig = default_config, duration_in_seconds = 3, repeat_times = 1,
     number_of_workers = 2, max_reconnect_attempts = 1, seed = 42\<rparr>"

text \<open>
  C35: every iteration accounts for exactly one action. Whatever action is drawn and however it ends,
  an iteration that comes back has run one action of the registry, under its name and on the registry
  the iteration found; it has added one to the worker's count of actions, one to its successes exactly
  if the action returned, and to its count of transactions as many as the action recorded on the
  connection; and nothing is left undrained for the next iteration.
\<close>

theorem iteration_accounts_for_one_action:
  assumes "readings env (ticks k) \<noteq> 0" and "fresh_connections env" and "observations k = ([], [])"
    and "iteration params env exec actions k = (Ok stop, k')"
  shows "\<exists>f \<in> set actions. \<exists>w0 r w1. exec (fac_builder f) Direct w0 = (r, w1) \<and>
    txnOutcomes (conn w0) = [] \<and> currentAction (conn w0) = fac_name f \<and> registry w0 = registry (wk_world k) \<and>
    total k' = total k + 1 \<and> successes k' = successes k + (if r = Ok () then 1 else 0) \<and>
    transactions k' = transactions k + of_nat (length (txnOutcomes (conn w1))) \<and> observations k' = ([], [])"
  using iteration_accounts [OF assms] by (simp add: accounted_def)

lemma iteration_accounts_for_one_action_witness:
  "\<exists>k'. iteration sample_params (seconds_clock (Ok sample_conn)) run_query one_query sample_worker = (Ok False, k') \<and>
     total k' = total sample_worker + 1 \<and> reconnects k' = 1"
proof -
  let ?i = "iteration sample_params (seconds_clock (Ok sample_conn)) run_query one_query sample_worker"
  have "fst ?i = Ok False \<and> reconnects (snd ?i) = 1"
    by (simp add: iteration_def sample_params_def seconds_clock_def run_query_def one_query_def sample_worker_def
        bind_def seq_def in_world_def draw_def in_rng_def random_number_def totalWeight_def lookupByWeightOffset_def
        lift_result_def sample_world_def timed_stat_def read_clock_def record_stat_def on_action_def worker_stats_new_def
        on_conn_def modify_def attempt_action_def catch_def exec_sql_def run_sql_def in_conn_def conn_executeQuery_def sql_send_def sample_conn_def
        maybeThrow_def result_exception_def qr_success_def Let_def conn_setCurrentAction_def conn_resetAccumulatedSqlTime_def put_stats_def
        stats_for_def action_start_def action_record_defs calculateExecutionTime_def record_times_def
        conn_drainRowObservations_def conn_drainTransactionOutcomes_def
        handle_failure_def gets_def serverGone_def drainIntoStats_def reconnect_def ret_def skip_def)
  then obtain k' where k': "?i = (Ok False, k')" "reconnects k' = 1" by (cases ?i) auto
  have "total k' = total sample_worker + 1"
    using iteration_accounts_for_one_action [OF _ _ _ k'(1)]
    by (auto simp: seconds_clock_def fresh_connections_def sample_worker_def sample_conn_def observations_def)
  with k' show ?thesis by blast
qed

text \<open>
  C36: a worker stops. If every action comes back and so does the connector, and the clock passes the
  duration at some reading \<open>N\<close> and never goes back behind it, the thread ends, whatever the actions
  draw and the servers answer; and when it ends normally the connection has no action name and no
  observation left.
\<close>

theorem worker_thread_ends:
  assumes "\<And>b. terminates (exec b Direct)" and "\<And>n. connector env n \<noteq> Diverges"
    and "\<And>n. N \<le> n \<Longrightarrow>
      from_size (duration_in_seconds params) \<le> elapsed_seconds (readings env (ticks k)) (readings env n)"
  shows "case thread_function params env exec actions k of
      (Ok _, k') \<Rightarrow> currentAction (conn (wk_world k')) = [] \<and> observations k' = ([], [])
    | (r, k') \<Rightarrow> r \<noteq> Diverges"
proof -
  have "fst (thread_function params env exec actions k) \<noteq> Diverges"
    using assms by (rule thread_function_ends)
  then show ?thesis
    using thread_function_leaves_clean [of params env exec actions k] by (auto split: prod.split result.split)
qed

lemma worker_thread_ends_witness:
  "\<exists>r k'. thread_function sample_params (seconds_clock (Ok sample_conn)) run_query one_query sample_worker = (r, k') \<and>
     r \<noteq> Diverges"
proof -
  let ?env = "seconds_clock (Ok sample_conn)"
  have "terminates (run_query b Direct)" for b
    by (auto simp: terminates_def run_query_def exec_sql_eq Let_def)
  moreover have "from_size (duration_in_seconds sample_params) \<le>
      elapsed_seconds (readings ?env (ticks sample_worker)) (readings ?env n)" if "5 \<le> n" for n
  proof -
    have "readings ?env n - readings ?env (ticks sample_worker) = int (n - 1) * 1000000000"
      using that by (simp add: seconds_clock_def sample_worker_def)
    with that show ?thesis by (simp add: elapsed_seconds_def sample_params_def from_size_def)
  qed
  ultimately show ?thesis
    using worker_thread_ends [of run_query ?env 5 sample_params sample_worker one_query]
    by (auto simp: seconds_clock_def split: prod.splits result.splits)
qed

text \<open>
  Reconnection is bounded. A run of a worker's thread replaces its connection at most
  \<open>max_reconnect_attempts\<close> times, however often and however the server goes away.
\<close>

theorem reconnects_bounded:
  "reconnects (snd (thread_function params env exec actions k)) \<le> reconnects k + max_reconnect_attempts params"
  by (rule thread_function_within)

text \<open>
  C38: a failed reconnection ends the thread, whatever \<open>max_reconnect_attempts\<close> allows. When an action
  finds the server gone and the attempt counter is below the limit, the worker asks for a new connection
  inside the exception handler; if the connector throws, as it does while the server is still away, the
  exception leaves the iteration: the failure has been recorded once, one attempt has been made, and there is no other.
\<close>

theorem failed_reconnect_escapes:
  assumes "started n k" and "act (wk_world k) = (Throw (Sql_Exception code msg St_serverGone cls), w1)"
    and "connectionAttempts k < max_reconnect_attempts params" and "connector env (reconnects k) = Throw e'"
  shows "\<exists>k'. attempt_action params env n act k = (Throw e', k') \<and> total k' = total k + 1 \<and>
    successes k' = successes k \<and> reconnects k' = Suc (reconnects k)"
proof -
  let ?e = "Sql_Exception code msg St_serverGone cls" and ?k1 = "k\<lparr>wk_world := w1\<rparr>"
  have st: "started n ?k1" using assms(1) by (simp add: started_def)
  note timed = timed_outcome [OF _ _ st, where env = env and b = False]
  obtain k2 where k2: "(if cls = Ec_conflict then timed_stat env (\<lambda>now. S_recordConflict n code now (sql_time ?k1))
            else timed_stat env (\<lambda>now. S_recordSqlFailure n code now (sql_time ?k1))) ?k1 = (Ok (), k2)"
    "accounted 1 0 0 ?k1 k2" "same_rest ?k1 k2"
    using timed [of "\<lambda>now. S_recordConflict n code now (sql_time ?k1)"]
      timed [of "\<lambda>now. S_recordSqlFailure n code now (sql_time ?k1)"] by (cases "cls = Ec_conflict") auto
  let ?k3 = "k2\<lparr>connectionAttempts := connectionAttempts k2 + 1\<rparr>"
  obtain t k4 where k4: "drainIntoStats ?k3 = (Ok (), k4)" "accounted 0 0 t ?k3 k4" "reconnects k4 = reconnects ?k3"
    using drain_accounts by blast
  have r: "reconnects k4 = reconnects k" "connectionAttempts ?k3 \<le> max_reconnect_attempts params"
    using k4(3) k2(3) assms(3) by (simp_all add: same_rest_def)
  have "handle_failure params env n ?e ?k1 = seq (reconnect env) (ret False) k4"
    using k2(1) k4(1) r(2) by (simp add: handle_failure_def bind_def seq_def gets_def modify_def serverGone_def)
  then have "attempt_action params env n act k = seq (reconnect env) (ret False) k4"
    using assms(2) by (simp add: attempt_action_def catch_def seq_def bind_def in_world_def)
  then have "attempt_action params env n act k = (Throw e', k4\<lparr>reconnects := Suc (reconnects k)\<rparr>)"
    using assms(4) r(1) by (simp add: seq_def bind_def reconnect_def Let_def)
  then show ?thesis
    using k2(2) k4(2) by (simp add: accounted_def total_def successes_def transactions_def)
qed

lemma failed_reconnect_escapes_witness:
  "\<exists>k'. attempt_action sample_params (seconds_clock (Throw (Runtime_error ''no server''))) ''q'' (run_query ''SELECT 1'' Direct)
      (snd (timed_stat (seconds_clock (Ok sample_conn)) (S_startAction ''q'') sample_worker)) =
      (Throw (Runtime_error ''no server''), k') \<and> reconnects k' = 1"
proof -
  let ?k = "snd (timed_stat (seconds_clock (Ok sample_conn)) (S_startAction ''q'') sample_worker)"
  obtain k1 where k1: "?k = k1" "same_rest sample_worker k1" "started ''q'' k1"
    using timed_start [of "seconds_clock (Ok sample_conn)" sample_worker "''q''"]
    by (auto simp: seconds_clock_def sample_worker_def)
  obtain msg w1 where "run_query ''SELECT 1'' Direct (wk_world k1) = (Throw (Sql_Exception ''0'' msg St_serverGone Ec_serverGone), w1)"
    using k1(2) by (simp add: run_query_def exec_sql_def run_sql_def in_conn_def conn_executeQuery_def sql_send_def
        sample_conn_def maybeThrow_def result_exception_def qr_success_def Let_def bind_def lift_result_def same_rest_def sample_worker_def
        sample_world_def)
  from failed_reconnect_escapes [where act = "run_query ''SELECT 1'' Direct", OF k1(3) this,
      of sample_params "seconds_clock (Throw (Runtime_error ''no server''))" "Runtime_error ''no server''"] k1(1,2)
  show ?thesis
    by (auto simp: sample_params_def seconds_clock_def same_rest_def sample_worker_def)
qed

end
