(* ===== verification/Schema_Discovery.thy ===== *)
theory Schema_Discovery
  imports Ddl_Actions
begin

text \<open>
  Schema discovery (core/include/schema_discovery.hpp, core/src/schema_discovery/): what an existing
  database holds, read from the server's own catalog. The interface \<open>SchemaDiscovery\<close> is the record
  \<open>discovery\<close> of its six operations; \<open>pg_discovery\<close> and \<open>mysql_discovery\<close> are its two
  implementations, each operation one query and a parser of its rows. A handler that logs and
  rethrows is the identity. A column of a row that is not there is undefined (\<open>operator[]\<close>).
\<close>

section \<open>What is discovered\<close>

datatype partition_type = Pt_none | Pt_range | Pt_hash | Pt_list

datatype constraint_type = Ct_primary_key | Ct_foreign_key | Ct_unique | Ct_check | Ct_unknown

record discovered_table =
  dt_name :: string
  dt_table_type :: table_type
  dt_access_method :: string
  dt_tablespace :: string
  dt_is_partition :: bool
  dt_partition_type :: partition_type

record discovered_column =
  dc_name :: string
  dc_data_type :: column_type
  dc_length :: int
  dc_type_modifier :: int
  dc_not_null :: bool
  dc_ordinal_position :: int
  dc_is_serial :: bool
  dc_generated_type :: generated
  dc_default_value :: string

record discovered_index =
  di_name :: string
  di_is_unique :: bool
  di_column_names :: "string list"
  di_orderings :: "index_ordering list"

record discovered_constraint =
  dk_name :: string
  dk_type :: constraint_type
  dk_columns :: "string list"
  dk_referenced_table :: string
  dk_referenced_columns :: "string list"

record discovered_partition =
  dp_name :: string
  dp_partition_bound :: string

record discovery =
  discoverTables :: "(world, discovered_table list) prog"
  discoverColumns :: "string \<Rightarrow> (world, discovered_column list) prog"
  discoverIndexes :: "string \<Rightarrow> (world, discovered_index list) prog"
  discoverConstraints :: "string \<Rightarrow> (world, discovered_constraint list) prog"
  discoverPartitions :: "string \<Rightarrow> (world, discovered_partition list) prog"
  discoverPartitionKeys :: "string \<Rightarrow> (world, string list) prog"

section \<open>Reading rows\<close>

text \<open>\<open>row.rowData[i].value_or(d)\<close> and \<open>row.rowData[i] ? std::stoi(...) : d\<close>.\<close>

definition value_or :: "string option list \<Rightarrow> nat \<Rightarrow> string \<Rightarrow> string result" where
  "value_or row i d = (if i < length row then Ok (case row ! i of None \<Rightarrow> d | Some s \<Rightarrow> s) else Undefined)"

text \<open>\<open>std::stoi\<close>: blanks, an optional sign, decimal digits, the rest ignored; 32 bits.\<close>

definition stoi :: "string \<Rightarrow> int result" where
  "stoi s = (let t = dropWhile is_space s;
       neg = (t \<noteq> [] \<and> hd t = CHR ''-'');
       u = (if t \<noteq> [] \<and> (hd t = CHR ''-'' \<or> hd t = CHR ''+'') then tl t else t);
       ds = takeWhile is_digit u;
       v = (if neg then - int (digits_value ds) else int (digits_value ds))
     in if ds = [] then Throw (Invalid_argument ''stoi'')
        else if v < - (2 ^ 31) \<or> v \<ge> 2 ^ 31 then Throw (Out_of_range ''stoi'') else Ok v)"

definition int_or :: "string option list \<Rightarrow> nat \<Rightarrow> int \<Rightarrow> int result" where
  "int_or row i d = (if i < length row then (case row ! i of None \<Rightarrow> Ok d | Some s \<Rightarrow> stoi s) else Undefined)"

fun split_on :: "char \<Rightarrow> string \<Rightarrow> string list" where
  "split_on d [] = [[]]"
| "split_on d (c # cs) = (if c = d then [] # split_on d cs
     else (case split_on d cs of [] \<Rightarrow> [[c]] | x # xs \<Rightarrow> (c # x) # xs))"

text \<open>The non-empty items \<open>std::getline(ss, item, ',')\<close> yields.\<close>

definition comma_items :: "string \<Rightarrow> string list" where
  "comma_items s = filter (\<lambda>x. x \<noteq> []) (split_on (CHR '','') s)"

fun contains :: "string \<Rightarrow> string \<Rightarrow> bool" where
  "contains s pat = (take (length pat) s = pat \<or> (case s of [] \<Rightarrow> False | c # cs \<Rightarrow> contains cs pat))"

text \<open>\<open>executeQuery\<close>, \<open>maybeThrow\<close>, and the loop over the rows, if the result has data.\<close>

definition fetch_rows :: "string \<Rightarrow> (string option list \<Rightarrow> 'a result) \<Rightarrow> (world, 'a list) prog" where
  "fetch_rows query parse = bind (run_sql query) (\<lambda>res.
     seq (lift_result (maybeThrow res))
     (lift_result (case qr_data res of None \<Rightarrow> Ok [] | Some d \<Rightarrow> res_map parse (dataRows d))))"

text \<open>\<open>index_map\<close>: one entry per index name, in the order of \<open>std::map\<close>.\<close>

type_synonym index_row = "string \<times> bool \<times> string \<times> index_ordering"

definition add_index_row :: "discovered_index list \<Rightarrow> index_row \<Rightarrow> discovered_index list" where
  "add_index_row m r = (case r of (index_name, is_unique, column_name, io) \<Rightarrow>
     let m' = (if list_ex (\<lambda>d. di_name d = index_name) m then m
               else m @ [\<lparr>di_name = index_name, di_is_unique = is_unique, di_column_names = [], di_orderings = []\<rparr>])
     in update_first (\<lambda>d. di_name d = index_name)
          (\<lambda>d. d\<lparr>di_column_names := di_column_names d @ [column_name], di_orderings := di_orderings d @ [io]\<rparr>) m')"

definition index_map :: "index_row list \<Rightarrow> discovered_index list" where
  "index_map rows = sort_key di_name (foldl add_index_row [] rows)"

definition sq :: string where
  "sq = [CHR 0x27]"

definition empty_sq :: string where
  "empty_sq = sq @ sq"

definition sql_lines :: "string list \<Rightarrow> string" where
  "sql_lines ls = join [CHR 0x0A] ls"

definition parsePartitionType :: "string \<Rightarrow> partition_type" where
  "parsePartitionType s = (if s = ''RANGE'' then Pt_range else if s = ''HASH'' then Pt_hash
     else if s = ''LIST'' then Pt_list else Pt_none)"

definition parseTableType :: "string \<Rightarrow> table_type" where
  "parseTableType s = (if s = ''r'' then TT_normal else if s = ''p'' then TT_partitioned else TT_normal)"

definition parseGeneratedType :: "string \<Rightarrow> generated" where
  "parseGeneratedType s = (if s = ''stored'' then stored else if s = ''virtual'' then virt else notGenerated)"

definition parseIndexOrdering :: "string \<Rightarrow> index_ordering" where
  "parseIndexOrdering s = (if s = ''desc'' then IO_desc else IO_asc)"

text \<open>Both servers report a constraint as name, type, column list, referenced table and columns.\<close>

definition constraint_row ::
  "(string \<Rightarrow> constraint_type) \<Rightarrow> string option list \<Rightarrow> discovered_constraint result" where
  "constraint_row parseConstraintType row =
     res_bind (value_or row 0 []) (\<lambda>name. res_bind (value_or row 1 []) (\<lambda>ty.
     res_bind (value_or row 2 []) (\<lambda>cols. res_bind (value_or row 3 []) (\<lambda>ref.
     res_bind (value_or row 4 []) (\<lambda>refcols.
     Ok \<lparr>dk_name = name, dk_type = parseConstraintType ty, dk_columns = comma_items cols,
         dk_referenced_table = ref, dk_referenced_columns = comma_items refcols\<rparr>)))))"

definition partition_row :: "string option list \<Rightarrow> discovered_partition result" where
  "partition_row row = res_bind (value_or row 0 []) (\<lambda>name. res_bind (value_or row 1 []) (\<lambda>bound.
     Ok \<lparr>dp_name = name, dp_partition_bound = bound\<rparr>))"

section \<open>PostgreSQL\<close>

definition pg_tables_query :: "string" where
  "pg_tables_query = sql_lines [
     '''',
     ''        SELECT'',
     ''          c.relname as table_name,'',
     ''          c.relkind as table_type,'',
     ''          COALESCE(am.amname, 'heap') as access_method,'',
     ''          COALESCE(ts.spcname, 'pg_default') as tablespace,'',
     ''          c.relpartbound IS NOT NULL as is_partition,'',
     ''          CASE WHEN c.relkind = 'p' THEN 'RANGE' ELSE '' @ empty_sq @ '' END as partition_type'',
     ''        FROM pg_class c'',
     ''        LEFT JOIN pg_am am ON c.relam = am.oid'',
     ''        LEFT JOIN pg_tablespace ts ON c.reltablespace = ts.oid'',
     ''        WHERE c.relkind IN ('r', 'p')'',
     ''          AND c.relnamespace = (SELECT oid FROM pg_namespace WHERE nspname = 'public')'',
     ''          AND NOT c.relispartition'',
     ''        ORDER BY c.relname'',
     ''    '']"

definition pg_columns_query :: "string \<Rightarrow> string" where
  "pg_columns_query t = sql_lines [
     '''',
     ''        SELECT'',
     ''          a.attname as column_name,'',
     ''          t.typname as data_type,'',
     ''          a.attlen as length,'',
     ''          a.atttypmod as type_modifier,'',
     ''          a.attnotnull as not_null,'',
     ''          a.attnum as ordinal_position,'',
     ''          CASE WHEN pg_get_expr(ad.adbin, ad.adrelid) LIKE 'nextval%' THEN true ELSE false END as is_serial,'',
     ''          CASE WHEN a.attgenerated = 's' THEN 'stored'' @ sq,
     ''               WHEN a.attgenerated = 'v' THEN 'virtual'' @ sq,
     ''               ELSE 'not_generated' END as generated_type,'',
     ''          COALESCE(pg_get_expr(ad.adbin, ad.adrelid), '' @ empty_sq @ '') as default_value'',
     ''        FROM pg_attribute a'',
     ''        JOIN pg_type t ON a.atttypid = t.oid'',
     ''        LEFT JOIN pg_attrdef ad ON a.attrelid = ad.adrelid AND a.attnum = ad.adnum'',
     ''        WHERE a.attrelid = ('',
     ''            SELECT c.oid FROM pg_class c'',
     ''            JOIN pg_namespace n ON c.relnamespace = n.oid'',
     ''            WHERE c.relname = '' @ sq @ t @ sq @ '' AND n.nspname = 'public'' @ sq,
     ''        )'',
     ''          AND a.attnum > 0'',
     ''          AND NOT a.attisdropped'',
     ''        ORDER BY a.attnum'',
     ''    '']"

definition pg_indexes_query :: "string \<Rightarrow> string" where
  "pg_indexes_query t = sql_lines [
     '''',
     ''        SELECT'',
     ''          i.relname as index_name,'',
     ''          ix.indisunique as is_unique,'',
     ''          a.attname as column_name,'',
     ''          array_position(ix.indkey, a.attnum) as key_position,'',
     ''          pg_get_indexdef(ix.indexrelid) as index_def'',
     ''        FROM pg_index ix'',
     ''        JOIN pg_class i ON ix.indexrelid = i.oid'',
     ''        JOIN pg_class t ON ix.indrelid = t.oid'',
     ''        JOIN pg_attribute a ON t.oid = a.attrelid AND a.attnum = ANY(ix.indkey)'',
     ''        JOIN pg_namespace n ON t.relnamespace = n.oid'',
     ''        WHERE t.relname = '' @ sq @ t @ sq,
     ''          AND n.nspname = 'public'' @ sq,
     ''          AND NOT ix.indisprimary'',
     ''        ORDER BY i.relname, array_position(ix.indkey, a.attnum)'',
     ''    '']"

definition pg_constraints_query :: "string \<Rightarrow> string" where
  "pg_constraints_query t = sql_lines [
     '''',
     ''        SELECT'',
     ''          c.conname as constraint_name,'',
     ''          c.contype as constraint_type,'',
     ''          array_to_string(array('',
     ''            SELECT a.attname'',
     ''            FROM pg_attribute a'',
     ''            WHERE a.attrelid = c.conrelid'',
     ''              AND a.attnum = ANY(c.conkey)'',
     ''            ORDER BY array_position(c.conkey, a.attnum)'',
     ''          ), ',') as column_names,'',
     ''          COALESCE('',
     ''            CASE'',
     ''              WHEN ft.relispartition = true THEN parent_ft.relname'',
     ''              ELSE ft.relname'',
     ''            END,'',
     ''            '' @ empty_sq,
     ''          ) as referenced_table,'',
     ''          COALESCE(array_to_string(array('',
     ''            SELECT fa.attname'',
     ''            FROM pg_attribute fa'',
     ''            WHERE fa.attrelid = c.confrelid'',
     ''              AND fa.attnum = ANY(c.confkey)'',
     ''            ORDER BY array_position(c.confkey, fa.attnum)'',
     ''          ), ','), '' @ empty_sq @ '') as referenced_columns'',
     ''        FROM pg_constraint c'',
     ''        JOIN pg_class t ON c.conrelid = t.oid'',
     ''        LEFT JOIN pg_class ft ON c.confrelid = ft.oid'',
     ''        LEFT JOIN pg_inherits inh ON ft.oid = inh.inhrelid AND ft.relispartition = true'',
     ''        LEFT JOIN pg_class parent_ft ON inh.inhparent = parent_ft.oid'',
     ''        JOIN pg_namespace n ON t.relnamespace = n.oid'',
     ''        WHERE t.relname = '' @ sq @ t @ sq,
     ''          AND n.nspname = 'public'' @ sq,
     ''          AND c.contype IN ('p', 'u', 'c', 'f')'',
     ''        ORDER BY c.conname'',
     ''    '']"

definition pg_partitions_query :: "string \<Rightarrow> string" where
  "pg_partitions_query t = sql_lines [
     '''',
     ''        SELECT'',
     ''          child.relname as partition_name,'',
     ''          pg_get_expr(child.relpartbound, child.oid) as partition_bound'',
     ''        FROM pg_class parent'',
     ''        JOIN pg_namespace parent_ns ON parent.relnamespace = parent_ns.oid'',
     ''        JOIN pg_inherits inh ON parent.oid = inh.inhparent'',
     ''        JOIN pg_class child ON inh.inhrelid = child.oid'',
     ''        JOIN pg_namespace child_ns ON child.relnamespace = child_ns.oid'',
     ''        WHERE parent.relname = '' @ sq @ t @ sq,
     ''          AND parent_ns.nspname = 'public'' @ sq,
     ''          AND child_ns.nspname = 'public'' @ sq,
     ''          AND child.relispartition = true'',
     ''        ORDER BY child.relname'',
     ''    '']"

definition pg_partition_keys_query :: "string \<Rightarrow> string" where
  "pg_partition_keys_query t = sql_lines [
     '''',
     ''        SELECT a.attname as column_name'',
     ''        FROM pg_class c'',
     ''        JOIN pg_namespace n ON c.relnamespace = n.oid'',
     ''        JOIN pg_partitioned_table pt ON c.oid = pt.partrelid'',
     ''        JOIN pg_attribute a ON c.oid = a.attrelid'',
     ''        WHERE c.relname = '' @ sq @ t @ sq,
     ''          AND n.nspname = 'public'' @ sq,
     ''          AND a.attnum = ANY(pt.partattrs)'',
     ''        ORDER BY array_position(pt.partattrs, a.attnum)'',
     ''    '']"

definition parseTablespace :: "string \<Rightarrow> string" where
  "parseTablespace ts_name = (if ts_name = ''pg_default'' then [] else ts_name)"

definition parseTypeModifier :: "string \<Rightarrow> int \<Rightarrow> int" where
  "parseTypeModifier type_name type_modifier =
     (if (type_name = ''varchar'' \<or> type_name = ''bpchar'') \<and> type_modifier \<ge> 4 then type_modifier - 4 else 0)"

definition pg_parseDataType :: "string \<Rightarrow> column_type" where
  "pg_parseDataType n = (if n \<in> {''int2'', ''int4'', ''int8''} then CT_INT
     else if n = ''varchar'' then CT_VARCHAR else if n = ''bpchar'' then CT_CHAR
     else if n = ''text'' then CT_TEXT else if n \<in> {''float4'', ''float8''} then CT_REAL
     else if n = ''bool'' then CT_BOOL else if n = ''bytea'' then CT_BYTEA else CT_TEXT)"

definition pg_parseConstraintType :: "string \<Rightarrow> constraint_type" where
  "pg_parseConstraintType s = (if s = ''p'' then Ct_primary_key else if s = ''f'' then Ct_foreign_key
     else if s = ''u'' then Ct_unique else if s = ''c'' then Ct_check else Ct_unknown)"

definition pg_table_row :: "string option list \<Rightarrow> discovered_table result" where
  "pg_table_row row =
     res_bind (value_or row 0 []) (\<lambda>name. res_bind (value_or row 1 []) (\<lambda>ty.
     res_bind (value_or row 2 ''heap'') (\<lambda>am. res_bind (value_or row 3 ''pg_default'') (\<lambda>ts.
     res_bind (value_or row 4 ''f'') (\<lambda>part. res_bind (value_or row 5 []) (\<lambda>pt.
     Ok \<lparr>dt_name = name, dt_table_type = parseTableType ty, dt_access_method = am,
         dt_tablespace = parseTablespace ts, dt_is_partition = (part = ''t''),
         dt_partition_type = parsePartitionType pt\<rparr>))))))"

definition pg_column_row :: "string option list \<Rightarrow> discovered_column result" where
  "pg_column_row row =
     res_bind (value_or row 0 []) (\<lambda>name. res_bind (value_or row 1 []) (\<lambda>ty.
     res_bind (int_or row 3 (-1)) (\<lambda>tm. res_bind (value_or row 4 ''f'') (\<lambda>nn.
     res_bind (int_or row 5 0) (\<lambda>pos. res_bind (value_or row 6 ''f'') (\<lambda>serial.
     res_bind (value_or row 7 ''not_generated'') (\<lambda>gen. res_bind (value_or row 8 []) (\<lambda>def.
     let data_type = pg_parseDataType ty in
     Ok \<lparr>dc_name = name, dc_data_type = data_type,
         dc_length = (if data_type = CT_VARCHAR \<or> data_type = CT_CHAR then parseTypeModifier ty tm else 0),
         dc_type_modifier = tm, dc_not_null = (nn = ''t''), dc_ordinal_position = pos,
         dc_is_serial = (serial = ''t''), dc_generated_type = parseGeneratedType gen,
         dc_default_value = def\<rparr>))))))))"

definition pg_index_row :: "string option list \<Rightarrow> index_row result" where
  "pg_index_row row =
     res_bind (value_or row 0 []) (\<lambda>index_name. res_bind (value_or row 1 ''f'') (\<lambda>uniq.
     res_bind (value_or row 2 []) (\<lambda>column_name. res_bind (value_or row 4 []) (\<lambda>index_def.
     let io = (if contains index_def (column_name @ '' DESC'') then ''desc'' else ''asc'') in
     Ok (index_name, uniq = ''t'', column_name, parseIndexOrdering io)))))"

definition pg_key_row :: "string option list \<Rightarrow> string list result" where
  "pg_key_row row = res_bind (value_or row 0 []) (\<lambda>name. Ok (if name \<noteq> [] then [name] else []))"

definition pg_discoverTables :: "(world, discovered_table list) prog" where
  "pg_discoverTables = fetch_rows pg_tables_query pg_table_row"

definition pg_discoverColumns :: "string \<Rightarrow> (world, discovered_column list) prog" where
  "pg_discoverColumns t = fetch_rows (pg_columns_query t) pg_column_row"

definition pg_discoverIndexes :: "string \<Rightarrow> (world, discovered_index list) prog" where
  "pg_discoverIndexes t = bind (fetch_rows (pg_indexes_query t) pg_index_row) (\<lambda>rows. ret (index_map rows))"

definition pg_discoverConstraints :: "string \<Rightarrow> (world, discovered_constraint list) prog" where
  "pg_discoverConstraints t = fetch_rows (pg_constraints_query t) (constraint_row pg_parseConstraintType)"

definition pg_discoverPartitions :: "string \<Rightarrow> (world, discovered_partition list) prog" where
  "pg_discoverPartitions t = fetch_rows (pg_partitions_query t) partition_row"

definition pg_discoverPartitionKeys :: "string \<Rightarrow> (world, string list) prog" where
  "pg_discoverPartitionKeys t = bind (fetch_rows (pg_partition_keys_query t) pg_key_row) (\<lambda>ks. ret (concat ks))"

definition pg_discovery :: discovery where
  "pg_discovery = \<lparr>discoverTables = pg_discoverTables,
     discoverColumns = pg_discoverColumns,
     discoverIndexes = pg_discoverIndexes,
     discoverConstraints = pg_discoverConstraints,
     discoverPartitions = pg_discoverPartitions,
     discoverPartitionKeys = pg_discoverPartitionKeys\<rparr>"

section \<open>MySQL\<close>

definition mysql_tables_query :: "string" where
  "mysql_tables_query = sql_lines [
     '''',
     ''        SELECT t.TABLE_NAME,'',
     ''               CASE WHEN MAX(p.PARTITION_NAME) IS NULL THEN 'r' ELSE 'p' END AS table_type,'',
     ''               t.ENGINE AS access_method,'',
     ''               '' @ empty_sq @ '' AS tablespace,'',
     ''               0 AS is_partition,'',
     ''               COALESCE(MAX(p.PARTITION_METHOD), '' @ empty_sq @ '') AS partition_type'',
     ''        FROM information_schema.TABLES t'',
     ''        LEFT JOIN information_schema.PARTITIONS p'',
     ''          ON p.TABLE_SCHEMA = t.TABLE_SCHEMA AND p.TABLE_NAME = t.TABLE_NAME'',
     ''         AND p.PARTITION_NAME IS NOT NULL'',
     ''        WHERE t.TABLE_SCHEMA = DATABASE() AND t.TABLE_TYPE = 'BASE TABLE'' @ sq,
     ''        GROUP BY t.TABLE_NAME, t.ENGINE'',
     ''        ORDER BY t.TABLE_NAME'',
     ''    '']"

definition mysql_columns_query :: "string \<Rightarrow> string" where
  "mysql_columns_query t = sql_lines [
     '''',
     ''        SELECT COLUMN_NAME,'',
     ''               DATA_TYPE,'',
     ''               COALESCE(CHARACTER_MAXIMUM_LENGTH, 0) AS length,'',
     ''               -1 AS type_modifier,'',
     ''               IF(IS_NULLABLE = 'NO', 1, 0) AS not_null,'',
     ''               ORDINAL_POSITION,'',
     ''               IF(EXTRA LIKE '%auto_increment%', 1, 0) AS is_serial,'',
     ''               CASE WHEN EXTRA LIKE '%STORED GENERATED%' THEN 'stored'' @ sq,
     ''                    WHEN EXTRA LIKE '%VIRTUAL GENERATED%' THEN 'virtual'' @ sq,
     ''                    ELSE 'not_generated' END AS generated_type,'',
     ''               COALESCE(COLUMN_DEFAULT, '' @ empty_sq @ '') AS default_value'',
     ''        FROM information_schema.COLUMNS'',
     ''        WHERE TABLE_SCHEMA = DATABASE() AND TABLE_NAME = '' @ sq @ t @ sq,
     ''        ORDER BY ORDINAL_POSITION'',
     ''    '']"

definition mysql_indexes_query :: "string \<Rightarrow> string" where
  "mysql_indexes_query t = sql_lines [
     '''',
     ''        SELECT INDEX_NAME,'',
     ''               IF(NON_UNIQUE = 0, 1, 0) AS is_unique,'',
     ''               COLUMN_NAME,'',
     ''               SEQ_IN_INDEX,'',
     ''               COALESCE(COLLATION, 'A') AS collation'',
     ''        FROM information_schema.STATISTICS'',
     ''        WHERE TABLE_SCHEMA = DATABASE() AND TABLE_NAME = '' @ sq @ t @ sq @ '' AND INDEX_NAME <> 'PRIMARY'' @ sq,
     ''        ORDER BY INDEX_NAME, SEQ_IN_INDEX'',
     ''    '']"

definition mysql_constraints_query :: "string \<Rightarrow> string" where
  "mysql_constraints_query t = sql_lines [
     '''',
     ''        SELECT tc.CONSTRAINT_NAME,'',
     ''               tc.CONSTRAINT_TYPE,'',
     ''               GROUP_CONCAT(kcu.COLUMN_NAME ORDER BY kcu.ORDINAL_POSITION) AS column_names,'',
     ''               COALESCE(MAX(kcu.REFERENCED_TABLE_NAME), '' @ empty_sq @ '') AS referenced_table,'',
     ''               COALESCE(GROUP_CONCAT(kcu.REFERENCED_COLUMN_NAME'',
     ''                                     ORDER BY kcu.ORDINAL_POSITION), '' @ empty_sq @ '') AS referenced_columns'',
     ''        FROM information_schema.TABLE_CONSTRAINTS tc'',
     ''        JOIN information_schema.KEY_COLUMN_USAGE kcu'',
     ''          ON kcu.CONSTRAINT_SCHEMA = tc.CONSTRAINT_SCHEMA'',
     ''         AND kcu.CONSTRAINT_NAME = tc.CONSTRAINT_NAME'',
     ''         AND kcu.TABLE_NAME = tc.TABLE_NAME'',
     ''        WHERE tc.TABLE_SCHEMA = DATABASE() AND tc.TABLE_NAME = '' @ sq @ t @ sq,
     ''          AND tc.CONSTRAINT_TYPE IN ('PRIMARY KEY', 'FOREIGN KEY', 'UNIQUE')'',
     ''        GROUP BY tc.CONSTRAINT_NAME, tc.CONSTRAINT_TYPE'',
     ''        ORDER BY tc.CONSTRAINT_NAME'',
     ''    '']"

definition mysql_checks_query :: "string \<Rightarrow> string" where
  "mysql_checks_query t = sql_lines [
     '''',
     ''        SELECT cc.CONSTRAINT_NAME'',
     ''        FROM information_schema.CHECK_CONSTRAINTS cc'',
     ''        JOIN information_schema.TABLE_CONSTRAINTS tc'',
     ''          ON tc.CONSTRAINT_SCHEMA = cc.CONSTRAINT_SCHEMA'',
     ''         AND tc.CONSTRAINT_NAME = cc.CONSTRAINT_NAME'',
     ''        WHERE tc.TABLE_SCHEMA = DATABASE() AND tc.TABLE_NAME = '' @ sq @ t @ sq,
     ''          AND tc.CONSTRAINT_TYPE = 'CHECK'' @ sq,
     ''        ORDER BY cc.CONSTRAINT_NAME'',
     ''    '']"

definition mysql_partitions_query :: "string \<Rightarrow> string" where
  "mysql_partitions_query t = sql_lines [
     '''',
     ''        SELECT PARTITION_NAME,'',
     ''               CONCAT('VALUES LESS THAN (', PARTITION_DESCRIPTION, ')') AS partition_bound'',
     ''        FROM information_schema.PARTITIONS'',
     ''        WHERE TABLE_SCHEMA = DATABASE() AND TABLE_NAME = '' @ sq @ t @ sq @ '' AND PARTITION_NAME IS NOT NULL'',
     ''        ORDER BY PARTITION_ORDINAL_POSITION'',
     ''    '']"

definition mysql_partition_keys_query :: "string \<Rightarrow> string" where
  "mysql_partition_keys_query t = sql_lines [
     '''',
     ''        SELECT DISTINCT PARTITION_EXPRESSION'',
     ''        FROM information_schema.PARTITIONS'',
     ''        WHERE TABLE_SCHEMA = DATABASE() AND TABLE_NAME = '' @ sq @ t @ sq,
     ''          AND PARTITION_EXPRESSION IS NOT NULL'',
     ''    '']"

definition mysql_parseDataType :: "string \<Rightarrow> column_type" where
  "mysql_parseDataType n = (if n \<in> {''int'', ''bigint'', ''smallint'', ''mediumint''} then CT_INT
     else if n = ''tinyint'' then CT_BOOL else if n = ''varchar'' then CT_VARCHAR
     else if n = ''char'' then CT_CHAR
     else if n \<in> {''text'', ''longtext'', ''mediumtext'', ''tinytext''} then CT_TEXT
     else if n \<in> {''double'', ''float''} then CT_REAL
     else if n \<in> {''blob'', ''longblob'', ''mediumblob'', ''tinyblob'', ''varbinary'', ''binary''} then CT_BYTEA
     else CT_TEXT)"

definition mysql_parseConstraintType :: "string \<Rightarrow> constraint_type" where
  "mysql_parseConstraintType s = (if s = ''PRIMARY KEY'' then Ct_primary_key
     else if s = ''FOREIGN KEY'' then Ct_foreign_key else if s = ''UNIQUE'' then Ct_unique else Ct_unknown)"

definition mysql_table_row :: "string option list \<Rightarrow> discovered_table result" where
  "mysql_table_row row =
     res_bind (value_or row 0 []) (\<lambda>name. res_bind (value_or row 1 []) (\<lambda>ty.
     res_bind (value_or row 2 []) (\<lambda>am. res_bind (value_or row 3 []) (\<lambda>ts.
     res_bind (value_or row 5 []) (\<lambda>pt.
     Ok \<lparr>dt_name = name, dt_table_type = parseTableType ty, dt_access_method = am,
         dt_tablespace = ts, dt_is_partition = False, dt_partition_type = parsePartitionType pt\<rparr>)))))"

definition mysql_column_row :: "string option list \<Rightarrow> discovered_column result" where
  "mysql_column_row row =
     res_bind (value_or row 0 []) (\<lambda>name. res_bind (value_or row 1 []) (\<lambda>ty.
     res_bind (int_or row 3 (-1)) (\<lambda>tm. res_bind (value_or row 4 ''0'') (\<lambda>nn.
     res_bind (int_or row 5 0) (\<lambda>pos. res_bind (value_or row 6 ''0'') (\<lambda>serial.
     res_bind (value_or row 7 ''not_generated'') (\<lambda>gen. res_bind (value_or row 8 []) (\<lambda>def.
     let data_type = mysql_parseDataType ty in
     res_bind (if data_type = CT_VARCHAR \<or> data_type = CT_CHAR then int_or row 2 0 else Ok 0) (\<lambda>len.
     Ok \<lparr>dc_name = name, dc_data_type = data_type, dc_length = len,
         dc_type_modifier = tm, dc_not_null = (nn = ''1''), dc_ordinal_position = pos,
         dc_is_serial = (serial = ''1''), dc_generated_type = parseGeneratedType gen,
         dc_default_value = def\<rparr>)))))))))"

definition mysql_index_row :: "string option list \<Rightarrow> index_row result" where
  "mysql_index_row row =
     res_bind (value_or row 0 []) (\<lambda>index_name. res_bind (value_or row 1 ''0'') (\<lambda>uniq.
     res_bind (value_or row 2 []) (\<lambda>column_name. res_bind (value_or row 4 ''A'') (\<lambda>collation.
     let io = (if collation = ''D'' then ''desc'' else ''asc'') in
     Ok (index_name, uniq = ''1'', column_name, parseIndexOrdering io)))))"

text \<open>Check constraints come from a query of their own.\<close>

definition mysql_check_row :: "string option list \<Rightarrow> discovered_constraint result" where
  "mysql_check_row row = res_bind (value_or row 0 []) (\<lambda>name.
     Ok \<lparr>dk_name = name, dk_type = Ct_check, dk_columns = [], dk_referenced_table = [], dk_referenced_columns = []\<rparr>)"

definition mysql_key_row :: "string option list \<Rightarrow> string list result" where
  "mysql_key_row row = res_bind (value_or row 0 []) (\<lambda>expr.
     Ok (comma_items (filter (\<lambda>c. c \<noteq> CHR 0x60) expr)))"

definition mysql_discoverTables :: "(world, discovered_table list) prog" where
  "mysql_discoverTables = fetch_rows mysql_tables_query mysql_table_row"

definition mysql_discoverColumns :: "string \<Rightarrow> (world, discovered_column list) prog" where
  "mysql_discoverColumns t = fetch_rows (mysql_columns_query t) mysql_column_row"

definition mysql_discoverIndexes :: "string \<Rightarrow> (world, discovered_index list) prog" where
  "mysql_discoverIndexes t = bind (fetch_rows (mysql_indexes_query t) mysql_index_row) (\<lambda>rows. ret (index_map rows))"

definition mysql_discoverConstraints :: "string \<Rightarrow> (world, discovered_constraint list) prog" where
  "mysql_discoverConstraints t = bind (fetch_rows (mysql_constraints_query t) (constraint_row mysql_parseConstraintType)) (\<lambda>keys.
       bind (fetch_rows (mysql_checks_query t) mysql_check_row) (\<lambda>checks. ret (keys @ checks)))"

definition mysql_discoverPartitions :: "string \<Rightarrow> (world, discovered_partition list) prog" where
  "mysql_discoverPartitions t = fetch_rows (mysql_partitions_query t) partition_row"

definition mysql_discoverPartitionKeys :: "string \<Rightarrow> (world, string list) prog" where
  "mysql_discoverPartitionKeys t = bind (fetch_rows (mysql_partition_keys_query t) mysql_key_row) (\<lambda>ks. ret (concat ks))"

definition mysql_discovery :: discovery where
  "mysql_discovery = \<lparr>discoverTables = mysql_discoverTables,
     discoverColumns = mysql_discoverColumns,
     discoverIndexes = mysql_discoverIndexes,
     discoverConstraints = mysql_discoverConstraints,
     discoverPartitions = mysql_discoverPartitions,
     discoverPartitionKeys = mysql_discoverPartitionKeys\<rparr>"

section \<open>The factory\<close>

definition make_schema_discovery :: "(world, discovery) prog" where
  "make_schema_discovery = bind server_is (\<lambda>info.
     ret (if is_mysql_like info then mysql_discovery else pg_discovery))"

end
