(* ===== verification/Metadata_Populator.thy ===== *)
theory Metadata_Populator
  imports Schema_Discovery
begin

text \<open>
  The metadata populator (core/src/metadata_populator.cpp): from what schema discovery found to the
  registry. Tables are converted and inserted one by one, a failure skips the table; foreign keys are
  resolved from names to ids in a second pass. Logging is not modelled.
\<close>

section \<open>Conversions\<close>

definition convertColumn :: "discovered_column \<Rightarrow> column" where
  "convertColumn d = default_column\<lparr>col_name := dc_name d, col_type := dc_data_type d,
     col_length := nat (max 0 (dc_length d)), nullable := \<not> dc_not_null d, auto_increment := dc_is_serial d,
     default_value := (if dc_default_value d \<noteq> [] \<and> \<not> dc_is_serial d then dc_default_value d else []),
     col_generated := dc_generated_type d\<rparr>"

definition convertIndex :: "discovered_index \<Rightarrow> index" where
  "convertIndex d = \<lparr>idx_name = di_name d, idx_unique = di_is_unique d,
     idx_fields = map (\<lambda>i. \<lparr>ic_name = di_column_names d ! i,
       ic_ordering = (if i < length (di_orderings d) then di_orderings d ! i else IO_default)\<rparr>)
       [0..<length (di_column_names d)]\<rparr>"

type_synonym fk_list = "(string \<times> string) list"

definition mark_primary_key :: "string \<Rightarrow> column list \<Rightarrow> column list" where
  "mark_primary_key n cols = update_first (\<lambda>c. col_name c = n) (\<lambda>c. c\<lparr>primary_key := True\<rparr>) cols"

fun applyConstraints :: "discovered_constraint list \<Rightarrow> column list \<Rightarrow> fk_list \<Rightarrow> column list \<times> fk_list" where
  "applyConstraints [] cols fks = (cols, fks)"
| "applyConstraints (k # ks) cols fks =
     (if dk_type k = Ct_primary_key
      then applyConstraints ks (fold mark_primary_key (dk_columns k) cols) fks
      else if dk_type k = Ct_foreign_key
      then applyConstraints ks cols (fks @ map (\<lambda>n. (n, dk_referenced_table k)) (dk_columns k))
      else applyConstraints ks cols fks)"

definition applyPartitionKeys :: "string list \<Rightarrow> column list \<Rightarrow> column list" where
  "applyPartitionKeys ks cols =
     fold (\<lambda>n. update_first (\<lambda>c. col_name c = n) (\<lambda>c. c\<lparr>partition_key := True\<rparr>)) ks cols"

text \<open>
  The number in a partition's name, \<open>table_p0\<close> or \<open>p0\<close>: the text after the last underscore, if there
  is one; 0 when it is not a \<open>p\<close> and a number (the exception of \<open>std::stoull\<close> is caught).
\<close>

definition after_last :: "char \<Rightarrow> string \<Rightarrow> string" where
  "after_last d s = rev (takeWhile (\<lambda>c. c \<noteq> d) (rev s))"

definition partition_base :: "string \<Rightarrow> nat" where
  "partition_base name = (let range_str = after_last (CHR ''_'') name in
     if range_str \<noteq> [] \<and> hd range_str = CHR ''p''
     then (case stoul (tl range_str) of None \<Rightarrow> 0 | Some n \<Rightarrow> unat n) else 0)"

definition applyPartitioning :: "discovered_partition list \<Rightarrow> range_partitioning option" where
  "applyPartitioning ps = (if ps = [] then None
     else Some \<lparr>rangeSize = 10000000, ranges = map (\<lambda>p. \<lparr>rangebase = partition_base (dp_name p)\<rparr>) ps\<rparr>)"

text \<open>What the conversion does with the five answers.\<close>

definition convert_found ::
  "discovered_table \<Rightarrow> discovered_column list \<Rightarrow> discovered_index list \<Rightarrow> discovered_constraint list \<Rightarrow>
   string list \<Rightarrow> discovered_partition list \<Rightarrow> table \<times> fk_list" where
  "convert_found dt cols idxs cons keys parts =
     (let (cs, fks) = applyConstraints cons (map convertColumn cols) [] in
      (default_table\<lparr>obj_name := dt_name dt, tablespace := dt_tablespace dt,
         columns := applyPartitionKeys keys cs, indexes := map convertIndex idxs,
         partitioning := applyPartitioning parts\<rparr>, fks))"

definition convertCompleteTable :: "discovery \<Rightarrow> discovered_table \<Rightarrow> (world, table \<times> fk_list) prog" where
  "convertCompleteTable D dt =
     bind (discoverColumns D (dt_name dt)) (\<lambda>cols.
     bind (discoverIndexes D (dt_name dt)) (\<lambda>idxs.
     bind (discoverConstraints D (dt_name dt)) (\<lambda>cons.
     bind (discoverPartitionKeys D (dt_name dt)) (\<lambda>keys.
     bind (discoverPartitions D (dt_name dt)) (\<lambda>parts.
     ret (convert_found dt cols idxs cons keys parts))))))"

section \<open>Population\<close>

record pending_fk =
  pf_table :: object_id
  pf_column :: string
  pf_referencedTable :: string

definition populate_table :: "discovery \<Rightarrow> discovered_table \<Rightarrow> (world, pending_fk list) prog" where
  "populate_table D dt = catch
     (bind (convertCompleteTable D dt) (\<lambda>(t, fks).
      bind ctx_nextId (\<lambda>i.
      bind (tables_insert Direct (t\<lparr>obj_id := i\<rparr>)) (\<lambda>inserted.
      ret (if inserted
           then map (\<lambda>(c, r). \<lparr>pf_table = i, pf_column = c, pf_referencedTable = r\<rparr>) fks else [])))))
     (\<lambda>e. ret [])"

definition set_fk :: "string \<Rightarrow> object_id \<Rightarrow> table \<Rightarrow> table option" where
  "set_fk col target t = Some (t\<lparr>columns := map (\<lambda>c. if col_name c = col
     then c\<lparr>foreign_key_references := target\<rparr> else c) (columns t)\<rparr>)"

definition tables_byName :: "string \<Rightarrow> (world, table option) prog" where
  "tables_byName n = seq interfere (\<lambda>w. (catalog_byName (tables (registry w)) n, w))"

definition resolve_fk :: "pending_fk \<Rightarrow> (world, unit) prog" where
  "resolve_fk fk = bind (tables_byName (pf_referencedTable fk)) (\<lambda>target. case target of
       None \<Rightarrow> skip
     | Some r \<Rightarrow> seq (tables_update Direct (pf_table fk) (set_fk (pf_column fk) (obj_id r))) skip)"

definition populateFromExistingDatabase :: "discovery \<Rightarrow> (world, unit) prog" where
  "populateFromExistingDatabase D =
     bind (discoverTables D) (\<lambda>ts.
     bind (map_prog (populate_table D) ts) (\<lambda>pendings.
     for_each (concat pendings) resolve_fk))"

text \<open>\<open>Worker::discover_existing_schema\<close> (core/src/workload.cpp), whose handler logs and rethrows.\<close>

definition discover_existing_schema :: "(world, unit) prog" where
  "discover_existing_schema = bind make_schema_discovery populateFromExistingDatabase"

end
