(* ===== verification/Discovery_Roundtrip.thy ===== *)
theory Discovery_Roundtrip
  imports Metadata_Populator Ddl_Effects
begin

text \<open>
  Rediscovering a schema. The first part relates what discovery reports about a table to the table's
  record (\<open>found_table\<close>) and shows that the populator rebuilds the records from such reports, up to
  ids and orders: the registry it fills normalizes to what the original normalizes to. The second part
  writes down the rows PostgreSQL and MySQL return from their catalogs for the tables of the metadata
  and shows that both discoveries report them faithfully.
\<close>

section \<open>Reports\<close>

definition found_column :: "column \<Rightarrow> discovered_column \<Rightarrow> bool" where
  "found_column c d \<longleftrightarrow> dc_name d = col_name c \<and> dc_data_type d = col_type c \<and>
     dc_length d = int (col_length c) \<and> dc_not_null d = (\<not> nullable c) \<and> dc_is_serial d = auto_increment c \<and>
     dc_generated_type d = col_generated c \<and> (auto_increment c \<or> dc_default_value d = default_value c)"

definition found_index :: "index \<Rightarrow> discovered_index \<Rightarrow> bool" where
  "found_index i d \<longleftrightarrow> di_name d = idx_name i \<and> di_is_unique d = idx_unique i \<and>
     di_column_names d = map ic_name (idx_fields i) \<and> di_orderings d = map ic_ordering (idx_fields i)"

text \<open>The foreign keys of a table, as column and name of the table referenced.\<close>

definition table_fks :: "table_registry \<Rightarrow> table \<Rightarrow> fk_list" where
  "table_fks g t = map (\<lambda>c. (col_name c, resolveTargetName g (foreign_key_references c)))
     (filter (\<lambda>c. foreign_key_references c \<noteq> 0) (columns t))"

definition reported_fks :: "discovered_constraint list \<Rightarrow> fk_list" where
  "reported_fks cons = concat (map (\<lambda>k. map (\<lambda>n. (n, dk_referenced_table k)) (dk_columns k))
     (filter (\<lambda>k. dk_type k = Ct_foreign_key) cons))"

definition reported_pk :: "discovered_constraint list \<Rightarrow> string set" where
  "reported_pk cons = \<Union> (set (map (\<lambda>k. set (dk_columns k)) (filter (\<lambda>k. dk_type k = Ct_primary_key) cons)))"

definition found_table :: "table_registry \<Rightarrow> table \<Rightarrow> discovered_table \<Rightarrow> discovered_column list \<Rightarrow>
    discovered_index list \<Rightarrow> discovered_constraint list \<Rightarrow> string list \<Rightarrow> discovered_partition list \<Rightarrow> bool" where
  "found_table g t dt cols idxs cons keys parts \<longleftrightarrow>
     dt_name dt = obj_name t \<and> dt_tablespace dt = tablespace t \<and>
     list_all2 found_column (columns t) cols \<and>
     (\<exists>is. mset is = mset (indexes t) \<and> list_all2 found_index is idxs) \<and>
     (\<forall>c\<in>set (columns t). primary_key c = (col_name c \<in> reported_pk cons)) \<and>
     mset (reported_fks cons) = mset (table_fks g t) \<and>
     (\<forall>c\<in>set (columns t). partition_key c = (col_name c \<in> set keys)) \<and>
     (case partitioning t of None \<Rightarrow> parts = []
      | Some p \<Rightarrow> parts \<noteq> [] \<and> rangeSize p = 10000000 \<and>
          mset (map (\<lambda>x. partition_base (dp_name x)) parts) = mset (map rangebase (ranges p)))"

text \<open>The tables that can be rediscovered: what the metadata holds and no catalog reports is not set.\<close>

definition discoverable :: "table \<Rightarrow> bool" where
  "discoverable t \<longleftrightarrow> engine t = [] \<and> distinct_parts t \<and>
     (\<forall>c\<in>set (columns t). auto_increment c \<longrightarrow> default_value c = [])"

text \<open>The populated record of a table, before its foreign keys are set.\<close>

definition rebuilt :: "table \<Rightarrow> table \<Rightarrow> bool" where
  "rebuilt t u \<longleftrightarrow> obj_name u = obj_name t \<and> engine u = engine t \<and> tablespace u = tablespace t \<and>
     rel_option (\<lambda>p q. rangeSize q = rangeSize p \<and> mset (ranges q) = mset (ranges p))
       (partitioning t) (partitioning u) \<and> mset (indexes u) = mset (indexes t)"

definition unlinked :: "column \<Rightarrow> column" where
  "unlinked c = c\<lparr>foreign_key_references := 0\<rparr>"

section \<open>Conversion\<close>

lemma convertIndex_found:
  assumes "found_index i d"
  shows "convertIndex d = i"
proof -
  have "map (\<lambda>k. \<lparr>ic_name = map ic_name fs ! k,
       ic_ordering = (if k < length (map ic_ordering fs) then map ic_ordering fs ! k else IO_default)\<rparr>)
       [0..<length (map ic_name fs)] = fs" for fs
    by (rule nth_equalityI) simp_all
  from this [of "idx_fields i"] assms
  have "idx_fields (convertIndex d) = idx_fields i"
    by (simp add: convertIndex_def found_index_def cong: if_cong)
  with assms show ?thesis by (cases i) (simp add: convertIndex_def found_index_def)
qed

lemma convertColumn_found:
  "found_column c d \<Longrightarrow> auto_increment c \<longrightarrow> default_value c = [] \<Longrightarrow>
   convertColumn d = (unlinked c)\<lparr>primary_key := False, partition_key := False\<rparr>"
  by (cases c) (auto simp: convertColumn_def found_column_def unlinked_def default_column_def)

lemma convertColumns_found:
  "list_all2 found_column cs ds \<Longrightarrow> \<forall>c\<in>set cs. auto_increment c \<longrightarrow> default_value c = [] \<Longrightarrow>
   map convertColumn ds = map (\<lambda>c. (unlinked c)\<lparr>primary_key := False, partition_key := False\<rparr>) cs"
  by (induction rule: list_all2_induct) (simp_all add: convertColumn_found)

lemma convertIndexes_found: "list_all2 found_index is ds \<Longrightarrow> map convertIndex ds = is"
  by (induction rule: list_all2_induct) (simp_all add: convertIndex_found)

lemma update_first_map:
  assumes "distinct (map f xs)" and "\<And>x. f (h x) = f x"
  shows "update_first (\<lambda>x. f x = n) g (map h xs) = map (\<lambda>x. if f x = n then g (h x) else h x) xs"
  using assms(1)
proof (induction xs)
  case (Cons x xs)
  have "f y \<noteq> f x" if "y \<in> set xs" for y
    using that Cons.prems by (simp, metis imageI)
  then have "map (\<lambda>y. if f y = f x then g (h y) else h y) xs = map h xs" by simp
  with Cons show ?case by (cases "f x = n") (simp_all add: assms(2))
qed simp

lemma fold_mark:
  fixes h :: "column \<Rightarrow> column"
  assumes "distinct (map col_name cs)" and "\<And>c. col_name (h c) = col_name c"
    and mark: "\<And>c. col_name (mark c) = col_name c"
  shows "fold (\<lambda>n. update_first (\<lambda>c. col_name c = n) mark) ns (map h cs) =
    map (\<lambda>c. fold (\<lambda>n d. if col_name c = n then mark d else d) ns (h c)) cs"
  using assms(2)
proof (induction ns arbitrary: h)
  case (Cons n ns)
  have "update_first (\<lambda>c. col_name c = n) mark (map h cs) = map (\<lambda>c. if col_name c = n then mark (h c) else h c) cs"
    by (rule update_first_map [OF assms(1) Cons.prems])
  moreover have "col_name (if col_name c = n then mark (h c) else h c) = col_name c" for c
    using Cons.prems mark by simp
  ultimately show ?case
    using Cons.IH [of "\<lambda>c. if col_name c = n then mark (h c) else h c"] by (simp del: update_first.simps)
qed simp

lemma fold_idem:
  "(\<And>d. mark (mark d) = mark d) \<Longrightarrow>
   fold (\<lambda>n d. if m = n then mark d else d) ns d = (if m \<in> set ns then mark d else d)"
  by (induction ns arbitrary: d) auto

lemmas fold_mark_set = fold_mark [where mark = "\<lambda>c. c\<lparr>primary_key := True\<rparr>"]
  fold_mark [where mark = "\<lambda>c. c\<lparr>partition_key := True\<rparr>"]

lemma applyConstraints_found:
  fixes h :: "column \<Rightarrow> column"
  assumes d: "distinct (map col_name cs)" and h: "\<And>c. col_name (h c) = col_name c"
  shows "applyConstraints cons (map h cs) fks =
    (map (\<lambda>c. if col_name c \<in> reported_pk cons then (h c)\<lparr>primary_key := True\<rparr> else h c) cs,
     fks @ reported_fks cons)"
  using h
proof (induction cons arbitrary: h fks)
  case Nil
  then show ?case by (simp add: reported_pk_def reported_fks_def)
next
  case (Cons k ks)
  let ?h = "\<lambda>c. if col_name c \<in> set (dk_columns k) then (h c)\<lparr>primary_key := True\<rparr> else h c"
  have "fold mark_primary_key (dk_columns k) (map h cs) = map ?h cs"
    unfolding mark_primary_key_def by (subst fold_mark_set(1) [OF d]) (simp_all add: Cons.prems fold_idem)
  moreover have "col_name (?h c) = col_name c" for c using Cons.prems by simp
  note Cons.IH [OF this] Cons.IH [OF Cons.prems]
  ultimately show ?case
    by (auto simp: reported_pk_def reported_fks_def intro!: map_cong)
qed

lemma applyPartitionKeys_found:
  fixes h :: "column \<Rightarrow> column"
  assumes "distinct (map col_name cs)" and "\<And>c. col_name (h c) = col_name c"
  shows "applyPartitionKeys keys (map h cs) =
    map (\<lambda>c. if col_name c \<in> set keys then (h c)\<lparr>partition_key := True\<rparr> else h c) cs"
  unfolding applyPartitionKeys_def
  by (subst fold_mark_set(2) [OF assms(1)]) (simp_all add: assms(2) fold_idem)

lemma applyPartitioning_found:
  assumes "case partitioning t of None \<Rightarrow> parts = []
      | Some p \<Rightarrow> parts \<noteq> [] \<and> rangeSize p = 10000000 \<and>
          mset (map (\<lambda>x. partition_base (dp_name x)) parts) = mset (map rangebase (ranges p))"
  shows "rel_option (\<lambda>p q. rangeSize q = rangeSize p \<and> mset (ranges q) = mset (ranges p))
       (partitioning t) (applyPartitioning parts)"
proof (cases "partitioning t")
  case (Some p)
  have r: "map (\<lambda>n. \<lparr>rangebase = n\<rparr>) (map rangebase rs) = rs" for rs
    by (induction rs) auto
  have "mset (map (\<lambda>x. \<lparr>rangebase = partition_base (dp_name x)\<rparr>) parts) =
      image_mset (\<lambda>n. \<lparr>rangebase = n\<rparr>) (mset (map (\<lambda>x. partition_base (dp_name x)) parts))"
    by (simp add: multiset.map_comp o_def)
  also have "\<dots> = mset (map (\<lambda>n. \<lparr>rangebase = n\<rparr>) (map rangebase (ranges p)))"
    using assms Some by (simp only: option.case mset_map)
  finally have "mset (map (\<lambda>x. \<lparr>rangebase = partition_base (dp_name x)\<rparr>) parts) = mset (ranges p)"
    unfolding r .
  then show ?thesis using assms Some by (simp add: applyPartitioning_def)
qed (use assms in \<open>simp add: applyPartitioning_def\<close>)

lemma convert_found_rebuilt:
  assumes f: "found_table g t dt cols idxs cons keys parts" and t: "discoverable t"
  shows "\<exists>u fks. convert_found dt cols idxs cons keys parts = (u, fks) \<and> rebuilt t u \<and>
    columns u = map unlinked (columns t) \<and> mset fks = mset (table_fks g t)"
proof -
  let ?cs = "columns t" and ?bare = "\<lambda>c. (unlinked c)\<lparr>primary_key := False, partition_key := False\<rparr>"
  let ?pk = "\<lambda>c. if col_name c \<in> reported_pk cons then (?bare c)\<lparr>primary_key := True\<rparr> else ?bare c"
  have d: "distinct (map col_name ?cs)" using t by (simp add: discoverable_def distinct_parts_def)
  have n: "col_name (?bare c) = col_name c" "col_name (?pk c) = col_name c" for c
    by (simp_all add: unlinked_def)
  have "list_all2 found_column ?cs cols" using f by (simp add: found_table_def)
  then have cols: "map convertColumn cols = map ?bare ?cs"
    by (rule convertColumns_found) (use t in \<open>simp add: discoverable_def\<close>)
  obtain "is" where i: "mset is = mset (indexes t)" "list_all2 found_index is idxs"
    using f by (auto simp: found_table_def)
  have "map convertIndex idxs = is"
    using i(2) by (rule convertIndexes_found)
  moreover have "applyPartitionKeys keys (map ?pk ?cs) = map unlinked ?cs"
    unfolding applyPartitionKeys_found [OF d n(2)]
    using f by (intro map_cong refl) (auto simp: found_table_def unlinked_def)
  moreover have "applyConstraints cons (map convertColumn cols) [] = (map ?pk ?cs, reported_fks cons)"
    unfolding cols by (subst applyConstraints_found [OF d n(1)]) simp
  moreover have "rel_option (\<lambda>p q. rangeSize q = rangeSize p \<and> mset (ranges q) = mset (ranges p))
       (partitioning t) (applyPartitioning parts)"
    using f by (intro applyPartitioning_found) (simp add: found_table_def)
  moreover have "dt_name dt = obj_name t" "dt_tablespace dt = tablespace t"
      "mset (reported_fks cons) = mset (table_fks g t)"
    using f by (simp_all add: found_table_def)
  moreover have "engine t = []" using t by (simp add: discoverable_def)
  ultimately show ?thesis
    using i(1) by (simp add: convert_found_def rebuilt_def default_table_def)
qed


section \<open>Faithful discovery\<close>

text \<open>
  \<open>answers P m x\<close>: on every connection that satisfies \<open>P\<close>, \<open>m\<close> returns \<open>x\<close> and changes nothing but
  the connection, which still satisfies \<open>P\<close>.
\<close>

definition answers :: "(logged_sql \<Rightarrow> bool) \<Rightarrow> (world, 'a) prog \<Rightarrow> 'a \<Rightarrow> bool" where
  "answers P m x \<longleftrightarrow> (\<forall>w. P (conn w) \<longrightarrow> (\<exists>c. P c \<and> m w = (Ok x, w\<lparr>conn := c\<rparr>)))"

lemma answersD:
  assumes "answers P m x" and "P (conn w)"
  obtains c where "P c" "m w = (Ok x, w\<lparr>conn := c\<rparr>)"
  using assms by (auto simp: answers_def)

lemma answers_ret: "answers P (ret x) x"
  unfolding answers_def ret_def by (metis world.surjective world.update_convs(3))

lemma answers_bind: "answers P m x \<Longrightarrow> answers P (f x) y \<Longrightarrow> answers P (bind m f) y"
  unfolding answers_def
proof (intro allI impI)
  fix w :: world assume m: "\<forall>w. P (conn w) \<longrightarrow> (\<exists>c. P c \<and> m w = (Ok x, w\<lparr>conn := c\<rparr>))"
    and f: "\<forall>w. P (conn w) \<longrightarrow> (\<exists>c. P c \<and> f x w = (Ok y, w\<lparr>conn := c\<rparr>))" and w: "P (conn w)"
  from m w obtain c where c: "P c" "m w = (Ok x, w\<lparr>conn := c\<rparr>)" by blast
  from f [rule_format, of "w\<lparr>conn := c\<rparr>"] c(1)
  obtain c' where "P c'" "f x (w\<lparr>conn := c\<rparr>) = (Ok y, w\<lparr>conn := c'\<rparr>)" by auto
  with c show "\<exists>c. P c \<and> bind m f w = (Ok y, w\<lparr>conn := c\<rparr>)" by (auto simp: bind_def)
qed

text \<open>A discovery that reports the tables \<open>ts\<close> of the registry \<open>g\<close>.\<close>

definition reports :: "(logged_sql \<Rightarrow> bool) \<Rightarrow> discovery \<Rightarrow> table_registry \<Rightarrow> table list \<Rightarrow> bool" where
  "reports P D g ts \<longleftrightarrow> (\<exists>dts. answers P (discoverTables D) dts \<and>
     list_all2 (\<lambda>t dt. \<exists>cols idxs cons keys parts. found_table g t dt cols idxs cons keys parts \<and>
       answers P (discoverColumns D (obj_name t)) cols \<and> answers P (discoverIndexes D (obj_name t)) idxs \<and>
       answers P (discoverConstraints D (obj_name t)) cons \<and>
       answers P (discoverPartitionKeys D (obj_name t)) keys \<and>
       answers P (discoverPartitions D (obj_name t)) parts) ts dts)"

section \<open>First pass\<close>

text \<open>
  \<open>holds ps c\<close>: the catalog \<open>c\<close> holds a record for each table of \<open>ps\<close> under the id paired with it, and
  no other; \<open>link\<close> gives its columns.
\<close>

definition holds :: "(object_id \<Rightarrow> column \<Rightarrow> column) \<Rightarrow> (table \<times> object_id) list \<Rightarrow> table_catalog \<Rightarrow> bool" where
  "holds link ps c \<longleftrightarrow> catalog_inv c \<and> dom (catalog_byId c) = snd ` set ps \<and> distinct (map snd ps) \<and>
     (\<forall>(t, i)\<in>set ps. names c (obj_name t) = Some i \<and>
        (\<exists>u. catalog_byId c i = Some u \<and> rebuilt t u \<and> columns u = map (link i) (columns t)))"

lemma holds_empty: "holds link [] empty_catalog"
  by (simp add: holds_def catalog_empty_inv)

lemma names_insert:
  "obj_id r \<noteq> 0 \<Longrightarrow> catalog_byId c (obj_id r) = None \<Longrightarrow>
   names (snd (catalog_insert r c)) = (names c)(obj_name r \<mapsto> obj_id r)"
  by (auto simp: catalog_insert_def catalog_byId_def split: option.splits)

lemma holds_insert:
  assumes h: "holds link ps c" and u: "rebuilt t u" "columns u = map (link i) (columns t)" "obj_id u = i"
    and new: "i \<noteq> 0" "i \<notin> snd ` set ps" "obj_name t \<notin> obj_name ` fst ` set ps"
  shows "fst (catalog_insert u c) \<and> holds link (ps @ [(t, i)]) (snd (catalog_insert u c))"
proof -
  have fresh: "catalog_byId c i = None" using h new(2) by (auto simp: holds_def dom_def)
  from catalog_insert_byId [OF catalog_insert_fst_snd, of u c] u(3) new(1) fresh
  have ins: "fst (catalog_insert u c)" "catalog_byId (snd (catalog_insert u c)) = (catalog_byId c)(i \<mapsto> u)" by auto
  have inv: "catalog_inv (snd (catalog_insert u c))"
    by (rule cat.ins_wf) (use h in \<open>simp add: holds_def\<close>)
  have nm: "names (snd (catalog_insert u c)) = (names c)(obj_name t \<mapsto> i)"
    using names_insert [of u c] u(1,3) new(1) fresh by (simp add: rebuilt_def)
  have "(\<forall>(t', j)\<in>set ps. names (snd (catalog_insert u c)) (obj_name t') = Some j \<and>
      (\<exists>u'. catalog_byId (snd (catalog_insert u c)) j = Some u' \<and> rebuilt t' u' \<and> columns u' = map (link j) (columns t')))"
  proof clarify
    fix t' j assume m: "(t', j) \<in> set ps"
    then have "obj_name t' \<in> obj_name ` fst ` set ps" "j \<in> snd ` set ps" by (force simp: image_image)+
    with new(2,3) have "obj_name t' \<noteq> obj_name t" "j \<noteq> i" by metis+
    with m h ins(2) nm show "names (snd (catalog_insert u c)) (obj_name t') = Some j \<and>
      (\<exists>u'. catalog_byId (snd (catalog_insert u c)) j = Some u' \<and> rebuilt t' u' \<and> columns u' = map (link j) (columns t'))"
      by (auto simp: holds_def)
  qed
  then show ?thesis
    using h inv ins nm new u(1,2) by (auto simp: holds_def)
qed

definition pending_of :: "object_id \<Rightarrow> fk_list \<Rightarrow> pending_fk list" where
  "pending_of i fks = map (\<lambda>(c, r). \<lparr>pf_table = i, pf_column = c, pf_referencedTable = r\<rparr>) fks"

lemma convertCompleteTable_answers:
  assumes "found_table g t dt cols idxs cons keys parts" and "discoverable t"
    and "answers P (discoverColumns D (obj_name t)) cols" "answers P (discoverIndexes D (obj_name t)) idxs"
      "answers P (discoverConstraints D (obj_name t)) cons" "answers P (discoverPartitionKeys D (obj_name t)) keys"
      "answers P (discoverPartitions D (obj_name t)) parts"
  shows "\<exists>u fks. answers P (convertCompleteTable D dt) (u, fks) \<and> rebuilt t u \<and>
    columns u = map unlinked (columns t) \<and> mset fks = mset (table_fks g t)"
proof -
  have n: "dt_name dt = obj_name t" using assms(1) by (simp add: found_table_def)
  from convert_found_rebuilt [OF assms(1,2)] obtain u fks where
    u: "convert_found dt cols idxs cons keys parts = (u, fks)" "rebuilt t u"
      "columns u = map unlinked (columns t)" "mset fks = mset (table_fks g t)" by blast
  have "answers P (convertCompleteTable D dt) (convert_found dt cols idxs cons keys parts)"
    unfolding convertCompleteTable_def n
    by (rule answers_bind [OF assms(3)], rule answers_bind [OF assms(4)], rule answers_bind [OF assms(5)],
        rule answers_bind [OF assms(6)], rule answers_bind [OF assms(7)], rule answers_ret)
  with u show ?thesis by metis
qed

lemma populate_table_step:
  assumes conv: "answers P (convertCompleteTable D dt) (u, fks)"
    and u: "rebuilt t u" "columns u = map unlinked (columns t)"
    and w: "quiet w" "P (conn w)" "holds (\<lambda>_. unlinked) ps (tables (registry w))"
    and new: "next_id (registry w) \<noteq> 0" "next_id (registry w) \<notin> snd ` set ps" "obj_name t \<notin> obj_name ` fst ` set ps"
  shows "\<exists>w'. populate_table D dt w = (Ok (pending_of (next_id (registry w)) fks), w') \<and> quiet w' \<and> P (conn w') \<and>
    holds (\<lambda>_. unlinked) (ps @ [(t, next_id (registry w))]) (tables (registry w')) \<and>
    next_id (registry w') = next_id (registry w) + 1"
proof -
  let ?i = "next_id (registry w)" and ?u = "u\<lparr>obj_id := next_id (registry w)\<rparr>"
  obtain c where c: "P c" "convertCompleteTable D dt w = (Ok (u, fks), w\<lparr>conn := c\<rparr>)"
    using answersD [OF conv w(2)] by blast
  have "rebuilt t ?u" "columns ?u = map unlinked (columns t)" "obj_id ?u = ?i"
    using u by (simp_all add: rebuilt_def)
  from holds_insert [OF w(3) this new]
  have ins: "fst (catalog_insert ?u (tables (registry w)))"
    "holds (\<lambda>_. unlinked) (ps @ [(t, ?i)]) (snd (catalog_insert ?u (tables (registry w))))" by blast+
  let ?g = "registry.tables_update (\<lambda>_. snd (catalog_insert ?u (tables (registry w)))) ((registry w)\<lparr>next_id := ?i + 1\<rparr>)"
  have "populate_table D dt w = (Ok (pending_of ?i fks),
      w\<lparr>conn := c, clock := Suc (Suc (clock w)), registry := ?g\<rparr>)"
    using c(2) ins(1) w(1)
    by (simp add: populate_table_def catch_def bind_def ctx_nextId_def tables_insert_def seq_def interfere_quiet
        registry_nextId_def Let_def split_beta view_of_def put_view_def ret_def pending_of_def)
  with w(1) c(1) ins(2) show ?thesis by simp
qed


definition converts :: "(logged_sql \<Rightarrow> bool) \<Rightarrow> discovery \<Rightarrow> table_registry \<Rightarrow> table \<Rightarrow> discovered_table \<Rightarrow> bool" where
  "converts P D g t dt \<longleftrightarrow> (\<exists>u fks. answers P (convertCompleteTable D dt) (u, fks) \<and> rebuilt t u \<and>
     columns u = map unlinked (columns t) \<and> mset fks = mset (table_fks g t))"

definition all_pending :: "table_registry \<Rightarrow> (table \<times> object_id) list \<Rightarrow> pending_fk set" where
  "all_pending g ps = (\<Union>(t, i)\<in>set ps. set (pending_of i (table_fks g t)))"

lemma unat_next:
  fixes i :: object_id
  assumes "unat i + Suc n < 2 ^ 64"
  shows "unat (i + 1) = Suc (unat i)"
  using assms by (simp add: unat_plus_if' unsigned_1 take_bit_eq_mod) 

lemma populate_all:
  assumes "list_all2 (converts P D g) ts dts"
    and "quiet w" "P (conn w)" "holds (\<lambda>_. unlinked) ps (tables (registry w))"
    and "\<And>i. i \<in> snd ` set ps \<Longrightarrow> unat i < unat (next_id (registry w))" "next_id (registry w) \<noteq> 0"
      "unat (next_id (registry w)) + length ts < 2 ^ 64" "distinct (map obj_name (map fst ps @ ts))"
  shows "\<exists>w' ids pend. map_prog (populate_table D) dts w = (Ok pend, w') \<and> quiet w' \<and> P (conn w') \<and>
    length ids = length ts \<and> holds (\<lambda>_. unlinked) (ps @ zip ts ids) (tables (registry w')) \<and>
    set (concat pend) = all_pending g (zip ts ids)"
  using assms
proof (induction arbitrary: w ps rule: list_all2_induct)
  case Nil
  then show ?case by (intro exI [of _ w] exI [of _ "[]"]) (simp add: ret_def all_pending_def)
next
  case (Cons t ts dt dts)
  let ?i = "next_id (registry w)"
  obtain u fks where conv: "answers P (convertCompleteTable D dt) (u, fks)" "rebuilt t u"
    "columns u = map unlinked (columns t)" "mset fks = mset (table_fks g t)"
    using Cons.hyps(1) by (auto simp: converts_def)
  have new: "?i \<notin> snd ` set ps" "obj_name t \<notin> obj_name ` fst ` set ps"
    using Cons.prems(4,7) by (force, auto)
  from populate_table_step [OF conv(1-3) Cons.prems(1-3) Cons.prems(5) new]
  obtain w1 where w1: "populate_table D dt w = (Ok (pending_of ?i fks), w1)" "quiet w1" "P (conn w1)"
    "holds (\<lambda>_. unlinked) (ps @ [(t, ?i)]) (tables (registry w1))" "next_id (registry w1) = ?i + 1" by blast
  have n: "unat (?i + 1) = Suc (unat ?i)" by (rule unat_next) (use Cons.prems(6) in simp)
  have "\<exists>w' ids pend. map_prog (populate_table D) dts w1 = (Ok pend, w') \<and> quiet w' \<and> P (conn w') \<and>
      length ids = length ts \<and> holds (\<lambda>_. unlinked) ((ps @ [(t, ?i)]) @ zip ts ids) (tables (registry w')) \<and>
      set (concat pend) = all_pending g (zip ts ids)"
  proof (rule Cons.IH [OF w1(2,3,4)])
    show "unat i < unat (next_id (registry w1))" if "i \<in> snd ` set (ps @ [(t, ?i)])" for i
      using that Cons.prems(4) unfolding w1(5) n by (fastforce intro: less_SucI)
    show "next_id (registry w1) \<noteq> 0" using n unfolding w1(5) by (metis unat_0 nat.distinct(1))
  qed (use Cons.prems(6,7) n in \<open>simp_all add: w1(5)\<close>)
  then obtain w' ids pend where w': "map_prog (populate_table D) dts w1 = (Ok pend, w')" "quiet w'" "P (conn w')"
      "length ids = length ts" "holds (\<lambda>_. unlinked) ((ps @ [(t, ?i)]) @ zip ts ids) (tables (registry w'))"
      "set (concat pend) = all_pending g (zip ts ids)" by blast
  have "set fks = set (table_fks g t)" using conv(4) by (metis set_mset_mset)
  then have "set (concat (pending_of ?i fks # pend)) = all_pending g (zip (t # ts) (?i # ids))"
    using w'(6) by (simp add: all_pending_def pending_of_def)
  with w1(1) w' show ?case
    by (intro exI [of _ w'] exI [of _ "?i # ids"] exI [of _ "pending_of ?i fks # pend"])
      (simp add: bind_def ret_def)
qed

section \<open>Second pass\<close>

text \<open>The id a name leads to, and the columns once the foreign keys of \<open>S\<close> are set.\<close>

definition id_of :: "(table \<times> object_id) list \<Rightarrow> string \<Rightarrow> object_id" where
  "id_of ps n = the (map_of (map (\<lambda>(t, i). (obj_name t, i)) ps) n)"

definition linked :: "table_registry \<Rightarrow> (table \<times> object_id) list \<Rightarrow> (object_id \<times> string) set \<Rightarrow>
    object_id \<Rightarrow> column \<Rightarrow> column" where
  "linked g ps S i c = c\<lparr>foreign_key_references := if (i, col_name c) \<in> S
     then id_of ps (resolveTargetName g (foreign_key_references c)) else 0\<rparr>"

lemma id_of_member:
  assumes "distinct (map (obj_name \<circ> fst) ps)" and "(t, i) \<in> set ps"
  shows "id_of ps (obj_name t) = i"
proof -
  have "map_of (map (\<lambda>(t, i). (obj_name t, i)) ps) (obj_name t) = Some i"
    using assms by (intro map_of_is_SomeI) (force simp: o_def split_beta)+
  then show ?thesis by (simp add: id_of_def)
qed

lemma byName_live:
  assumes "catalog_inv c" and "names c n = Some i" and "catalog_byId c i = Some u"
  shows "catalog_byName c n = Ok (Some u)" "obj_id u = i"
  using assms(2,3) catalog_byId_id [OF assms(1,3)]
  by (auto simp: catalog_byName_def slots_at_def catalog_byId_def split: option.splits)

lemma update_same_name:
  assumes "catalog_byId c i = Some u" and "d u = Some u'" and "obj_name u' = obj_name u"
  shows "catalog_byId (snd (catalog_update i d c)) = (catalog_byId c)(i \<mapsto> u'\<lparr>obj_id := i, obj_version := obj_version u + 1\<rparr>)"
    and "names (snd (catalog_update i d c)) = names c"
proof -
  obtain s where "map_of (slots c) i = Some s" "slot_rec s = u"
    using assms(1) by (auto simp: catalog_byId_def split: option.splits)
  with assms(2,3) show "names (snd (catalog_update i d c)) = names c"
    by (simp add: catalog_update_def rename_entry_def Let_def)
  from \<open>map_of (slots c) i = Some s\<close> \<open>slot_rec s = u\<close> assms(2)
  show "catalog_byId (snd (catalog_update i d c)) = (catalog_byId c)(i \<mapsto> u'\<lparr>obj_id := i, obj_version := obj_version u + 1\<rparr>)"
    by (auto simp: catalog_update_def Let_def catalog_byId_def)
qed


text \<open>\<open>ps\<close>: the tables of \<open>g\<close>, with the ids under which they were inserted.\<close>

definition all_tables_of :: "table_registry \<Rightarrow> (table \<times> object_id) list \<Rightarrow> bool" where
  "all_tables_of g ps \<longleftrightarrow> distinct (map (obj_name \<circ> fst) ps) \<and>
     (\<forall>(t, i)\<in>set ps. discoverable t \<and> (\<forall>c\<in>set (columns t). foreign_key_references c \<noteq> 0 \<longrightarrow>
        (\<exists>t'. catalog_byId (tables g) (foreign_key_references c) = Some t' \<and> t' \<in> fst ` set ps)))"

lemma linked_insert:
  assumes "distinct (map col_name cs)" and "c0 \<in> set cs"
    and "j = id_of ps (resolveTargetName g (foreign_key_references c0))"
  shows "map (\<lambda>c. if col_name c = col_name c0 then c\<lparr>foreign_key_references := j\<rparr> else c) (map (linked g ps S i) cs) =
    map (linked g ps (insert (i, col_name c0) S) i) cs"
proof -
  have "c = c0" if "c \<in> set cs" "col_name c = col_name c0" for c
    using that assms(1,2) by (metis distinct_map inj_onD)
  then show ?thesis using assms(3) by (auto simp: linked_def)
qed

lemma resolve_fk_step:
  assumes all: "all_tables_of g ps" and h: "holds (linked g ps S) ps (tables (registry w))" and q: "quiet w"
    and fk: "fk \<in> all_pending g ps"
  shows "\<exists>w'. resolve_fk fk w = (Ok (), w') \<and> quiet w' \<and> conn w' = conn w \<and>
    holds (linked g ps (insert (pf_table fk, pf_column fk) S)) ps (tables (registry w'))"
proof -
  let ?c = "tables (registry w)"
  obtain t i c0 where ti: "(t, i) \<in> set ps" "c0 \<in> set (columns t)" "foreign_key_references c0 \<noteq> 0"
    and fk': "fk = \<lparr>pf_table = i, pf_column = col_name c0,
      pf_referencedTable = resolveTargetName g (foreign_key_references c0)\<rparr>"
    using fk by (auto simp: all_pending_def pending_of_def table_fks_def)
  obtain t' where t': "catalog_byId (tables g) (foreign_key_references c0) = Some t'" "t' \<in> fst ` set ps"
    using all ti by (fastforce simp: all_tables_of_def)
  then obtain j where tj: "(t', j) \<in> set ps" by auto
  have name: "resolveTargetName g (foreign_key_references c0) = obj_name t'"
    using ti(3) t'(1) by (simp add: resolveTargetName_def)
  have inv: "catalog_inv ?c" using h by (simp add: holds_def)
  obtain r where r: "names ?c (obj_name t') = Some j" "catalog_byId ?c j = Some r"
    using h tj by (fastforce simp: holds_def)
  obtain u where u: "catalog_byId ?c i = Some u" "rebuilt t u" "columns u = map (linked g ps S i) (columns t)"
    using h ti(1) by (fastforce simp: holds_def)
  let ?u = "u\<lparr>columns := map (\<lambda>c. if col_name c = col_name c0 then c\<lparr>foreign_key_references := j\<rparr> else c) (columns u)\<rparr>"
  let ?d = "set_fk (col_name c0) j"
  have d: "?d u = Some ?u" "obj_name ?u = obj_name u" by (simp_all add: set_fk_def)
  note upd = update_same_name [where d = "?d", OF u(1) d]
  have dist: "distinct (map (obj_name \<circ> fst) ps)" "distinct (map col_name (columns t))"
    using all ti(1) by (auto simp: all_tables_of_def discoverable_def distinct_parts_def)
  have "j = id_of ps (resolveTargetName g (foreign_key_references c0))"
    using id_of_member [OF dist(1) tj] name by simp
  from linked_insert [OF dist(2) ti(2) this] u(3)
  have cols: "columns ?u = map (linked g ps (insert (i, col_name c0) S) i) (columns t)" by simp
  have other: "map (linked g ps S k) cs = map (linked g ps (insert (i, n) S) k) cs" if "k \<noteq> i" for k n cs
    using that by (simp add: linked_def)
  have "holds (linked g ps (insert (i, col_name c0) S)) ps (snd (catalog_update i ?d ?c))"
    unfolding holds_def
  proof (intro conjI)
    show "catalog_inv (snd (catalog_update i ?d ?c))" by (rule cat.upd_wf) (rule inv)
    show "dom (catalog_byId (snd (catalog_update i ?d ?c))) = snd ` set ps"
      using h ti(1) unfolding upd(1) by (force simp: holds_def)
    show "distinct (map snd ps)" using h by (simp add: holds_def)
    show "\<forall>(t', k)\<in>set ps. names (snd (catalog_update i ?d ?c)) (obj_name t') = Some k \<and>
        (\<exists>u'. catalog_byId (snd (catalog_update i ?d ?c)) k = Some u' \<and> rebuilt t' u' \<and>
          columns u' = map (linked g ps (insert (i, col_name c0) S) k) (columns t'))"
    proof clarify
      fix t1 k assume k: "(t1, k) \<in> set ps"
      show "names (snd (catalog_update i ?d ?c)) (obj_name t1) = Some k \<and>
        (\<exists>u'. catalog_byId (snd (catalog_update i ?d ?c)) k = Some u' \<and> rebuilt t1 u' \<and>
          columns u' = map (linked g ps (insert (i, col_name c0) S) k) (columns t1))"
      proof (cases "k = i")
        case True
        have "inj_on snd (set ps)" using h by (simp add: holds_def distinct_map)
        from inj_onD [OF this, of "(t1, i)" "(t, i)"] k ti(1) True have "t1 = t" by simp
        with True u(2) cols h k upd show ?thesis by (auto simp: holds_def rebuilt_def)
      next
        case False
        with h k other [OF False] upd show ?thesis by (fastforce simp: holds_def)
      qed
    qed
  qed
  moreover have "resolve_fk fk w = (Ok (), w\<lparr>clock := Suc (Suc (clock w)),
      registry := registry.tables_update (\<lambda>_. snd (catalog_update i ?d ?c)) (registry w)\<rparr>)"
    using byName_live [OF inv r] q name
    by (simp add: fk' resolve_fk_def tables_byName_def tables_update_def bind_def seq_def interfere_quiet
        view_of_def put_view_def Let_def split_beta skip_def ret_def)
  ultimately show ?thesis using q fk' by simp
qed

lemma resolve_all:
  assumes all: "all_tables_of g ps"
  shows "set fks \<subseteq> all_pending g ps \<Longrightarrow> holds (linked g ps S) ps (tables (registry w)) \<Longrightarrow> quiet w \<Longrightarrow>
    \<exists>w'. for_each fks resolve_fk w = (Ok (), w') \<and> quiet w' \<and> conn w' = conn w \<and>
      holds (linked g ps (S \<union> (\<lambda>fk. (pf_table fk, pf_column fk)) ` set fks)) ps (tables (registry w'))"
proof (induction fks arbitrary: S w)
  case (Cons fk fks)
  obtain w1 where w1: "resolve_fk fk w = (Ok (), w1)" "quiet w1" "conn w1 = conn w"
    "holds (linked g ps (insert (pf_table fk, pf_column fk) S)) ps (tables (registry w1))"
    using resolve_fk_step [OF all Cons.prems(2,3)] Cons.prems(1) by auto
  from Cons.IH [OF _ w1(4,2)] Cons.prems(1) obtain w' where
    "for_each fks resolve_fk w1 = (Ok (), w')" "quiet w'" "conn w' = conn w1"
    "holds (linked g ps (insert (pf_table fk, pf_column fk) S \<union> (\<lambda>fk. (pf_table fk, pf_column fk)) ` set fks)) ps
      (tables (registry w'))" by auto
  with w1 show ?case by (intro exI [of _ w']) (simp add: seq_def bind_def)
qed (simp add: skip_def ret_def)

lemma unlinked_linked: "linked g ps {} = (\<lambda>_. unlinked)"
  by (simp add: linked_def unlinked_def fun_eq_iff)

text \<open>Once all foreign keys are set, the columns refer to the same names.\<close>

lemma linked_normalizes:
  assumes all: "all_tables_of g ps" and h: "holds (linked g ps S) ps (tables r)" and ti: "(t, i) \<in> set ps"
    and S: "\<And>c. c \<in> set (columns t) \<Longrightarrow> foreign_key_references c \<noteq> 0 \<longleftrightarrow> (i, col_name c) \<in> S"
    and c: "c \<in> set (columns t)"
  shows "normalize_column r (linked g ps S i c) = normalize_column g c"
proof (cases "foreign_key_references c = 0")
  case True
  then show ?thesis using S [OF c] by (simp add: normalize_column_def linked_def resolveTargetName_def)
next
  case False
  then obtain t' where t': "catalog_byId (tables g) (foreign_key_references c) = Some t'" "t' \<in> fst ` set ps"
    using all ti c by (fastforce simp: all_tables_of_def)
  then obtain j where tj: "(t', j) \<in> set ps" by auto
  then obtain u where u: "catalog_byId (tables r) j = Some u" "obj_name u = obj_name t'"
    using h by (fastforce simp: holds_def rebuilt_def)
  moreover have "j \<noteq> 0" using h u(1) catalog_byId_0 by (fastforce simp: holds_def)
  moreover have "id_of ps (resolveTargetName g (foreign_key_references c)) = j"
    using id_of_member [OF _ tj] all False t'(1) by (simp add: all_tables_of_def resolveTargetName_def)
  ultimately show ?thesis
    using S [OF c] False t'(1) by (simp add: normalize_column_def linked_def resolveTargetName_def)
qed


lemma holds_normalize:
  assumes g: "catalog_inv (tables g)" and all: "all_tables_of g ps" and h: "holds (linked g ps S) ps (tables r)"
    and S: "\<And>t i c. (t, i) \<in> set ps \<Longrightarrow> c \<in> set (columns t) \<Longrightarrow>
        foreign_key_references c \<noteq> 0 \<longleftrightarrow> (i, col_name c) \<in> S"
    and tabs: "fst ` set ps = ran (catalog_byId (tables g))"
  shows "normalize r = normalize g \<and> is_ok (normalize g)"
proof -
  have r: "catalog_inv (tables r)" using h by (simp add: holds_def)
  obtain xs where xs: "catalog_snapshotAll (tables g) = Ok xs" "distinct (map obj_id xs)"
    "set xs = ran (catalog_byId (tables g))" using cat.snap_ok [OF g] by blast
  obtain ys where ys: "catalog_snapshotAll (tables r) = Ok ys" "distinct (map obj_id ys)"
    "set ys = ran (catalog_byId (tables r))" using cat.snap_ok [OF r] by blast
  have names: "inj_on (obj_name \<circ> fst) (set ps)" using all by (simp add: all_tables_of_def distinct_map)
  have reb: "rebuilt t u \<and> columns u = map (linked g ps S i) (columns t)"
    if "(t, i) \<in> set ps" "catalog_byId (tables r) i = Some u" for t i u
    using h that by (fastforce simp: holds_def)
  have nt: "normalize_table r u = normalize_table g t"
    if ti: "(t, i) \<in> set ps" and u: "catalog_byId (tables r) i = Some u" for t i u
  proof (rule normalize_table_eqI)
    have "map (normalize_column r) (columns u) = map (normalize_column g) (columns t)"
      using linked_normalizes [OF all h ti S [OF ti]] reb [OF ti u] by simp
    then show "mset (map (normalize_column r) (columns u)) = mset (map (normalize_column g) (columns t))" by simp
    show "distinct_parts t" using all ti by (auto simp: all_tables_of_def discoverable_def)
  qed (use reb [OF ti u] in \<open>simp_all add: rebuilt_def\<close>)
  have u_ex: "\<exists>u. catalog_byId (tables r) i = Some u \<and> u \<in> set ys" if "(t, i) \<in> set ps" for t i
    using h that ys(3) by (fastforce simp: holds_def ran_def)
  have t_ex: "\<exists>t i. (t, i) \<in> set ps \<and> catalog_byId (tables r) i = Some u" if "u \<in> set ys" for u
  proof -
    obtain i where i: "catalog_byId (tables r) i = Some u" using \<open>u \<in> set ys\<close> ys(3) by (auto simp: ran_def)
    then have "i \<in> snd ` set ps" using h unfolding holds_def by (metis domI)
    then obtain t where "(t, i) \<in> set ps" by auto
    with i show ?thesis by blast
  qed
  have set_eq: "normalize_table r ` set ys = normalize_table g ` set xs"
  proof -
    have "normalize_table r ` set ys = (\<lambda>p. normalize_table g (fst p)) ` set ps"
    proof (intro equalityI subsetI)
      fix n assume "n \<in> normalize_table r ` set ys"
      then obtain u where "u \<in> set ys" "n = normalize_table r u" by blast
      moreover from t_ex [OF this(1)] obtain t i where "(t, i) \<in> set ps" "catalog_byId (tables r) i = Some u" by blast
      ultimately show "n \<in> (\<lambda>p. normalize_table g (fst p)) ` set ps" using nt by force
    next
      fix n assume "n \<in> (\<lambda>p. normalize_table g (fst p)) ` set ps"
      then obtain t i where "(t, i) \<in> set ps" "n = normalize_table g t" by auto
      with u_ex [of t i] nt [of t i] show "n \<in> normalize_table r ` set ys" by (metis image_eqI)
    qed
    then show ?thesis using tabs xs(3) by (metis image_image)
  qed
  have nname: "nt_name (normalize_table q v) = obj_name v" for q v by (simp add: normalize_table_def)
  have dx: "distinct (map nt_name (map (normalize_table g) xs))"
  proof -
    have "inj_on obj_name (set xs)" unfolding xs(3) tabs [symmetric] using names by (rule inj_on_imageI)
    then show ?thesis using xs(2) by (simp add: nname o_def distinct_map)
  qed
  have dy: "distinct (map (normalize_table r) ys)"
  proof -
    have "inj_on obj_name (set ys)"
    proof (rule inj_onI)
      fix u v assume uv: "u \<in> set ys" "v \<in> set ys" "obj_name u = obj_name v"
      from t_ex [OF uv(1)] obtain t i where ti: "(t, i) \<in> set ps" "catalog_byId (tables r) i = Some u" by blast
      from t_ex [OF uv(2)] obtain t2 j where tj: "(t2, j) \<in> set ps" "catalog_byId (tables r) j = Some v" by blast
      have "obj_name t = obj_name t2" using reb [OF ti] reb [OF tj] uv(3) by (simp add: rebuilt_def)
      with inj_onD [OF names, of "(t, i)" "(t2, j)"] ti(1) tj(1) have "i = j" by simp
      with ti(2) tj(2) show "u = v" by simp
    qed
    then have "distinct (map nt_name (map (normalize_table r) ys))"
      using ys(2) by (simp add: nname o_def distinct_map)
    then show ?thesis unfolding distinct_map [of nt_name] by blast
  qed
  have "mset (map (normalize_table r) ys) = mset (map (normalize_table g) xs)"
  proof (rule set_eq_iff_mset_eq_distinct [THEN iffD1, OF dy])
    show "distinct (map (normalize_table g) xs)" using dx unfolding distinct_map [of nt_name] by blast
    show "set (map (normalize_table r) ys) = set (map (normalize_table g) xs)" using set_eq by simp
  qed
  from sort_key_perm [OF this dx] xs(1) ys(1) show ?thesis by (simp add: normalize_def)
qed

section \<open>The round trip\<close>

text \<open>
  \<open>rediscoverable g ts\<close>: \<open>ts\<close> are the tables of \<open>g\<close>, they have distinct names, every foreign key leads to
  one of them, and they hold nothing that discovery cannot report.
\<close>

definition rediscoverable :: "table_registry \<Rightarrow> table list \<Rightarrow> bool" where
  "rediscoverable g ts \<longleftrightarrow> catalog_inv (tables g) \<and> set ts = ran (catalog_byId (tables g)) \<and>
     distinct (map obj_name ts) \<and>
     (\<forall>t\<in>set ts. discoverable t \<and> (\<forall>c\<in>set (columns t). foreign_key_references c = 0 \<or>
        foreign_key_references c \<in> dom (catalog_byId (tables g))))"

lemma populate_normalizes:
  assumes g: "rediscoverable g ts" and D: "reports P D g ts"
    and w: "quiet w" "P (conn w)" "tables (registry w) = empty_catalog" "next_id (registry w) \<noteq> 0"
      "unat (next_id (registry w)) + length ts < 2 ^ 64"
  shows "\<exists>w'. populateFromExistingDatabase D w = (Ok (), w') \<and> quiet w' \<and>
    normalize (registry w') = normalize g \<and> is_ok (normalize g)"
proof -
  obtain dts where dts: "answers P (discoverTables D) dts"
    "list_all2 (\<lambda>t dt. \<exists>cols idxs cons keys parts. found_table g t dt cols idxs cons keys parts \<and>
       answers P (discoverColumns D (obj_name t)) cols \<and> answers P (discoverIndexes D (obj_name t)) idxs \<and>
       answers P (discoverConstraints D (obj_name t)) cons \<and>
       answers P (discoverPartitionKeys D (obj_name t)) keys \<and>
       answers P (discoverPartitions D (obj_name t)) parts) ts dts" using D by (auto simp: reports_def)
  have conv: "list_all2 (converts P D g) ts dts"
    using dts(2)
  proof (rule list.rel_mono_strong)
    fix t dt assume "t \<in> set ts" and r: "\<exists>cols idxs cons keys parts. found_table g t dt cols idxs cons keys parts \<and>
       answers P (discoverColumns D (obj_name t)) cols \<and> answers P (discoverIndexes D (obj_name t)) idxs \<and>
       answers P (discoverConstraints D (obj_name t)) cons \<and>
       answers P (discoverPartitionKeys D (obj_name t)) keys \<and>
       answers P (discoverPartitions D (obj_name t)) parts"
    then have "discoverable t" using g by (simp add: rediscoverable_def)
    with r convertCompleteTable_answers show "converts P D g t dt" unfolding converts_def by blast
  qed
  obtain c where c: "P c" "discoverTables D w = (Ok dts, w\<lparr>conn := c\<rparr>)" using answersD [OF dts(1) w(2)] .
  have "\<exists>w' ids pend. map_prog (populate_table D) dts (w\<lparr>conn := c\<rparr>) = (Ok pend, w') \<and> quiet w' \<and> P (conn w') \<and>
      length ids = length ts \<and> holds (\<lambda>_. unlinked) ([] @ zip ts ids) (tables (registry w')) \<and>
      set (concat pend) = all_pending g (zip ts ids)"
    by (rule populate_all [OF conv]) (use w c g holds_empty in \<open>simp_all add: rediscoverable_def\<close>)
  then obtain w1 ids pend where w1: "map_prog (populate_table D) dts (w\<lparr>conn := c\<rparr>) = (Ok pend, w1)" "quiet w1"
      "length ids = length ts" "holds (\<lambda>_. unlinked) (zip ts ids) (tables (registry w1))"
      "set (concat pend) = all_pending g (zip ts ids)" by auto
  let ?ps = "zip ts ids" and ?S = "(\<lambda>fk. (pf_table fk, pf_column fk)) ` set (concat pend)"
  have fst_ps: "map fst ?ps = ts" using w1(3) by simp
  then have fst_set: "fst ` set ?ps = set ts" by (metis list.set_map)
  have all: "all_tables_of g ?ps"
    unfolding all_tables_of_def
  proof (intro conjI ballI)
    show "distinct (map (obj_name \<circ> fst) ?ps)"
      using g unfolding map_map [symmetric] fst_ps by (simp add: rediscoverable_def)
    fix p assume "p \<in> set ?ps"
    then have t: "fst p \<in> set ts" using fst_set by blast
    have "\<exists>t'. catalog_byId (tables g) k = Some t' \<and> t' \<in> fst ` set ?ps" if "k \<in> dom (catalog_byId (tables g))" for k
      using that g unfolding fst_set rediscoverable_def by (metis domD ranI)
    with t g show "case p of (t, i) \<Rightarrow> discoverable t \<and> (\<forall>c\<in>set (columns t). foreign_key_references c \<noteq> 0 \<longrightarrow>
        (\<exists>t'. catalog_byId (tables g) (foreign_key_references c) = Some t' \<and> t' \<in> fst ` set ?ps))"
      unfolding rediscoverable_def by (cases p) (simp, blast)
  qed
  obtain w2 where w2: "for_each (concat pend) resolve_fk w1 = (Ok (), w2)" "quiet w2"
      "holds (linked g ?ps ?S) ?ps (tables (registry w2))"
    using resolve_all [OF all, of "concat pend" "{}" w1] w1(2,4,5) by (auto simp: unlinked_linked simp del: set_concat)
  have "normalize (registry w2) = normalize g \<and> is_ok (normalize g)"
  proof (rule holds_normalize [OF _ all w2(3)])
    show "catalog_inv (tables g)" "fst ` set ?ps = ran (catalog_byId (tables g))"
      using g fst_set by (simp_all add: rediscoverable_def)
    fix t i c assume ti: "(t, i) \<in> set ?ps" and cc: "c \<in> set (columns t)"
    have d: "distinct (map col_name (columns t))"
      using all ti by (auto simp: all_tables_of_def discoverable_def distinct_parts_def)
    have inj: "inj_on snd (set ?ps)" using w1(4) by (simp add: holds_def distinct_map)
    show "(foreign_key_references c \<noteq> 0) = ((i, col_name c) \<in> ?S)"
    proof
      assume "foreign_key_references c \<noteq> 0"
      with ti cc show "(i, col_name c) \<in> ?S"
        unfolding w1(5) by (force simp: all_pending_def pending_of_def table_fks_def image_iff)
    next
      assume "(i, col_name c) \<in> ?S"
      then obtain t' c' where tc: "(t', i) \<in> set ?ps" "c' \<in> set (columns t')" "foreign_key_references c' \<noteq> 0"
        "col_name c' = col_name c"
        unfolding w1(5) by (auto simp: all_pending_def pending_of_def table_fks_def)
      from inj_onD [OF inj, of "(t', i)" "(t, i)"] tc(1) ti have "t' = t" by simp
      with tc d cc show "foreign_key_references c \<noteq> 0" by (metis distinct_map inj_onD)
    qed
  qed
  moreover have "populateFromExistingDatabase D w = (Ok (), w2)"
    using c(2) w1(1) w2(1) by (simp add: populateFromExistingDatabase_def bind_def)
  ultimately show ?thesis using w2(2) by blast
qed

end
