(* ===== verification/Catalog_Rows.thy ===== *)
theory Catalog_Rows
  imports Discovery_Roundtrip
begin

text \<open>
  What PostgreSQL and MySQL answer to the catalog queries when the database holds the tables of the
  metadata, as their documentation describes it, and the proof that \<open>pg_discovery\<close> and
  \<open>mysql_discovery\<close> read the tables back from it. A field of a row that the code does not read is left open.
\<close>

section \<open>Servers with a fixed catalog\<close>

type_synonym catalog_content = "string \<Rightarrow> string option list list option"

text \<open>\<open>serves info S c\<close>: \<open>c\<close> is a connection to a server \<open>info\<close> that answers the catalog queries by \<open>S\<close>.\<close>

definition serves :: "server_info \<Rightarrow> catalog_content \<Rightarrow> logged_sql \<Rightarrow> bool" where
  "serves info S c \<longleftrightarrow> conn_info c = info \<and>
     (\<forall>h q rows. S q = Some rows \<longrightarrow> qr_success (server c h (Sql_query q)) \<and>
        (\<exists>d. qr_data (server c h (Sql_query q)) = Some d \<and> dataRows d = rows))"

lemma answers_fetch:
  assumes "S q = Some rows" and "res_map f rows = Ok xs"
  shows "answers (serves info S) (fetch_rows q f) xs"
  unfolding answers_def
proof (intro allI impI)
  fix w :: world assume s: "serves info S (conn w)"
  let ?c = "snd (conn_executeQuery q (conn w))" and ?r = "server (conn w) (sent (conn w)) (Sql_query q)"
  obtain d where d: "qr_success ?r" "qr_data ?r = Some d" "dataRows d = rows"
    using s assms(1) unfolding serves_def by blast
  have "conn_info ?c = conn_info (conn w)" "server ?c = server (conn w)"
    by (simp_all add: conn_executeQuery_def sql_send_def Let_def observeResult_def)
  with s have "serves info S ?c" by (simp add: serves_def)
  moreover have "fetch_rows q f w = (Ok xs, w\<lparr>conn := ?c\<rparr>)"
    using d assms(2)
    by (simp add: fetch_rows_def bind_def seq_def run_sql_def in_conn_def conn_executeQuery_def sql_send_def
        Let_def maybeThrow_def lift_result_def)
  ultimately show "\<exists>c. serves info S c \<and> fetch_rows q f w = (Ok xs, w\<lparr>conn := c\<rparr>)" by blast
qed

lemma res_map_all2: "list_all2 (\<lambda>x row. f row = Ok (h x)) xs rows \<Longrightarrow> res_map f rows = Ok (map h xs)"
  by (induction rule: list_all2_induct) simp_all

lemma res_map_rows:
  assumes "list_all2 R xs rows" and "\<And>x row. R x row \<Longrightarrow> x \<in> set xs \<Longrightarrow> \<exists>y. f row = Ok y \<and> Q x y"
  shows "\<exists>ys. res_map f rows = Ok ys \<and> list_all2 Q xs ys"
  using assms
proof (induction rule: list_all2_induct)
  case (Cons x xs row rows)
  obtain ys where ys: "res_map f rows = Ok ys" "list_all2 Q xs ys" using Cons.IH Cons.prems by auto
  obtain y where y: "f row = Ok y" "Q x y" using Cons.prems [OF Cons.hyps(1)] by auto
  from y ys show ?case by (intro exI [of _ "y # ys"]) simp
qed simp

section \<open>Numbers and lists in text\<close>

lemma stoul_fmt_nat: "n < 2 ^ 64 \<Longrightarrow> stoul (fmt_nat n) = Some (of_nat n)"
proof -
  assume n: "n < 2 ^ 64"
  have h: "\<not> is_space (hd (fmt_nat n))" "hd (fmt_nat n) \<noteq> CHR ''-''" "hd (fmt_nat n) \<noteq> CHR ''+''"
    using fmt_nat_head [of n] digit_not_other [of "hd (fmt_nat n)"] by auto
  then have dw: "dropWhile is_space (fmt_nat n) = fmt_nat n" by (cases "fmt_nat n") auto
  have tk: "takeWhile is_digit (fmt_nat n) = fmt_nat n"
    using is_digit_fmt_nat by (auto simp: takeWhile_eq_all_conv)
  show ?thesis using h n by (simp add: tk dw stoul_def Let_def not_le)
qed

lemma stoi_fmt_nat: "n < 2 ^ 31 \<Longrightarrow> stoi (fmt_nat n) = Ok (int n)"
proof -
  assume n: "n < 2 ^ 31"
  have h: "\<not> is_space (hd (fmt_nat n))" "hd (fmt_nat n) \<noteq> CHR ''-''" "hd (fmt_nat n) \<noteq> CHR ''+''"
    using fmt_nat_head [of n] digit_not_other [of "hd (fmt_nat n)"] by auto
  then have dw: "dropWhile is_space (fmt_nat n) = fmt_nat n" by (cases "fmt_nat n") auto
  have tk: "takeWhile is_digit (fmt_nat n) = fmt_nat n"
    using is_digit_fmt_nat by (auto simp: takeWhile_eq_all_conv)
  show ?thesis using h n by (simp add: tk dw stoi_def Let_def not_le)
qed

lemma stoi_minus_one: "stoi ''-1'' = Ok (-1)"
  by (simp add: stoi_def is_space_def is_digit_def digits_value_def)

text \<open>\<open>comma_items\<close> undoes \<open>join\<close> when no item is empty or holds a comma.\<close>

definition plain_name :: "string \<Rightarrow> bool" where
  "plain_name n \<longleftrightarrow> n \<noteq> [] \<and> CHR '','' \<notin> set n \<and> CHR 0x60 \<notin> set n"

lemma split_on_name: "d \<notin> set n \<Longrightarrow> split_on d n = [n]"
  by (induction n) auto

lemma split_on_append: "d \<notin> set n \<Longrightarrow> split_on d (n @ d # s) = n # split_on d s"
  by (induction n) auto

lemma comma_items_join:
  "list_all plain_name ns \<Longrightarrow> comma_items (join '','' ns) = ns"
proof (induction ns rule: induct_list012)
  case (2 x)
  then show ?case by (simp add: comma_items_def split_on_name plain_name_def)
next
  case (3 x y xs)
  then show ?case by (simp add: comma_items_def split_on_append plain_name_def)
qed (simp add: comma_items_def)

lemma partition_base_p: "n < 2 ^ 64 \<Longrightarrow> partition_base (''p'' @ fmt_nat n) = n"
  "n < 2 ^ 64 \<Longrightarrow> partition_base (t @ ''_p'' @ fmt_nat n) = n"
proof -
  assume n: "n < 2 ^ 64"
  have u: "\<forall>c\<in>set (rev (fmt_nat n)). c \<noteq> CHR ''_''"
  proof -
    have "\<not> is_digit (CHR ''_'')" by (simp add: is_digit_def)
    then show ?thesis using is_digit_fmt_nat by (metis set_rev)
  qed
  then have "takeWhile (\<lambda>c. c \<noteq> CHR ''_'') (rev (fmt_nat n) @ s) =
      rev (fmt_nat n) @ takeWhile (\<lambda>c. c \<noteq> CHR ''_'') s" for s
    by (subst takeWhile_append2) auto
  then have "after_last (CHR ''_'') (''p'' @ fmt_nat n) = ''p'' @ fmt_nat n"
    "after_last (CHR ''_'') (t @ ''_p'' @ fmt_nat n) = ''p'' @ fmt_nat n"
    by (simp_all add: after_last_def)
  with n stoul_fmt_nat [OF n]
  show "partition_base (''p'' @ fmt_nat n) = n" "partition_base (t @ ''_p'' @ fmt_nat n) = n"
    by (simp_all add: partition_base_def unat_of_nat)
qed

section \<open>Indexes\<close>

text \<open>\<open>index_map\<close> collects the rows of each index, whatever order the server lists the indexes in.\<close>

definition index_rows :: "index list \<Rightarrow> index_row list" where
  "index_rows is = concat (map (\<lambda>i. map (\<lambda>f. (idx_name i, idx_unique i, ic_name f, ic_ordering f)) (idx_fields i)) is)"

definition as_found :: "index \<Rightarrow> discovered_index" where
  "as_found i = \<lparr>di_name = idx_name i, di_is_unique = idx_unique i,
     di_column_names = map ic_name (idx_fields i), di_orderings = map ic_ordering (idx_fields i)\<rparr>"

lemma update_first_last:
  "\<forall>x\<in>set xs. \<not> P x \<Longrightarrow> P y \<Longrightarrow> update_first P f (xs @ [y]) = xs @ [f y]"
  by (induction xs) auto

lemma add_rows_same:
  assumes "\<forall>d\<in>set m. di_name d \<noteq> n"
  shows "foldl add_index_row (m @ [\<lparr>di_name = n, di_is_unique = u, di_column_names = cs, di_orderings = os\<rparr>])
      (map (\<lambda>f. (n, u', ic_name f, ic_ordering f)) fs) =
    m @ [\<lparr>di_name = n, di_is_unique = u, di_column_names = cs @ map ic_name fs, di_orderings = os @ map ic_ordering fs\<rparr>]"
proof (induction fs arbitrary: cs os)
  case (Cons f fs)
  then show ?case using assms by (simp add: add_index_row_def update_first_last)
qed simp

lemma add_rows_index:
  assumes "idx_name i \<notin> di_name ` set m" and "idx_fields i \<noteq> []"
  shows "foldl add_index_row m (map (\<lambda>f. (idx_name i, idx_unique i, ic_name f, ic_ordering f)) (idx_fields i)) =
    m @ [as_found i]"
proof -
  obtain f fs where f: "idx_fields i = f # fs" using assms(2) by (cases "idx_fields i") auto
  have new: "\<not> list_ex (\<lambda>d. di_name d = idx_name i) m" "\<forall>d\<in>set m. di_name d \<noteq> idx_name i"
    using assms(1) by (auto simp: list_ex_iff) (metis image_eqI)+
  have "add_index_row m (idx_name i, idx_unique i, ic_name f, ic_ordering f) =
      m @ [\<lparr>di_name = idx_name i, di_is_unique = idx_unique i, di_column_names = [ic_name f], di_orderings = [ic_ordering f]\<rparr>]"
    using new by (simp add: add_index_row_def update_first_last)
  with add_rows_same [OF new(2), of "idx_unique i" "[ic_name f]" "[ic_ordering f]" "idx_unique i" fs] f show ?thesis by (simp add: as_found_def)
qed

lemma index_map_rows:
  assumes "distinct (map idx_name is)" and "\<forall>i\<in>set is. idx_fields i \<noteq> []"
  shows "index_map (index_rows is) = map as_found (sort_key idx_name is)"
proof -
  have "foldl add_index_row m (index_rows is) = m @ map as_found is"
    if "distinct (map idx_name is)" "\<forall>i\<in>set is. idx_fields i \<noteq> []" "idx_name ` set is \<inter> di_name ` set m = {}" for m
    using that
  proof (induction "is" arbitrary: m)
    case (Cons i "is")
    have "idx_name ` set is \<inter> di_name ` set (m @ [as_found i]) = {}"
      using Cons.prems by (auto simp: as_found_def)
    with Cons.IH [OF _ _ this] Cons.prems add_rows_index [of i m] show ?case
      by (simp add: index_rows_def)
  qed (simp add: index_rows_def)
  from this [of "[]"] assms have "index_map (index_rows is) = sort_key di_name (map as_found is)"
    by (simp add: index_map_def)
  also have "\<dots> = map as_found (sort_key idx_name is)"
  proof -
    have "map as_found (insort_key idx_name i js) = insort_key di_name (as_found i) (map as_found js)" for i js
      by (induction js) (simp_all add: as_found_def)
    then show ?thesis by (induction "is") simp_all
  qed
  finally show ?thesis .
qed

lemma found_as_found: "list_all2 found_index is (map as_found is)"
  by (simp add: list_all2_conv_all_nth found_index_def as_found_def)

section \<open>PostgreSQL's answers\<close>

text \<open>\<open>pg_class\<close>, \<open>pg_attribute\<close>: the spelling of types, flags and type modifiers.\<close>

fun pg_typname :: "column_type \<Rightarrow> string" where
  "pg_typname CT_INT = ''int4''"
| "pg_typname CT_CHAR = ''bpchar''"
| "pg_typname CT_VARCHAR = ''varchar''"
| "pg_typname CT_REAL = ''float4''"
| "pg_typname CT_BOOL = ''bool''"
| "pg_typname CT_BYTEA = ''bytea''"
| "pg_typname CT_TEXT = ''text''"

definition tf :: "bool \<Rightarrow> string" where
  "tf b = (if b then ''t'' else ''f'')"

fun generated_name :: "generated \<Rightarrow> string" where
  "generated_name notGenerated = ''not_generated''"
| "generated_name stored = ''stored''"
| "generated_name virt = ''virtual''"

definition char_type :: "column_type \<Rightarrow> bool" where
  "char_type ty \<longleftrightarrow> ty = CT_VARCHAR \<or> ty = CT_CHAR"

definition pg_typmod :: "column \<Rightarrow> string" where
  "pg_typmod c = (if char_type (col_type c) then fmt_nat (col_length c + 4) else ''-1'')"

definition pg_table_answer :: "table \<Rightarrow> string option list \<Rightarrow> bool" where
  "pg_table_answer t row \<longleftrightarrow> (\<exists>ty am part pt. row = [Some (obj_name t), ty, am,
     Some (if tablespace t = [] then ''pg_default'' else tablespace t), part, pt])"

definition pg_column_answer :: "column \<Rightarrow> string option list \<Rightarrow> bool" where
  "pg_column_answer c row \<longleftrightarrow> (\<exists>len pos def. row = [Some (col_name c), Some (pg_typname (col_type c)), len,
     Some (pg_typmod c), Some (tf (\<not> nullable c)), Some (fmt_nat pos), Some (tf (auto_increment c)),
     Some (generated_name (col_generated c)), Some def] \<and> pos < 2 ^ 31 \<and>
     (auto_increment c \<or> def = default_value c))"

definition pg_index_answer :: "index \<times> index_column \<Rightarrow> string option list \<Rightarrow> bool" where
  "pg_index_answer p row \<longleftrightarrow> (case p of (i, f) \<Rightarrow> \<exists>pos def. row = [Some (idx_name i), Some (tf (idx_unique i)),
     Some (ic_name f), pos, Some def] \<and> contains def (ic_name f @ '' DESC'') = (ic_ordering f = IO_desc))"

fun pg_contype :: "constraint_type \<Rightarrow> string" where
  "pg_contype Ct_primary_key = ''p''"
| "pg_contype Ct_foreign_key = ''f''"
| "pg_contype Ct_unique = ''u''"
| "pg_contype Ct_check = ''c''"
| "pg_contype Ct_unknown = ''x''"

definition constraint_answer ::
  "(constraint_type \<Rightarrow> string) \<Rightarrow> discovered_constraint \<Rightarrow> string option list \<Rightarrow> bool" where
  "constraint_answer ty k row \<longleftrightarrow> list_all plain_name (dk_columns k) \<and> list_all plain_name (dk_referenced_columns k) \<and>
     row = [Some (dk_name k), Some (ty (dk_type k)), Some (join '','' (dk_columns k)),
       Some (dk_referenced_table k), Some (join '','' (dk_referenced_columns k))]"

text \<open>The constraints of a table: its primary key and its foreign keys, by name, and any others.\<close>

definition constraints_of :: "table_registry \<Rightarrow> table \<Rightarrow> discovered_constraint list \<Rightarrow> bool" where
  "constraints_of g t ks \<longleftrightarrow> mset (reported_fks ks) = mset (table_fks g t) \<and>
     (\<forall>c\<in>set (columns t). primary_key c = (col_name c \<in> reported_pk ks))"

text \<open>Partitions are named \<open>prefix\<close> and the base of their range; the server lists them in any order.\<close>

definition partition_answer :: "string \<Rightarrow> table \<Rightarrow> string option list list \<Rightarrow> bool" where
  "partition_answer prefix t rows \<longleftrightarrow> (case partitioning t of None \<Rightarrow> rows = []
     | Some p \<Rightarrow> \<exists>rs. mset rs = mset (ranges p) \<and>
         list_all2 (\<lambda>r row. \<exists>bound. row = [Some (prefix @ fmt_nat (rangebase r)), bound]) rs rows)"

definition partition_key_names :: "table \<Rightarrow> string set" where
  "partition_key_names t = col_name ` {c \<in> set (columns t). partition_key c}"

definition index_fields_of :: "index list \<Rightarrow> (index \<times> index_column) list" where
  "index_fields_of is = concat (map (\<lambda>i. map (Pair i) (idx_fields i)) is)"

definition pg_describes :: "catalog_content \<Rightarrow> table_registry \<Rightarrow> table list \<Rightarrow> bool" where
  "pg_describes S g ts \<longleftrightarrow>
     (\<exists>rows. S pg_tables_query = Some rows \<and> list_all2 pg_table_answer ts rows) \<and>
     (\<forall>t\<in>set ts.
       (\<exists>rows. S (pg_columns_query (obj_name t)) = Some rows \<and> list_all2 pg_column_answer (columns t) rows) \<and>
       (\<exists>is rows. mset is = mset (indexes t) \<and> S (pg_indexes_query (obj_name t)) = Some rows \<and>
          list_all2 pg_index_answer (index_fields_of is) rows) \<and>
       (\<exists>ks rows. constraints_of g t ks \<and> S (pg_constraints_query (obj_name t)) = Some rows \<and>
          list_all2 (constraint_answer pg_contype) ks rows) \<and>
       (\<exists>rows. S (pg_partitions_query (obj_name t)) = Some rows \<and> partition_answer (obj_name t @ ''_p'') t rows) \<and>
       (\<exists>ks. S (pg_partition_keys_query (obj_name t)) = Some (map (\<lambda>n. [Some n]) ks) \<and>
          set ks = partition_key_names t))"

text \<open>What the servers can hold of a table: bounded lengths, explicit orders, ordinary names.\<close>

definition storable :: "table \<Rightarrow> bool" where
  "storable t \<longleftrightarrow> tablespace t \<noteq> ''pg_default'' \<and>
     (\<forall>c\<in>set (columns t). col_length c + 4 < 2 ^ 31 \<and> (char_type (col_type c) \<or> col_length c = 0) \<and>
        plain_name (col_name c)) \<and>
     (\<forall>i\<in>set (indexes t). idx_fields i \<noteq> [] \<and> (\<forall>f\<in>set (idx_fields i). ic_ordering f \<noteq> IO_default)) \<and>
     (case partitioning t of None \<Rightarrow> True | Some p \<Rightarrow> ranges p \<noteq> [] \<and> rangeSize p = 10000000 \<and>
        (\<forall>r\<in>set (ranges p). rangebase r < 2 ^ 64))"

section \<open>Decoding\<close>

lemmas row_defs = value_or_def int_or_def

lemma pg_table_decoded:
  "pg_table_answer t row \<Longrightarrow> storable t \<Longrightarrow>
   \<exists>dt. pg_table_row row = Ok dt \<and> dt_name dt = obj_name t \<and> dt_tablespace dt = tablespace t"
  unfolding pg_table_answer_def
  by (elim exE) (simp add: pg_table_row_def row_defs parseTablespace_def storable_def)

lemma pg_typname_decoded [simp]: "pg_parseDataType (pg_typname ty) = ty"
  by (cases ty) (simp_all add: pg_parseDataType_def)

lemma generated_decoded [simp]: "parseGeneratedType (generated_name x) = x"
  by (cases x) (simp_all add: parseGeneratedType_def)

lemma tf_t [simp]: "(tf b = ''t'') = b"
  by (simp add: tf_def)

lemma pg_column_decoded:
  assumes "pg_column_answer c row" and "col_length c + 4 < 2 ^ 31" "char_type (col_type c) \<or> col_length c = 0"
  shows "\<exists>d. pg_column_row row = Ok d \<and> found_column c d"
proof -
  obtain len pos def where row: "row = [Some (col_name c), Some (pg_typname (col_type c)), len,
     Some (pg_typmod c), Some (tf (\<not> nullable c)), Some (fmt_nat pos), Some (tf (auto_increment c)),
     Some (generated_name (col_generated c)), Some def]" "pos < 2 ^ 31" "auto_increment c \<or> def = default_value c"
    using assms(1) by (auto simp: pg_column_answer_def)
  let ?tm = "if char_type (col_type c) then int (col_length c) + 4 else -1"
  have tm: "stoi (pg_typmod c) = Ok ?tm"
    using stoi_fmt_nat [OF assms(2)] by (simp add: pg_typmod_def stoi_minus_one)
  have "(if char_type (col_type c) then parseTypeModifier (pg_typname (col_type c)) ?tm else 0) = int (col_length c)"
    using assms(3) by (auto simp: parseTypeModifier_def char_type_def)
  note len = this [unfolded char_type_def] and tm' = tm [unfolded char_type_def]
  show ?thesis
    using row(3) len tm' stoi_fmt_nat [OF row(2)]
    by (simp add: pg_column_row_def row(1) row_defs found_column_def Let_def)
qed


lemma index_rows_fields:
  "index_rows is = map (\<lambda>(i, f). (idx_name i, idx_unique i, ic_name f, ic_ordering f)) (index_fields_of is)"
  by (simp add: index_rows_def index_fields_of_def map_concat o_def)

lemma indexes_decoded:
  assumes rows: "list_all2 R (index_fields_of is) rows"
    and row: "\<And>i f row. R (i, f) row \<Longrightarrow> ic_ordering f \<noteq> IO_default \<Longrightarrow>
      parse row = Ok (idx_name i, idx_unique i, ic_name f, ic_ordering f)"
    and t: "mset is = mset (indexes t)" "storable t"
  shows "res_map parse rows = Ok (index_rows is)"
  unfolding index_rows_fields
proof (rule res_map_all2, rule list.rel_mono_strong [OF rows])
  fix p row' assume p: "p \<in> set (index_fields_of is)" "R p row'"
  obtain i f where pf: "p = (i, f)" by fastforce
  have "set is = set (indexes t)" using t(1) by (rule mset_eq_setD)
  with p(1) pf t(2) have "ic_ordering f \<noteq> IO_default" by (auto simp: index_fields_of_def storable_def)
  from row [OF _ this] p(2) pf
  show "parse row' = Ok (case p of (i, f) \<Rightarrow> (idx_name i, idx_unique i, ic_name f, ic_ordering f))" by simp
qed

lemma index_map_decoded:
  assumes "mset is = mset (indexes t)" and "storable t" and "discoverable t"
  shows "index_map (index_rows is) = map as_found (sort_key idx_name is)"
proof (rule index_map_rows)
  have "distinct (map idx_name (indexes t))" using assms(3) by (simp add: discoverable_def distinct_parts_def)
  then show "distinct (map idx_name is)" using assms(1) by (metis mset_eq_imp_distinct_iff mset_map)
  show "\<forall>i\<in>set is. idx_fields i \<noteq> []" using assms(1,2) mset_eq_setD by (fastforce simp: storable_def)
qed

lemma pg_index_decoded:
  "pg_index_answer (i, f) row \<Longrightarrow> ic_ordering f \<noteq> IO_default \<Longrightarrow>
   pg_index_row row = Ok (idx_name i, idx_unique i, ic_name f, ic_ordering f)"
  by (cases "ic_ordering f")
    (auto simp: pg_index_answer_def pg_index_row_def row_defs parseIndexOrdering_def simp del: contains.simps)

lemma constraint_decoded:
  "constraint_answer ty k row \<Longrightarrow> parse (ty (dk_type k)) = dk_type k \<Longrightarrow> constraint_row parse row = Ok k"
  by (cases k) (auto simp: constraint_answer_def constraint_row_def row_defs comma_items_join)

lemma constraints_decoded:
  assumes "list_all2 (constraint_answer ty) ks rows" and "\<And>k. k \<in> set ks \<Longrightarrow> parse (ty (dk_type k)) = dk_type k"
  shows "res_map (constraint_row parse) rows = Ok ks"
proof -
  have "list_all2 (\<lambda>k row. constraint_row parse row = Ok (id k)) ks rows"
    by (rule list.rel_mono_strong [OF assms(1)]) (simp add: constraint_decoded assms(2))
  from res_map_all2 [OF this] show ?thesis by simp
qed

lemma pg_contype_decoded [simp]: "pg_parseConstraintType (pg_contype x) = x"
  by (cases x) (simp_all add: pg_parseConstraintType_def)

lemma partitions_decoded:
  assumes "partition_answer prefix t rows" and "storable t"
    and base: "\<And>n. n < 2 ^ 64 \<Longrightarrow> partition_base (prefix @ fmt_nat n) = n"
  shows "\<exists>parts. res_map partition_row rows = Ok parts \<and>
    (case partitioning t of None \<Rightarrow> parts = []
      | Some p \<Rightarrow> parts \<noteq> [] \<and> rangeSize p = 10000000 \<and>
          mset (map (\<lambda>x. partition_base (dp_name x)) parts) = mset (map rangebase (ranges p)))"
proof (cases "partitioning t")
  case None
  with assms(1) show ?thesis by (simp add: partition_answer_def)
next
  case (Some p)
  with assms(1) obtain rs where rs: "mset rs = mset (ranges p)"
    "list_all2 (\<lambda>r row. \<exists>bound. row = [Some (prefix @ fmt_nat (rangebase r)), bound]) rs rows"
    by (auto simp: partition_answer_def)
  have small: "\<forall>r\<in>set rs. rangebase r < 2 ^ 64" and ne: "rs \<noteq> []"
    using assms(2) Some rs(1) mset_eq_setD [OF rs(1)] by (auto simp: storable_def)
  have row: "\<exists>d. partition_row row = Ok d \<and> partition_base (dp_name d) = rangebase r"
    if "\<exists>bound. row = [Some (prefix @ fmt_nat (rangebase r)), bound]" "r \<in> set rs" for r row
    using that(1) base [OF bspec [OF small that(2)]]
    by (elim exE) (simp add: partition_row_def row_defs)
  have "\<exists>parts. res_map partition_row rows = Ok parts \<and>
      list_all2 (\<lambda>r d. partition_base (dp_name d) = rangebase r) rs parts"
    by (rule res_map_rows [OF rs(2)]) (rule row)
  then obtain parts where parts: "res_map partition_row rows = Ok parts"
    "list_all2 (\<lambda>r d. partition_base (dp_name d) = rangebase r) rs parts"
    by (elim exE conjE)
  have "map (\<lambda>x. partition_base (dp_name x)) parts = map rangebase rs"
    using parts(2) by (induction rule: list_all2_induct) simp_all
  then have "mset (map (\<lambda>x. partition_base (dp_name x)) parts) = mset (map rangebase (ranges p))"
    using rs(1) by (metis mset_map)
  moreover have "parts \<noteq> []" using parts(2) ne by auto
  ultimately show ?thesis using parts(1) Some assms(2) by (simp add: storable_def)
qed

lemma found_tableI:
  assumes "dt_name dt = obj_name t" "dt_tablespace dt = tablespace t" "list_all2 found_column (columns t) cols"
    and "mset is = mset (indexes t)" and "constraints_of g t ks" and "set keys = partition_key_names t"
    and "case partitioning t of None \<Rightarrow> parts = []
      | Some p \<Rightarrow> parts \<noteq> [] \<and> rangeSize p = 10000000 \<and>
          mset (map (\<lambda>x. partition_base (dp_name x)) parts) = mset (map rangebase (ranges p))"
    and "discoverable t"
  shows "found_table g t dt cols (map as_found (sort_key idx_name is)) ks keys parts"
proof -
  have "distinct (map col_name (columns t))" using assms(8) by (simp add: discoverable_def distinct_parts_def)
  then have "\<forall>c\<in>set (columns t). partition_key c = (col_name c \<in> set keys)"
    using assms(6) by (auto simp: partition_key_names_def distinct_map dest: inj_onD)
  moreover have "\<exists>js. mset js = mset (indexes t) \<and> list_all2 found_index js (map as_found (sort_key idx_name is))"
    using assms(4) found_as_found by (intro exI [of _ "sort_key idx_name is"]) simp
  ultimately show ?thesis
    using assms(1-5,7) by (simp add: found_table_def constraints_of_def)
qed

lemma columns_decoded:
  assumes "list_all2 R (columns t) rows" and "storable t"
    and "\<And>c row. R c row \<Longrightarrow> col_length c + 4 < 2 ^ 31 \<Longrightarrow> char_type (col_type c) \<or> col_length c = 0 \<Longrightarrow>
      \<exists>d. parse row = Ok d \<and> found_column c d"
  shows "\<exists>cols. res_map parse rows = Ok cols \<and> list_all2 found_column (columns t) cols"
  by (rule res_map_rows [OF assms(1)]) (use assms(2,3) in \<open>auto simp: storable_def\<close>)

lemma keys_nonempty: "storable t \<Longrightarrow> n \<in> partition_key_names t \<Longrightarrow> plain_name n"
  by (auto simp: storable_def partition_key_names_def)

lemma pg_keys_decoded:
  assumes "set ks = partition_key_names t" and "storable t"
  shows "\<exists>kss. res_map pg_key_row (map (\<lambda>n. [Some n]) ks) = Ok kss \<and> concat kss = ks"
proof -
  have "\<forall>n\<in>set ks. n \<noteq> []" using assms keys_nonempty by (auto simp: plain_name_def)
  then have "res_map pg_key_row (map (\<lambda>n. [Some n]) ks) = Ok (map (\<lambda>n. [n]) ks)"
    by (induction ks) (simp_all add: pg_key_row_def row_defs)
  moreover have "concat (map (\<lambda>n. [n]) ks) = ks" by (induction ks) simp_all
  ultimately show ?thesis by blast
qed

section \<open>PostgreSQL\<close>

lemma answers_fetch_then:
  "S q = Some rows \<Longrightarrow> res_map f rows = Ok xs \<Longrightarrow>
   answers (serves info S) (bind (fetch_rows q f) (\<lambda>r. ret (h r))) (h xs)"
  by (rule answers_bind [OF answers_fetch answers_ret])

text \<open>A discovery reports the tables if it lists them and finds each.\<close>

definition table_found :: "(logged_sql \<Rightarrow> bool) \<Rightarrow> discovery \<Rightarrow> table_registry \<Rightarrow> table \<Rightarrow> discovered_table \<Rightarrow> bool" where
  "table_found P D g t dt \<longleftrightarrow> (\<exists>cols idxs cons keys parts. found_table g t dt cols idxs cons keys parts \<and>
       answers P (discoverColumns D (obj_name t)) cols \<and> answers P (discoverIndexes D (obj_name t)) idxs \<and>
       answers P (discoverConstraints D (obj_name t)) cons \<and>
       answers P (discoverPartitionKeys D (obj_name t)) keys \<and>
       answers P (discoverPartitions D (obj_name t)) parts)"

lemma reportsI:
  assumes "answers P (discoverTables D) dts"
    and "list_all2 (\<lambda>t dt. dt_name dt = obj_name t \<and> dt_tablespace dt = tablespace t) ts dts"
    and "\<And>t dt. t \<in> set ts \<Longrightarrow> dt_name dt = obj_name t \<Longrightarrow> dt_tablespace dt = tablespace t \<Longrightarrow> table_found P D g t dt"
  shows "reports P D g ts"
  unfolding reports_def table_found_def [symmetric]
  by (intro exI [of _ dts] conjI assms(1) list.rel_mono_strong [OF assms(2)]) (use assms(3) in blast)

lemma pg_reports:
  assumes S: "pg_describes S g ts" and ts: "\<forall>t\<in>set ts. discoverable t \<and> storable t"
  shows "reports (serves info S) pg_discovery g ts"
proof -
  let ?P = "serves info S"
  obtain rows where rows: "S pg_tables_query = Some rows" "list_all2 pg_table_answer ts rows"
    using S by (auto simp: pg_describes_def)
  obtain dts where dts: "res_map pg_table_row rows = Ok dts"
    "list_all2 (\<lambda>t dt. dt_name dt = obj_name t \<and> dt_tablespace dt = tablespace t) ts dts"
    using res_map_rows [OF rows(2), of pg_table_row "\<lambda>t dt. dt_name dt = obj_name t \<and> dt_tablespace dt = tablespace t"]
      ts pg_table_decoded by auto
  have one: "table_found ?P pg_discovery g t dt"
    if t: "t \<in> set ts" and dt: "dt_name dt = obj_name t" "dt_tablespace dt = tablespace t" for t dt
  proof -
    have ok: "storable t" "discoverable t" using ts t by auto
    obtain r1 "is" r2 ks r3 r4 pks where
      r1: "S (pg_columns_query (obj_name t)) = Some r1" "list_all2 pg_column_answer (columns t) r1" and
      r2: "mset is = mset (indexes t)" "S (pg_indexes_query (obj_name t)) = Some r2"
        "list_all2 pg_index_answer (index_fields_of is) r2" and
      r3: "constraints_of g t ks" "S (pg_constraints_query (obj_name t)) = Some r3"
        "list_all2 (constraint_answer pg_contype) ks r3" and
      r4: "S (pg_partitions_query (obj_name t)) = Some r4" "partition_answer (obj_name t @ ''_p'') t r4" and
      r5: "S (pg_partition_keys_query (obj_name t)) = Some (map (\<lambda>n. [Some n]) pks)" "set pks = partition_key_names t"
      using S t unfolding pg_describes_def by blast
    obtain cols where cols: "res_map pg_column_row r1 = Ok cols" "list_all2 found_column (columns t) cols"
      using columns_decoded [where parse = pg_column_row, OF r1(2) ok(1) pg_column_decoded] by blast
    have idx: "res_map pg_index_row r2 = Ok (index_rows is)"
      by (rule indexes_decoded [OF r2(3) pg_index_decoded r2(1) ok(1)])
    have cons: "res_map (constraint_row pg_parseConstraintType) r3 = Ok ks"
      by (rule constraints_decoded [OF r3(3)]) simp
    obtain parts where parts: "res_map partition_row r4 = Ok parts"
      "case partitioning t of None \<Rightarrow> parts = []
      | Some p \<Rightarrow> parts \<noteq> [] \<and> rangeSize p = 10000000 \<and>
          mset (map (\<lambda>x. partition_base (dp_name x)) parts) = mset (map rangebase (ranges p))"
      using partitions_decoded [OF r4(2) ok(1)] partition_base_p(2) by auto
    obtain kss where kss: "res_map pg_key_row (map (\<lambda>n. [Some n]) pks) = Ok kss" "concat kss = pks"
      using pg_keys_decoded [OF r5(2) ok(1)] by blast
    have "found_table g t dt cols (map as_found (sort_key idx_name is)) ks pks parts"
      by (rule found_tableI [OF dt cols(2) r2(1) r3(1) r5(2) parts(2) ok(2)])
    moreover have "answers ?P (pg_discoverIndexes (obj_name t)) (map as_found (sort_key idx_name is))"
      using answers_fetch_then [where S = S and h = index_map, OF r2(2) idx] index_map_decoded [OF r2(1) ok]
      by (simp add: pg_discoverIndexes_def)
    moreover have "answers ?P (pg_discoverPartitionKeys (obj_name t)) pks"
      using answers_fetch_then [where S = S and h = concat, OF r5(1) kss(1)] kss(2)
      by (simp add: pg_discoverPartitionKeys_def)
    ultimately show ?thesis
      using answers_fetch [where S = S, OF r1(1) cols(1)] answers_fetch [where S = S, OF r3(2) cons] answers_fetch [where S = S, OF r4(1) parts(1)]
      unfolding table_found_def pg_discovery_def discovery.simps
        pg_discoverColumns_def pg_discoverConstraints_def pg_discoverPartitions_def by blast
  qed
  have "answers ?P pg_discoverTables dts"
    unfolding pg_discoverTables_def by (rule answers_fetch [where S = S, OF rows(1) dts(1)])
  then have "answers ?P (discoverTables pg_discovery) dts" by (simp add: pg_discovery_def)
  then show ?thesis by (rule reportsI [OF _ dts(2) one])
qed

section \<open>MySQL's answers\<close>

text \<open>\<open>information_schema\<close>: flags are \<open>1\<close> and \<open>0\<close>, \<open>COLLATION\<close> is \<open>A\<close> or \<open>D\<close>.\<close>

fun mysql_data_type :: "column_type \<Rightarrow> string" where
  "mysql_data_type CT_INT = ''int''"
| "mysql_data_type CT_CHAR = ''char''"
| "mysql_data_type CT_VARCHAR = ''varchar''"
| "mysql_data_type CT_REAL = ''double''"
| "mysql_data_type CT_BOOL = ''tinyint''"
| "mysql_data_type CT_BYTEA = ''blob''"
| "mysql_data_type CT_TEXT = ''text''"

definition bit :: "bool \<Rightarrow> string" where
  "bit b = (if b then ''1'' else ''0'')"

definition mysql_table_answer :: "table \<Rightarrow> string option list \<Rightarrow> bool" where
  "mysql_table_answer t row \<longleftrightarrow> (\<exists>ty am part pt. row = [Some (obj_name t), ty, am, Some (tablespace t), part, pt])"

definition mysql_length_answer :: "column \<Rightarrow> string option \<Rightarrow> bool" where
  "mysql_length_answer c len \<longleftrightarrow> (char_type (col_type c) \<longrightarrow> len = Some (fmt_nat (col_length c)))"

definition mysql_column_answer :: "column \<Rightarrow> string option list \<Rightarrow> bool" where
  "mysql_column_answer c row \<longleftrightarrow> (\<exists>len pos def. row = [Some (col_name c), Some (mysql_data_type (col_type c)), len,
     Some ''-1'', Some (bit (\<not> nullable c)), Some (fmt_nat pos), Some (bit (auto_increment c)),
     Some (generated_name (col_generated c)), Some def] \<and> mysql_length_answer c len \<and> pos < 2 ^ 31 \<and>
     (auto_increment c \<or> def = default_value c))"

definition mysql_index_answer :: "index \<times> index_column \<Rightarrow> string option list \<Rightarrow> bool" where
  "mysql_index_answer p row \<longleftrightarrow> (case p of (i, f) \<Rightarrow> \<exists>pos. row = [Some (idx_name i), Some (bit (idx_unique i)),
     Some (ic_name f), pos, Some (if ic_ordering f = IO_desc then ''D'' else ''A'')])"

fun mysql_contype :: "constraint_type \<Rightarrow> string" where
  "mysql_contype Ct_primary_key = ''PRIMARY KEY''"
| "mysql_contype Ct_foreign_key = ''FOREIGN KEY''"
| "mysql_contype Ct_unique = ''UNIQUE''"
| "mysql_contype Ct_check = ''CHECK''"
| "mysql_contype Ct_unknown = ''''"

text \<open>\<open>PARTITION_EXPRESSION\<close>: the names in backquotes, separated by commas.\<close>

definition backquoted :: "string \<Rightarrow> string" where
  "backquoted n = CHR 0x60 # n @ [CHR 0x60]"

definition mysql_keys_row :: "string list \<Rightarrow> string option list" where
  "mysql_keys_row ks = [Some (join '','' (map backquoted ks))]"

definition mysql_describes :: "catalog_content \<Rightarrow> table_registry \<Rightarrow> table list \<Rightarrow> bool" where
  "mysql_describes S g ts \<longleftrightarrow>
     (\<exists>rows. S mysql_tables_query = Some rows \<and> list_all2 mysql_table_answer ts rows) \<and>
     (\<forall>t\<in>set ts.
       (\<exists>rows. S (mysql_columns_query (obj_name t)) = Some rows \<and> list_all2 mysql_column_answer (columns t) rows) \<and>
       (\<exists>is rows. mset is = mset (indexes t) \<and> S (mysql_indexes_query (obj_name t)) = Some rows \<and>
          list_all2 mysql_index_answer (index_fields_of is) rows) \<and>
       (\<exists>ks rows. constraints_of g t ks \<and> (\<forall>k\<in>set ks. dk_type k \<in> {Ct_primary_key, Ct_foreign_key, Ct_unique}) \<and>
          S (mysql_constraints_query (obj_name t)) = Some rows \<and> list_all2 (constraint_answer mysql_contype) ks rows) \<and>
       (\<exists>ns. S (mysql_checks_query (obj_name t)) = Some (map (\<lambda>n. [Some n]) ns)) \<and>
       (\<exists>rows. S (mysql_partitions_query (obj_name t)) = Some rows \<and> partition_answer ''p'' t rows) \<and>
       (\<exists>kss. S (mysql_partition_keys_query (obj_name t)) = Some (map mysql_keys_row kss) \<and>
          set (concat kss) = partition_key_names t))"

section \<open>MySQL\<close>

lemma bit_1 [simp]: "(bit b = ''1'') = b"
  by (simp add: bit_def)

lemma mysql_table_decoded:
  "mysql_table_answer t row \<Longrightarrow> \<exists>dt. mysql_table_row row = Ok dt \<and> dt_name dt = obj_name t \<and> dt_tablespace dt = tablespace t"
  unfolding mysql_table_answer_def by (elim exE) (simp add: mysql_table_row_def row_defs)

lemma mysql_data_type_decoded [simp]: "mysql_parseDataType (mysql_data_type ty) = ty"
  by (cases ty) (simp_all add: mysql_parseDataType_def)

lemma mysql_column_decoded:
  assumes "mysql_column_answer c row" and "col_length c + 4 < 2 ^ 31" "char_type (col_type c) \<or> col_length c = 0"
  shows "\<exists>d. mysql_column_row row = Ok d \<and> found_column c d"
proof -
  obtain len pos def where row: "row = [Some (col_name c), Some (mysql_data_type (col_type c)), len,
     Some ''-1'', Some (bit (\<not> nullable c)), Some (fmt_nat pos), Some (bit (auto_increment c)),
     Some (generated_name (col_generated c)), Some def]" "mysql_length_answer c len" "pos < 2 ^ 31"
     "auto_increment c \<or> def = default_value c"
    using assms(1) by (auto simp: mysql_column_answer_def)
  have "stoi (fmt_nat (col_length c)) = Ok (int (col_length c))" using assms(2) by (intro stoi_fmt_nat) simp
  then have len: "(if col_type c = CT_VARCHAR \<or> col_type c = CT_CHAR then int_or row 2 0 else Ok 0) = Ok (int (col_length c))"
    using assms(3) row(2) by (auto simp: mysql_length_answer_def char_type_def row(1) row_defs)
  show ?thesis
    using row(4) len [unfolded row(1)] stoi_fmt_nat [OF row(3)]
    by (simp add: mysql_column_row_def row(1) row_defs found_column_def Let_def stoi_minus_one)
qed

lemma mysql_index_decoded:
  "mysql_index_answer (i, f) row \<Longrightarrow> ic_ordering f \<noteq> IO_default \<Longrightarrow>
   mysql_index_row row = Ok (idx_name i, idx_unique i, ic_name f, ic_ordering f)"
  by (cases "ic_ordering f")
    (auto simp: mysql_index_answer_def mysql_index_row_def row_defs parseIndexOrdering_def)

lemma mysql_checks_decoded:
  "\<exists>checks. res_map mysql_check_row (map (\<lambda>n. [Some n]) ns) = Ok checks \<and> (\<forall>k\<in>set checks. dk_type k = Ct_check)"
  by (induction ns) (auto simp: mysql_check_row_def row_defs)

lemma constraints_of_checks:
  assumes "constraints_of g t ks" and "\<forall>k\<in>set checks. dk_type k = Ct_check"
  shows "constraints_of g t (ks @ checks)"
proof -
  have "filter (\<lambda>k. dk_type k = Ct_foreign_key) checks = []" "filter (\<lambda>k. dk_type k = Ct_primary_key) checks = []"
    using assms(2) by (auto simp: filter_empty_conv)
  with assms(1) show ?thesis by (simp add: constraints_of_def reported_fks_def reported_pk_def)
qed

lemma unquoted: "list_all plain_name ns \<Longrightarrow>
  filter (\<lambda>c. c \<noteq> CHR 0x60) (join '','' (map backquoted ns)) = join '','' ns"
proof (induction ns rule: induct_list012)
  case (2 x)
  then show ?case by (auto simp: backquoted_def plain_name_def filter_id_conv)
next
  case (3 x y xs)
  have "filter (\<lambda>c. c \<noteq> CHR 0x60) x = x" using 3 by (auto simp: plain_name_def filter_id_conv)
  with 3 show ?case by (simp add: backquoted_def)
qed simp

lemma mysql_keys_decoded:
  assumes "set (concat kss) = partition_key_names t" and "storable t"
  shows "res_map mysql_key_row (map mysql_keys_row kss) = Ok kss"
proof -
  have "\<forall>ks\<in>set kss. list_all plain_name ks"
    using assms keys_nonempty by (auto simp: list_all_iff)
  then show ?thesis
    by (induction kss) (simp_all add: mysql_key_row_def mysql_keys_row_def row_defs unquoted comma_items_join)
qed

lemma mysql_reports:
  assumes S: "mysql_describes S g ts" and ts: "\<forall>t\<in>set ts. discoverable t \<and> storable t"
  shows "reports (serves info S) mysql_discovery g ts"
proof -
  let ?P = "serves info S"
  obtain rows where rows: "S mysql_tables_query = Some rows" "list_all2 mysql_table_answer ts rows"
    using S by (auto simp: mysql_describes_def)
  obtain dts where dts: "res_map mysql_table_row rows = Ok dts"
    "list_all2 (\<lambda>t dt. dt_name dt = obj_name t \<and> dt_tablespace dt = tablespace t) ts dts"
    using res_map_rows [OF rows(2), of mysql_table_row "\<lambda>t dt. dt_name dt = obj_name t \<and> dt_tablespace dt = tablespace t"]
      mysql_table_decoded by auto
  have one: "table_found ?P mysql_discovery g t dt"
    if t: "t \<in> set ts" and dt: "dt_name dt = obj_name t" "dt_tablespace dt = tablespace t" for t dt
  proof -
    have ok: "storable t" "discoverable t" using ts t by auto
    obtain r1 "is" r2 ks r3 r4 kss ns where
      r1: "S (mysql_columns_query (obj_name t)) = Some r1" "list_all2 mysql_column_answer (columns t) r1" and
      r2: "mset is = mset (indexes t)" "S (mysql_indexes_query (obj_name t)) = Some r2"
        "list_all2 mysql_index_answer (index_fields_of is) r2" and
      r3: "constraints_of g t ks" "\<forall>k\<in>set ks. dk_type k \<in> {Ct_primary_key, Ct_foreign_key, Ct_unique}"
        "S (mysql_constraints_query (obj_name t)) = Some r3" "list_all2 (constraint_answer mysql_contype) ks r3" and
      checks: "S (mysql_checks_query (obj_name t)) = Some (map (\<lambda>n. [Some n]) ns)" and
      r4: "S (mysql_partitions_query (obj_name t)) = Some r4" "partition_answer ''p'' t r4" and
      r5: "S (mysql_partition_keys_query (obj_name t)) = Some (map mysql_keys_row kss)" "set (concat kss) = partition_key_names t"
      using S t unfolding mysql_describes_def by blast
    obtain cols where cols: "res_map mysql_column_row r1 = Ok cols" "list_all2 found_column (columns t) cols"
      using columns_decoded [where parse = mysql_column_row, OF r1(2) ok(1) mysql_column_decoded] by blast
    have idx: "res_map mysql_index_row r2 = Ok (index_rows is)"
      by (rule indexes_decoded [OF r2(3) mysql_index_decoded r2(1) ok(1)])
    have keys: "res_map (constraint_row mysql_parseConstraintType) r3 = Ok ks"
      by (rule constraints_decoded [OF r3(4)]) (use r3(2) in \<open>fastforce simp: mysql_parseConstraintType_def\<close>)
    obtain cs where cs: "res_map mysql_check_row (map (\<lambda>n. [Some n]) ns) = Ok cs" "\<forall>k\<in>set cs. dk_type k = Ct_check"
      using mysql_checks_decoded by blast
    have "answers ?P (mysql_discoverConstraints (obj_name t)) (ks @ cs)"
      unfolding mysql_discoverConstraints_def
      by (rule answers_bind, rule answers_fetch [where S = S, OF r3(3) keys],
          rule answers_fetch_then [where S = S, OF checks cs(1)])
    moreover obtain parts where parts: "res_map partition_row r4 = Ok parts"
      "case partitioning t of None \<Rightarrow> parts = []
      | Some p \<Rightarrow> parts \<noteq> [] \<and> rangeSize p = 10000000 \<and>
          mset (map (\<lambda>x. partition_base (dp_name x)) parts) = mset (map rangebase (ranges p))"
      using partitions_decoded [OF r4(2) ok(1) partition_base_p(1)] by blast
    moreover have "found_table g t dt cols (map as_found (sort_key idx_name is)) (ks @ cs) (concat kss) parts"
      by (rule found_tableI [OF dt cols(2) r2(1) constraints_of_checks [OF r3(1) cs(2)] r5(2) parts(2) ok(2)])
    moreover have "answers ?P (mysql_discoverIndexes (obj_name t)) (map as_found (sort_key idx_name is))"
      using answers_fetch_then [where S = S and h = index_map, OF r2(2) idx] index_map_decoded [OF r2(1) ok]
      by (simp add: mysql_discoverIndexes_def)
    moreover have "answers ?P (mysql_discoverPartitionKeys (obj_name t)) (concat kss)"
      using answers_fetch_then [where S = S and h = concat, OF r5(1) mysql_keys_decoded [OF r5(2) ok(1)]]
      by (simp add: mysql_discoverPartitionKeys_def)
    ultimately show ?thesis
      using answers_fetch [where S = S, OF r1(1) cols(1)] answers_fetch [where S = S, OF r4(1) parts(1)]
      unfolding table_found_def mysql_discovery_def discovery.simps
        mysql_discoverColumns_def mysql_discoverPartitions_def by blast
  qed
  have "answers ?P mysql_discoverTables dts"
    unfolding mysql_discoverTables_def by (rule answers_fetch [where S = S, OF rows(1) dts(1)])
  then have "answers ?P (discoverTables mysql_discovery) dts" by (simp add: mysql_discovery_def)
  then show ?thesis by (rule reportsI [OF _ dts(2) one])
qed

end
