(* ===== verification/Metadata_Validation.thy ===== *)
theory Metadata_Validation
  imports Workload Catalog_Rows
begin

text \<open>
  \<open>Worker::validate_metadata\<close> on a server, end to end: the dialect's discovery, its catalog queries, the
  populator and the comparison of the normalized metadata.
\<close>

definition describes :: "server_info \<Rightarrow> catalog_content \<Rightarrow> table_registry \<Rightarrow> table list \<Rightarrow> bool" where
  "describes info S g ts = (if is_mysql_like info then mysql_describes S g ts else pg_describes S g ts)"

lemma describes_reports:
  assumes "describes info S g ts" and "\<forall>t\<in>set ts. discoverable t \<and> storable t"
  shows "reports (serves info S) (if is_mysql_like info then mysql_discovery else pg_discovery) g ts"
  using assms mysql_reports pg_reports by (simp add: describes_def)

lemma make_schema_discovery_run:
  "conn_info (conn w) = info \<Longrightarrow>
   make_schema_discovery w = (Ok (if is_mysql_like info then mysql_discovery else pg_discovery), w)"
  by (simp add: make_schema_discovery_def bind_def server_is_def gets_def ret_def)

lemma discover_normalizes:
  assumes S: "describes info S g ts" and g: "rediscoverable g ts" "\<forall>t\<in>set ts. storable t"
    and w: "quiet w" "serves info S (conn w)" "tables (registry w) = empty_catalog" "next_id (registry w) \<noteq> 0"
      "unat (next_id (registry w)) + length ts < 2 ^ 64"
  shows "\<exists>w'. discover_existing_schema w = (Ok (), w') \<and> quiet w' \<and>
    normalize (registry w') = normalize g \<and> is_ok (normalize g)"
proof -
  have "\<forall>t\<in>set ts. discoverable t \<and> storable t" using g by (simp add: rediscoverable_def)
  from populate_normalizes [OF g(1) describes_reports [OF S this] w] w(2) show ?thesis
    by (simp add: discover_existing_schema_def bind_def make_schema_discovery_run serves_def)
qed

text \<open>The steps of a validation on a quiet world, up to the discovery.\<close>

definition emptied :: "world \<Rightarrow> world" where
  "emptied w = w\<lparr>clock := Suc (Suc (Suc (clock w))), registry := registry_reset (registry w)\<rparr>"

lemma validate_metadata_steps:
  assumes w: "quiet w" and inv: "catalog_inv (tables (registry w))"
  obtains ns where "normalize (registry w) = Ok ns" and
    "validate_metadata discover w =
       catch (seq discover (bind normalized_metadata (\<lambda>found. ret (ns = found)))) (\<lambda>e. ret False) (emptied w)"
proof -
  obtain xs where xs: "catalog_snapshotAll (tables (registry w)) = Ok xs"
    using cat.snap_ok [OF inv] by blast
  then obtain ns where ns: "normalize (registry w) = Ok ns" by (simp add: normalize_def)
  obtain d where d: "debug_dump_registry (registry w) = Ok d" using xs by (simp add: debug_dump_registry_def)
  have q: "quiet (w\<lparr>clock := k\<rparr>)" for k using w by (simp add: quiet_def)
  have "validate_metadata discover w =
       catch (seq discover (bind normalized_metadata (\<lambda>found. ret (ns = found)))) (\<lambda>e. ret False) (emptied w)"
    using w q ns d
    by (simp add: validate_metadata_def catch_def normalized_metadata_def seq_def bind_def interfere_quiet
        reset_metadata_def modify_def emptied_def)
  with ns show ?thesis by (rule that)
qed

lemma emptied_simps [simp]: "quiet (emptied w) = quiet w" "conn (emptied w) = conn w"
  "tables (registry (emptied w)) = empty_catalog" "next_id (registry (emptied w)) = next_id (registry w)"
  by (simp_all add: emptied_def quiet_def registry_reset_def catalog_reset_def empty_catalog_def)



section \<open>A server\<close>

definition catalog_server :: "catalog_content \<Rightarrow> sql_call list \<Rightarrow> sql_call \<Rightarrow> query_result" where
  "catalog_server S h c = \<lparr>qr_query = [], executionTime = 1,
     errorInfo = \<lparr>errorCode = [], errorMessage = [], errorStatus = St_success, errorClass = Ec_other\<rparr>,
     affectedRows = 0, qr_data = (case c of Sql_query q \<Rightarrow>
       map_option (\<lambda>rows. \<lparr>numFields = 1, dataRows = rows\<rparr>) (S q) | _ \<Rightarrow> None)\<rparr>"

lemma catalog_server_serves:
  "conn_info c = info \<Longrightarrow> server c = catalog_server S \<Longrightarrow> serves info S c"
  by (simp add: serves_def catalog_server_def qr_success_def)

text \<open>A table that references itself, and PostgreSQL's answers for it.\<close>

definition self_table :: table where
  "self_table = default_table\<lparr>obj_id := 1, obj_name := ''foo1'',
     columns := [default_column\<lparr>col_name := ''id'', primary_key := True, nullable := False, auto_increment := True\<rparr>,
       default_column\<lparr>col_name := ''up'', foreign_key_references := 1\<rparr>]\<rparr>"

definition self_answers :: catalog_content where
  "self_answers = map_of [
     (pg_tables_query, [[Some ''foo1'', Some ''r'', Some ''heap'', Some ''pg_default'', Some ''f'', Some '''']]),
     (pg_columns_query ''foo1'',
       [[Some ''id'', Some ''int4'', Some ''4'', Some ''-1'', Some ''t'', Some ''1'', Some ''t'', Some ''not_generated'', Some ''nextval''],
        [Some ''up'', Some ''int4'', Some ''4'', Some ''-1'', Some ''f'', Some ''2'', Some ''f'', Some ''not_generated'', Some '''']]),
     (pg_indexes_query ''foo1'', []),
     (pg_constraints_query ''foo1'',
       [[Some ''foo1_pkey'', Some ''p'', Some ''id'', Some '''', Some ''''],
        [Some ''foo1_up_fkey'', Some ''f'', Some ''up'', Some ''foo1'', Some ''id'']]),
     (pg_partitions_query ''foo1'', []),
     (pg_partition_keys_query ''foo1'', [])]"

lemma pg_queries_distinct:
  "distinct [pg_tables_query, pg_columns_query ''foo1'', pg_indexes_query ''foo1'', pg_constraints_query ''foo1'',
     pg_partitions_query ''foo1'', pg_partition_keys_query ''foo1'']"
  by code_simp

definition self_world :: world where
  "self_world = sample_world fl_postgres (catalog_server self_answers) (\<lambda>n. n) [self_table]"

lemma self_world_tables:
  "catalog_inv (tables (registry self_world))"
  "catalog_byId (tables (registry self_world)) = Map.empty(1 \<mapsto> self_table)"
  by (simp_all add: self_world_def sample_world_def cat.ins_wf catalog_empty_inv catalog_insert_byId'
      self_table_def default_table_def)

lemma self_answers_eval:
  "self_answers pg_tables_query = Some [[Some ''foo1'', Some ''r'', Some ''heap'', Some ''pg_default'', Some ''f'', Some '''']]"
  "self_answers (pg_columns_query ''foo1'') = Some
       [[Some ''id'', Some ''int4'', Some ''4'', Some ''-1'', Some ''t'', Some ''1'', Some ''t'', Some ''not_generated'', Some ''nextval''],
        [Some ''up'', Some ''int4'', Some ''4'', Some ''-1'', Some ''f'', Some ''2'', Some ''f'', Some ''not_generated'', Some '''']]"
  "self_answers (pg_indexes_query ''foo1'') = Some []"
  "self_answers (pg_constraints_query ''foo1'') = Some
       [[Some ''foo1_pkey'', Some ''p'', Some ''id'', Some '''', Some ''''],
        [Some ''foo1_up_fkey'', Some ''f'', Some ''up'', Some ''foo1'', Some ''id'']]"
  "self_answers (pg_partitions_query ''foo1'') = Some []"
  "self_answers (pg_partition_keys_query ''foo1'') = Some []"
  unfolding self_answers_def
  by (subst map_of_eq_Some_iff, use pg_queries_distinct in simp, simp)+

lemma fmt_nat_12: "fmt_nat (Suc 0) = ''1''" "fmt_nat 2 = ''2''"
  by code_simp+

lemma self_column_answers:
  "pg_column_answer (default_column\<lparr>col_name := ''id'', primary_key := True, nullable := False, auto_increment := True\<rparr>)
     [Some ''id'', Some ''int4'', Some ''4'', Some ''-1'', Some ''t'', Some ''1'', Some ''t'', Some ''not_generated'', Some ''nextval'']"
  "pg_column_answer (default_column\<lparr>col_name := ''up'', foreign_key_references := 1\<rparr>)
     [Some ''up'', Some ''int4'', Some ''4'', Some ''-1'', Some ''f'', Some ''2'', Some ''f'', Some ''not_generated'', Some '''']"
  unfolding pg_column_answer_def
  by (rule exI [of _ "Some ''4''"], rule exI [of _ 1], simp add: default_column_def pg_typmod_def char_type_def tf_def fmt_nat_12)
    (rule exI [of _ "Some ''4''"], rule exI [of _ 2], simp add: default_column_def pg_typmod_def char_type_def tf_def fmt_nat_12)

definition self_constraints :: "discovered_constraint list" where
  "self_constraints =
     [\<lparr>dk_name = ''foo1_pkey'', dk_type = Ct_primary_key, dk_columns = [''id''], dk_referenced_table = [], dk_referenced_columns = []\<rparr>,
      \<lparr>dk_name = ''foo1_up_fkey'', dk_type = Ct_foreign_key, dk_columns = [''up''], dk_referenced_table = ''foo1'',
        dk_referenced_columns = [''id'']\<rparr>]"

lemma self_describes:
  "describes \<lparr>si_flavor = fl_postgres, si_version = 80036\<rparr> self_answers (registry self_world) [self_table]"
proof -
  have name: "obj_name self_table = ''foo1''" "indexes self_table = []" "partitioning self_table = None"
    "partition_key_names self_table = {}" "tablespace self_table = []"
    by (auto simp: self_table_def default_table_def partition_key_names_def default_column_def)
  have cons: "constraints_of (registry self_world) self_table self_constraints"
    by (simp add: constraints_of_def self_constraints_def reported_fks_def reported_pk_def table_fks_def
        resolveTargetName_def self_world_tables self_table_def default_table_def default_column_def)
  have rows: "list_all2 (constraint_answer pg_contype) self_constraints
      [[Some ''foo1_pkey'', Some ''p'', Some ''id'', Some '''', Some ''''],
        [Some ''foo1_up_fkey'', Some ''f'', Some ''up'', Some ''foo1'', Some ''id'']]"
    by (simp add: self_constraints_def constraint_answer_def plain_name_def)
  have cols: "list_all2 pg_column_answer (columns self_table)
      [[Some ''id'', Some ''int4'', Some ''4'', Some ''-1'', Some ''t'', Some ''1'', Some ''t'', Some ''not_generated'', Some ''nextval''],
        [Some ''up'', Some ''int4'', Some ''4'', Some ''-1'', Some ''f'', Some ''2'', Some ''f'', Some ''not_generated'', Some '''']]"
    using self_column_answers by (simp add: self_table_def default_table_def)
  have "pg_describes self_answers (registry self_world) [self_table]"
    unfolding pg_describes_def using cons rows cols
    by (auto simp: self_answers_eval name pg_table_answer_def partition_answer_def index_fields_of_def
        intro!: exI [of _ "[] :: string list"])
  then show ?thesis by (simp add: describes_def is_mysql_like_def)
qed


definition refused_world :: world where
  "refused_world = sample_world fl_mysql refuse_all (\<lambda>n. n) [self_table]"


end
