(* ===== verification/Database_Checksum.thy ===== *)
theory Database_Checksum
  imports Metadata_Validation
begin

text \<open>
  \<open>DatabaseChecksum\<close> (core/include/checksum.hpp, core/src/checksum.cpp) and
  \<open>Worker::calculate_database_checksums\<close> (core/src/workload.cpp): one line per table of the metadata with a digest of
  its rows, sorted by name, for a file that is compared with another one.

  The digest is the parameter \<open>sha\<close>: \<open>CryptoPP::SHA256\<close> on everything \<open>Update\<close> was given, in order. The file is
  the text written to it; \<open>can_open\<close> says which files open. The object's list of results is local to the call, so a
  call that throws leaves none. \<open>std::sort\<close> is \<open>sort_key\<close>: the names are distinct where the order matters.
\<close>

section \<open>Lines\<close>

record checksum_result =
  cs_tableName :: string
  cs_checksum :: string
  cs_rowCount :: "64 word"

definition buildRowHash :: "string option list \<Rightarrow> string" where
  "buildRowHash row = concat (map (\<lambda>v. (case v of None \<Rightarrow> [] | Some s \<Rightarrow> s) @ ''|'') row)"

definition digest_digit :: "nat \<Rightarrow> char" where
  "digest_digit n = (if n < 10 then digit_char n else char_of (87 + n))"

definition bytesToHex :: "8 word list \<Rightarrow> string" where
  "bytesToHex bytes = concat (map (\<lambda>b. [digest_digit (unat b div 16), digest_digit (unat b mod 16)]) bytes)"

definition newline :: string where
  "newline = [CHR 0x0A]"

definition checksum_line :: "checksum_result \<Rightarrow> string" where
  "checksum_line r = cs_tableName r @ '','' @ cs_checksum r @ '','' @ fmt_nat (unat (cs_rowCount r)) @ newline"

definition getResultsAsString :: "checksum_result list \<Rightarrow> string" where
  "getResultsAsString rs = ''table_name,checksum,row_count'' @ newline @ concat (map checksum_line rs)"

section \<open>Queries\<close>

text \<open>\<open>std::stoull\<close> with its two exceptions.\<close>

definition stoull :: "string \<Rightarrow> 64 word result" where
  "stoull s = (case stoul s of Some n \<Rightarrow> Ok n
     | None \<Rightarrow> let t = dropWhile is_space s;
           u = (if t \<noteq> [] \<and> (hd t = CHR ''-'' \<or> hd t = CHR ''+'') then tl t else t)
         in Throw (if takeWhile is_digit u = [] then Invalid_argument ''stoull'' else Out_of_range ''stoull''))"

definition count_query :: "table \<Rightarrow> string" where
  "count_query t = ''SELECT COUNT(*) FROM '' @ obj_name t"

definition row_query :: "table \<Rightarrow> string" where
  "row_query t = ''SELECT * FROM '' @ obj_name t @ '' '' @
     (if columns t = [] then [] else ''ORDER BY '' @ join '', '' (map col_name (columns t)))"

text \<open>The text the hasher gets.\<close>

definition processAllRows :: "table \<Rightarrow> (world, string) prog" where
  "processAllRows t = bind (run_sql (row_query t)) (\<lambda>res.
     if \<not> qr_success res then throw (Runtime_error (''Failed to execute query for table: '' @ obj_name t))
     else case qr_data res of None \<Rightarrow> undef | Some d \<Rightarrow> ret (concat (map buildRowHash (dataRows d))))"

definition table_checksum :: "(string \<Rightarrow> 8 word list) \<Rightarrow> table \<Rightarrow> (world, checksum_result) prog" where
  "table_checksum sha t = bind (in_conn (conn_querySingleValue (count_query t))) (\<lambda>countResult. case countResult of
       None \<Rightarrow> throw (Runtime_error (''Failed to get row count for table: '' @ obj_name t))
     | Some s \<Rightarrow> bind (lift_result (stoull s)) (\<lambda>rowCount.
         bind (processAllRows t) (\<lambda>rows.
         ret \<lparr>cs_tableName = obj_name t, cs_checksum = bytesToHex (sha rows), cs_rowCount = rowCount\<rparr>)))"

definition calculateAllTableChecksums :: "(string \<Rightarrow> 8 word list) \<Rightarrow> (world, checksum_result list) prog" where
  "calculateAllTableChecksums sha = bind (tables_snapshotAll Direct) (\<lambda>ts.
     bind (map_prog (table_checksum sha) ts) (\<lambda>rs. ret (sort_key cs_tableName rs)))"

definition writeResultsToFile :: "(string \<Rightarrow> bool) \<Rightarrow> string \<Rightarrow> checksum_result list \<Rightarrow> string result" where
  "writeResultsToFile can_open filename rs =
     (if can_open filename then Ok (getResultsAsString rs)
      else Throw (Runtime_error (''Failed to open file for writing: '' @ filename)))"

definition calculate_database_checksums ::
  "(string \<Rightarrow> 8 word list) \<Rightarrow> (string \<Rightarrow> bool) \<Rightarrow> string \<Rightarrow> (world, string) prog" where
  "calculate_database_checksums sha can_open filename = bind (calculateAllTableChecksums sha) (\<lambda>rs.
     lift_result (writeResultsToFile can_open filename rs))"

section \<open>The text determines its parts\<close>

lemma sep_inject: "c \<notin> set a \<Longrightarrow> c \<notin> set b \<Longrightarrow> a @ c # x = b @ c # y \<longleftrightarrow> a = b \<and> x = y"
proof (induction a arbitrary: b)
  case Nil
  then show ?case by (cases b) auto
next
  case (Cons d a)
  then show ?case by (cases b) auto
qed

lemma terminated_inject:
  assumes "\<forall>a\<in>set xs \<union> set ys. c \<notin> set a" and "concat (map (\<lambda>a. a @ [c]) xs) = concat (map (\<lambda>a. a @ [c]) ys)"
  shows "xs = ys"
  using assms
proof (induction xs arbitrary: ys)
  case Nil
  then show ?case by (cases ys) auto
next
  case (Cons x xs)
  show ?case
  proof (cases ys)
    case (Cons y ys')
    with Cons.prems have "x @ c # concat (map (\<lambda>a. a @ [c]) xs) = y @ c # concat (map (\<lambda>a. a @ [c]) ys')" by simp
    then have "x = y" "concat (map (\<lambda>a. a @ [c]) xs) = concat (map (\<lambda>a. a @ [c]) ys')"
      using Cons.prems(1) Cons sep_inject [of c x y] by auto
    then show ?thesis using Cons Cons.prems(1) Cons.IH [of ys'] by simp
  qed (use Cons.prems in auto)
qed

lemma digest_digit_of: "n < 16 \<Longrightarrow> (of_char (digest_digit n) :: nat) = (if n < 10 then 48 + n else 87 + n)"
  by (auto simp: digest_digit_def of_char_digit_char)

lemma digest_digit_inject: "m < 16 \<Longrightarrow> n < 16 \<Longrightarrow> digest_digit m = digest_digit n \<longleftrightarrow> m = n"
proof -
  assume mn: "m < 16" "n < 16"
  have "m = n" if "digest_digit m = digest_digit n"
  proof -
    from that have "(of_char (digest_digit m) :: nat) = of_char (digest_digit n)" by simp
    then have "(if m < 10 then 48 + m else 87 + m) = (if n < 10 then 48 + n else 87 + n)"
      by (simp only: digest_digit_of [OF mn(1)] digest_digit_of [OF mn(2)])
    then show ?thesis by (simp split: if_splits)
  qed
  then show ?thesis by blast
qed

lemma unat_byte: "unat (b :: 8 word) < 256"
proof -
  have "(unsigned b :: nat) < 2 ^ LENGTH(8)" by (rule unsigned_less)
  then show ?thesis by simp
qed

lemma hex_byte_inject:
  fixes b c :: "8 word"
  assumes "digest_digit (unat b div 16) = digest_digit (unat c div 16)" "digest_digit (unat b mod 16) = digest_digit (unat c mod 16)"
  shows "b = c"
proof -
  have "unat b div 16 < 16" "unat c div 16 < 16" using unat_byte [of b] unat_byte [of c] by simp_all
  then have "unat b div 16 = unat c div 16" "unat b mod 16 = unat c mod 16"
    using assms digest_digit_inject by simp_all
  then have "unat b = unat c" by (metis div_mult_mod_eq)
  then show ?thesis by (rule unsigned_word_eqI)
qed

lemma bytesToHex_inject: "bytesToHex bs = bytesToHex cs \<longleftrightarrow> bs = cs"
proof (induction bs arbitrary: cs)
  case Nil
  then show ?case by (cases cs) (simp_all add: bytesToHex_def)
next
  case (Cons b bs)
  then show ?case by (cases cs) (auto simp: bytesToHex_def dest: hex_byte_inject)
qed

lemma hex_plain: "c \<in> set (bytesToHex bs) \<Longrightarrow> c \<noteq> CHR '','' \<and> c \<noteq> CHR 0x0A"
proof -
  have h: "digest_digit n \<noteq> CHR '','' \<and> digest_digit n \<noteq> CHR 0x0A" if "n < 16" for n
    using digest_digit_of [OF that] by (cases "n < 10") auto
  have "unat (b :: 8 word) div 16 < 16" for b using unat_byte [of b] by simp
  then show "c \<in> set (bytesToHex bs) \<Longrightarrow> c \<noteq> CHR '','' \<and> c \<noteq> CHR 0x0A"
    using h by (auto simp: bytesToHex_def)
qed


lemma hex_clean [simp]: "CHR '','' \<notin> set (bytesToHex bs)" "CHR 0x0A \<notin> set (bytesToHex bs)"
  using hex_plain by blast+

lemma newline_not_digit: "CHR 0x0A \<notin> set (fmt_nat n)"
  using is_digit_fmt_nat [of "CHR 0x0A" n] by (auto simp: is_digit_def)

text \<open>Names without commas and line breaks, as the identifiers of the tool are.\<close>

definition plain_line :: "checksum_result \<Rightarrow> bool" where
  "plain_line r \<longleftrightarrow> CHR '','' \<notin> set (cs_tableName r) \<and> CHR 0x0A \<notin> set (cs_tableName r) \<and>
     (\<exists>bs. cs_checksum r = bytesToHex bs)"

lemma plain_line_checksum:
  assumes "plain_line r"
  shows "CHR '','' \<notin> set (cs_checksum r)" "CHR 0x0A \<notin> set (cs_checksum r)"
proof -
  obtain bs where "cs_checksum r = bytesToHex bs" using assms by (auto simp: plain_line_def)
  then show "CHR '','' \<notin> set (cs_checksum r)" "CHR 0x0A \<notin> set (cs_checksum r)" by simp_all
qed

lemma line_inject:
  assumes "plain_line r" "plain_line r'"
    and "cs_tableName r @ '','' @ cs_checksum r @ '','' @ fmt_nat (unat (cs_rowCount r)) =
      cs_tableName r' @ '','' @ cs_checksum r' @ '','' @ fmt_nat (unat (cs_rowCount r'))"
  shows "r = r'"
proof -
  have h: "CHR '','' \<notin> set (cs_checksum r)" "CHR '','' \<notin> set (cs_checksum r')"
    using assms(1,2) by (auto dest: plain_line_checksum)
  have "cs_tableName r = cs_tableName r' \<and> cs_checksum r @ CHR '','' # fmt_nat (unat (cs_rowCount r)) =
      cs_checksum r' @ CHR '','' # fmt_nat (unat (cs_rowCount r'))"
    using assms sep_inject [of "CHR '',''" "cs_tableName r" "cs_tableName r'"] by (simp add: plain_line_def)
  then have "cs_tableName r = cs_tableName r'" "cs_checksum r = cs_checksum r'" "unat (cs_rowCount r) = unat (cs_rowCount r')"
    using sep_inject [OF h] by simp_all
  then show ?thesis using unsigned_word_eqI [of "cs_rowCount r" "cs_rowCount r'"] by (cases r; cases r') simp
qed

lemma file_inject:
  assumes "\<forall>r\<in>set rs \<union> set rs'. plain_line r"
  shows "getResultsAsString rs = getResultsAsString rs' \<longleftrightarrow> rs = rs'"
proof
  let ?l = "\<lambda>r. cs_tableName r @ '','' @ cs_checksum r @ '','' @ fmt_nat (unat (cs_rowCount r))"
  assume "getResultsAsString rs = getResultsAsString rs'"
  then have content: "concat (map (\<lambda>a. a @ [CHR 0x0A]) (map ?l rs)) = concat (map (\<lambda>a. a @ [CHR 0x0A]) (map ?l rs'))"
    by (simp add: getResultsAsString_def checksum_line_def [abs_def] newline_def comp_def)
  have line: "CHR 0x0A \<notin> set (?l r)" if "plain_line r" for r
    using that newline_not_digit plain_line_checksum(2) [OF that] by (simp add: plain_line_def)
  have clean: "\<forall>a\<in>set (map ?l rs) \<union> set (map ?l rs'). CHR 0x0A \<notin> set a"
  proof
    fix a assume "a \<in> set (map ?l rs) \<union> set (map ?l rs')"
    then obtain r where "r \<in> set rs \<union> set rs'" "a = ?l r" by fastforce
    with assms line show "CHR 0x0A \<notin> set a" by blast
  qed
  have lines: "map ?l rs = map ?l rs'" by (rule terminated_inject [OF clean content])
  have inj: "inj_on ?l (set rs \<union> set rs')"
  proof (rule inj_onI)
    fix r r' assume r: "r \<in> set rs \<union> set rs'" "r' \<in> set rs \<union> set rs'" "?l r = ?l r'"
    show "r = r'" by (rule line_inject [OF _ _ r(3)]) (use assms r(1,2) in auto)
  qed
  show "rs = rs'" by (rule inj_on_map_eq_map [OF inj, THEN iffD1, OF lines])
qed simp

section \<open>The digest of a table\<close>

text \<open>
  \<open>stores R ts c\<close>: \<open>c\<close> is a connection to a server on which the table \<open>t\<close> of \<open>ts\<close> has the rows \<open>R (obj_name t)\<close>, in the
  order of all its columns, and no query fails.
\<close>

definition stores :: "(string \<Rightarrow> string option list list) \<Rightarrow> table list \<Rightarrow> logged_sql \<Rightarrow> bool" where
  "stores R ts c \<longleftrightarrow> (\<forall>t\<in>set ts. \<forall>h.
     (\<exists>d. qr_success (server c h (Sql_query (count_query t))) \<and> qr_data (server c h (Sql_query (count_query t))) = Some d \<and>
        numFields d = 1 \<and> dataRows d = [[Some (fmt_nat (length (R (obj_name t))))]]) \<and>
     (\<exists>d. qr_success (server c h (Sql_query (row_query t))) \<and> qr_data (server c h (Sql_query (row_query t))) = Some d \<and>
        dataRows d = R (obj_name t)))"

lemma stores_send: "stores R ts (snd (conn_executeQuery q c)) = stores R ts c"
  by (simp add: stores_def conn_executeQuery_def sql_send_def Let_def observeResult_def)

definition digest :: "(string \<Rightarrow> 8 word list) \<Rightarrow> (string \<Rightarrow> string option list list) \<Rightarrow> string \<Rightarrow> checksum_result" where
  "digest sha R n = \<lparr>cs_tableName = n, cs_checksum = bytesToHex (sha (concat (map buildRowHash (R n)))),
     cs_rowCount = of_nat (length (R n))\<rparr>"

lemma answers_count:
  assumes "t \<in> set ts"
  shows "answers (stores R ts) (in_conn (conn_querySingleValue (count_query t))) (Some (fmt_nat (length (R (obj_name t)))))"
  unfolding answers_def
proof (intro allI impI)
  fix w :: world assume s: "stores R ts (conn w)"
  let ?c = "snd (conn_executeQuery (count_query t) (conn w))"
  obtain d where "qr_success (server (conn w) (sent (conn w)) (Sql_query (count_query t)))"
    "qr_data (server (conn w) (sent (conn w)) (Sql_query (count_query t))) = Some d" "numFields d = 1"
    "dataRows d = [[Some (fmt_nat (length (R (obj_name t))))]]"
    using s assms unfolding stores_def by blast
  then have "in_conn (conn_querySingleValue (count_query t)) w = (Ok (Some (fmt_nat (length (R (obj_name t))))), w\<lparr>conn := ?c\<rparr>)"
    by (simp add: in_conn_def conn_querySingleValue_def bind_def conn_executeQuery_def sql_send_def Let_def numRows_def ret_def)
  then show "\<exists>c. stores R ts c \<and> in_conn (conn_querySingleValue (count_query t)) w =
      (Ok (Some (fmt_nat (length (R (obj_name t))))), w\<lparr>conn := c\<rparr>)"
    using s stores_send by blast
qed

lemma answers_rows:
  assumes "t \<in> set ts"
  shows "answers (stores R ts) (processAllRows t) (concat (map buildRowHash (R (obj_name t))))"
  unfolding answers_def
proof (intro allI impI)
  fix w :: world assume s: "stores R ts (conn w)"
  let ?c = "snd (conn_executeQuery (row_query t) (conn w))"
  obtain d where "qr_success (server (conn w) (sent (conn w)) (Sql_query (row_query t)))"
    "qr_data (server (conn w) (sent (conn w)) (Sql_query (row_query t))) = Some d" "dataRows d = R (obj_name t)"
    using s assms unfolding stores_def by blast
  then have "processAllRows t w = (Ok (concat (map buildRowHash (R (obj_name t)))), w\<lparr>conn := ?c\<rparr>)"
    by (simp add: processAllRows_def run_sql_def in_conn_def bind_def conn_executeQuery_def sql_send_def Let_def ret_def)
  then show "\<exists>c. stores R ts c \<and> processAllRows t w = (Ok (concat (map buildRowHash (R (obj_name t)))), w\<lparr>conn := c\<rparr>)"
    using s stores_send by blast
qed

lemma answers_lift: "r = Ok x \<Longrightarrow> answers P (lift_result r) x"
  using answers_ret [of P x] by (simp add: lift_result_def ret_def answers_def)

lemma answers_checksum:
  assumes t: "t \<in> set ts" and n: "length (R (obj_name t)) < 2 ^ 64"
  shows "answers (stores R ts) (table_checksum sha t) (digest sha R (obj_name t))"
proof -
  have num: "stoull (fmt_nat (length (R (obj_name t)))) = Ok (of_nat (length (R (obj_name t))))"
    by (simp only: stoull_def stoul_fmt_nat [OF n] option.case)
  show ?thesis
    unfolding table_checksum_def
    by (rule answers_bind [OF answers_count [OF t]], simp only: option.case,
        rule answers_bind [OF answers_lift [OF num]], rule answers_bind [OF answers_rows [OF t]])
      (use answers_ret [where x = "digest sha R (obj_name t)"] in \<open>simp add: digest_def\<close>)
qed

lemma answers_map_prog:
  "(\<And>x. x \<in> set xs \<Longrightarrow> answers P (f x) (g x)) \<Longrightarrow> answers P (map_prog f xs) (map g xs)"
proof (induction xs)
  case Nil
  show ?case using answers_ret [of P "[]"] by simp
next
  case (Cons x xs)
  have "answers P (map_prog f xs) (map g xs)" by (rule Cons.IH) (simp add: Cons.prems)
  then show ?case
    unfolding map_prog.simps list.map
    by (intro answers_bind [OF Cons.prems] answers_bind [OF _ answers_ret]) simp_all
qed


section \<open>Properties\<close>

text \<open>A worker alone on a server that stores its tables.\<close>

definition checksum_site :: "(string \<Rightarrow> string option list list) \<Rightarrow> table list \<Rightarrow> world \<Rightarrow> bool" where
  "checksum_site R ts w \<longleftrightarrow> quiet w \<and> catalog_snapshotAll (tables (registry w)) = Ok ts \<and> stores R ts (conn w) \<and>
     distinct (map obj_name ts) \<and>
     (\<forall>t\<in>set ts. CHR '','' \<notin> set (obj_name t) \<and> CHR 0x0A \<notin> set (obj_name t) \<and> length (R (obj_name t)) < 2 ^ 64)"

definition checksum_file :: "(string \<Rightarrow> 8 word list) \<Rightarrow> (string \<Rightarrow> string option list list) \<Rightarrow> table list \<Rightarrow> string" where
  "checksum_file sha R ts = getResultsAsString (sort_key cs_tableName (map (\<lambda>t. digest sha R (obj_name t)) ts))"

lemma checksum_run:
  assumes "checksum_site R ts w" and "can_open f"
  shows "fst (calculate_database_checksums sha can_open f w) = Ok (checksum_file sha R ts)"
proof -
  have s: "quiet w" "catalog_snapshotAll (tables (registry w)) = Ok ts" "stores R ts (conn w)"
    "\<And>t. t \<in> set ts \<Longrightarrow> length (R (obj_name t)) < 2 ^ 64"
    using assms(1) by (simp_all add: checksum_site_def)
  have snap: "tables_snapshotAll Direct w = (Ok ts, w\<lparr>clock := Suc (clock w)\<rparr>)"
    using s(1,2) by (simp add: tables_snapshotAll_def read_view_def seq_def bind_def interfere_quiet view_of_def)
  have "answers (stores R ts) (map_prog (table_checksum sha) ts) (map (\<lambda>t. digest sha R (obj_name t)) ts)"
    by (rule answers_map_prog, rule answers_checksum) (assumption | erule s(4))+
  then obtain c where "map_prog (table_checksum sha) ts (w\<lparr>clock := Suc (clock w)\<rparr>) =
      (Ok (map (\<lambda>t. digest sha R (obj_name t)) ts), w\<lparr>clock := Suc (clock w), conn := c\<rparr>)"
    by (rule answersD [where w = "w\<lparr>clock := Suc (clock w)\<rparr>"]) (use s(3) in auto)
  then show ?thesis
    using assms(2) by (simp add: calculate_database_checksums_def calculateAllTableChecksums_def bind_def snap ret_def
        lift_result_def writeResultsToFile_def checksum_file_def)
qed

lemma digest_eq: "digest sha R m = digest sha R' n \<longleftrightarrow> m = n \<and>
    sha (concat (map buildRowHash (R m))) = sha (concat (map buildRowHash (R' n))) \<and>
    (of_nat (length (R m)) :: 64 word) = of_nat (length (R' n))"
  by (simp add: digest_def bytesToHex_inject)

lemma digests_eq:
  assumes "distinct ns" "distinct ns'"
  shows "sort_key cs_tableName (map (digest sha R) ns) = sort_key cs_tableName (map (digest sha R') ns') \<longleftrightarrow>
    set ns = set ns' \<and> (\<forall>n\<in>set ns. digest sha R n = digest sha R' n)"
proof -
  have names: "map cs_tableName (map (digest sha Q) xs) = xs" for Q xs by (simp add: digest_def comp_def)
  have d: "distinct (map (digest sha R) ns)" "distinct (map (digest sha R') ns')"
    using assms by (simp_all add: distinct_map inj_on_def digest_eq)
  have "sort_key cs_tableName (map (digest sha R) ns) = sort_key cs_tableName (map (digest sha R') ns') \<longleftrightarrow>
      mset (map (digest sha R) ns) = mset (map (digest sha R') ns')"
  proof
    assume "sort_key cs_tableName (map (digest sha R) ns) = sort_key cs_tableName (map (digest sha R') ns')"
    then show "mset (map (digest sha R) ns) = mset (map (digest sha R') ns')" by (metis mset_sort)
  next
    assume "mset (map (digest sha R) ns) = mset (map (digest sha R') ns')"
    then show "sort_key cs_tableName (map (digest sha R) ns) = sort_key cs_tableName (map (digest sha R') ns')"
      by (rule sort_key_perm) (simp only: names assms)
  qed
  also have "\<dots> \<longleftrightarrow> digest sha R ` set ns = digest sha R' ` set ns'"
    using set_eq_iff_mset_eq_distinct [OF d] by simp
  also have "\<dots> \<longleftrightarrow> set ns = set ns' \<and> (\<forall>n\<in>set ns. digest sha R n = digest sha R' n)"
  proof
    assume e: "digest sha R ` set ns = digest sha R' ` set ns'"
    have "cs_tableName ` digest sha Q ` X = X" for Q X by (simp add: digest_def image_image)
    with e have n: "set ns = set ns'" by metis
    have "digest sha R n = digest sha R' n" if "n \<in> set ns" for n
    proof -
      from e that obtain m where "digest sha R n = digest sha R' m" by blast
      then show ?thesis using digest_eq by metis
    qed
    with n show "set ns = set ns' \<and> (\<forall>n\<in>set ns. digest sha R n = digest sha R' n)" by blast
  qed (auto intro: image_cong)
  finally show ?thesis .
qed

lemma of_nat_length_eq: "m < 2 ^ 64 \<Longrightarrow> n < 2 ^ 64 \<Longrightarrow> (of_nat m :: 64 word) = of_nat n \<longleftrightarrow> m = n"
  by (simp add: word_of_nat_eq_iff take_bit_nat_eq_self)

text \<open>
  C33: the checksum files of two databases are equal exactly when both have the same tables and each table has as many
  rows and the same digest in both, whatever the ids of the tables and the order of the catalogs.
\<close>

theorem checksum_files_compare:
  assumes "checksum_site R ts w" and "checksum_site R' ts' w'" and "can_open f" and "can_open f'"
  shows "\<exists>c c'. fst (calculate_database_checksums sha can_open f w) = Ok c \<and>
    fst (calculate_database_checksums sha can_open f' w') = Ok c' \<and>
    (c = c' \<longleftrightarrow> obj_name ` set ts = obj_name ` set ts' \<and>
       (\<forall>n\<in>obj_name ` set ts. length (R n) = length (R' n) \<and>
          sha (concat (map buildRowHash (R n))) = sha (concat (map buildRowHash (R' n)))))"
proof -
  let ?xs = "sort_key cs_tableName (map (digest sha R) (map obj_name ts))"
  let ?ys = "sort_key cs_tableName (map (digest sha R') (map obj_name ts'))"
  have len: "\<forall>n\<in>obj_name ` set ts. length (R n) < 2 ^ 64" "\<forall>n\<in>obj_name ` set ts'. length (R' n) < 2 ^ 64"
    using assms(1,2) by (auto simp: checksum_site_def)
  have "\<forall>r\<in>set ?xs \<union> set ?ys. plain_line r"
    using assms(1,2) by (auto simp: checksum_site_def plain_line_def digest_def)
  then have "getResultsAsString ?xs = getResultsAsString ?ys \<longleftrightarrow> ?xs = ?ys" by (rule file_inject)
  also have "\<dots> \<longleftrightarrow> set (map obj_name ts) = set (map obj_name ts') \<and>
      (\<forall>n\<in>set (map obj_name ts). digest sha R n = digest sha R' n)"
    by (rule digests_eq) (use assms(1,2) in \<open>simp_all add: checksum_site_def\<close>)
  also have "\<dots> \<longleftrightarrow> obj_name ` set ts = obj_name ` set ts' \<and>
       (\<forall>n\<in>obj_name ` set ts. length (R n) = length (R' n) \<and>
          sha (concat (map buildRowHash (R n))) = sha (concat (map buildRowHash (R' n))))"
    unfolding set_map by (rule conj_cong [OF refl], rule ball_cong [OF refl]) (use len in \<open>auto simp: digest_eq of_nat_length_eq\<close>)
  finally show ?thesis
    using checksum_run [where can_open = can_open and f = f and sha = sha, OF assms(1,3)] checksum_run [where can_open = can_open and f = f' and sha = sha, OF assms(2,4)] by (simp add: checksum_file_def comp_def)
qed

text \<open>
  C34: on rows without NULL and without the separator in a value, the text that is hashed determines the rows.
\<close>

theorem row_text_determines_rows:
  assumes "\<forall>r\<in>set rows \<union> set rows'. length r = n \<and> (\<forall>v\<in>set r. \<exists>s. v = Some s \<and> CHR ''|'' \<notin> set s)" and "0 < n"
  shows "concat (map buildRowHash rows) = concat (map buildRowHash rows') \<longleftrightarrow> rows = rows'"
proof
  assume same: "concat (map buildRowHash rows) = concat (map buildRowHash rows')"
  have parts: "concat (map buildRowHash rs) = concat (map (\<lambda>a. a @ [CHR ''|'']) (concat (map (map the) rs)))"
    if "\<forall>r\<in>set rs. \<forall>v\<in>set r. \<exists>s. v = Some s" for rs
    using that
  proof (induction rs)
    case (Cons r rs)
    have "buildRowHash r = concat (map (\<lambda>a. a @ [CHR ''|'']) (map the r))"
      unfolding buildRowHash_def map_map by (rule arg_cong [where f = concat], rule map_cong) (use Cons.prems in \<open>auto simp: comp_def\<close>)
    with Cons show ?case by simp
  qed simp
  have some: "\<forall>r\<in>set rows. \<forall>v\<in>set r. \<exists>s. v = Some s" "\<forall>r\<in>set rows'. \<forall>v\<in>set r. \<exists>s. v = Some s"
    using assms(1) by blast+
  have clean: "\<forall>a\<in>set (concat (map (map the) rows)) \<union> set (concat (map (map the) rows')). CHR ''|'' \<notin> set a"
    using assms(1) by fastforce
  have c: "concat (map (map the) rows) = concat (map (map the) rows')"
    by (rule terminated_inject [OF clean]) (use same parts some in simp)
  have "length (concat (map (map the) rs)) = n * length rs" if "\<forall>r\<in>set rs. length r = n" for rs :: "string option list list"
    using that by (induction rs) simp_all
  with c assms(1,2) have l: "length rows = length rows'" by (metis UnCI mult_cancel1 not_gr_zero)
  have "map (map the) rows = map (map the) rows'"
  proof (rule concat_injective [OF c])
    show "length (map (map the) rows) = length (map (map the) rows')" using l by simp
    have "length x = length y" if "(x, y) \<in> set (zip (map (map the) rows) (map (map the) rows'))" for x y
      using set_zip_leftD [OF that] set_zip_rightD [OF that] assms(1) by auto
    then show "\<forall>(x, y)\<in>set (zip (map (map the) rows) (map (map the) rows')). length x = length y" by blast
  qed
  then show "rows = rows'"
  proof (rule map_inj_on)
    show "inj_on (map the) (set rows \<union> set rows')"
    proof (rule inj_onI)
      fix r r' assume "r \<in> set rows \<union> set rows'" "r' \<in> set rows \<union> set rows'" "map the r = map the r'"
      then show "r = r'" using some
        by (intro nth_equalityI) (metis length_map, metis UnE length_map nth_map nth_mem option.sel)
    qed
  qed
qed simp

lemma row_text_determines_rows_witness:
  "concat (map buildRowHash [[Some ''1'', Some ''ab'']]) \<noteq> concat (map buildRowHash [[Some ''1a'', Some ''b'']])"
  using row_text_determines_rows [of "[[Some ''1'', Some ''ab'']]" "[[Some ''1a'', Some ''b'']]" 2] by simp

text \<open>Two databases with the table of the example, under different ids, and rows that differ in one value.\<close>

definition row_answers :: "string \<Rightarrow> catalog_content" where
  "row_answers v = map_of [(''SELECT COUNT(*) FROM foo1'', [[Some ''1'']]),
     (''SELECT * FROM foo1 ORDER BY id, up'', [[Some v, None]])]"

definition row_world :: "object_id \<Rightarrow> string \<Rightarrow> world" where
  "row_world i v = sample_world fl_postgres (catalog_server (row_answers v)) (\<lambda>n. n) [self_table\<lparr>obj_id := i\<rparr>]"

lemma row_world_site:
  assumes "i \<noteq> 0"
  shows "checksum_site (\<lambda>n. [[Some v, None]]) [self_table\<lparr>obj_id := i\<rparr>] (row_world i v)"
proof -
  have q: "count_query (self_table\<lparr>obj_id := i\<rparr>) = ''SELECT COUNT(*) FROM foo1''"
    "row_query (self_table\<lparr>obj_id := i\<rparr>) = ''SELECT * FROM foo1 ORDER BY id, up''"
    by (simp_all add: count_query_def row_query_def self_table_def default_table_def default_column_def)
  have s: "stores (\<lambda>n. [[Some v, None]]) [self_table\<lparr>obj_id := i\<rparr>] (conn (row_world i v))"
    by (simp add: stores_def q row_world_def sample_world_def catalog_server_def row_answers_def qr_success_def fmt_nat_12)
  have "catalog_snapshotAll (tables (registry (row_world i v))) = Ok [self_table\<lparr>obj_id := i\<rparr>]"
    using assms by (simp add: row_world_def sample_world_def catalog_insert_def empty_catalog_def catalog_snapshotAll_def
        slots_at_def self_table_def default_table_def)
  with s show ?thesis
    by (simp add: checksum_site_def quiet_def) (simp add: row_world_def sample_world_def self_table_def default_table_def)
qed

lemma checksum_files_compare_witness:
  "\<exists>c c'. fst (calculate_database_checksums (map of_char) (\<lambda>f. True) ''a'' (row_world 1 ''x'')) = Ok c \<and>
     fst (calculate_database_checksums (map of_char) (\<lambda>f. True) ''b'' (row_world 7 ''y'')) = Ok c' \<and> c \<noteq> c'"
proof -
  have "concat (map buildRowHash [[Some ''x'', None]]) = ''x||''" "concat (map buildRowHash [[Some ''y'', None]]) = ''y||''"
    by (simp_all add: buildRowHash_def)
  then show ?thesis
    using checksum_files_compare [OF row_world_site [of 1 "''x''"] row_world_site [of 7 "''y''"],
      where can_open = "\<lambda>f. True" and f = "''a''" and f' = "''b''" and sha = "map of_char"] by auto
qed


text \<open>Without that, texts collide: NULL and the empty string, and a separator inside a value.\<close>

lemma row_text_collisions:
  "buildRowHash [None] = buildRowHash [Some []]"
  "buildRowHash [Some ''a|'', Some ''b''] = buildRowHash [Some ''a'', Some ''|b'']"
  by (simp_all add: buildRowHash_def)

end
