(* ===== verification/Alter_Loop.thy ===== *)
theory Alter_Loop
  imports Ddl_Safety
begin

text \<open>
  The loop of \<open>AlterTable\<close> (core/src/action/ddl.cpp) repeats a round until it adds a clause. This
  theory shows when it ends: always, on a stream of draws that keeps offering \<open>addColumn\<close>, if that
  command is possible; never, for the second clause, if only the access method can change.
\<close>

section \<open>The draws a round uses\<close>

definition stream_of :: "world \<Rightarrow> nat \<Rightarrow> nat" where
  "stream_of w = draws (w_rng w)"

definition position :: "world \<Rightarrow> nat" where
  "position w = drawn (w_rng w)"

lemma draw_eq:
  "lo \<le> hi \<Longrightarrow> draw lo hi w = (Ok (lo + stream_of w (position w) mod (hi - lo + 1)),
     w\<lparr>w_rng := (w_rng w)\<lparr>drawn := Suc (drawn (w_rng w))\<rparr>\<rparr>)"
  by (simp add: draw_def in_rng_def random_number_def stream_of_def position_def)

lemma stream_position_step [simp]:
  "stream_of (w\<lparr>w_rng := (w_rng w)\<lparr>drawn := n\<rparr>\<rparr>) = stream_of w"
  "position (w\<lparr>w_rng := (w_rng w)\<lparr>drawn := n\<rparr>\<rparr>) = n"
  by (simp_all add: stream_of_def position_def)

lemma stream_simps [simp]:
  "stream_of (w\<lparr>conn := c\<rparr>) = stream_of w" "stream_of (w\<lparr>registry := g\<rparr>) = stream_of w"
  "stream_of (w\<lparr>buffer := b\<rparr>) = stream_of w" "stream_of (w\<lparr>clock := k\<rparr>) = stream_of w"
  by (simp_all add: stream_of_def)

text \<open>
  \<open>steady m\<close>: \<open>m\<close> ends and leaves the stream alone (it may read on in it).
\<close>

definition steady :: "(world, 'a) prog \<Rightarrow> bool" where
  "steady m \<longleftrightarrow> (\<forall>w. fst (m w) \<noteq> Diverges \<and> stream_of (snd (m w)) = stream_of w \<and>
     position w \<le> position (snd (m w)))"

named_theorems steady_intros "rules that establish steady"

lemma steadyD: "steady m \<Longrightarrow> m w = (r, w') \<Longrightarrow>
    r \<noteq> Diverges \<and> stream_of w' = stream_of w \<and> position w \<le> position w'"
  by (metis steady_def fst_conv snd_conv)

lemma steady_ret [steady_intros]: "steady (ret x)" "steady skip" "steady undef"
  by (simp_all add: steady_def ret_def skip_def undef_def)

lemma steady_lift [steady_intros]: "r \<noteq> Diverges \<Longrightarrow> steady (lift_result r)"
  by (simp add: steady_def lift_result_def)

lemma steady_bind [steady_intros]:
  assumes "steady m" and "\<And>x. steady (f x)"
  shows "steady (bind m f)"
  unfolding steady_def
proof
  fix w
  obtain r w1 where m: "m w = (r, w1)" by fastforce
  from steadyD [OF assms(1) m] assms(2) m
  show "fst (bind m f w) \<noteq> Diverges \<and> stream_of (snd (bind m f w)) = stream_of w \<and>
      position w \<le> position (snd (bind m f w))"
    by (cases r) (auto simp: bind_def steady_def intro: le_trans)
qed

lemma steady_seq [steady_intros]: "steady m \<Longrightarrow> steady n \<Longrightarrow> steady (seq m n)"
  unfolding seq_def by (rule steady_bind)

lemma steady_if [steady_intros]: "steady m \<Longrightarrow> steady n \<Longrightarrow> steady (if b then m else n)"
  by simp

lemma steady_draw [steady_intros]: "steady (draw lo hi)"
  by (cases "lo \<le> hi") (simp_all add: steady_def draw_eq draw_def in_rng_def random_number_def
      stream_of_def position_def)

lemma steady_server_is [steady_intros]: "steady server_is" "steady the_dialect"
  unfolding the_dialect_def
  by (simp_all add: steady_intros steady_bind server_is_def gets_def steady_def bind_def ret_def)

lemma steady_interfere: "steady interfere"
  by (auto simp: steady_def interfere_def position_def split: result.splits)

lemma steady_exec_sql [steady_intros]: "steady (exec_sql q)"
  unfolding exec_sql_def run_sql_def
  by (intro steady_bind steady_lift)
    (auto simp: steady_def in_conn_def conn_executeQuery_def sql_send_def bind_def maybeThrow_def
      Let_def position_def)

lemma steady_update [steady_intros]: "steady (tables_update ctx i d)"
  unfolding tables_update_def
  by (rule steady_seq [OF steady_interfere], cases ctx)
    (auto simp: steady_def put_view_def Let_def position_def split: prod.splits)

lemma steady_randomColumn [steady_intros]: "steady (randomColumn b)"
proof -
  have "steady (randomColumnLength ty)" for ty
    by (cases ty) (simp_all add: randomColumnLength_def steady_intros)
  then show ?thesis
    unfolding randomColumn_def randomColumnType_def by (intro steady_intros)
qed

lemma steady_alter_round [steady_intros]: "steady (alter_round config d t commands st)"
proof -
  have "steady (alter_try_drop d t st)"
    unfolding alter_try_drop_def Let_def by (intro steady_intros)
  then show ?thesis
    unfolding alter_round_def
    by (auto intro!: steady_intros split: alter_subcommand.splits)
qed

lemma keeps_draws_pick: "keeps (same_rel draws) (view_randomPick v)"
proof -
  have r: "keeps (same_rel draws) (random_number lo hi)" for lo hi
    by (simp add: keeps_def same_rel_def random_number_def)
  show ?thesis
    by (cases v rule: view_wf.cases)
      (auto simp: catalog_randomPick_def intro!: keeps_bind keeps_if keeps_pure r preord_same_rel)
qed

section \<open>A stream that keeps offering a command\<close>

text \<open>
  \<open>offers s n k\<close>: again and again two draws in a row, read as a choice among \<open>n\<close>, give \<open>k\<close>. (A round
  that adds nothing uses one or two draws, so a single one could always be used up as a column.)
\<close>

definition offers :: "(nat \<Rightarrow> nat) \<Rightarrow> nat \<Rightarrow> nat \<Rightarrow> bool" where
  "offers s n k \<longleftrightarrow> (\<forall>i. \<exists>j\<ge>i. s j mod n = k \<and> s (Suc j) mod n = k)"

lemma failed_round:
  assumes "alter_round config d t commands st w = (Ok (False, st'), w')"
    and "k < length commands" and "commands ! k = addColumn"
  shows "stream_of w (position w) mod length commands \<noteq> k \<and> position w < position w' \<and>
    position w' \<le> position w + 2"
proof -
  let ?i = "stream_of w (position w) mod length commands"
  let ?w1 = "w\<lparr>w_rng := (w_rng w)\<lparr>drawn := Suc (drawn (w_rng w))\<rparr>\<rparr>"
  have ne: "commands \<noteq> []" using assms(2) by auto
  then have "length commands - 1 - 0 + 1 = length commands" by (cases commands) simp_all
  with draw_eq [of 0 "length commands - 1" w]
  have d0: "draw 0 (length commands - 1) w = (Ok ?i, ?w1)" by simp
  have p1: "position ?w1 = Suc (position w)" by (simp add: position_def)
  show ?thesis
  proof (cases "commands ! ?i")
    case addColumn
    with assms(1) d0 ne show ?thesis
      by (auto simp: alter_round_def bind_def ret_def split: result.splits prod.splits)
  next
    case dropColumn
    with assms(1) d0 ne have run: "alter_try_drop d t st ?w1 = (Ok (False, st'), w')"
      by (simp add: alter_round_def bind_def)
    have "position w' \<le> Suc (position ?w1) \<and> position ?w1 \<le> position w'"
      using run draw_eq [of 0 "length (availableColumns st) - 1" ?w1]
      by (auto simp: alter_try_drop_def Let_def bind_def ret_def position_def split: if_splits)
    with dropColumn p1 assms(3) show ?thesis by auto
  next
    case changeColumn
    with assms(1) d0 ne have "w' = ?w1" by (simp add: alter_round_def bind_def ret_def)
    with changeColumn p1 assms(3) show ?thesis by auto
  next
    case changeAccessMethod
    with assms(1) d0 ne have "w' = ?w1"
      by (auto simp: alter_round_def bind_def ret_def undef_def draw_def in_rng_def random_number_def
          split: if_splits)
    with changeAccessMethod p1 assms(3) show ?thesis by auto
  qed
qed

lemma until_added_unfold:
  "until_added round st w = (case round st w of
       (Ok (added, st'), w') \<Rightarrow> if added then Some (Ok st', w') else until_added round st' w'
     | (Throw e, w') \<Rightarrow> Some (Throw e, w')
     | (Undefined, w') \<Rightarrow> Some (Undefined, w')
     | (Diverges, w') \<Rightarrow> Some (Diverges, w'))"
  by (rule until_added.simps)

text \<open>The distance to the next offer shrinks with every round that adds nothing.\<close>

lemma until_added_ends:
  assumes "k < length commands" and "commands ! k = addColumn"
    and "stream_of w j mod length commands = k" and "stream_of w (Suc j) mod length commands = k"
    and "position w \<le> Suc j"
  shows "\<exists>r w'. until_added (alter_round config d t commands) st w = Some (r, w') \<and> r \<noteq> Diverges \<and>
    stream_of w' = stream_of w"
  using assms(3-5)
proof (induction "Suc j - position w" arbitrary: st w rule: less_induct)
  case less
  obtain r w1 where r: "alter_round config d t commands st w = (r, w1)" by fastforce
  from steadyD [OF steady_alter_round r] have s: "r \<noteq> Diverges" "stream_of w1 = stream_of w" by simp_all
  show ?case
  proof (cases "\<exists>st'. r = Ok (False, st')")
    case True
    then obtain st' where st': "r = Ok (False, st')" by blast
    from failed_round [OF r [unfolded st'] assms(1,2)]
    have step: "stream_of w (position w) mod length commands \<noteq> k" "position w < position w1"
      "position w1 \<le> position w + 2" by simp_all
    from step(1) less.prems have "position w < j"
      by (metis le_SucE le_neq_implies_less)
    with step less.prems s have "\<exists>r w'. until_added (alter_round config d t commands) st' w1 = Some (r, w') \<and>
        r \<noteq> Diverges \<and> stream_of w' = stream_of w1"
      by (intro less.hyps) auto
    with r st' s show ?thesis by (subst until_added_unfold) simp
  next
    case False
    with r s show ?thesis
      by (subst until_added_unfold) (auto split: result.splits prod.splits bool.splits)
  qed
qed

lemma steady_fair_clauses:
  assumes k: "k < length commands" "commands ! k = addColumn"
  shows "offers (stream_of w) (length commands) k \<Longrightarrow> alter_clauses n config d t commands st w = (r, w') \<Longrightarrow>
    r \<noteq> Diverges"
proof (induction n arbitrary: st w)
  case 0
  then show ?case by (auto simp: ret_def)
next
  case (Suc n)
  obtain j where j: "j \<ge> position w" "stream_of w j mod length commands = k"
    "stream_of w (Suc j) mod length commands = k"
    using Suc.prems(1) unfolding offers_def by blast
  obtain r1 w1 where u: "until_added (alter_round config d t commands) st w = Some (r1, w1)"
    "r1 \<noteq> Diverges" "stream_of w1 = stream_of w"
    using until_added_ends [OF k j(2,3)] j(1) by fastforce
  show ?case
  proof (cases r1)
    case (Ok st1)
    with u Suc.prems(2) have "alter_clauses n config d t commands st1 w1 = (r, w')"
      by (simp add: bind_def alter_clause_def)
    from Suc.IH [OF _ this] Suc.prems(1) u show ?thesis by simp
  qed (use u Suc.prems in \<open>auto simp: bind_def alter_clause_def\<close>)
qed

lemma randomPick_steady:
  assumes "world_inv any_table w" and "tables_randomPick ctx w = (r, w')"
  shows "r \<noteq> Diverges \<and> stream_of w' = stream_of w"
proof -
  have blind: "header_blind any_table" by (simp add: header_blind_def)
  obtain r1 w1 where i: "interfere w = (r1, w1)" by fastforce
  from steadyD [OF steady_interfere i] have s1: "r1 \<noteq> Diverges" "stream_of w1 = stream_of w" by simp_all
  from yieldsD [OF yields_interfere [OF blind] assms(1) i] have inv: "world_inv any_table w1" by simp
  obtain x g where g: "view_randomPick (view_of ctx w1) (w_rng w1) = (Ok x, g)"
    using view_randomPick_live [OF view_of_wf [OF inv], of ctx "w_rng w1"] by blast
  have "draws g = draws (w_rng w1)"
    using keepsD [OF keeps_draws_pick g] by (simp add: same_rel_def)
  with i s1 g assms(2) show ?thesis
    by (cases r1) (auto simp: tables_randomPick_def seq_def bind_def in_rng_def stream_of_def)
qed

text \<open>
  C17: \<open>AlterTable\<close> terminates when it may add columns and the random source keeps offering it: from
  every consistent world, under any interference and any server, the action ends.
\<close>

theorem alter_table_terminates:
  assumes "world_inv any_table w" and "k < length (flags_All fl)" and "flags_All fl ! k = addColumn"
    and "offers (stream_of w) (length (flags_All fl)) k"
    and run: "AlterTable_execute config fl ctx w = (r, w')"
  shows "r \<noteq> Diverges"
proof -
  obtain d where d: "the_dialect w = (Ok d, w)"
    by (simp add: the_dialect_def server_is_def gets_def bind_def ret_def)
  obtain x w1 where p: "tables_randomPick ctx w = (x, w1)" by fastforce
  have pick: "x \<noteq> Diverges \<and> stream_of w1 = stream_of w"
    using randomPick_steady [OF assms(1) p] .
  show ?thesis
  proof (cases x)
    case (Ok snap)
    show ?thesis
    proof (cases snap)
      case None
      with Ok p d run show ?thesis by (auto simp: AlterTable_execute_def bind_def skip_def ret_def)
    next
      case (Some t)
      let ?fin = "\<lambda>st. seq (exec_sql (''ALTER TABLE '' @ obj_name t @ [CHR '' '', CHR 0x0A, CHR '' ''] @
                  join comma_newline (alterSubcommands st) @ '';''))
           (seq (tables_update ctx (obj_id t) (alter_delta (dropColumnRemovesWholeIndex d) st)) skip)"
      have fin: "steady (?fin st)" for st by (intro steady_intros)
      obtain n w2 where n: "draw 1 (max_alter_clauses config) w1 = (n, w2)" by fastforce
      from steadyD [OF steady_draw n] pick have s2: "n \<noteq> Diverges" "stream_of w2 = stream_of w" by simp_all
      show ?thesis
      proof (cases n)
        case (Ok m)
        obtain y w3 where y: "alter_clauses m config d t (flags_All fl) (alter_start t) w2 = (y, w3)" by fastforce
        from steady_fair_clauses [OF assms(2,3) _ y] s2 assms(4) have "y \<noteq> Diverges" by simp
        with Ok \<open>x = Ok snap\<close> Some d p n y run steadyD [OF fin] show ?thesis
          by (cases y) (auto simp: AlterTable_execute_def bind_def)
      qed (use s2 \<open>x = Ok snap\<close> Some d p n run in \<open>auto simp: AlterTable_execute_def bind_def\<close>)
    qed
  qed (use pick p d run in \<open>auto simp: AlterTable_execute_def bind_def\<close>)
qed

lemma alter_table_terminates_witness:
  "\<exists>r w'. AlterTable_execute default_ddl_config flags_AllSet Direct
      (sample_world fl_mysql accept_all (\<lambda>n. 0) [sample_table 1 ''foo1'']) = (r, w') \<and> r \<noteq> Diverges"
proof -
  let ?w = "sample_world fl_mysql accept_all (\<lambda>n. 0) [sample_table 1 ''foo1'']"
  obtain r w' where e: "AlterTable_execute default_ddl_config flags_AllSet Direct ?w = (r, w')" by fastforce
  have all: "flags_All flags_AllSet = [addColumn, dropColumn, changeColumn, changeAccessMethod]" by code_simp
  have inv: "world_inv any_table ?w" by (rule sample_world_inv [OF any_blind]) simp
  have "offers (stream_of ?w) (length (flags_All flags_AllSet)) 0"
    by (auto simp: offers_def stream_of_def sample_world_def)
  from alter_table_terminates [OF inv _ _ this e] e all show ?thesis by simp
qed

section \<open>A loop that never ends\<close>

lemma until_added_stuck:
  "until_added round st w = Some rw \<Longrightarrow>
   (\<And>w. \<exists>w'. round st w = (Ok (False, st), w')) \<Longrightarrow> False"
proof (induction rule: until_added.raw_induct [rotated 1, consumes 1])
  case (1 loop round st w rw)
  obtain w' where r: "round st w = (Ok (False, st), w')" using 1(3) by blast
  with 1(2) have "loop round st w' = Some rw" by simp
  from 1(1) [OF this 1(3)] show ?case .
qed

lemma am_round_stuck:
  assumes "changingAm st"
  shows "\<exists>w'. alter_round config d t [changeAccessMethod] st w = (Ok (False, st), w')"
  using assms draw_eq [of 0 0 w] by (simp add: alter_round_def bind_def ret_def)

lemma am_second_clause:
  assumes "changingAm st"
  shows "fst (alter_clause config d t [changeAccessMethod] st w) = Diverges"
proof (cases "until_added (alter_round config d t [changeAccessMethod]) st w")
  case (Some rw)
  from until_added_stuck [OF Some am_round_stuck [OF assms]] show ?thesis by simp
qed (simp add: alter_clause_def)

lemma am_first_clause:
  assumes "access_methods config \<noteq> []" and "\<not> changingAm st"
  shows "\<exists>st' w'. alter_clause config d t [changeAccessMethod] st w = (Ok st', w') \<and> changingAm st'"
proof -
  let ?w1 = "w\<lparr>w_rng := (w_rng w)\<lparr>drawn := Suc (drawn (w_rng w))\<rparr>\<rparr>"
  from draw_eq [of 0 0 w] have "draw 0 0 w = (Ok 0, ?w1)" by simp
  with draw_eq [of 0 "length (access_methods config) - 1" ?w1] assms
  obtain st' w' where "alter_round config d t [changeAccessMethod] st w = (Ok (True, st'), w')" "changingAm st'"
    by (simp add: alter_round_def bind_def ret_def)
  then show ?thesis by (simp add: alter_clause_def until_added_unfold)
qed

text \<open>
  C18: if the access method is the only thing that may change, two clauses are one too many. Every
  run of the clause loop that is to add two or more never ends, whatever is drawn: the second round
  finds \<open>changingAm\<close> set and tries again, forever.
\<close>

theorem alter_loop_never_ends:
  assumes "access_methods config \<noteq> []" and "2 \<le> n" and "flags_All fl = [changeAccessMethod]"
  shows "fst (alter_clauses n config d t (flags_All fl) (alter_start t) w) = Diverges"
proof -
  obtain k where n: "n = Suc (Suc k)" using assms(2) by (metis Suc_le_D numeral_2_eq_2 Suc_le_mono)
  have "\<not> changingAm (alter_start t)" by (simp add: alter_start_def)
  from am_first_clause [OF assms(1) this] obtain st1 w1 where
    "alter_clause config d t [changeAccessMethod] (alter_start t) w = (Ok st1, w1)" "changingAm st1" by blast
  with am_second_clause [of st1 config d t w1] n assms(3) show ?thesis
    by (cases "alter_clause config d t [changeAccessMethod] st1 w1") (auto simp: bind_def)
qed

lemma alter_loop_never_ends_witness:
  "fst (alter_clauses 2 default_ddl_config mysql_dialect (sample_table 1 ''foo1'')
     (flags_All (flags_Set (subcommand_flag changeAccessMethod) 0)) (alter_start (sample_table 1 ''foo1''))
     (sample_world fl_mysql accept_all (\<lambda>n. n) [])) = Diverges"
proof -
  have "flags_All (flags_Set (subcommand_flag changeAccessMethod) 0) = [changeAccessMethod]" by code_simp
  then show ?thesis
    by (intro alter_loop_never_ends) (simp_all add: default_ddl_config_def)
qed

section \<open>Too few columns\<close>

text \<open>Two ALTER statements, each of which leaves two columns, leave one together.\<close>

definition drop_alter :: "string \<Rightarrow> alter_state" where
  "drop_alter n = (alter_start (sample_table 1 ''foo1''))\<lparr>droppedColumnNames := [n]\<rparr>"

definition one_column_table :: table where
  "one_column_table = (sample_table 1 ''foo1'')\<lparr>columns := take 1 (columns (sample_table 1 ''foo1''))\<rparr>"

lemma concurrent_alters_leave_one_column:
  "(case alter_delta False (drop_alter ''col1'') (sample_table 1 ''foo1'') of
      None \<Rightarrow> None | Some t \<Rightarrow> alter_delta False (drop_alter ''col2'') t) = Some one_column_table"
  by (simp add: alter_delta_def drop_alter_def alter_start_def sample_table_def one_column_table_def
      drop_column_delta_def default_table_def default_column_def Let_def)

lemma randomPick_quiet:
  assumes "quiet w" and "world_inv any_table w" and "view_byId (view_of ctx w) \<noteq> Map.empty"
  shows "\<exists>t w1. tables_randomPick ctx w = (Ok (Some t), w1) \<and> conn w1 = conn w \<and>
    view_byId (view_of ctx w) (obj_id t) = Some t"
proof -
  let ?w = "w\<lparr>clock := Suc (clock w)\<rparr>"
  have v: "view_of ctx ?w = view_of ctx w" by (cases ctx) (simp_all add: view_of_def)
  obtain t g where "view_randomPick (view_of ctx w) (w_rng w) = (Ok (Some t), g)"
    "view_byId (view_of ctx w) (obj_id t) = Some t"
    using view_randomPick_live [OF view_of_wf [OF assms(2)], of ctx "w_rng w"] assms(3) by auto
  then show ?thesis
    by (auto simp: tables_randomPick_def seq_def bind_def interfere_quiet [OF assms(1)] in_rng_def v)
qed

text \<open>
  C19: the limit of the previous safety statement is real. Where every table a worker alone sees has
  a single column (two concurrent ALTERs reach that) and no index, \<open>CreateIndex\<close> asks the random
  source for a number in the empty range from 1 to 0: undefined behaviour, whatever is drawn.
\<close>

theorem create_index_one_column:
  assumes w: "quiet w" "world_inv any_table w" and some: "view_byId (view_of ctx w) \<noteq> Map.empty"
    and narrow: "\<forall>t \<in> ran (view_byId (view_of ctx w)). length (columns t) = 1 \<and> indexes t = []"
  shows "fst (CreateIndex_execute ctx w) = Undefined"
proof -
  define d where "d = dialect_for (conn_info (conn w))"
  from randomPick_quiet [OF w some] obtain t w1 where p: "tables_randomPick ctx w = (Ok (Some t), w1)"
    and "view_byId (view_of ctx w) (obj_id t) = Some t" by blast
  with narrow have t: "length (columns t) = 1" "indexes t = []" by (auto simp: ran_def)
  from dia.some_index [of "conn_info (conn w)"] p t(2)
  have snap: "pick_indexable 10 (maxIndexesPerTable d) ctx w = (Ok (Some t), w1)"
    by (simp add: d_def numeral_eq_Suc bind_def ret_def)
  obtain n w2 where n: "draw 1 100000000 w1 = (Ok n, w2)" using draw_eq [of 1 100000000 w1] by simp
  obtain ys g where "shuffle [0..<length (columns t)] (w_rng w2) = (Ok ys, g)" using shuffle_ok by blast
  then have sh: "in_rng (shuffle [0..<length (columns t)]) w2 = (Ok ys, w2\<lparr>w_rng := g\<rparr>)"
    by (simp add: in_rng_def)
  have e: "draw 1 (min (if columns t = [] then size_max else length (columns t) - 1) (maxIndexColumns d)) w3
      = (Undefined, w3)" for w3
    using t(1) by (cases "columns t") (simp_all add: draw_def in_rng_def random_number_def)
  have "the_dialect w = (Ok d, w)"
    by (simp add: the_dialect_def server_is_def gets_def bind_def ret_def d_def)
  with snap n sh e show ?thesis by (simp add: CreateIndex_execute_def bind_def)
qed

lemma create_index_one_column_witness:
  "fst (CreateIndex_execute Direct (sample_world fl_mysql accept_all (\<lambda>n. n) [one_column_table])) = Undefined"
proof -
  let ?w = "sample_world fl_mysql accept_all (\<lambda>n. n) [one_column_table]"
  have v: "view_byId (view_of Direct ?w) = [1 \<mapsto> one_column_table]"
    by (auto simp: fun_eq_iff sample_world_def view_of_def one_column_table_def sample_table_def
        catalog_insert_def empty_catalog_def catalog_byId_def default_table_def)
  have q: "quiet ?w" by (simp add: quiet_def sample_world_def)
  have inv: "world_inv any_table ?w" by (rule sample_world_inv [OF any_blind]) simp
  have c: "length (columns one_column_table) = 1 \<and> indexes one_column_table = []"
    by (simp add: one_column_table_def sample_table_def default_table_def)
  have "view_byId (view_of Direct ?w) \<noteq> Map.empty" unfolding v by simp
  then show ?thesis by (rule create_index_one_column [OF q inv]) (simp add: v c)
qed

end
