(* ===== verification/Transaction_Atomicity.thy ===== *)
theory Transaction_Atomicity
  imports Transaction_Session
begin

text \<open>
  The metadata side of a transaction (core/src/action/transaction.cpp with the buffer of
  core/include/metadata/context.hpp), for a worker alone: nothing reaches the catalog before COMMIT
  has succeeded, and a sub-action that failed leaves no operation in the log that will be published.
\<close>

section \<open>Programs that only buffer\<close>

text \<open>
  \<open>buffers\<close>: beside a buffer, the catalog stays as it is and the log only grows. The DDL actions in
  a buffered context do that.
\<close>

definition buffers :: "world \<Rightarrow> world \<Rightarrow> bool" where
  "buffers w w' \<longleftrightarrow> (quiet w \<and> buffer w \<noteq> None \<longrightarrow> quiet w' \<and> buffer w' \<noteq> None \<and>
     tables (registry w') = tables (registry w) \<and>
     (\<exists>ops. op_log (current_txn w') = op_log (current_txn w) @ ops))"

lemma preord_buffers [simp]: "preord buffers"
proof -
  have "buffers w w" for w by (simp add: buffers_def)
  moreover have "buffers w w' \<Longrightarrow> buffers w' w'' \<Longrightarrow> buffers w w''" for w w' w''
    by (fastforce simp: buffers_def)
  ultimately show ?thesis unfolding preord_def reflp_def transp_def by blast
qed

lemma quiet_same_buffers: "keeps quiet_same m \<Longrightarrow> keeps buffers m"
  by (fastforce simp: keeps_def quiet_same_def buffers_def store_of_def current_txn_def)

lemma apply_op_log:
  "op_log (applyInsert r t) = op_log t" "op_log (snd (applyUpdate i d g t)) = op_log t"
  "op_log (snd (applyErase i g t)) = op_log t"
  by (auto simp: applyInsert_def applyUpdate_def applyErase_def Let_def split: option.splits prod.splits)

lemma keeps_buffers_step:
  assumes "\<And>w t. quiet w \<Longrightarrow> buffer w = Some t \<Longrightarrow> buffers w (snd (m w))"
  shows "keeps buffers (seq interfere m)"
proof (rule keepsI)
  fix w
  show "buffers w (snd (seq interfere m w))"
  proof (cases "quiet w \<and> buffer w \<noteq> None")
    case True
    let ?w = "w\<lparr>clock := Suc (clock w)\<rparr>"
    from True assms [of ?w] have "buffers ?w (snd (m ?w))" by auto
    moreover have "seq interfere m w = m ?w" using True by (simp add: seq_def bind_def interfere_quiet)
    ultimately show ?thesis using True by (auto simp: buffers_def current_txn_def)
  qed (auto simp: buffers_def)
qed

lemma view_buffered: "buffer w = Some t \<Longrightarrow> view_of Buffered w = (tables (registry w), Some t)"
  by (simp add: view_of_def)

lemma put_buffered: "buffers w (put_view Buffered (tables (registry w), Some t') w)"
  if "buffer w = Some t" "op_log t' = op_log t @ ops"
  using that by (auto simp: buffers_def put_view_def Let_def current_txn_def)

lemma keeps_buffers_update: "keeps buffers (tables_update Buffered i d)"
  unfolding tables_update_def
proof (rule keeps_buffers_step)
  fix w :: world and t assume "buffer w = Some t"
  moreover obtain b t' where "txn_update i d (tables (registry w)) t = (b, t')" by fastforce
  moreover from this apply_op_log(2) [of i d "tables (registry w)" t] obtain ops where "op_log t' = op_log t @ ops"
    by (auto simp: txn_update_def split: prod.splits if_splits)
  ultimately show "buffers w (snd (let (b, v) = view_update i d (view_of Buffered w) in (Ok b, put_view Buffered v w)))"
    using put_buffered [of w t t'] by (simp add: view_buffered)
qed

lemma keeps_buffers_insert: "keeps buffers (tables_insert Buffered r)"
  unfolding tables_insert_def
proof (rule keeps_buffers_step)
  fix w :: world and t assume "buffer w = Some t"
  moreover have "op_log (txn_insert r t) = op_log t @ [Log_insert r]"
    by (simp add: txn_insert_def Let_def apply_op_log)
  ultimately show "buffers w (snd (let (b, v) = view_insert r (view_of Buffered w) in (Ok b, put_view Buffered v w)))"
    using put_buffered [of w t "txn_insert r t"] put_buffered [of w t t "[]"] by (simp add: view_buffered)
qed

lemma keeps_buffers_erase: "keeps buffers (tables_erase Buffered i)"
  unfolding tables_erase_def
proof (rule keeps_buffers_step)
  fix w :: world and t assume t: "buffer w = Some t"
  obtain b t' where e: "txn_erase i (tables (registry w)) t = (b, t')" by fastforce
  from e apply_op_log(3) [of i "tables (registry w)" t] obtain ops where "op_log t' = op_log t @ ops"
    by (auto simp: txn_erase_def split: prod.splits if_splits)
  with t e put_buffered [of w t t'] show "buffers w (snd (case view_erase i (view_of Buffered w) of
       Ok (b, v) \<Rightarrow> (Ok b, put_view Buffered v w)
     | Throw e \<Rightarrow> (Throw e, w) | Undefined \<Rightarrow> (Undefined, w) | Diverges \<Rightarrow> (Diverges, w)))"
    by (simp add: view_buffered)
qed

lemmas keeps_buffers_quiet = keeps_random [THEN quiet_same_buffers] keeps_world_reads [THEN quiet_same_buffers]
  keeps_draw [THEN quiet_same_buffers] keeps_sql [THEN quiet_same_buffers]
  keeps_build_table [THEN quiet_same_buffers] keeps_add_partitions [THEN quiet_same_buffers]
  keeps_alter_clauses [THEN quiet_same_buffers] keeps_drop_statement [THEN quiet_same_buffers]
  keeps_find_partitioned [THEN quiet_same_buffers] keeps_pick_indexable [THEN quiet_same_buffers]
  keeps_choose_fields [THEN quiet_same_buffers] keeps_in_rng [THEN quiet_same_buffers]

lemmas keeps_buffers_rules = keeps_buffers_quiet keeps_buffers_update keeps_buffers_insert keeps_buffers_erase
  keeps_bind keeps_seq keeps_if keeps_case_option keeps_pure keeps_for_each preord_buffers

lemma keeps_buffers_sweep: "keeps buffers (sweep_references Buffered i)"
  unfolding sweep_references_def by (intro keeps_buffers_rules)

lemma keeps_buffers_drop_index: "keeps buffers (drop_index_tries n info Buffered)"
proof (induction n)
  case (Suc n)
  then show ?case unfolding drop_index_tries.simps Let_def by (intro keeps_buffers_rules)
qed (simp add: keeps_pure)

lemma ddl_buffers: "keeps buffers (ddl_execute config a Buffered)"
proof (cases a)
  case (DA_create ty)
  have "keeps buffers (publish_table t None Buffered)" for t
    unfolding publish_table_def Let_def option.case by (intro keeps_buffers_rules)
  then show ?thesis
    unfolding DA_create ddl_execute.simps CreateTable_execute_def
    by (intro keeps_buffers_rules) (auto intro!: keeps_buffers_rules split: option.splits)
next
  case DA_drop
  then show ?thesis
    by (auto simp: DropTable_execute_def intro!: keeps_buffers_rules keeps_buffers_sweep)
next
  case (DA_alter fl)
  then show ?thesis by (auto simp: AlterTable_execute_def intro!: keeps_buffers_rules)
next
  case DA_rename
  then show ?thesis by (auto simp: RenameTable_execute_def intro!: keeps_buffers_rules)
next
  case DA_create_index
  then show ?thesis by (auto simp: CreateIndex_execute_def Let_def intro!: keeps_buffers_rules)
next
  case DA_drop_index
  then show ?thesis by (auto simp: DropIndex_execute_def intro!: keeps_buffers_rules keeps_buffers_drop_index)
next
  case DA_create_partition
  then show ?thesis by (auto simp: CreatePartition_execute_def findPartitionedTable_def intro!: keeps_buffers_rules)
next
  case DA_drop_partition
  then show ?thesis
    by (auto simp: DropPartition_execute_def findPartitionedTable_def Let_def
        intro!: keeps_buffers_rules keeps_buffers_sweep)
qed

section \<open>Steps that keep the catalog\<close>

definition cat_same :: "world \<Rightarrow> world \<Rightarrow> bool" where
  "cat_same w w' \<longleftrightarrow> (quiet w \<and> buffer w \<noteq> None \<longrightarrow> quiet w' \<and> buffer w' \<noteq> None \<and>
     tables (registry w') = tables (registry w))"

lemma preord_cat_same [simp]: "preord cat_same"
proof -
  have "cat_same w w' \<Longrightarrow> cat_same w' w'' \<Longrightarrow> cat_same w w''" for w w' w''
    by (auto simp: cat_same_def)
  then show ?thesis unfolding preord_def reflp_def transp_def by (auto simp: cat_same_def)
qed

lemma buffers_cat_same: "keeps buffers m \<Longrightarrow> keeps cat_same m"
  by (simp add: keeps_def buffers_def cat_same_def)

text \<open>\<open>pending c\<close>: the transaction is open and the catalog still \<open>c\<close>.\<close>

definition pending :: "table_catalog \<Rightarrow> txn_state \<Rightarrow> bool" where
  "pending c = (\<lambda>(w, l). quiet w \<and> buffer w \<noteq> None \<and> tables (registry w) = c \<and> inTrx l \<and>
     out_end (out l) \<noteq> committed_end)"

definition stays_pending :: "txn_state \<Rightarrow> txn_state \<Rightarrow> bool" where
  "stays_pending s s' \<longleftrightarrow> (\<forall>c. pending c s \<longrightarrow> pending c s')"

lemma preord_stays_pending [simp]: "preord stays_pending"
  by (auto simp: preord_def stays_pending_def reflp_def transp_def)

lemma pending_world: "keeps cat_same m \<Longrightarrow> keeps stays_pending (on_world m)"
  by (fastforce simp: keeps_def stays_pending_def pending_def cat_same_def on_world_def split: prod.splits)

lemma pending_locals:
  "(\<And>l. inTrx (f l) = inTrx l \<and> out_end (out (f l)) = out_end (out l)) \<Longrightarrow> keeps stays_pending (on_locals f)"
  by (auto simp: keeps_def stays_pending_def pending_def on_locals_def modify_def)

lemma pending_triple:
  assumes "keeps stays_pending m"
  shows "triple (pending c) m (\<lambda>_. pending c) (\<lambda>_. pending c)"
proof (rule tripleI)
  fix s r s' assume "pending c s" "m s = (r, s')"
  with keepsD [OF assms] show "(\<forall>x. r = Ok x \<longrightarrow> pending c s') \<and> (\<forall>e. r = Throw e \<longrightarrow> pending c s')"
    by (simp add: stays_pending_def)
qed

lemma rollbackTo_cat_same: "keeps cat_same (rollbackTo m)"
proof -
  have "keeps cat_same (replay_step op)" for op
    by (rule keepsI) (auto simp: replay_step_def cat_same_def seq_def bind_def interfere_quiet modify_def)
  moreover have "cat_same w (w\<lparr>buffer := Some b\<rparr>)" for w b by (simp add: cat_same_def)
  ultimately show ?thesis
    unfolding rollbackTo_def
    by (intro keeps_bind keeps_seq keeps_for_each keeps_pure keeps_modify preord_cat_same)
qed

lemma named_scope_keeps:
  assumes "keeps R m" and "preord R" and "\<And>w c. R w (w\<lparr>conn := c\<rparr>)"
  shows "keeps R (named_scope n m)"
proof (rule keepsI)
  fix w :: world
  let ?w = "w\<lparr>conn := conn_setCurrentAction n (conn w)\<rparr>"
  obtain r w1 where m: "m ?w = (r, w1)" by fastforce
  have "R w w1" using preord_trans [OF assms(2) assms(3) keepsD [OF assms(1) m]] .
  from preord_trans [OF assms(2) this assms(3)] preord_trans [OF assms(2) this, of w1] \<open>R w w1\<close> m
  show "R w (snd (named_scope n m w))"
    by (cases r) (auto simp: named_scope_def destructor_def seq_def bind_def modify_def)
qed

lemma pending_conn: "keeps stays_pending (on_world (exec_sql q))" "keeps stays_pending (on_world (run_sql q))"
  "keeps stays_pending (on_world (draw lo hi))" "keeps stays_pending (on_world (rollbackTo m))"
  by (intro pending_world buffers_cat_same keeps_buffers_rules rollbackTo_cat_same)+

lemma pending_counts: "keeps stays_pending (on_locals count_ok)" "keeps stays_pending (on_locals count_fail)"
  "keeps stays_pending (on_locals count_rewind)" "keeps stays_pending (on_locals disarm)"
  "keeps stays_pending (on_locals id)"
  by (rule pending_locals, simp add: count_ok_def count_fail_def count_rewind_def disarm_def)+

lemma pending_savepoints: "keeps stays_pending (on_locals (\<lambda>l. l\<lparr>savepoints := f l\<rparr>))"
  "keeps stays_pending (on_locals (\<lambda>l. l\<lparr>spCounter := g l\<rparr>))"
  "keeps stays_pending (modify (\<lambda>(w, l). (w, l\<lparr>savepoints := h w l\<rparr>)))"
  by (rule pending_locals, simp)+ (auto simp: keeps_def modify_def stays_pending_def pending_def)

definition buffering :: "('b \<Rightarrow> action) \<Rightarrow> bool" where
  "buffering exec \<longleftrightarrow> (\<forall>b. keeps buffers (exec b Buffered))"

lemma pending_sub: "keeps buffers sub \<Longrightarrow> keeps stays_pending (on_world (named_scope n sub))"
  by (intro pending_world named_scope_keeps buffers_cat_same preord_cat_same) (simp_all add: cat_same_def)

lemma pending_savepoint_step:
  assumes "keeps buffers sub"
  shows "keeps stays_pending (savepoint_step config n sub)"
proof -
  have "keeps stays_pending recover" "keeps stays_pending (random_rewind config)"
    unfolding recover_def random_rewind_def Let_def
    by (intro keeps_bind keeps_if keeps_when_do keeps_seq keeps_locals keeps_pure pending_conn pending_counts
        pending_savepoints preord_stays_pending)+
  then show ?thesis
    unfolding savepoint_step_def
    by (intro keeps_bind keeps_catch keeps_seq keeps_if keeps_on_failure keeps_locals keeps_pure pending_conn
        pending_counts pending_savepoints preord_stays_pending pending_sub [OF assms])
qed

lemma pending_abort_step: "keeps buffers sub \<Longrightarrow> keeps stays_pending (abort_step n sub)"
  unfolding abort_step_def
  by (intro keeps_catch keeps_seq keeps_pure pending_sub preord_stays_pending)
    (auto intro: pending_counts)

lemma pending_sub_step:
  assumes "buffering exec" and "td \<or> list_all (\<lambda>f. fac_type f \<noteq> At_ddl) pool"
  shows "triple (pending c) (sub_step config td exec pool) (\<lambda>_. pending c) (\<lambda>_. pending c)"
proof -
  have sub: "keeps buffers (exec b Buffered)" for b using assms(1) by (simp add: buffering_def)
  have step: "triple (\<lambda>s. pending c s \<and> snd s = l0 \<and> f \<in> set pool)
      (if inTrx l0 \<and> \<not> td \<and> fac_type f = At_ddl then mirror_step (fac_name f) (exec (fac_builder f) Direct)
       else if \<not> inTrx l0 then tail_step (fac_name f) (exec (fac_builder f) Direct)
       else if tc_error_mode config = Em_savepoint
       then savepoint_step config (fac_name f) (exec (fac_builder f) Buffered)
       else abort_step (fac_name f) (exec (fac_builder f) Buffered))
      (\<lambda>_. pending c) (\<lambda>_. pending c)" for l0 f
  proof (cases "inTrx l0 \<and> f \<in> set pool")
    case True
    with assms(2) have "td \<or> fac_type f \<noteq> At_ddl" by (auto simp: list_all_iff)
    with True show ?thesis
      by (auto intro: triple_mono [OF pending_triple [OF pending_savepoint_step [OF sub]]]
          triple_mono [OF pending_triple [OF pending_abort_step [OF sub]]])
  qed (auto simp: triple_def pending_def)
  have look: "triple (pending c) (lift_result (lookupByWeightOffset w pool)) (\<lambda>f s. pending c s \<and> f \<in> set pool)
      (\<lambda>_. pending c)" for w
    by (rule triple_lift) (auto dest: lookup_mem)
  have locs: "triple (\<lambda>s. pending c s \<and> f \<in> set pool) locals (\<lambda>l s. pending c s \<and> snd s = l \<and> f \<in> set pool)
      (\<lambda>_. pending c)" for f
    by (rule triple_locals) simp
  show ?thesis
    unfolding sub_step_def Let_def
    by (rule triple_bind [OF pending_triple [OF pending_conn(3)]], rule triple_bind [OF look],
        rule triple_bind [OF locs], rule step)
qed

section \<open>Only a commit reaches the catalog\<close>

text \<open>What holds however the transaction ends.\<close>

definition settled :: "table_catalog \<Rightarrow> txn_state \<Rightarrow> bool" where
  "settled c = (\<lambda>(w, l). tables (registry w) = c \<or> out_end (out l) = committed_end)"

lemma pending_settled: "pending c s \<Longrightarrow> settled c s"
  by (auto simp: pending_def settled_def)

lemma settled_commit:
  "triple P (seq (on_locals (set_end committed_end)) (on_world m)) (\<lambda>_. settled c) (\<lambda>_. settled c)"
  by (auto simp: triple_def seq_def bind_def on_locals_def modify_def on_world_def settled_def set_end_def
      split: prod.splits result.splits)

lemma finish_settled:
  "triple (pending c) (finish_transaction config) (\<lambda>_. settled c) (\<lambda>_. settled c)"
proof -
  have mono: "triple (pending c) m (\<lambda>_. pending c) (\<lambda>_. settled c)" if "keeps stays_pending m"
    for m :: "(txn_state, 'x) prog"
    by (rule triple_mono [OF pending_triple [OF that]]) (auto simp: pending_settled)
  have raise: "triple (pending c) (lift_result r) (\<lambda>_. pending c) (\<lambda>_. settled c)" for r :: "unit result"
    by (rule triple_lift) (auto simp: pending_settled)
  have ended: "triple (pending c) (on_locals (set_end x)) (\<lambda>_. settled c) (\<lambda>_. settled c)" for x
    by (rule triple_on_locals) (auto simp: pending_def settled_def)
  have roll: "triple (pending c)
      (bind (on_world (draw 1 100)) (\<lambda>roll.
         if roll \<le> commit_probability config
         then bind (on_world (run_sql ''COMMIT;'')) (\<lambda>res. seq (on_locals disarm)
           (seq (lift_result (maybeThrow res)) (seq (on_locals (set_end committed_end)) (on_world publishAll))))
         else seq (on_locals disarm) (seq (on_world (exec_sql ''ROLLBACK;''))
           (on_locals (set_end rolledBackIntentional_end)))))
      (\<lambda>_. settled c) (\<lambda>_. settled c)"
    by (rule triple_bind [OF mono [OF pending_conn(3)]],
        intro triple_if triple_bind [OF mono [OF pending_conn(2)]] triple_seq [OF mono [OF pending_counts(4)]]
          triple_seq [OF mono [OF pending_conn(1)]] triple_seq [OF raise] settled_commit ended)
  show ?thesis
    unfolding finish_transaction_def
  proof (rule triple_bind)
    show "triple (pending c) locals (\<lambda>l s. pending c s \<and> snd s = l) (\<lambda>_. settled c)"
      by (rule triple_locals) simp
    show "triple (\<lambda>s. pending c s \<and> snd s = l) (when_do (inTrx l)
       (bind (on_world (draw 1 100)) (\<lambda>roll.
         if roll \<le> commit_probability config
         then bind (on_world (run_sql ''COMMIT;'')) (\<lambda>res. seq (on_locals disarm)
           (seq (lift_result (maybeThrow res)) (seq (on_locals (set_end committed_end)) (on_world publishAll))))
         else seq (on_locals disarm) (seq (on_world (exec_sql ''ROLLBACK;''))
           (on_locals (set_end rolledBackIntentional_end))))))
      (\<lambda>_. settled c) (\<lambda>_. settled c)" for l
      by (rule triple_when, rule triple_mono [OF roll]) (simp_all add: pending_settled)
  qed
qed

lemma body_settled:
  assumes "buffering exec" and "td \<or> list_all (\<lambda>f. fac_type f \<noteq> At_ddl) pool"
  shows "triple (pending c) (transaction_body config td exec pool) (\<lambda>_. settled c) (\<lambda>_. settled c)"
proof -
  have step: "triple (pending c) (for_each [0..<n] (\<lambda>_. sub_step config td exec pool)) (\<lambda>_. pending c) (\<lambda>_. settled c)" for n
    by (rule triple_mono [OF triple_for_each [OF pending_sub_step [OF assms]]]) (auto simp: pending_settled)
  have "triple (pending c) (on_world (draw lo hi)) (\<lambda>_. pending c) (\<lambda>_. settled c)" for lo hi
    by (rule triple_mono [OF pending_triple [OF pending_conn(3)]]) (auto simp: pending_settled)
  then show ?thesis
    unfolding transaction_body_def
    by (rule triple_bind) (rule triple_seq [OF step finish_settled])
qed

lemma leave_catalog: "tables (registry (leave_transaction l w)) = tables (registry w)"
  by (simp add: leave_transaction_def guard_exit_def Let_def run_sql_def in_conn_def split: prod.splits)


text \<open>A transaction that drops the only table and is then rolled back on purpose.\<close>

definition drop_all :: "'b \<Rightarrow> action" where
  "drop_all b = DropTable_execute (default_ddl_config\<lparr>min_table_count := 0\<rparr>)"

lemma drop_all_buffers: "buffering drop_all"
  using ddl_buffers [of "default_ddl_config\<lparr>min_table_count := 0\<rparr>" DA_drop]
  by (simp add: buffering_def drop_all_def)


section \<open>A failed sub-action leaves no trace\<close>

definition log_of :: "world \<Rightarrow> table log_op list" where
  "log_of w = op_log (current_txn w)"

definition sub_oks :: "txn_state \<Rightarrow> counter" where
  "sub_oks s = subOk (out (snd s))"

definition log_at :: "table log_op list \<Rightarrow> counter \<Rightarrow> txn_state \<Rightarrow> bool" where
  "log_at ops k = (\<lambda>(w, l). quiet w \<and> buffer w \<noteq> None \<and> log_of w = ops \<and> subOk (out l) = k)"

definition log_beyond :: "table log_op list \<Rightarrow> counter \<Rightarrow> txn_state \<Rightarrow> bool" where
  "log_beyond ops k = (\<lambda>(w, l). quiet w \<and> buffer w \<noteq> None \<and> (\<exists>more. log_of w = ops @ more) \<and>
     savepoints l \<noteq> [] \<and> sp_mark (last (savepoints l)) = length ops \<and> subOk (out l) = k)"

definition counted :: "counter \<Rightarrow> txn_state \<Rightarrow> bool" where
  "counted k s \<longleftrightarrow> sub_oks s = k + 1"

lemma triple_disj: "triple P m N E \<Longrightarrow> triple Q m N E \<Longrightarrow> triple (\<lambda>s. P s \<or> Q s) m N E"
  by (auto simp: triple_def)

lemma counted_keeps: "keeps (same_rel sub_oks) m \<Longrightarrow> triple (counted k) m (\<lambda>_. counted k) (\<lambda>_. counted k)"
  unfolding counted_def by (rule keeps_triple)

lemma sub_oks_steps: "keeps (same_rel sub_oks) (on_world m)"
  "(\<And>l. subOk (out (f l)) = subOk (out l)) \<Longrightarrow> keeps (same_rel sub_oks) (on_locals f)"
  by (auto simp: keeps_def same_rel_def sub_oks_def on_world_def on_locals_def modify_def split: prod.splits)

lemma sub_oks_recover: "keeps (same_rel sub_oks) recover" "keeps (same_rel sub_oks) (random_rewind config)"
  unfolding recover_def random_rewind_def Let_def
  by (intro keeps_bind keeps_if keeps_when_do keeps_seq keeps_locals keeps_pure sub_oks_steps preord_same_rel,
      simp_all add: count_rewind_def count_fail_def)+

lemma op_log_replay: "op_log (replay_op g t op) = op_log t"
  using arg_cong [OF replay_op_log [where g = g and t = t and op = op and l = "op_log t"], of op_log] by simp

lemma replay_keeps_log:
  "triple (\<lambda>w. quiet w \<and> buffer w \<noteq> None \<and> log_of w = ops) (for_each os replay_step)
     (\<lambda>_ w. quiet w \<and> buffer w \<noteq> None \<and> log_of w = ops) (\<lambda>_ _. True)"
proof (rule triple_for_each)
  fix op
  show "triple (\<lambda>w. quiet w \<and> buffer w \<noteq> None \<and> log_of w = ops) (replay_step op)
     (\<lambda>_ w. quiet w \<and> buffer w \<noteq> None \<and> log_of w = ops) (\<lambda>_ _. True)"
    by (auto simp: triple_def replay_step_def seq_def bind_def interfere_quiet modify_def log_of_def
        current_txn_def op_log_replay)
qed

lemma rollbackTo_log:
  "triple (log_beyond ops k) (on_world (rollbackTo (length ops))) (\<lambda>_. log_at ops k) (\<lambda>_ _. True)"
proof (rule triple_on_world, rule tripleI)
  fix l w r w' assume "log_beyond ops k (w, l)" and run: "rollbackTo (length ops) w = (r, w')"
  then obtain more where w: "quiet w" "buffer w \<noteq> None" "log_of w = ops @ more" "subOk (out l) = k"
    by (auto simp: log_beyond_def)
  let ?w = "w\<lparr>buffer := Some \<lparr>op_log = ops, local_recs = [], erased_ids = {}\<rparr>\<rparr>"
  have "for_each ops replay_step ?w = (r, w')"
    using run w(3) by (simp add: rollbackTo_def bind_def gets_def seq_def modify_def log_of_def)
  moreover have pre: "quiet ?w \<and> buffer ?w \<noteq> None \<and> log_of ?w = ops"
    using w(1) by (simp add: log_of_def current_txn_def)
  ultimately have "r = Ok x \<Longrightarrow> quiet w' \<and> buffer w' \<noteq> None \<and> log_of w' = ops" for x
    using triple_ok [OF replay_keeps_log pre] by blast
  with w(4) show "(\<forall>x. r = Ok x \<longrightarrow> log_at ops k (w', l)) \<and> (\<forall>e. r = Throw e \<longrightarrow> True)"
    by (simp add: log_at_def)
qed

lemma same_on_world:
  assumes "\<And>w l r w'. P (w, l) \<Longrightarrow> m w = (r, w') \<Longrightarrow> P (w', l)"
  shows "triple P (on_world m) (\<lambda>_. P) (\<lambda>_. P)"
proof (rule triple_on_world, rule tripleI)
  fix l w r w' assume "P (w, l)" "m w = (r, w')"
  from assms [OF this] show "(\<forall>x. r = Ok x \<longrightarrow> P (w', l)) \<and> (\<forall>e. r = Throw e \<longrightarrow> P (w', l))" by simp
qed

lemma keeps_log_conn:
  "triple (log_beyond ops k) (on_world (exec_sql q)) (\<lambda>_. log_beyond ops k) (\<lambda>_. log_beyond ops k)"
  "triple (log_at ops k) (on_world (exec_sql q)) (\<lambda>_. log_at ops k) (\<lambda>_. log_at ops k)"
proof -
  have e: "quiet w \<Longrightarrow> exec_sql q w = (r, w') \<Longrightarrow> quiet w' \<and> buffer w' = buffer w \<and> log_of w' = log_of w" for w r w'
    using keepsD [OF keeps_sql(2), of q w r w'] by (simp add: quiet_same_def store_of_def log_of_def current_txn_def)
  have "log_beyond ops k (w', l) = log_beyond ops k (w, l)" "log_at ops k (w', l) = log_at ops k (w, l)"
    if "quiet w" "exec_sql q w = (r, w')" for w r w' l
    using e [OF that] that(1) by (simp_all add: log_beyond_def log_at_def)
  moreover have "log_beyond ops k (w, l) \<Longrightarrow> quiet w" "log_at ops k (w, l) \<Longrightarrow> quiet w" for w l
    by (simp_all add: log_beyond_def log_at_def)
  ultimately show "triple (log_beyond ops k) (on_world (exec_sql q)) (\<lambda>_. log_beyond ops k) (\<lambda>_. log_beyond ops k)"
    "triple (log_at ops k) (on_world (exec_sql q)) (\<lambda>_. log_at ops k) (\<lambda>_. log_at ops k)"
    by (intro same_on_world; blast)+
qed

lemma recover_log:
  "triple (log_beyond ops k) recover (\<lambda>_. log_at ops k) (\<lambda>_ _. True)"
proof -
  have locs: "triple (log_beyond ops k) locals (\<lambda>l s. log_beyond ops k s \<and> snd s = l) (\<lambda>_ _. True)"
    by (rule triple_locals) simp
  have body: "triple (log_beyond ops k)
      (seq (on_world (exec_sql q)) (seq (on_locals count_rewind)
       (seq (on_world (rollbackTo (length ops))) (on_locals count_fail)))) (\<lambda>_. log_at ops k) (\<lambda>_ _. True)" for q
  proof -
    have rewinds: "triple (log_beyond ops k) (on_locals count_rewind) (\<lambda>_. log_beyond ops k) (\<lambda>_ _. True)"
      by (rule triple_on_locals) (simp add: log_beyond_def count_rewind_def)
    have fails: "triple (log_at ops k) (on_locals count_fail) (\<lambda>_. log_at ops k) (\<lambda>_ _. True)"
      by (rule triple_on_locals) (simp add: log_at_def count_fail_def)
    show ?thesis
      by (rule triple_seq [OF triple_mono [OF keeps_log_conn(1)]], assumption, assumption, simp)
        (rule triple_seq [OF rewinds triple_seq [OF rollbackTo_log fails]])
  qed
  have "triple (\<lambda>s. log_beyond ops k s \<and> snd s = l)
     (if savepoints l = [] then undef
     else seq (on_world (exec_sql (rollback_to_sql (sp_name (last (savepoints l))))))
       (seq (on_locals count_rewind)
       (seq (on_world (rollbackTo (sp_mark (last (savepoints l)))))
       (on_locals count_fail)))) (\<lambda>_. log_at ops k) (\<lambda>_ _. True)" for l
  proof (cases "savepoints l \<noteq> [] \<and> sp_mark (last (savepoints l)) = length ops")
    case True
    then show ?thesis by (auto intro: triple_mono [OF body])
  qed (auto simp: triple_def log_beyond_def)
  with locs show ?thesis unfolding recover_def by (rule triple_bind)
qed

text \<open>
  C24: a failed sub-action leaves no trace. In savepoint mode, for a worker alone and any sub-action
  that only buffers: when the step returns and has not counted the sub-action as successful, the log
  of the transaction is exactly what it was before the step, whatever the sub-action had buffered
  before it failed.
\<close>

theorem failed_sub_action_leaves_no_trace:
  assumes "quiet w" and "buffer w \<noteq> None" and sub: "keeps buffers sub"
    and run: "savepoint_step config n sub (w, l) = (Ok (), (w', l'))"
    and same: "subOk (out l') = subOk (out l)"
  shows "op_log (current_txn w') = op_log (current_txn w)"
proof -
  let ?ops = "log_of w" and ?k = "subOk (out l)"
  let ?N = "\<lambda>_ s. log_at ?ops ?k s \<or> counted ?k s" and ?E = "\<lambda>(_ :: exn) (_ :: txn_state). True"
  have scoped: "keeps buffers (named_scope n sub)"
    by (rule named_scope_keeps [OF sub]) (auto simp: buffers_def current_txn_def)
  have act: "triple (log_beyond ?ops ?k) (on_world (named_scope n sub)) (\<lambda>_. log_beyond ?ops ?k)
      (\<lambda>_. log_beyond ?ops ?k)"
  proof (rule same_on_world)
    fix w l r w' assume "log_beyond ?ops ?k (w, l)" "named_scope n sub w = (r, w')"
    with keepsD [OF scoped this(2)] show "log_beyond ?ops ?k (w', l)"
      by (auto simp: log_beyond_def buffers_def log_of_def)
  qed
  have count: "triple (log_beyond ?ops ?k) (on_locals count_ok) (\<lambda>_. counted ?k) (\<lambda>_ s. log_beyond ?ops ?k s \<or> counted ?k s)"
    by (rule triple_on_locals) (simp add: log_beyond_def counted_def sub_oks_def count_ok_def)
  have go: "triple (log_beyond ?ops ?k) (seq (on_world (named_scope n sub)) (seq (on_locals count_ok) (random_rewind config)))
      ?N (\<lambda>_ s. log_beyond ?ops ?k s \<or> counted ?k s)"
    by (rule triple_seq [OF triple_mono [OF act]], assumption, assumption, simp,
        rule triple_seq [OF count], rule triple_mono [OF counted_keeps [OF sub_oks_recover(2)]]) auto
  have rec: "triple (\<lambda>s. log_beyond ?ops ?k s \<or> counted ?k s) recover ?N ?E"
    by (rule triple_disj, rule triple_mono [OF recover_log], auto
        intro: triple_mono [OF counted_keeps [OF sub_oks_recover(1)]])
  have gone: "triple P (seq (on_locals disarm) (throw e)) N ?E" for P e and N :: "unit \<Rightarrow> txn_state \<Rightarrow> bool"
    by (simp add: triple_def seq_def bind_def on_locals_def modify_def throw_def split: prod.splits)
  have handle: "triple (\<lambda>s. log_beyond ?ops ?k s \<or> counted ?k s) (on_failure
        (\<lambda>e. if serverGone e then seq (on_locals disarm) (throw e) else recover) recover e) ?N ?E" for e
    by (intro on_failure_triple triple_if gone rec) simp
  have push: "triple (log_at ?ops ?k) (modify (\<lambda>(w, l). (w, l\<lparr>savepoints := savepoints l @
      [\<lparr>sp_name = spCounter l, sp_mark = txn_mark (current_txn w)\<rparr>]\<rparr>))) (\<lambda>_. log_beyond ?ops ?k) ?E"
    by (auto simp: triple_def modify_def log_at_def log_beyond_def txn_mark_def log_of_def)
  have start: "triple (log_at ?ops ?k) (on_locals (\<lambda>l. l\<lparr>spCounter := spCounter l + 1\<rparr>)) (\<lambda>_. log_at ?ops ?k) ?E"
    by (rule triple_on_locals) (simp add: log_at_def)
  have "triple (log_at ?ops ?k) (savepoint_step config n sub) ?N ?E"
    unfolding savepoint_step_def
    by (rule triple_seq [OF start], rule triple_bind [OF triple_locals [where N = "\<lambda>_. log_at ?ops ?k"]], assumption,
        rule triple_seq [OF triple_mono [OF keeps_log_conn(2)]], assumption, assumption, simp,
        rule triple_seq [OF push], rule triple_catch [OF go handle])
  moreover have "log_at ?ops ?k (w, l)" using assms(1,2) by (simp add: log_at_def)
  ultimately have "log_at ?ops ?k (w', l') \<or> counted ?k (w', l')" using run by (rule triple_ok)
  with same show ?thesis by (auto simp: log_at_def counted_def sub_oks_def log_of_def)
qed

text \<open>A sub-action that drops a table and then fails.\<close>

definition drop_then_fail :: "(world, unit) prog" where
  "drop_then_fail = seq (drop_all () Buffered) (throw (Action_Exception ''failed'' ''after the drop''))"

lemma drop_then_fail_buffers: "keeps buffers drop_then_fail"
proof -
  have "buffering (drop_all :: unit \<Rightarrow> action)" by (rule drop_all_buffers)
  then show ?thesis
    unfolding drop_then_fail_def buffering_def by (intro keeps_seq keeps_pure preord_buffers) simp
qed

lemma failed_sub_action_leaves_no_trace_witness:
  "\<exists>w' l'. savepoint_step default_transaction_config ''drop'' drop_then_fail
      ((sample_world fl_postgres accept_all (\<lambda>n. 1) [sample_table 1 ''foo1''])\<lparr>buffer := Some empty_txn\<rparr>, fresh_locals)
      = (Ok (), (w', l')) \<and> op_log (current_txn w') = []"
proof -
  let ?w = "(sample_world fl_postgres accept_all (\<lambda>n. 1) [sample_table 1 ''foo1''])\<lparr>buffer := Some empty_txn\<rparr>"
  let ?run = "savepoint_step default_transaction_config ''drop'' drop_then_fail (?w, fresh_locals)"
  obtain w' l' where eq: "snd ?run = (w', l')" by fastforce
  have "fst ?run = Ok ()" by code_simp
  with eq have r: "?run = (Ok (), (w', l'))" by (metis prod.collapse)
  have "subOk (out (snd (snd ?run))) = subOk (out fresh_locals)" by code_simp
  with eq have k: "subOk (out l') = subOk (out fresh_locals)" by simp
  have "quiet ?w" by (simp add: quiet_def sample_world_def)
  then have "op_log (current_txn w') = op_log (current_txn ?w)"
    by (rule failed_sub_action_leaves_no_trace [OF _ _ drop_then_fail_buffers r k]) simp
  with r show ?thesis by (auto simp: current_txn_def empty_txn_def)
qed

section \<open>Counted twice\<close>

text \<open>
  A sub-action that succeeds and whose random rewind is then refused is counted as successful and as
  failed: \<open>++subOk\<close> stands before the rewind, inside the \<open>try\<close>, \<open>++subFail\<close> in the handler. Here
  the server refuses its fourth statement, the first ROLLBACK TO SAVEPOINT.
\<close>

definition refuse_fourth :: "sql_call list \<Rightarrow> sql_call \<Rightarrow> query_result" where
  "refuse_fourth h c = (if length h = 3 then refuse_all h c else accept_all h c)"

definition counted_twice_run :: "transaction_outcome list" where
  "counted_twice_run = outcomes (snd (TransactionAction_execute
     (default_transaction_config\<lparr>min_sub_actions := 1, max_sub_actions := 1, rollback_to_savepoint_probability := 100\<rparr>)
     select_one small_pool (sample_world fl_postgres refuse_fourth (\<lambda>n. 1) [])))"

lemma refused_rewind_counts_twice:
  "map (\<lambda>o'. (unat (subOk o'), unat (subFail o'), out_end o')) counted_twice_run = [(1, 1, committed_end)]"
  by code_simp

end
