(* ===== verification/Query_IR.thy ===== *)
theory Query_IR
  imports Sql_Dialect
begin

text \<open>
  The query generator's intermediate representation (core/include/querygen/ir.hpp), its configuration
  (core/include/querygen/config.hpp) and its rendering (core/src/querygen/render.cpp). \<open>box\<close> is a
  single-owner pointer that copies deeply: a value, optional where the code leaves it empty. A
  floating-point literal is the draw it was made of; \<open>real\<close> is \<open>fmt\<close>'s rendering of that number.
\<close>

section \<open>Configuration\<close>

record query_gen_config =
  max_joins :: nat
  max_expr_depth :: nat
  max_subquery_depth :: nat
  join_prob :: nat
  subquery_prob :: nat
  aggregate_prob :: nat
  cte_prob :: nat
  setop_prob :: nat
  window_prob :: nat
  order_by_prob :: nat
  limit_prob :: nat
  correlation_prob :: nat
  qg_dml_predicate_prob :: nat
  qg_dml_pk_select_prob :: nat

definition default_query_gen_config :: query_gen_config where
  "default_query_gen_config = \<lparr>max_joins = 3, max_expr_depth = 4, max_subquery_depth = 2, join_prob = 60,
     subquery_prob = 30, aggregate_prob = 25, cte_prob = 10, setop_prob = 10, window_prob = 10,
     order_by_prob = 30, limit_prob = 40, correlation_prob = 40, qg_dml_predicate_prob = 30,
     qg_dml_pk_select_prob = 30\<rparr>"

section \<open>Queries\<close>

datatype bin_op = Bin_eq | Bin_ne | Bin_lt | Bin_le | Bin_gt | Bin_ge | Bin_add | Bin_sub | Bin_mul | Bin_div
  | Bin_mod | Bin_and | Bin_or | Bin_like | Bin_concat

datatype un_op = Un_not | Un_isNull | Un_isNotNull | Un_neg

datatype func = Fn_lower | Fn_upper | Fn_length | Fn_abs | Fn_coalesce | Fn_nullif

datatype agg_func = Agg_count | Agg_sum | Agg_min | Agg_max | Agg_avg

datatype win_func = Win_rowNumber | Win_rank | Win_denseRank | Win_count | Win_sum | Win_min | Win_max | Win_avg

datatype set_op_kind = Set_unionAll | Set_unionDistinct | Set_intersect | Set_except

datatype join_kind = Join_inner | Join_left | Join_right | Join_cross

record column_ref =
  cr_alias :: string
  cr_column :: string

datatype literal_value = Lit_null | Lit_int int | Lit_double nat | Lit_string string | Lit_bool bool

record table_source =
  ts_table :: string
  ts_alias :: string

record lock_spec =
  ls_clause :: lock_clause
  ls_ofAlias :: string

datatype expr = Expr (expr_node: expr_node) (expr_type: column_type)
and expr_node =
    ColumnRef column_ref
  | Literal literal_value
  | UnaryExpr un_op expr
  | BinaryExpr bin_op expr expr
  | BetweenExpr expr expr expr
  | InListExpr expr "expr list" bool
  | InSubquery expr query_spec bool
  | ExistsSubquery query_spec bool
  | ScalarSubquery query_spec
  | FuncCall func "expr list"
  | CaseExpr "(expr \<times> expr) list" "expr option"
  | AggCall agg_func "expr option" bool
  | WindowCall win_func "expr option" "column_ref list" "column_ref list"
and join = Join (jn_kind: join_kind) (jn_source: table_source) (jn_condition: "expr option")
and query_spec = QuerySpec (qs_ctes: "(string \<times> query_spec) list") (qs_from: table_source)
    (qs_joins: "join list") (qs_distinct: bool) (qs_selectItems: "(expr \<times> string) list")
    (qs_where: "expr option") (qs_groupBy: "column_ref list") (qs_having: "expr option")
    (qs_orderBy: "(expr \<times> bool) list") (qs_limit: "nat option") (qs_offset: "nat option")
    (qs_lock: lock_spec) (qs_setOpRhs: "query_spec option") (qs_setOpKind: set_op_kind)

definition no_lock :: lock_spec where
  "no_lock = \<lparr>ls_clause = Lock_none, ls_ofAlias = []\<rparr>"

section \<open>Tokens\<close>

definition escapeStringLiteral :: "string \<Rightarrow> string" where
  "escapeStringLiteral s = [CHR 0x27] @ concat (map (\<lambda>c. if c = CHR 0x27 then [CHR 0x27, CHR 0x27] else [c]) s) @ [CHR 0x27]"

fun binOpToken :: "bin_op \<Rightarrow> string result" where
  "binOpToken Bin_eq = Ok ''=''"
| "binOpToken Bin_ne = Ok ''<>''"
| "binOpToken Bin_lt = Ok ''<''"
| "binOpToken Bin_le = Ok ''<=''"
| "binOpToken Bin_gt = Ok ''>''"
| "binOpToken Bin_ge = Ok ''>=''"
| "binOpToken Bin_add = Ok ''+''"
| "binOpToken Bin_sub = Ok ''-''"
| "binOpToken Bin_mul = Ok ''*''"
| "binOpToken Bin_div = Ok ''/''"
| "binOpToken Bin_mod = Ok ''%''"
| "binOpToken Bin_and = Ok ''AND''"
| "binOpToken Bin_or = Ok ''OR''"
| "binOpToken Bin_like = Ok ''LIKE''"
| "binOpToken Bin_concat = Throw (Logic_error ''querygen render: concat has no token'')"

fun funcName :: "func \<Rightarrow> string" where
  "funcName Fn_lower = ''LOWER''"
| "funcName Fn_upper = ''UPPER''"
| "funcName Fn_length = ''LENGTH''"
| "funcName Fn_abs = ''ABS''"
| "funcName Fn_coalesce = ''COALESCE''"
| "funcName Fn_nullif = ''NULLIF''"

fun aggName :: "agg_func \<Rightarrow> string" where
  "aggName Agg_count = ''COUNT''"
| "aggName Agg_sum = ''SUM''"
| "aggName Agg_min = ''MIN''"
| "aggName Agg_max = ''MAX''"
| "aggName Agg_avg = ''AVG''"

fun winName :: "win_func \<Rightarrow> string" where
  "winName Win_rowNumber = ''ROW_NUMBER''"
| "winName Win_rank = ''RANK''"
| "winName Win_denseRank = ''DENSE_RANK''"
| "winName Win_count = ''COUNT''"
| "winName Win_sum = ''SUM''"
| "winName Win_min = ''MIN''"
| "winName Win_max = ''MAX''"
| "winName Win_avg = ''AVG''"

fun joinToken :: "join_kind \<Rightarrow> string" where
  "joinToken Join_inner = ''JOIN''"
| "joinToken Join_left = ''LEFT JOIN''"
| "joinToken Join_right = ''RIGHT JOIN''"
| "joinToken Join_cross = ''CROSS JOIN''"

fun setOpToken :: "set_op_kind \<Rightarrow> string" where
  "setOpToken Set_unionAll = ''UNION ALL''"
| "setOpToken Set_unionDistinct = ''UNION''"
| "setOpToken Set_intersect = ''INTERSECT''"
| "setOpToken Set_except = ''EXCEPT''"

definition columnStr :: "column_ref \<Rightarrow> string" where
  "columnStr c = (if cr_alias c = [] then cr_column c else cr_alias c @ ''.'' @ cr_column c)"

fun literalStr :: "(nat \<Rightarrow> string) \<Rightarrow> literal_value \<Rightarrow> string" where
  "literalStr real Lit_null = ''NULL''"
| "literalStr real (Lit_string s) = escapeStringLiteral s"
| "literalStr real (Lit_bool b) = (if b then ''true'' else ''false'')"
| "literalStr real (Lit_int k) = fmt_int k"
| "literalStr real (Lit_double n) = real n"

definition overStr :: "column_ref list \<Rightarrow> column_ref list \<Rightarrow> string" where
  "overStr parts ords = join '' '' (
     (if parts = [] then [] else [''PARTITION BY '' @ join '', '' (map columnStr parts)]) @
     (if ords = [] then [] else [''ORDER BY '' @ join '', '' (map columnStr ords)]))"

section \<open>Rendering\<close>


definition renderList :: "('a \<Rightarrow> string result) \<Rightarrow> 'a list \<Rightarrow> string result" where
  "renderList f items = res_bind (res_map f items) (\<lambda>parts. Ok (join '', '' parts))"

lemma res_bind_cong [fundef_cong]:
  "r = r' \<Longrightarrow> (\<And>x. r' = Ok x \<Longrightarrow> f x = g x) \<Longrightarrow> res_bind r f = res_bind r' g"
  by (cases r') auto

lemma res_map_cong [fundef_cong]:
  "xs = ys \<Longrightarrow> (\<And>x. x \<in> set ys \<Longrightarrow> f x = g x) \<Longrightarrow> res_map f xs = res_map g ys"
  by (induction ys arbitrary: xs) auto

lemma renderList_cong [fundef_cong]:
  "xs = ys \<Longrightarrow> (\<And>x. x \<in> set ys \<Longrightarrow> f x = g x) \<Longrightarrow> renderList f xs = renderList g ys"
  unfolding renderList_def using res_map_cong [of xs ys f g] by simp

text \<open>Parts are smaller than the whole.\<close>

lemma part_sizes:
  "x \<in> set xs \<Longrightarrow> size x \<le> size_list size xs"
  "p \<in> set ps \<Longrightarrow> (a, b) = p \<Longrightarrow> size a \<le> size_list (size_prod size g) ps"
  "q \<in> set qs \<Longrightarrow> (c, d) = q \<Longrightarrow> size d \<le> size_list (size_prod h size) qs"
proof -
  show "x \<in> set xs \<Longrightarrow> size x \<le> size_list size xs" by (rule size_list_estimation') auto
  show "p \<in> set ps \<Longrightarrow> (a, b) = p \<Longrightarrow> size a \<le> size_list (size_prod size g) ps"
    by (rule size_list_estimation' [where f = "size_prod size g"]) auto
  show "q \<in> set qs \<Longrightarrow> (c, d) = q \<Longrightarrow> size d \<le> size_list (size_prod h size) qs"
    by (rule size_list_estimation' [where f = "size_prod h size"]) auto
qed

lemma query_part_sizes:
  "p \<in> set (qs_ctes q) \<Longrightarrow> (a, b) = p \<Longrightarrow> size b < size q"
  "o' \<in> set (qs_orderBy q) \<Longrightarrow> (e, c) = o' \<Longrightarrow> size e < size q"
  "qs_setOpRhs q = Some r \<Longrightarrow> size r < size q"
proof -
  show "p \<in> set (qs_ctes q) \<Longrightarrow> (a, b) = p \<Longrightarrow> size b < size q"
    using part_sizes(3) [of p "qs_ctes q" a b "\<lambda>_. 0"] by (cases q) simp
  show "o' \<in> set (qs_orderBy q) \<Longrightarrow> (e, c) = o' \<Longrightarrow> size e < size q"
    using part_sizes(2) [of o' "qs_orderBy q" e c "\<lambda>_. 0"] by (cases q) simp
  show "qs_setOpRhs q = Some r \<Longrightarrow> size r < size q" by (cases q) simp
qed

definition negation :: "bool \<Rightarrow> string" where
  "negation negated = (if negated then ''NOT '' else [])"

definition when_str :: "string \<Rightarrow> string \<Rightarrow> string" where
  "when_str w t = '' WHEN '' @ w @ '' THEN '' @ t"

function (sequential)
  exprStr :: "dialect \<Rightarrow> (nat \<Rightarrow> string) \<Rightarrow> expr \<Rightarrow> string result"
  and nodeStr :: "dialect \<Rightarrow> (nat \<Rightarrow> string) \<Rightarrow> expr_node \<Rightarrow> string result"
  and joinStr :: "dialect \<Rightarrow> (nat \<Rightarrow> string) \<Rightarrow> join \<Rightarrow> string result"
  and queryBody :: "dialect \<Rightarrow> (nat \<Rightarrow> string) \<Rightarrow> query_spec \<Rightarrow> string result"
  and queryStr :: "dialect \<Rightarrow> (nat \<Rightarrow> string) \<Rightarrow> query_spec \<Rightarrow> string result" where
  "exprStr d real (Expr n ty) = nodeStr d real n"
| "nodeStr d real (ColumnRef c) = Ok (columnStr c)"
| "nodeStr d real (Literal v) = Ok (literalStr real v)"
| "nodeStr d real (UnaryExpr op arg) = res_bind (exprStr d real arg) (\<lambda>a. Ok (case op of
       Un_not \<Rightarrow> ''(NOT '' @ a @ '')''
     | Un_isNull \<Rightarrow> ''('' @ a @ '' IS NULL)''
     | Un_isNotNull \<Rightarrow> ''('' @ a @ '' IS NOT NULL)''
     | Un_neg \<Rightarrow> ''(-'' @ a @ '')''))"
| "nodeStr d real (BinaryExpr op lhs rhs) = res_bind (exprStr d real lhs) (\<lambda>l. res_bind (exprStr d real rhs) (\<lambda>r.
     if op = Bin_concat then Ok (concatExpr d l r)
     else res_bind (binOpToken op) (\<lambda>tok. Ok (''('' @ l @ '' '' @ tok @ '' '' @ r @ '')''))))"
| "nodeStr d real (BetweenExpr arg lo hi) = res_bind (exprStr d real arg) (\<lambda>a. res_bind (exprStr d real lo) (\<lambda>l.
     res_bind (exprStr d real hi) (\<lambda>h. Ok (''('' @ a @ '' BETWEEN '' @ l @ '' AND '' @ h @ '')''))))"
| "nodeStr d real (InListExpr arg items negated) = res_bind (renderList (exprStr d real) items) (\<lambda>is.
     res_bind (exprStr d real arg) (\<lambda>a. Ok (''('' @ a @ '' '' @ negation negated @ ''IN ('' @ is @ ''))'')))"
| "nodeStr d real (InSubquery arg sub negated) = res_bind (exprStr d real arg) (\<lambda>a. res_bind (queryStr d real sub) (\<lambda>q.
     Ok (''('' @ a @ '' '' @ negation negated @ ''IN ('' @ q @ ''))'')))"
| "nodeStr d real (ExistsSubquery sub negated) = res_bind (queryStr d real sub) (\<lambda>q.
     Ok (''('' @ negation negated @ ''EXISTS ('' @ q @ ''))''))"
| "nodeStr d real (ScalarSubquery sub) = res_bind (queryStr d real sub) (\<lambda>q. Ok (''('' @ q @ '')''))"
| "nodeStr d real (FuncCall fn args) = res_bind (renderList (exprStr d real) args) (\<lambda>as.
     Ok (funcName fn @ ''('' @ as @ '')''))"
| "nodeStr d real (CaseExpr whens els) = res_bind (res_map (\<lambda>(w, t). res_bind (exprStr d real w) (\<lambda>ws.
       res_bind (exprStr d real t) (\<lambda>ts. Ok (when_str ws ts)))) whens) (\<lambda>ws.
     res_bind (case els of None \<Rightarrow> Ok [] | Some e \<Rightarrow> res_bind (exprStr d real e) (\<lambda>s. Ok ('' ELSE '' @ s))) (\<lambda>es.
     Ok (''CASE'' @ concat ws @ es @ '' END'')))"
| "nodeStr d real (AggCall fn arg is_distinct) = (case arg of None \<Rightarrow> Ok ''COUNT(*)''
     | Some e \<Rightarrow> res_bind (exprStr d real e) (\<lambda>a.
         Ok (aggName fn @ ''('' @ (if is_distinct then ''DISTINCT '' else []) @ a @ '')'')))"
| "nodeStr d real (WindowCall fn arg parts ords) =
     res_bind (if fn = Win_rowNumber \<or> fn = Win_rank \<or> fn = Win_denseRank then Ok []
       else (case arg of None \<Rightarrow> Ok ''*'' | Some e \<Rightarrow> exprStr d real e)) (\<lambda>a.
     Ok (winName fn @ ''('' @ a @ '') OVER ('' @ overStr parts ords @ '')''))"
| "joinStr d real (Join kind source cond) =
     res_bind (if kind \<noteq> Join_cross then (case cond of None \<Rightarrow> Undefined
         | Some e \<Rightarrow> res_bind (exprStr d real e) (\<lambda>c. Ok ('' ON '' @ c))) else Ok []) (\<lambda>on.
     Ok ('' '' @ joinToken kind @ '' '' @ ts_table source @ '' '' @ ts_alias source @ on))"
| "queryBody d real (QuerySpec cs from js is_distinct items wher groups having ords lim off lock rhs kind) =
     res_bind (renderList (\<lambda>(e, a). res_bind (exprStr d real e) (\<lambda>s. Ok (s @ '' AS '' @ a))) items) (\<lambda>is.
     res_bind (res_map (joinStr d real) js) (\<lambda>jstrs.
     res_bind (case wher of None \<Rightarrow> Ok [] | Some e \<Rightarrow> res_bind (exprStr d real e) (\<lambda>s. Ok ('' WHERE '' @ s))) (\<lambda>ws.
     res_bind (case having of None \<Rightarrow> Ok [] | Some e \<Rightarrow> res_bind (exprStr d real e) (\<lambda>s. Ok ('' HAVING '' @ s))) (\<lambda>hs.
     Ok ((if is_distinct then ''SELECT DISTINCT '' else ''SELECT '') @ is @
       '' FROM '' @ ts_table from @ '' '' @ ts_alias from @ concat jstrs @ ws @
       (if groups = [] then [] else '' GROUP BY '' @ join '', '' (map columnStr groups)) @ hs)))))"
| "queryStr d real q =
     res_bind (if qs_ctes q = [] then Ok [] else res_bind (renderList (\<lambda>(name, body).
         res_bind (queryStr d real body) (\<lambda>s. Ok (name @ '' AS ('' @ s @ '')''))) (qs_ctes q)) (\<lambda>s.
         Ok (''WITH '' @ s @ '' ''))) (\<lambda>withs.
     res_bind (case qs_setOpRhs q of
         Some rhs \<Rightarrow> res_bind (queryBody d real q) (\<lambda>b. res_bind (queryStr d real rhs) (\<lambda>r.
           Ok (''('' @ b @ '') '' @ setOpToken (qs_setOpKind q) @ '' ('' @ r @ '')'')))
       | None \<Rightarrow> queryBody d real q) (\<lambda>body.
     res_bind (if qs_orderBy q = [] then Ok [] else res_bind (renderList (\<lambda>(e, desc).
         res_bind (exprStr d real e) (\<lambda>s. Ok (if desc then s @ '' DESC'' else s))) (qs_orderBy q)) (\<lambda>s.
         Ok ('' ORDER BY '' @ s))) (\<lambda>ords.
     Ok (withs @ body @ ords @
       (case qs_limit q of None \<Rightarrow> [] | Some n \<Rightarrow> '' LIMIT '' @ fmt_nat n) @
       (case qs_offset q of None \<Rightarrow> [] | Some n \<Rightarrow> '' OFFSET '' @ fmt_nat n) @
       (if ls_ofAlias (qs_lock q) = [] then lockClauseSuffix (ls_clause (qs_lock q))
        else lockOfSuffix (ls_clause (qs_lock q)) (ls_ofAlias (qs_lock q)))))))"
  by pat_completeness auto

termination
  apply (relation "measure (\<lambda>x. case x of
       Inl (Inl (d, real, e)) \<Rightarrow> 2 * size (e :: expr)
     | Inl (Inr (d, real, n)) \<Rightarrow> 2 * size (n :: expr_node)
     | Inr (Inl (d, real, j)) \<Rightarrow> 2 * size (j :: join)
     | Inr (Inr (Inl (d, real, q))) \<Rightarrow> 2 * size (q :: query_spec)
     | Inr (Inr (Inr (d, real, q))) \<Rightarrow> 2 * size q + 1)")
  apply simp_all
  apply (drule part_sizes(1), simp)
  apply (drule part_sizes(1), simp)
  apply (drule (1) part_sizes(2) [where g = size], simp)
  apply (drule (1) part_sizes(3) [where h = size], simp)
  apply (drule (1) part_sizes(2) [where g = "\<lambda>_. 0"], simp)
  apply (drule part_sizes(1), simp)
  apply (erule (1) query_part_sizes(1))
  apply (erule query_part_sizes(3))
  apply (drule (1) query_part_sizes(2), simp)
  done

declare queryStr.simps [simp del]

end
