(* ===== verification/Query_Generator.thy ===== *)
theory Query_Generator
  imports Query_IR
begin

text \<open>
  \<open>querygen::Generator\<close> (core/include/querygen/generator.hpp, core/src/querygen/generator.cpp): queries
  over the tables of a snapshot, drawn from the random source. The members the generator reads are
  \<open>gen_params\<close>, the ones it changes are \<open>gen_state\<close>; \<open>aliasCounter_\<close> numbers aliases that are all kept
  in memory and is not wrapped. A braced initializer evaluates its clauses from left to right. Indexing a vector
  out of range is undefined.
\<close>

section \<open>Families\<close>

datatype family = Fam_numeric | Fam_string | Fam_boolean | Fam_binary

fun familyOf :: "column_type \<Rightarrow> family" where
  "familyOf CT_INT = Fam_numeric"
| "familyOf CT_REAL = Fam_numeric"
| "familyOf CT_CHAR = Fam_string"
| "familyOf CT_VARCHAR = Fam_string"
| "familyOf CT_TEXT = Fam_string"
| "familyOf CT_BOOL = Fam_boolean"
| "familyOf CT_BYTEA = Fam_binary"

fun representative :: "family \<Rightarrow> column_type" where
  "representative Fam_numeric = CT_INT"
| "representative Fam_string = CT_VARCHAR"
| "representative Fam_boolean = CT_BOOL"
| "representative Fam_binary = CT_BYTEA"

lemma familyOf_representative [simp]: "familyOf (representative f) = f"
  by (cases f) simp_all

section \<open>State\<close>

datatype purpose = Purpose_standalone | Purpose_pkSelect | Purpose_predicate

record gen_params =
  gp_cfg :: query_gen_config
  gp_tables :: "table list"
  gp_server :: server_info

record gen_state =
  gen_rng :: rng
  aliasCounter :: nat

type_synonym 'a gen = "(gen_state, 'a) prog"

text \<open>\<open>ScopeEntry\<close>: an alias and its table.\<close>

type_synonym scope = "(string \<times> table) list"

definition in_gen_rng :: "(rng, 'a) prog \<Rightarrow> 'a gen" where
  "in_gen_rng m = (\<lambda>g. let (r, s) = m (gen_rng g) in (r, g\<lparr>gen_rng := s\<rparr>))"

definition gdraw :: "nat \<Rightarrow> nat \<Rightarrow> nat gen" where
  "gdraw lo hi = in_gen_rng (random_number lo hi)"

definition gbool :: "bool gen" where
  "gbool = in_gen_rng random_bool"

text \<open>
  \<open>xs[rand_.random_number<std::size_t>(0, xs.size() - 1)]\<close>: for an empty vector the bound wraps around and
  any index is out of range.
\<close>

definition gpick :: "'a list \<Rightarrow> 'a gen" where
  "gpick xs = (if xs = [] then undef else bind (gdraw 0 (length xs - 1)) (\<lambda>i. ret (xs ! i)))"

definition roll :: "nat \<Rightarrow> bool gen" where
  "roll percent = bind (gdraw 1 100) (\<lambda>n. ret (n \<le> percent))"

text \<open>A short-circuit \<open>b && roll(percent)\<close>.\<close>

definition and_roll :: "bool \<Rightarrow> nat \<Rightarrow> bool gen" where
  "and_roll b percent = (if b then roll percent else ret False)"

definition next_alias :: "string \<Rightarrow> string gen" where
  "next_alias prefix = (\<lambda>g. (Ok (prefix @ fmt_nat (aliasCounter g)), g\<lparr>aliasCounter := Suc (aliasCounter g)\<rparr>))"

definition freshAlias :: "string gen" where
  "freshAlias = next_alias ''u''"

section \<open>Columns and literals\<close>

definition colExpr :: "string \<times> column \<Rightarrow> expr" where
  "colExpr c = Expr (ColumnRef \<lparr>cr_alias = fst c, cr_column = col_name (snd c)\<rparr>) (col_type (snd c))"

definition pkColumn :: "table \<Rightarrow> column option" where
  "pkColumn t = (case filter primary_key (columns t) of c # cs \<Rightarrow> Some c
     | [] \<Rightarrow> (case columns t of [] \<Rightarrow> None | c # cs \<Rightarrow> Some c))"

text \<open>The columns of a scope with their aliases, in order; those of some kind.\<close>

definition scope_columns :: "scope \<Rightarrow> (string \<times> column) list" where
  "scope_columns sc = concat (map (\<lambda>(a, t). map (Pair a) (columns t)) sc)"

definition of_families :: "family set \<Rightarrow> scope \<Rightarrow> (string \<times> column) list" where
  "of_families fs sc = filter (\<lambda>(a, c). familyOf (col_type c) \<in> fs) (scope_columns sc)"

definition zero_literal :: expr where
  "zero_literal = Expr (Literal (Lit_int 0)) CT_INT"

definition wrapNullifZero :: "expr \<Rightarrow> expr" where
  "wrapNullifZero rhs = Expr (FuncCall Fn_nullif [rhs, zero_literal]) (expr_type rhs)"

definition pickColumn :: "scope \<Rightarrow> column_type \<Rightarrow> expr option gen" where
  "pickColumn sc ty = (let cands = of_families {familyOf ty} sc in
     if cands = [] then ret None else bind (gpick cands) (\<lambda>c. ret (Some (colExpr c))))"

definition genLiteral :: "column_type \<Rightarrow> nat \<Rightarrow> expr gen" where
  "genLiteral ty len = bind (case ty of
       CT_INT \<Rightarrow> bind (gdraw 1 1000000) (\<lambda>n. ret (Lit_int (int n)))
     | CT_REAL \<Rightarrow> bind (gdraw 0 size_max) (\<lambda>n. ret (Lit_double n))
     | CT_BOOL \<Rightarrow> bind (gdraw 0 1) (\<lambda>n. ret (Lit_bool (n = 1)))
     | _ \<Rightarrow> bind (in_gen_rng (random_string 0 (if len = 0 then 16 else min len 16))) (\<lambda>s. ret (Lit_string s)))
     (\<lambda>v. ret (Expr (Literal v) ty))"

definition genLeaf :: "column_type \<Rightarrow> scope \<Rightarrow> expr gen" where
  "genLeaf ty sc = bind (roll 70) (\<lambda>b.
     if b then bind (pickColumn sc ty) (\<lambda>c. case c of Some e \<Rightarrow> ret e | None \<Rightarrow> genLiteral ty 0)
     else genLiteral ty 0)"

text \<open>\<open>intLeaf\<close>: pg's \<open>%\<close> takes integers only.\<close>

definition intLeaf :: "scope \<Rightarrow> expr gen" where
  "intLeaf sc = bind (roll 70) (\<lambda>b.
     let ints = filter (\<lambda>(a, c). col_type c = CT_INT) (scope_columns sc) in
     if b \<and> ints \<noteq> [] then bind (gpick ints) (\<lambda>c. ret (colExpr c)) else genLiteral CT_INT 0)"

definition binary :: "bin_op \<Rightarrow> column_type \<Rightarrow> expr \<Rightarrow> expr \<Rightarrow> expr" where
  "binary op ty l r = Expr (BinaryExpr op l r) ty"

section \<open>Choices\<close>

datatype scalar_pick = Sp_leaf | Sp_literal | Sp_arith | Sp_mod | Sp_absFn | Sp_lengthFn | Sp_coalesceFn
  | Sp_nullifFn | Sp_caseFn | Sp_lowerUpper | Sp_concat

definition scalar_choices :: "family \<Rightarrow> scalar_pick list" where
  "scalar_choices fam = [Sp_leaf, Sp_leaf, Sp_literal, Sp_coalesceFn, Sp_nullifFn, Sp_caseFn] @
     (if fam = Fam_numeric then [Sp_arith, Sp_arith, Sp_mod, Sp_absFn, Sp_lengthFn] else []) @
     (if fam = Fam_string then [Sp_lowerUpper, Sp_concat] else [])"

datatype bool_pick = Bp_cmp | Bp_andOr | Bp_notFn | Bp_isNull | Bp_between | Bp_inList | Bp_likeFn
  | Bp_subquery | Bp_leaf

text \<open>The families with a column in scope, in the order of their first column.\<close>

definition scope_families :: "scope \<Rightarrow> family list" where
  "scope_families sc = rev (remdups (rev (map (\<lambda>(a, c). familyOf (col_type c)) (scope_columns sc))))"

definition bool_choices :: "family list \<Rightarrow> nat \<Rightarrow> bool_pick list" where
  "bool_choices fams depth = [Bp_cmp, Bp_cmp, Bp_cmp, Bp_cmp, Bp_isNull, Bp_inList, Bp_leaf] @
     (if depth > 0 then [Bp_andOr, Bp_andOr, Bp_andOr, Bp_notFn] else []) @
     (if Fam_numeric \<in> set fams then [Bp_between] else []) @
     (if Fam_string \<in> set fams then [Bp_likeFn] else [])"

text \<open>\<open>families.empty() ? Family::numeric : families[...]\<close>\<close>

definition pick_family :: "family list \<Rightarrow> family gen" where
  "pick_family fams = (if fams = [] then ret Fam_numeric else gpick fams)"

section \<open>Conditions without subexpressions\<close>

definition gen_isNull :: "scope \<Rightarrow> family list \<Rightarrow> expr gen" where
  "gen_isNull sc fams =
     bind (pickColumn sc (representative (case fams of [] \<Rightarrow> Fam_numeric | f # fs \<Rightarrow> f))) (\<lambda>arg.
     bind (if length fams > 1
       then bind (gpick fams) (\<lambda>fam. bind (pickColumn sc (representative fam)) (\<lambda>c.
         ret (case c of Some e \<Rightarrow> Some e | None \<Rightarrow> arg)))
       else ret arg) (\<lambda>arg. case arg of
       None \<Rightarrow> genLeaf CT_BOOL sc
     | Some e \<Rightarrow> bind gbool (\<lambda>b. ret (Expr (UnaryExpr (if b then Un_isNull else Un_isNotNull) e) CT_BOOL))))"

definition gen_between :: "scope \<Rightarrow> expr gen" where
  "gen_between sc = bind (pickColumn sc CT_INT) (\<lambda>col. case col of
       None \<Rightarrow> genLeaf CT_BOOL sc
     | Some e \<Rightarrow> bind (genLiteral (expr_type e) 0) (\<lambda>lo. bind (genLiteral (expr_type e) 0) (\<lambda>hi.
         ret (Expr (BetweenExpr e lo hi) CT_BOOL))))"

definition gen_inList :: "scope \<Rightarrow> family list \<Rightarrow> expr gen" where
  "gen_inList sc fams = bind (pick_family fams) (\<lambda>fam.
     bind (pickColumn sc (representative fam)) (\<lambda>col. case col of
       None \<Rightarrow> genLeaf CT_BOOL sc
     | Some e \<Rightarrow> bind gbool (\<lambda>negated. bind (gdraw 1 5) (\<lambda>count.
         bind (map_prog (\<lambda>_. genLiteral (expr_type e) 0) [0..<count]) (\<lambda>items.
         ret (Expr (InListExpr e items negated) CT_BOOL))))))"

definition like_alphabet :: string where
  "like_alphabet = ''abcdefghijklmnopqrstuvwxyz0123456789%_''"

definition gen_like :: "scope \<Rightarrow> expr gen" where
  "gen_like sc = bind (pickColumn sc CT_VARCHAR) (\<lambda>col. case col of
       None \<Rightarrow> genLeaf CT_BOOL sc
     | Some e \<Rightarrow> bind (gdraw 1 8) (\<lambda>len. bind (map_prog (\<lambda>_. gpick like_alphabet) [0..<len]) (\<lambda>pattern.
         ret (binary Bin_like CT_BOOL e (Expr (Literal (Lit_string pattern)) CT_VARCHAR)))))"

section \<open>Aggregates and windows\<close>

definition genAggCall :: "scope \<Rightarrow> expr gen" where
  "genAggCall sc =
     (let numeric = of_families {Fam_numeric} sc; comparable = of_families {Fam_numeric, Fam_string} sc in
      bind (gpick ([Agg_count] @ (if numeric \<noteq> [] then [Agg_sum, Agg_avg] else []) @
        (if comparable \<noteq> [] then [Agg_min, Agg_max] else []))) (\<lambda>fn.
      bind (if fn = Agg_count then (if comparable = [] then ret True else roll 50) else ret False) (\<lambda>star.
      if star then ret (Expr (AggCall Agg_count None False) CT_INT)
      else bind (gpick (if fn = Agg_sum \<or> fn = Agg_avg then numeric else comparable)) (\<lambda>c.
        bind (roll 25) (\<lambda>is_distinct.
        ret (Expr (AggCall fn (Some (colExpr c)) is_distinct)
          (case fn of Agg_count \<Rightarrow> CT_INT | Agg_avg \<Rightarrow> CT_REAL | _ \<Rightarrow> col_type (snd c))))))))"

definition window_arg :: "scope \<Rightarrow> win_func \<Rightarrow> (expr option \<times> column_type) gen" where
  "window_arg sc fn =
     (if fn = Win_count then
        bind (and_roll (scope_columns sc \<noteq> []) 50) (\<lambda>b.
          if b then bind (gpick (scope_columns sc)) (\<lambda>c. ret (Some (colExpr c), CT_INT)) else ret (None, CT_INT))
      else if fn = Win_sum \<or> fn = Win_avg then
        bind (gpick (of_families {Fam_numeric} sc)) (\<lambda>c.
          ret (Some (colExpr c), if fn = Win_avg then CT_REAL else col_type (snd c)))
      else if fn = Win_min \<or> fn = Win_max then
        bind (gpick (of_families {Fam_numeric, Fam_string} sc)) (\<lambda>c. ret (Some (colExpr c), col_type (snd c)))
      else ret (None, CT_INT))"

definition maybe_ref :: "scope \<Rightarrow> nat \<Rightarrow> column_ref list gen" where
  "maybe_ref sc percent = bind (and_roll (scope_columns sc \<noteq> []) percent) (\<lambda>b.
     if b then bind (gpick (scope_columns sc)) (\<lambda>(a, c). ret [\<lparr>cr_alias = a, cr_column = col_name c\<rparr>]) else ret [])"

definition genWindowCall :: "scope \<Rightarrow> expr gen" where
  "genWindowCall sc =
     bind (gpick ([Win_rowNumber, Win_rank, Win_denseRank, Win_count] @
        (if of_families {Fam_numeric} sc \<noteq> [] then [Win_sum, Win_avg] else []) @
        (if of_families {Fam_numeric, Fam_string} sc \<noteq> [] then [Win_min, Win_max] else []))) (\<lambda>fn.
     bind (window_arg sc fn) (\<lambda>(arg, ty).
     bind (maybe_ref sc 50) (\<lambda>parts. bind (maybe_ref sc 70) (\<lambda>ords.
     ret (Expr (WindowCall fn arg parts ords) ty)))))"

section \<open>Joins\<close>

record edge =
  ed_tbl :: table
  ed_new :: column
  ed_base :: column

text \<open>Foreign keys of the base table to its parents' keys, and of the candidates to the base table's key.\<close>

definition parent_edges :: "table list \<Rightarrow> table \<Rightarrow> edge list" where
  "parent_edges cands base = List.map_filter (\<lambda>c.
     if foreign_key_references c = 0 then None
     else (case List.find (\<lambda>t. obj_id t = foreign_key_references c) cands of None \<Rightarrow> None
       | Some p \<Rightarrow> (case pkColumn p of None \<Rightarrow> None
         | Some pk \<Rightarrow> Some \<lparr>ed_tbl = p, ed_new = pk, ed_base = c\<rparr>))) (columns base)"

definition child_edges :: "table list \<Rightarrow> table \<Rightarrow> edge list" where
  "child_edges cands base = concat (map (\<lambda>t. List.map_filter (\<lambda>c.
     if foreign_key_references c \<noteq> 0 \<and> foreign_key_references c = obj_id base
     then (case pkColumn base of None \<Rightarrow> None
       | Some pk \<Rightarrow> Some \<lparr>ed_tbl = t, ed_new = c, ed_base = pk\<rparr>) else None) (columns t)) cands)"

text \<open>Pairs of columns of the same numeric or string family.\<close>

definition column_pairs :: "table \<Rightarrow> table \<Rightarrow> (column \<times> column) list" where
  "column_pairs base joined = concat (map (\<lambda>bc.
     if familyOf (col_type bc) = Fam_numeric \<or> familyOf (col_type bc) = Fam_string
     then map (Pair bc) (filter (\<lambda>nc. familyOf (col_type nc) = familyOf (col_type bc)) (columns joined))
     else []) (columns base))"

definition equate :: "string \<Rightarrow> column \<Rightarrow> string \<Rightarrow> column \<Rightarrow> expr" where
  "equate alias new base_alias base = binary Bin_eq CT_BOOL (colExpr (alias, new)) (colExpr (base_alias, base))"

text \<open>The table to join, and the condition if there is one.\<close>

definition choose_join :: "table list \<Rightarrow> string \<Rightarrow> string \<times> table \<Rightarrow> bool \<Rightarrow> (table \<times> expr option) gen" where
  "choose_join cands alias base haveCross =
     (let edges = parent_edges cands (snd base) @ child_edges cands (snd base) in
      bind (and_roll (edges \<noteq> []) 70) (\<lambda>by_key.
      if by_key then bind (gpick edges) (\<lambda>e. ret (ed_tbl e, Some (equate alias (ed_new e) (fst base) (ed_base e))))
      else bind (and_roll (\<not> haveCross) 10) (\<lambda>cross.
      if cross then bind (gpick cands) (\<lambda>t. ret (t, None))
      else bind (gpick cands) (\<lambda>t.
        let pairs = column_pairs (snd base) t in
        if pairs = [] then ret (t, None)
        else bind (gpick pairs) (\<lambda>(bc, nc). ret (t, Some (equate alias nc (fst base) bc)))))))"

definition choose_kind :: "purpose \<Rightarrow> expr option \<Rightarrow> join_kind gen" where
  "choose_kind p cond = (case cond of None \<Rightarrow> ret Join_cross
     | Some e \<Rightarrow> bind (gdraw 1 100) (\<lambda>r. ret (if r \<le> 50 then Join_inner else if r \<le> 85 then Join_left
         else if p = Purpose_pkSelect then Join_left else Join_right)))"

text \<open>The loop; its first argument is how many joins may still be added.\<close>

fun gen_joins :: "nat \<Rightarrow> query_gen_config \<Rightarrow> purpose \<Rightarrow> table list \<Rightarrow> join list \<Rightarrow> scope \<Rightarrow> bool \<Rightarrow> (join list \<times> scope) gen" where
  "gen_joins 0 cfg p cands js sc haveCross = ret (js, sc)"
| "gen_joins (Suc n) cfg p cands js sc haveCross = bind (roll (join_prob cfg)) (\<lambda>more.
     if \<not> more then ret (js, sc)
     else bind (gpick sc) (\<lambda>base. bind freshAlias (\<lambda>alias.
       bind (choose_join cands alias base haveCross) (\<lambda>(joined, cond).
       if cond = None \<and> haveCross then ret (js, sc)
       else bind (choose_kind p cond) (\<lambda>kind.
         gen_joins n cfg p cands (js @ [Join kind \<lparr>ts_table = obj_name joined, ts_alias = alias\<rparr> cond])
           (sc @ [(alias, joined)]) (haveCross \<or> cond = None))))))"

section \<open>The parts of a query\<close>

definition ref_of :: "string \<times> column \<Rightarrow> column_ref" where
  "ref_of c = \<lparr>cr_alias = fst c, cr_column = col_name (snd c)\<rparr>"

fun gen_groups :: "nat \<Rightarrow> scope \<Rightarrow> (string \<times> column) list \<Rightarrow> (string \<times> column) list gen" where
  "gen_groups 0 sc gs = ret gs"
| "gen_groups (Suc n) sc gs = bind (gpick (scope_columns sc)) (\<lambda>c.
     gen_groups n sc (if ref_of c \<in> ref_of ` set gs then gs else gs @ [c]))"

text \<open>The select items without their names, the GROUP BY columns and the HAVING condition.\<close>

definition gen_aggregates :: "scope \<Rightarrow> (expr list \<times> column_ref list \<times> expr option) gen" where
  "gen_aggregates sc =
     bind (gdraw 0 2) (\<lambda>nGroup. bind (gen_groups nGroup sc []) (\<lambda>groups.
     bind (gdraw 1 2) (\<lambda>nAggs. bind (map_prog (\<lambda>_. genAggCall sc) [0..<nAggs]) (\<lambda>aggs.
     bind (roll 50) (\<lambda>b.
     bind (if b then bind (genAggCall sc) (\<lambda>agg.
             bind (genLiteral (representative (familyOf (expr_type agg))) 0) (\<lambda>lit.
             bind gbool (\<lambda>gt. ret (Some (binary (if gt then Bin_gt else Bin_le) CT_BOOL agg lit)))))
           else ret None) (\<lambda>having.
     ret (map colExpr groups @ aggs, map ref_of groups, having)))))))"

definition is_column :: "expr \<Rightarrow> bool" where
  "is_column e = (case expr_node e of ColumnRef c \<Rightarrow> True | _ \<Rightarrow> False)"

definition gen_order :: "expr list \<Rightarrow> (expr \<times> bool) list gen" where
  "gen_order items = (let refs = filter is_column items in
     if refs = [] then ret []
     else bind (gdraw 1 (min 2 (length refs))) (\<lambda>n.
       map_prog (\<lambda>_. bind (gpick refs) (\<lambda>e. bind gbool (\<lambda>desc. ret (e, desc)))) [0..<n]))"

definition number_items :: "expr list \<Rightarrow> (expr \<times> string) list" where
  "number_items es = map (\<lambda>i. (es ! i, ''c'' @ fmt_nat i)) [0..<length es]"

text \<open>\<open>trimToSingleItem\<close>: the item kept, no ORDER BY, LIMIT or OFFSET.\<close>

fun trimToSingleItem :: "query_spec \<Rightarrow> nat \<Rightarrow> query_spec result" where
  "trimToSingleItem (QuerySpec cs from js dist items wher groups having ords lim off lock rhs kind) keep =
     (if keep < length items
      then Ok (QuerySpec cs from js dist [(fst (items ! keep), ''c0'')] wher groups having [] None None lock rhs kind)
      else Undefined)"

fun set_limit :: "nat \<Rightarrow> query_spec \<Rightarrow> query_spec" where
  "set_limit n (QuerySpec cs from js dist items wher groups having ords lim off lock rhs kind) =
     QuerySpec cs from js dist items wher groups having ords (Some n) off lock rhs kind"

text \<open>The table a CTE adds: its columns are the select items of the body.\<close>

definition synth_table :: "string \<Rightarrow> query_spec \<Rightarrow> table" where
  "synth_table name body = default_table\<lparr>obj_name := name, columns := map (\<lambda>(e, a).
     default_column\<lparr>col_name := a, col_type := expr_type e\<rparr>) (qs_selectItems body)\<rparr>"

section \<open>Set operations\<close>

text \<open>The right side in the shape of the left one: same number of items, same family per position.\<close>

fun shape_items :: "expr list \<Rightarrow> expr list \<Rightarrow> expr list gen" where
  "shape_items [] rs = ret []"
| "shape_items (l # ls) rs =
     bind (case rs of [] \<Rightarrow> genLiteral (representative (familyOf (expr_type l))) 0
       | r # rs' \<Rightarrow> if familyOf (expr_type r) \<noteq> familyOf (expr_type l)
           then genLiteral (representative (familyOf (expr_type l))) 0 else ret r) (\<lambda>e.
     bind (shape_items ls (case rs of [] \<Rightarrow> [] | r # rs' \<Rightarrow> rs')) (\<lambda>es. ret (e # es)))"

fun shaped_rhs :: "query_spec \<Rightarrow> expr list \<Rightarrow> query_spec" where
  "shaped_rhs (QuerySpec cs from js dist items wher groups having ords lim off lock rhs kind) es =
     QuerySpec cs from js dist (number_items es) wher groups having [] lim None lock rhs kind"

definition choose_set_op :: "gen_params \<Rightarrow> set_op_kind gen" where
  "choose_set_op G = bind (gdraw 1 100) (\<lambda>r. ret (
     if r \<le> 40 then Set_unionAll
     else if r \<le> 70 \<or> \<not> supportsIntersectExcept (dialect_for (gp_server G)) (gp_server G)
     then (if r mod 2 = 0 then Set_unionAll else Set_unionDistinct)
     else if r \<le> 85 then Set_intersect else Set_except))"

text \<open>The outer ORDER BY of a set operation names an output column.\<close>

definition gen_output_order :: "query_gen_config \<Rightarrow> expr list \<Rightarrow> (expr \<times> bool) list gen" where
  "gen_output_order cfg items = bind (roll (order_by_prob cfg)) (\<lambda>b.
     if b then bind (gpick [0..<length items]) (\<lambda>idx. bind gbool (\<lambda>desc.
         ret [(Expr (ColumnRef \<lparr>cr_alias = [], cr_column = ''c'' @ fmt_nat idx\<rparr>) (expr_type (items ! idx)), desc)]))
     else ret [])"

section \<open>Expressions and queries\<close>

text \<open>
  \<open>genScalar\<close>, \<open>genSubqueryBool\<close>, \<open>genBool\<close> and \<open>genQuery\<close> call each other. The recursion ends because
  expressions get shallower, CASE conditions have no subquery budget, and a subquery is only among the
  choices while \<open>subqDepth\<close> is below \<open>max_subquery_depth\<close>: the congruence rules below tell the termination
  proof which choices a draw can return.
\<close>

definition maybe :: "nat \<Rightarrow> 'a gen \<Rightarrow> 'a option gen" where
  "maybe percent m = bind (roll percent) (\<lambda>b. if b then bind m (\<lambda>x. ret (Some x)) else ret None)"

definition optionally :: "bool \<Rightarrow> nat \<Rightarrow> 'a gen \<Rightarrow> 'a option gen" where
  "optionally c percent m = (if c then maybe percent m else ret None)"

lemma optionally_cong [fundef_cong]:
  "c = c' \<Longrightarrow> p = p' \<Longrightarrow> (c' \<Longrightarrow> m = m') \<Longrightarrow> optionally c p m = optionally c' p' m'"
  by (cases c') (simp_all add: optionally_def)

lemma bind_cong [fundef_cong]:
  "m = m' \<Longrightarrow> (\<And>x. f x = f' x) \<Longrightarrow> bind m f = bind m' f'"
  by presburger

text \<open>\<open>choosing\<close> is \<open>bind\<close>, with the rule that the continuation only sees what the draw can return.\<close>

definition choosing :: "'a gen \<Rightarrow> ('a \<Rightarrow> 'b gen) \<Rightarrow> 'b gen" where
  "choosing = bind"

lemma choosing_cong [fundef_cong]:
  assumes "m = m'" and "\<And>x s s'. m' s = (Ok x, s') \<Longrightarrow> f x = f' x"
  shows "choosing m f = choosing m' f'"
  unfolding choosing_def bind_def assms(1) using assms(2) by (auto simp: fun_eq_iff split: prod.split result.split)

lemma map_prog_cong [fundef_cong]:
  "xs = ys \<Longrightarrow> (\<And>x. x \<in> set ys \<Longrightarrow> f x = g x) \<Longrightarrow> map_prog f xs = map_prog g ys"
  by (induction ys arbitrary: xs) auto

definition pick_bool :: "bool \<Rightarrow> nat \<Rightarrow> family list \<Rightarrow> nat \<Rightarrow> bool_pick gen" where
  "pick_bool may_nest percent fams depth = bind (and_roll may_nest percent) (\<lambda>nest.
     gpick (bool_choices fams depth @ (if nest then [Bp_subquery, Bp_subquery] else [])))"

lemma gen_bind_Ok: "bind m f s = (Ok y, s') \<Longrightarrow> \<exists>x t. m s = (Ok x, t) \<and> f x t = (Ok y, s')"
  by (auto simp: bind_def split: prod.splits result.splits)

lemma gdraw_range: "gdraw lo hi s = (Ok n, s') \<Longrightarrow> lo \<le> n \<and> n \<le> hi"
  by (auto simp: gdraw_def in_gen_rng_def Let_def dest: random_number_range split: prod.splits)

lemma gpick_in: "gpick xs s = (Ok x, s') \<Longrightarrow> x \<in> set xs"
proof -
  assume e: "gpick xs s = (Ok x, s')"
  then have ne: "xs \<noteq> []" by (auto simp: gpick_def undef_def)
  with e obtain i t where "gdraw 0 (length xs - 1) s = (Ok i, t)" "x = xs ! i"
    unfolding gpick_def by (auto simp: ret_def dest!: gen_bind_Ok)
  moreover from this ne gdraw_range [of 0 "length xs - 1" s i t] have "i < length xs" by (cases xs) auto
  ultimately show ?thesis by simp
qed

lemma and_roll_true: "and_roll b p s = (Ok True, s') \<Longrightarrow> b"
  by (auto simp: and_roll_def ret_def split: if_splits)

lemma pick_bool_guards:
  assumes "pick_bool may_nest p fams depth s = (Ok x, s')"
  shows "x = Bp_subquery \<Longrightarrow> may_nest" "x = Bp_andOr \<Longrightarrow> 0 < depth" "x = Bp_notFn \<Longrightarrow> 0 < depth"
proof -
  obtain nest t where n: "and_roll may_nest p s = (Ok nest, t)"
    "x \<in> set (bool_choices fams depth @ (if nest then [Bp_subquery, Bp_subquery] else []))"
    using gen_bind_Ok [OF assms [unfolded pick_bool_def]] gpick_in by metis
  show "0 < depth" if "x = Bp_andOr" using n(2) that by (auto simp: bool_choices_def split: if_splits)
  show "0 < depth" if "x = Bp_notFn" using n(2) that by (auto simp: bool_choices_def split: if_splits)
  assume "x = Bp_subquery"
  with n(2) have "nest" by (auto simp: bool_choices_def split: if_splits)
  with n(1) have "and_roll may_nest p s = (Ok True, t)" by simp
  then show may_nest by (rule and_roll_true)
qed

text \<open>The right operand of a comparison with a subquery: the item to keep, among those of the family.\<close>

definition keep_one :: "family \<Rightarrow> query_spec \<Rightarrow> expr option gen" where
  "keep_one fam sub =
     (let matching = filter (\<lambda>i. familyOf (expr_type (fst (qs_selectItems sub ! i))) = fam) [0..<length (qs_selectItems sub)]
      in if matching = [] then ret None
         else bind (gpick matching) (\<lambda>i. bind (lift_result (trimToSingleItem sub i)) (\<lambda>q.
           ret (Some (Expr (ScalarSubquery (set_limit 1 q)) (representative fam))))))"

definition leaf_only :: "family \<Rightarrow> bool" where
  "leaf_only fam \<longleftrightarrow> fam = Fam_boolean \<or> fam = Fam_binary"

definition gen_cmp_op :: "family \<Rightarrow> bin_op gen" where
  "gen_cmp_op fam = (if leaf_only fam then bind gbool (\<lambda>b. ret (if b then Bin_eq else Bin_ne))
     else gpick [Bin_eq, Bin_ne, Bin_lt, Bin_le, Bin_gt, Bin_ge])"

definition gen_limit :: "(nat option \<times> nat option) gen" where
  "gen_limit = bind (gdraw 1 1000) (\<lambda>l. bind (roll 25) (\<lambda>b.
     if b then bind (gdraw 0 100) (\<lambda>off. ret (Some l, Some off)) else ret (Some l, None)))"

function
  genScalar :: "gen_params \<Rightarrow> column_type \<Rightarrow> scope \<Rightarrow> nat \<Rightarrow> bool \<Rightarrow> expr gen"
  and genSubqueryBool :: "gen_params \<Rightarrow> scope \<Rightarrow> nat \<Rightarrow> expr gen"
  and genBool :: "gen_params \<Rightarrow> scope \<Rightarrow> nat \<Rightarrow> nat \<Rightarrow> bool \<Rightarrow> expr gen"
  and genQuery :: "gen_params \<Rightarrow> purpose \<Rightarrow> table option \<Rightarrow> scope \<Rightarrow> nat \<Rightarrow> bool \<Rightarrow> query_spec gen" where
  "genScalar G ty sc depth ag =
     (if depth = 0 \<or> leaf_only (familyOf ty) then genLeaf ty sc
      else bind (gpick (scalar_choices (familyOf ty))) (\<lambda>pick. case pick of
        Sp_leaf \<Rightarrow> genLeaf ty sc
      | Sp_literal \<Rightarrow> genLiteral ty 0
      | Sp_arith \<Rightarrow> bind (gpick [Bin_add, Bin_sub, Bin_mul, Bin_div]) (\<lambda>op.
          if op = Bin_mul then bind (genLeaf ty sc) (\<lambda>l. bind (gdraw 1 10) (\<lambda>n.
            ret (binary op ty l (Expr (Literal (Lit_int (int n))) CT_INT))))
          else bind (genScalar G ty sc (depth - 1) ag) (\<lambda>l. bind (genScalar G ty sc (depth - 1) ag) (\<lambda>r.
            ret (binary op ty l (if op = Bin_div then wrapNullifZero r else r)))))
      | Sp_mod \<Rightarrow> bind (intLeaf sc) (\<lambda>l. bind (intLeaf sc) (\<lambda>r. ret (binary Bin_mod CT_INT l (wrapNullifZero r))))
      | Sp_absFn \<Rightarrow> bind (genScalar G ty sc (depth - 1) ag) (\<lambda>e. ret (Expr (FuncCall Fn_abs [e]) ty))
      | Sp_lengthFn \<Rightarrow> bind (genLeaf CT_VARCHAR sc) (\<lambda>e. ret (Expr (FuncCall Fn_length [e]) CT_INT))
      | Sp_coalesceFn \<Rightarrow> bind (genLeaf ty sc) (\<lambda>e. bind (genLiteral ty 0) (\<lambda>l.
          ret (Expr (FuncCall Fn_coalesce [e, l]) ty)))
      | Sp_nullifFn \<Rightarrow> bind (genLeaf ty sc) (\<lambda>e. bind (genLiteral ty 0) (\<lambda>l.
          ret (Expr (FuncCall Fn_nullif [e, l]) ty)))
      | Sp_caseFn \<Rightarrow> bind (gdraw 1 2) (\<lambda>n.
          bind (map_prog (\<lambda>_. bind (genBool G sc (depth - 1) (max_subquery_depth (gp_cfg G)) ag) (\<lambda>w.
            bind (genScalar G ty sc (depth - 1) ag) (\<lambda>t. ret (w, t)))) [0..<n]) (\<lambda>whens.
          bind (genScalar G ty sc (depth - 1) ag) (\<lambda>e. ret (Expr (CaseExpr whens (Some e)) ty))))
      | Sp_lowerUpper \<Rightarrow> bind gbool (\<lambda>b. bind (genScalar G ty sc (depth - 1) ag) (\<lambda>e.
          ret (Expr (FuncCall (if b then Fn_lower else Fn_upper) [e]) ty)))
      | Sp_concat \<Rightarrow> bind (genScalar G ty sc (depth - 1) ag) (\<lambda>l. bind (genScalar G ty sc (depth - 1) ag) (\<lambda>r.
          ret (binary Bin_concat ty l r)))))"
| "genSubqueryBool G sc subqDepth =
     bind (genQuery G Purpose_standalone None sc (Suc subqDepth) False) (\<lambda>sub.
     bind gbool (\<lambda>negated. bind gbool (\<lambda>ex.
     if ex then ret (Expr (ExistsSubquery sub negated) CT_BOOL)
     else bind (gpick [0..<length (qs_selectItems sub)]) (\<lambda>keep.
       bind (lift_result (trimToSingleItem sub keep)) (\<lambda>sub'.
       bind (genLeaf (expr_type (fst (hd (qs_selectItems sub')))) sc) (\<lambda>arg.
       ret (Expr (InSubquery arg sub' negated) CT_BOOL)))))))"
| "genBool G sc depth subqDepth ag =
     (let fams = scope_families sc;
          may_nest = gp_tables G \<noteq> [] \<and> subqDepth < max_subquery_depth (gp_cfg G)
      in choosing (pick_bool may_nest (subquery_prob (gp_cfg G)) fams depth) (\<lambda>pick. case pick of
        Bp_cmp \<Rightarrow> bind (pick_family fams) (\<lambda>fam. bind (gen_cmp_op fam) (\<lambda>op.
          bind (genScalar G (representative fam) sc (depth - 1) ag) (\<lambda>lhs.
          bind (optionally (\<not> leaf_only fam \<and> may_nest) (subquery_prob (gp_cfg G))
            (genQuery G Purpose_standalone None sc (Suc subqDepth) False)) (\<lambda>sub.
          bind (case sub of None \<Rightarrow> ret None | Some q \<Rightarrow> keep_one fam q) (\<lambda>kept.
          bind (case kept of Some e \<Rightarrow> ret e | None \<Rightarrow> genScalar G (representative fam) sc (depth - 1) ag) (\<lambda>rhs.
          ret (binary op CT_BOOL lhs rhs)))))))
      | Bp_andOr \<Rightarrow> bind gbool (\<lambda>b. bind (genBool G sc (depth - 1) subqDepth ag) (\<lambda>l.
          bind (genBool G sc (depth - 1) subqDepth ag) (\<lambda>r.
          ret (binary (if b then Bin_and else Bin_or) CT_BOOL l r))))
      | Bp_notFn \<Rightarrow> bind (genBool G sc (depth - 1) subqDepth ag) (\<lambda>e. ret (Expr (UnaryExpr Un_not e) CT_BOOL))
      | Bp_isNull \<Rightarrow> gen_isNull sc fams
      | Bp_between \<Rightarrow> gen_between sc
      | Bp_inList \<Rightarrow> gen_inList sc fams
      | Bp_likeFn \<Rightarrow> gen_like sc
      | Bp_subquery \<Rightarrow> genSubqueryBool G sc subqDepth
      | Bp_leaf \<Rightarrow> genLeaf CT_BOOL sc))"
| "genQuery G p target outer subqDepth allowExtras =
     (let cfg = gp_cfg G in
      bind (optionally allowExtras (cte_prob cfg) (bind (genQuery G Purpose_standalone None [] (Suc subqDepth) False) (\<lambda>body.
        bind (next_alias ''w'') (\<lambda>name. ret (name, body))))) (\<lambda>cte.
      let cands = gp_tables G @ (case cte of None \<Rightarrow> [] | Some (name, body) \<Rightarrow> [synth_table name body]) in
      bind (case target of Some t \<Rightarrow> ret t | None \<Rightarrow> gpick cands) (\<lambda>seed.
      bind freshAlias (\<lambda>alias.
      bind (gen_joins (max_joins cfg) cfg p cands [] [(alias, seed)] False) (\<lambda>(js, sc).
      bind (and_roll (p \<noteq> Purpose_pkSelect) (aggregate_prob cfg)) (\<lambda>isAgg.
      bind (if p = Purpose_pkSelect then (case columns seed of [] \<Rightarrow> undef | c # cs \<Rightarrow> ret ([colExpr (alias, c)], [], None))
        else if isAgg then gen_aggregates sc
        else bind (gdraw 1 4) (\<lambda>n. bind (map_prog (\<lambda>_. bind (gpick (scope_columns sc)) (\<lambda>c. ret (colExpr c))) [0..<n]) (\<lambda>cols.
          bind (roll 25) (\<lambda>b. if \<not> b then ret (cols, [], None)
            else bind (gpick (scope_columns sc)) (\<lambda>c.
              bind (genScalar G (col_type (snd c)) sc (max_expr_depth cfg) False) (\<lambda>e. ret (cols @ [e], [], None))))))) (\<lambda>(items, groups, having).
      bind (optionally (allowExtras \<and> \<not> isAgg) (window_prob cfg) (genWindowCall sc)) (\<lambda>window.
      let items = items @ (case window of None \<Rightarrow> [] | Some w \<Rightarrow> [w]) in
      bind (maybe 75 (bind (and_roll (outer \<noteq> []) (correlation_prob cfg)) (\<lambda>correlated.
        genBool G (if correlated then sc @ outer else sc) (max_expr_depth cfg) subqDepth False))) (\<lambda>wher.
      bind (maybe (order_by_prob cfg) (gen_order items)) (\<lambda>ords.
      bind (optionally (p \<noteq> Purpose_pkSelect) (limit_prob cfg) gen_limit) (\<lambda>lim.
      bind (and_roll (p \<noteq> Purpose_pkSelect \<and> \<not> isAgg) 15) (\<lambda>dist.
      let query = QuerySpec (case cte of None \<Rightarrow> [] | Some c \<Rightarrow> [c]) \<lparr>ts_table = obj_name seed, ts_alias = alias\<rparr> js
            (dist \<or> p = Purpose_pkSelect \<and> js \<noteq> []) (number_items items) wher groups having;
          rest = (\<lambda>ords. query ords (case lim of None \<Rightarrow> None | Some (l, off) \<Rightarrow> l)
            (case lim of None \<Rightarrow> None | Some (l, off) \<Rightarrow> off) no_lock)
      in bind (optionally allowExtras (setop_prob cfg) (genQuery G Purpose_standalone None [] (Suc subqDepth) False)) (\<lambda>rhs.
        case rhs of
          None \<Rightarrow> ret (rest (case ords of None \<Rightarrow> [] | Some os \<Rightarrow> os) None Set_unionAll)
        | Some r \<Rightarrow> bind (shape_items items (map fst (qs_selectItems r))) (\<lambda>es.
            bind (choose_set_op G) (\<lambda>kind. bind (gen_output_order cfg items) (\<lambda>ords.
            ret (rest ords (Some (shaped_rhs r es)) kind)))))))))))))))))"
  by pat_completeness auto

termination
  apply (relation "inv_image (less_than <*lex*> less_than) (\<lambda>x. case x of
       Inl (Inl (G, ty, sc, depth, ag)) \<Rightarrow> (0, 2 * depth)
     | Inl (Inr (G, sc, d)) \<Rightarrow> 
         (max_subquery_depth (gp_cfg G) - d, if d < max_subquery_depth (gp_cfg G) then 0 else 2 * max_expr_depth (gp_cfg G) + 3)
     | Inr (Inl (G, sc, depth, d, ag)) \<Rightarrow> (max_subquery_depth (gp_cfg G) - d, 2 * depth + 1)
     | Inr (Inr (G, p, t, sc, d, ex)) \<Rightarrow>
         (max_subquery_depth (gp_cfg G) - d, 2 * max_expr_depth (gp_cfg G) + (if ex then 3 else 2)))")
  apply (simp_all add: pick_bool_guards)
  apply (auto dest: pick_bool_guards)
  done

declare genScalar.simps [simp del] genSubqueryBool.simps [simp del] genBool.simps [simp del] genQuery.simps [simp del]

section \<open>The interface\<close>

record pk_select_opts =
  po_limit :: nat
  po_lock :: lock_clause

fun lock_query :: "lock_clause \<Rightarrow> query_spec \<Rightarrow> query_spec" where
  "lock_query l (QuerySpec cs from js dist items wher groups having ords lim off lock rhs kind) =
     QuerySpec cs from js False items wher groups having ords lim off
       \<lparr>ls_clause = l, ls_ofAlias = ts_alias from\<rparr> rhs kind"

definition Generator_generatePkSelect :: "gen_params \<Rightarrow> table option \<Rightarrow> pk_select_opts \<Rightarrow> query_spec option gen" where
  "Generator_generatePkSelect G target opts =
     (case target of None \<Rightarrow> ret None
      | Some t \<Rightarrow> if gp_tables G = [] \<or> columns t = [] then ret None
          else bind (genQuery G Purpose_pkSelect (Some t) [] 0 False) (\<lambda>q.
            let q = (if po_limit opts > 0 then set_limit (po_limit opts) q else q) in
            ret (Some (if po_lock opts \<noteq> Lock_none then lock_query (po_lock opts) q else q))))"

definition Generator_generate :: "gen_params \<Rightarrow> purpose \<Rightarrow> table option \<Rightarrow> query_spec option gen" where
  "Generator_generate G p target =
     (if p = Purpose_pkSelect then Generator_generatePkSelect G target \<lparr>po_limit = 0, po_lock = Lock_none\<rparr>
      else if gp_tables G = [] then ret None
      else bind (genQuery G p target [] 0 (p = Purpose_standalone)) (\<lambda>q. ret (Some q)))"

text \<open>The target is kept out of the subqueries' candidates.\<close>

definition without_table :: "table \<Rightarrow> gen_params \<Rightarrow> gen_params" where
  "without_table t G = G\<lparr>gp_tables := filter (\<lambda>u. obj_id u \<noteq> obj_id t) (gp_tables G)\<rparr>"

definition Generator_generatePredicate :: "gen_params \<Rightarrow> table \<Rightarrow> string \<Rightarrow> expr gen" where
  "Generator_generatePredicate G target qualifier =
     genBool (without_table target G) [(qualifier, target)] (max_expr_depth (gp_cfg G)) 0 False"

end
