(* ===== verification/Query_Types.thy ===== *)
theory Query_Types
  imports Query_Generator
begin

text \<open>
  What a query has to satisfy so that a server can accept it, as a judgement over the IR: every column
  is in scope with its type, operands agree in family, divisors are guarded, subqueries are as deep as
  the budget allows and return what their place needs, grouped select lists are consistent with GROUP BY,
  set operations are compatible. Then: a query of the judgement has a rendering.
\<close>

section \<open>The judgement\<close>

definition in_scope :: "scope \<Rightarrow> column_ref \<Rightarrow> column_type \<Rightarrow> bool" where
  "in_scope sc c ty \<longleftrightarrow> (\<exists>p\<in>set (scope_columns sc). ref_of p = c \<and> col_type (snd p) = ty)"

text \<open>Literals hold nothing that would need escaping.\<close>

definition plain_text :: "string \<Rightarrow> bool" where
  "plain_text s \<longleftrightarrow> (\<forall>c\<in>set s. c \<noteq> CHR 0x27 \<and> c \<noteq> CHR 0x5C)"

fun lit_ok :: "literal_value \<Rightarrow> column_type \<Rightarrow> bool" where
  "lit_ok Lit_null ty = False"
| "lit_ok (Lit_int k) ty = (ty = CT_INT \<and> 0 \<le> k \<and> k \<le> 1000000)"
| "lit_ok (Lit_double n) ty = (ty = CT_REAL)"
| "lit_ok (Lit_bool b) ty = (ty = CT_BOOL)"
| "lit_ok (Lit_string s) ty = ((familyOf ty = Fam_string \<or> familyOf ty = Fam_binary) \<and> plain_text s)"

definition fam :: "expr \<Rightarrow> family" where
  "fam e = familyOf (expr_type e)"

definition items_of :: "query_spec \<Rightarrow> expr list" where
  "items_of q = map fst (qs_selectItems q)"

text \<open>A subquery whose value is compared: one item, of the family asked for.\<close>

definition one_item :: "family \<Rightarrow> query_spec \<Rightarrow> bool" where
  "one_item f q \<longleftrightarrow> (\<exists>e. items_of q = [e] \<and> fam e = f) \<and> qs_orderBy q = [] \<and> qs_offset q = None"

inductive column_in :: "scope \<Rightarrow> expr \<Rightarrow> bool" for sc where
  "in_scope sc c ty \<Longrightarrow> column_in sc (Expr (ColumnRef c) ty)"

inductive agg_ok :: "scope \<Rightarrow> expr \<Rightarrow> bool" for sc where
  agg_star: "agg_ok sc (Expr (AggCall Agg_count None False) CT_INT)"
| agg_count: "column_in sc c \<Longrightarrow> agg_ok sc (Expr (AggCall Agg_count (Some c) d) CT_INT)"
| agg_avg: "column_in sc c \<Longrightarrow> fam c = Fam_numeric \<Longrightarrow> agg_ok sc (Expr (AggCall Agg_avg (Some c) d) CT_REAL)"
| agg_sum: "column_in sc c \<Longrightarrow> fam c = Fam_numeric \<Longrightarrow> agg_ok sc (Expr (AggCall Agg_sum (Some c) d) (expr_type c))"
| agg_minmax: "column_in sc c \<Longrightarrow> fam c = Fam_numeric \<or> fam c = Fam_string \<Longrightarrow> fn = Agg_min \<or> fn = Agg_max \<Longrightarrow>
    agg_ok sc (Expr (AggCall fn (Some c) d) (expr_type c))"

definition window_ok :: "scope \<Rightarrow> expr \<Rightarrow> bool" where
  "window_ok sc e \<longleftrightarrow> (\<exists>fn arg parts ords ty. e = Expr (WindowCall fn arg parts ords) ty \<and>
     (\<forall>c\<in>set parts \<union> set ords. \<exists>ty. in_scope sc c ty) \<and>
     (case arg of None \<Rightarrow> fn \<in> {Win_rowNumber, Win_rank, Win_denseRank, Win_count} \<and> ty = CT_INT
      | Some c \<Rightarrow> column_in sc c \<and> (fn = Win_count \<and> ty = CT_INT
          \<or> fn = Win_sum \<and> fam c = Fam_numeric \<and> ty = expr_type c
          \<or> fn = Win_avg \<and> fam c = Fam_numeric \<and> ty = CT_REAL
          \<or> (fn = Win_min \<or> fn = Win_max) \<and> (fam c = Fam_numeric \<or> fam c = Fam_string) \<and> ty = expr_type c)))"

text \<open>A join adds its table to the scope; its condition equates two columns of one family.\<close>

definition join_cond :: "scope \<Rightarrow> expr \<Rightarrow> bool" where
  "join_cond sc e \<longleftrightarrow> (\<exists>l r. e = binary Bin_eq CT_BOOL l r \<and> column_in sc l \<and> column_in sc r \<and> fam l = fam r)"

fun joined :: "table list \<Rightarrow> scope \<Rightarrow> join list \<Rightarrow> scope \<Rightarrow> bool" where
  "joined T sc [] sc' = (sc' = sc)"
| "joined T sc (Join kind src cond # js) sc' = (\<exists>t\<in>set T. obj_name t = ts_table src \<and>
     (case cond of None \<Rightarrow> kind = Join_cross | Some e \<Rightarrow> kind \<noteq> Join_cross \<and> join_cond (sc @ [(ts_alias src, t)]) e) \<and>
     joined T (sc @ [(ts_alias src, t)]) js sc')"

definition literal_in :: "expr \<Rightarrow> bool" where
  "literal_in e \<longleftrightarrow> (\<exists>v ty. e = Expr (Literal v) ty \<and> lit_ok v ty)"

text \<open>GROUP BY, HAVING or an aggregate: then every item is grouped, an aggregate or a constant.\<close>

definition groups_ok :: "scope \<Rightarrow> expr list \<Rightarrow> column_ref list \<Rightarrow> expr option \<Rightarrow> bool" where
  "groups_ok sc es gs having \<longleftrightarrow> distinct gs \<and> (\<forall>c\<in>set gs. \<exists>ty. in_scope sc c ty) \<and>
     (\<forall>e. having = Some e \<longrightarrow> (\<exists>op agg lit. e = binary op CT_BOOL agg lit \<and> op \<in> {Bin_gt, Bin_le} \<and> agg_ok sc agg \<and>
        literal_in lit \<and> fam lit = fam agg)) \<and>
     (gs \<noteq> [] \<or> having \<noteq> None \<or> (\<exists>e\<in>set es. agg_ok sc e) \<longrightarrow>
       (\<forall>e\<in>set es. agg_ok sc e \<or> literal_in e \<or> (\<exists>c ty. e = Expr (ColumnRef c) ty \<and> c \<in> set gs)))"

text \<open>ORDER BY names select items; on a set operation, output columns.\<close>

definition order_ok :: "expr list \<Rightarrow> bool \<Rightarrow> (expr \<times> bool) list \<Rightarrow> bool" where
  "order_ok es is_setop ords \<longleftrightarrow> (\<forall>(e, desc)\<in>set ords.
     if is_setop then (\<exists>i<length es. e = Expr (ColumnRef \<lparr>cr_alias = [], cr_column = ''c'' @ fmt_nat i\<rparr>) (expr_type (es ! i)))
     else is_column e \<and> e \<in> set es)"

definition lock_ok :: "query_spec \<Rightarrow> bool" where
  "lock_ok q \<longleftrightarrow> ls_clause (qs_lock q) = Lock_none \<and> ls_ofAlias (qs_lock q) = []
     \<or> ls_ofAlias (qs_lock q) = ts_alias (qs_from q) \<and> \<not> qs_distinct q \<and> qs_groupBy q = [] \<and> qs_having q = None"

text \<open>
  \<open>expr_ok n T sc e\<close>: \<open>e\<close> is well-formed in the scope \<open>sc\<close>, its subqueries are over the tables \<open>T\<close> and nest at
  most \<open>n\<close> deep. \<open>query_ok x n T outer q\<close>: so is the query \<open>q\<close> inside the scope \<open>outer\<close>; \<open>x\<close>: it may have a
  CTE, window functions and a set operation.
\<close>

text \<open>A divisor that is NULL instead of zero.\<close>

definition guarded :: "expr \<Rightarrow> expr" where
  "guarded e = Expr (FuncCall Fn_nullif [e, Expr (Literal (Lit_int 0)) CT_INT]) (expr_type e)"

lemma wrapNullifZero_guarded [simp]: "wrapNullifZero e = guarded e"
  by (simp add: wrapNullifZero_def zero_literal_def guarded_def)

inductive expr_ok :: "nat \<Rightarrow> table list \<Rightarrow> scope \<Rightarrow> expr \<Rightarrow> bool"
  and query_ok :: "bool \<Rightarrow> nat \<Rightarrow> table list \<Rightarrow> scope \<Rightarrow> query_spec \<Rightarrow> bool" where
  ok_column: "in_scope sc c ty \<Longrightarrow> expr_ok n T sc (Expr (ColumnRef c) ty)"
| ok_literal: "lit_ok v ty \<Longrightarrow> expr_ok n T sc (Expr (Literal v) ty)"
| ok_not: "expr_ok n T sc e \<Longrightarrow> expr_type e = CT_BOOL \<Longrightarrow> expr_ok n T sc (Expr (UnaryExpr Un_not e) CT_BOOL)"
| ok_null: "expr_ok n T sc e \<Longrightarrow> op = Un_isNull \<or> op = Un_isNotNull \<Longrightarrow> expr_ok n T sc (Expr (UnaryExpr op e) CT_BOOL)"
| ok_cmp: "expr_ok n T sc l \<Longrightarrow> expr_ok n T sc r \<Longrightarrow> fam l = fam r \<Longrightarrow>
    op \<in> {Bin_eq, Bin_ne} \<or> op \<in> {Bin_lt, Bin_le, Bin_gt, Bin_ge} \<and> \<not> leaf_only (fam l) \<Longrightarrow>
    expr_ok n T sc (binary op CT_BOOL l r)"
| ok_arith: "expr_ok n T sc l \<Longrightarrow> expr_ok n T sc r \<Longrightarrow> fam l = Fam_numeric \<Longrightarrow> fam r = Fam_numeric \<Longrightarrow>
    familyOf ty = Fam_numeric \<Longrightarrow> op \<in> {Bin_add, Bin_sub, Bin_mul} \<Longrightarrow> expr_ok n T sc (binary op ty l r)"
| ok_div: "expr_ok n T sc l \<Longrightarrow> expr_ok n T sc r \<Longrightarrow> fam l = Fam_numeric \<Longrightarrow> fam r = Fam_numeric \<Longrightarrow>
    familyOf ty = Fam_numeric \<Longrightarrow> expr_ok n T sc (binary Bin_div ty l (guarded r))"
| ok_mod: "expr_ok n T sc l \<Longrightarrow> expr_ok n T sc r \<Longrightarrow> expr_type l = CT_INT \<Longrightarrow> expr_type r = CT_INT \<Longrightarrow>
    expr_ok n T sc (binary Bin_mod CT_INT l (guarded r))"
| ok_logic: "expr_ok n T sc l \<Longrightarrow> expr_ok n T sc r \<Longrightarrow> expr_type l = CT_BOOL \<Longrightarrow> expr_type r = CT_BOOL \<Longrightarrow>
    op = Bin_and \<or> op = Bin_or \<Longrightarrow> expr_ok n T sc (binary op CT_BOOL l r)"
| ok_like: "expr_ok n T sc l \<Longrightarrow> expr_ok n T sc r \<Longrightarrow> fam l = Fam_string \<Longrightarrow> fam r = Fam_string \<Longrightarrow>
    expr_ok n T sc (binary Bin_like CT_BOOL l r)"
| ok_concat: "expr_ok n T sc l \<Longrightarrow> expr_ok n T sc r \<Longrightarrow> fam l = Fam_string \<Longrightarrow> fam r = Fam_string \<Longrightarrow>
    familyOf ty = Fam_string \<Longrightarrow> expr_ok n T sc (binary Bin_concat ty l r)"
| ok_between: "expr_ok n T sc e \<Longrightarrow> expr_ok n T sc lo \<Longrightarrow> expr_ok n T sc hi \<Longrightarrow> fam e = Fam_numeric \<Longrightarrow>
    fam lo = Fam_numeric \<Longrightarrow> fam hi = Fam_numeric \<Longrightarrow> expr_ok n T sc (Expr (BetweenExpr e lo hi) CT_BOOL)"
| ok_in_list: "expr_ok n T sc e \<Longrightarrow> items \<noteq> [] \<Longrightarrow> \<forall>i\<in>set items. expr_ok n T sc i \<and> fam i = fam e \<Longrightarrow>
    expr_ok n T sc (Expr (InListExpr e items neg) CT_BOOL)"
| ok_in_sub: "expr_ok (Suc n) T sc e \<Longrightarrow> query_ok False n T sc q \<Longrightarrow> one_item (fam e) q \<Longrightarrow> qs_limit q = None \<Longrightarrow>
    expr_ok (Suc n) T sc (Expr (InSubquery e q neg) CT_BOOL)"
| ok_exists: "query_ok False n T sc q \<Longrightarrow> expr_ok (Suc n) T sc (Expr (ExistsSubquery q neg) CT_BOOL)"
| ok_scalar: "query_ok False n T sc q \<Longrightarrow> one_item (familyOf ty) q \<Longrightarrow> qs_limit q = Some 1 \<Longrightarrow>
    expr_ok (Suc n) T sc (Expr (ScalarSubquery q) ty)"
| ok_abs: "expr_ok n T sc e \<Longrightarrow> fam e = Fam_numeric \<Longrightarrow> familyOf ty = Fam_numeric \<Longrightarrow>
    expr_ok n T sc (Expr (FuncCall Fn_abs [e]) ty)"
| ok_length: "expr_ok n T sc e \<Longrightarrow> fam e = Fam_string \<Longrightarrow> expr_ok n T sc (Expr (FuncCall Fn_length [e]) CT_INT)"
| ok_case_fn: "expr_ok n T sc e \<Longrightarrow> fam e = Fam_string \<Longrightarrow> familyOf ty = Fam_string \<Longrightarrow> fn = Fn_lower \<or> fn = Fn_upper \<Longrightarrow>
    expr_ok n T sc (Expr (FuncCall fn [e]) ty)"
| ok_pair_fn: "expr_ok n T sc a \<Longrightarrow> expr_ok n T sc b \<Longrightarrow> fam a = familyOf ty \<Longrightarrow> fam b = familyOf ty \<Longrightarrow>
    fn = Fn_coalesce \<or> fn = Fn_nullif \<Longrightarrow> expr_ok n T sc (Expr (FuncCall fn [a, b]) ty)"
| ok_case: "whens \<noteq> [] \<Longrightarrow> \<forall>(w, t)\<in>set whens. expr_ok n T sc w \<and> expr_type w = CT_BOOL \<and> expr_ok n T sc t \<and> fam t = familyOf ty \<Longrightarrow>
    expr_ok n T sc els \<Longrightarrow> fam els = familyOf ty \<Longrightarrow> expr_ok n T sc (Expr (CaseExpr whens (Some els)) ty)"
| ok_query: "\<forall>(name, body)\<in>set cs. query_ok False (n - 1) T [] body \<Longrightarrow> cs \<noteq> [] \<or> rhs \<noteq> None \<longrightarrow> x \<Longrightarrow>
    fst ` set cs \<inter> obj_name ` set T = {} \<Longrightarrow> T' = T @ map (\<lambda>(name, body). synth_table name body) cs \<Longrightarrow>
    t \<in> set T' \<Longrightarrow> obj_name t = ts_table from \<Longrightarrow> joined T' [(ts_alias from, t)] js sc \<Longrightarrow>
    distinct (map fst (sc @ outer)) \<Longrightarrow>
    es \<noteq> [] \<Longrightarrow> \<forall>e\<in>set es. expr_ok 0 T sc e \<or> agg_ok sc e \<or> x \<and> window_ok sc e \<Longrightarrow>
    \<forall>e. wher = Some e \<longrightarrow> (expr_ok n T sc e \<or> expr_ok n T (sc @ outer) e) \<and> expr_type e = CT_BOOL \<Longrightarrow>
    groups_ok sc es gs having \<Longrightarrow> order_ok es (rhs \<noteq> None) ords \<Longrightarrow> off \<noteq> None \<longrightarrow> lim \<noteq> None \<Longrightarrow>
    \<forall>r. rhs = Some r \<longrightarrow> query_ok False (n - 1) T [] r \<and> map fam (items_of r) = map fam es \<Longrightarrow>
    lock_ok (QuerySpec cs from js dist (number_items es) wher gs having ords lim off lock rhs kind) \<Longrightarrow>
    query_ok x n T outer (QuerySpec cs from js dist (number_items es) wher gs having ords lim off lock rhs kind)"

section \<open>A well-formed query has a rendering\<close>

lemma res_map_some: "\<forall>x\<in>set xs. \<exists>y. f x = Ok y \<Longrightarrow> \<exists>ys. res_map f xs = Ok ys"
  by (induction xs) auto

lemma renderList_some: "\<forall>x\<in>set xs. \<exists>y. f x = Ok y \<Longrightarrow> \<exists>s. renderList f xs = Ok s"
  unfolding renderList_def using res_map_some [of xs f] by auto

definition renders :: "dialect \<Rightarrow> (nat \<Rightarrow> string) \<Rightarrow> expr \<Rightarrow> bool" where
  "renders d real e \<longleftrightarrow> (\<exists>s. exprStr d real e = Ok s)"

lemma renders_column: "column_in sc e \<Longrightarrow> renders d real e"
  by (auto simp: renders_def elim!: column_in.cases)

lemma renders_literal: "literal_in e \<Longrightarrow> renders d real e"
  by (auto simp: renders_def literal_in_def)

lemma renders_binary: "renders d real l \<Longrightarrow> renders d real r \<Longrightarrow> renders d real (binary op ty l r)"
  by (cases op) (auto simp: renders_def binary_def)

lemma renders_nullif: "renders d real r \<Longrightarrow> renders d real (guarded r)"
  by (auto simp: renders_def guarded_def renderList_def)

lemma renders_agg: "agg_ok sc e \<Longrightarrow> renders d real e"
  by (induction rule: agg_ok.induct) (auto simp: renders_def dest!: renders_column [of sc _ d real])

lemma renders_window: "window_ok sc e \<Longrightarrow> renders d real e"
  unfolding window_ok_def
  by (auto simp: renders_def split: option.splits dest!: renders_column [of sc _ d real])

lemma renders_join: "joined T sc js sc' \<Longrightarrow> \<exists>ss. res_map (joinStr d real) js = Ok ss"
proof (induction js arbitrary: sc)
  case (Cons j js)
  obtain kind src cond where j: "j = Join kind src cond" by (cases j)
  have "\<exists>s. joinStr d real j = Ok s"
  proof (cases cond)
    case (Some e)
    with Cons.prems j obtain sc1 where "join_cond sc1 e" by auto
    then have "renders d real e"
      unfolding join_cond_def using renders_binary renders_column by blast
    then show ?thesis using j Some by (auto simp: renders_def)
  qed (use Cons.prems j in auto)
  with Cons j show ?case by auto
qed simp

lemma query_renders:
  "expr_ok n T sc e \<Longrightarrow> renders d real e"
  "query_ok x n T outer q \<Longrightarrow> \<exists>s. queryStr d real q = Ok s"
proof (induction rule: expr_ok_query_ok.inducts)
  case (ok_query cs n T rhs x T' t "from" js sc outer es wher gs having ords off lim dist lock kind)
  have "\<forall>e\<in>set es. renders d real e \<or> agg_ok sc e \<or> window_ok sc e" using ok_query by blast
  then have es: "renders d real e" if "e \<in> set es" for e
    using that renders_agg renders_window by blast
  have items: "\<exists>s. renderList (\<lambda>(e, a). res_bind (exprStr d real e) (\<lambda>s. Ok (s @ '' AS '' @ a))) (number_items es) = Ok s"
    using es by (intro renderList_some) (auto simp: number_items_def renders_def)
  obtain jss where js: "res_map (joinStr d real) js = Ok jss" using renders_join [OF \<open>joined T' _ js sc\<close>] by blast
  have w: "\<exists>s. (case wher of None \<Rightarrow> Ok [] | Some e \<Rightarrow> res_bind (exprStr d real e) (\<lambda>s. Ok ('' WHERE '' @ s))) = Ok s"
    using ok_query by (cases wher) (auto simp: renders_def)
  have "\<forall>e. having = Some e \<longrightarrow> renders d real e"
    using \<open>groups_ok sc es gs having\<close> renders_binary renders_agg renders_literal unfolding groups_ok_def by metis
  then have h: "\<exists>s. (case having of None \<Rightarrow> Ok [] | Some e \<Rightarrow> res_bind (exprStr d real e) (\<lambda>s. Ok ('' HAVING '' @ s))) = Ok s"
    by (cases having) (auto simp: renders_def)
  let ?q = "QuerySpec cs from js dist (number_items es) wher gs having ords lim off lock rhs kind"
  have body: "\<exists>s. queryBody d real ?q = Ok s" using items js w h by auto
  have "\<exists>s. renderList (\<lambda>(e, desc). res_bind (exprStr d real e) (\<lambda>s. Ok (if desc then s @ '' DESC'' else s))) ords = Ok s"
  proof (rule renderList_some, rule ballI)
    fix p assume "p \<in> set ords"
    with \<open>order_ok es (rhs \<noteq> None) ords\<close> es have "renders d real (fst p)"
      unfolding order_ok_def by (cases p; cases rhs) (fastforce simp: renders_def)+
    then show "\<exists>y. (case p of (e, desc) \<Rightarrow> res_bind (exprStr d real e) (\<lambda>s. Ok (if desc then s @ '' DESC'' else s))) = Ok y"
      by (cases p) (auto simp: renders_def)
  qed
  then obtain os where os: "renderList (\<lambda>(e, desc). res_bind (exprStr d real e) (\<lambda>s. Ok (if desc then s @ '' DESC'' else s))) ords = Ok os" ..
  have "\<exists>s. renderList (\<lambda>(name, body). res_bind (queryStr d real body) (\<lambda>s. Ok (name @ '' AS ('' @ s @ '')''))) cs = Ok s"
    using ok_query(1) by (intro renderList_some) auto
  then obtain ws where ws: "renderList (\<lambda>(name, body). res_bind (queryStr d real body) (\<lambda>s. Ok (name @ '' AS ('' @ s @ '')''))) cs = Ok ws" ..
  obtain bs where bs: "queryBody d real ?q = Ok bs" using body ..
  have "\<forall>r. rhs = Some r \<longrightarrow> (\<exists>s. queryStr d real r = Ok s)" using ok_query by blast
  then show ?case unfolding queryStr.simps [of d real ?q] query_spec.sel os ws bs
    by (cases rhs) auto
next
  case (ok_case whens n T sc ty els)
  have "\<exists>s. res_map (\<lambda>(w, t). res_bind (exprStr d real w) (\<lambda>ws. res_bind (exprStr d real t) (\<lambda>ts. Ok (when_str ws ts)))) whens = Ok s"
  proof (rule res_map_some, rule ballI)
    fix p assume "p \<in> set whens"
    with ok_case have "renders d real (fst p)" "renders d real (snd p)" by fastforce+
    then show "\<exists>y. (case p of (w, t) \<Rightarrow> res_bind (exprStr d real w) (\<lambda>ws. res_bind (exprStr d real t)
        (\<lambda>ts. Ok (when_str ws ts)))) = Ok y"
      by (cases p) (auto simp: renders_def)
  qed
  with ok_case show ?case by (auto simp: renders_def)
next
  case (ok_in_list n T sc e items neg)
  have "\<exists>s. renderList (exprStr d real) items = Ok s"
    using ok_in_list by (intro renderList_some) (auto simp: renders_def)
  with ok_in_list show ?case by (auto simp: renders_def)
qed (simp_all add: renders_binary renders_nullif, auto simp: renders_def renderList_def)

end
