(* ===== verification/Query_Soundness.thy ===== *)
theory Query_Soundness
  imports Query_Types
begin

text \<open>
  The generator only returns well-formed queries, and always returns: a calculus for generator programs
  and the proof for every function, from the leaves to whole queries.
\<close>

section \<open>A calculus\<close>

text \<open>
  \<open>gives k m Q\<close>: from any state whose alias counter is at least \<open>k\<close>, \<open>m\<close> returns some \<open>x\<close>, the counter does not
  fall, and \<open>Q\<close> holds of \<open>x\<close> and the counter. It is total correctness: no exception, no undefined behaviour.
\<close>

definition gives :: "nat \<Rightarrow> 'a gen \<Rightarrow> ('a \<Rightarrow> nat \<Rightarrow> bool) \<Rightarrow> bool" where
  "gives k m Q \<longleftrightarrow> (\<forall>g. k \<le> aliasCounter g \<longrightarrow>
     (\<exists>x g'. m g = (Ok x, g') \<and> aliasCounter g \<le> aliasCounter g' \<and> Q x (aliasCounter g')))"

abbreviation makes :: "nat \<Rightarrow> 'a gen \<Rightarrow> ('a \<Rightarrow> bool) \<Rightarrow> bool" where
  "makes k m P \<equiv> gives k m (\<lambda>x _. P x)"

lemma givesD: "gives k m Q \<Longrightarrow> k \<le> aliasCounter g \<Longrightarrow>
  \<exists>x g'. m g = (Ok x, g') \<and> aliasCounter g \<le> aliasCounter g' \<and> Q x (aliasCounter g')"
  by (simp add: gives_def)

lemma gives_conseq: "gives k m P \<Longrightarrow> (\<And>x c. k \<le> c \<Longrightarrow> P x c \<Longrightarrow> Q x c) \<Longrightarrow> gives k m Q"
  unfolding gives_def by (meson le_trans)

lemma gives_later: "gives k m Q \<Longrightarrow> k \<le> k' \<Longrightarrow> gives k' m Q"
  by (simp add: gives_def)

lemma gives_ret: "(\<And>c. k \<le> c \<Longrightarrow> Q x c) \<Longrightarrow> gives k (ret x) Q"
  by (simp add: gives_def ret_def)

lemma gives_bind:
  assumes "gives k m P" and "\<And>x c. k \<le> c \<Longrightarrow> P x c \<Longrightarrow> gives c (f x) Q"
  shows "gives k (bind m f) Q"
  unfolding gives_def
proof (intro allI impI)
  fix g :: gen_state assume k: "k \<le> aliasCounter g"
  obtain x g' where x: "m g = (Ok x, g')" "aliasCounter g \<le> aliasCounter g'" "P x (aliasCounter g')"
    using givesD [OF assms(1) k] by blast
  have "gives (aliasCounter g') (f x) Q" using assms(2) x k by simp
  from givesD [OF this order_refl] x
  show "\<exists>y g'. bind m f g = (Ok y, g') \<and> aliasCounter g \<le> aliasCounter g' \<and> Q y (aliasCounter g')"
    by (auto simp: bind_def)
qed

text \<open>For programs whose result does not depend on the counter.\<close>

lemma makes_bind: "makes k m P \<Longrightarrow> (\<And>x. P x \<Longrightarrow> gives k (f x) Q) \<Longrightarrow> gives k (bind m f) Q"
  by (rule gives_bind, assumption) (rule gives_later)

lemma makes_conseq: "makes k m P \<Longrightarrow> (\<And>x. P x \<Longrightarrow> Q x) \<Longrightarrow> makes k m Q"
  by (rule gives_conseq)

lemma gives_if: "(b \<Longrightarrow> gives k m Q) \<Longrightarrow> (\<not> b \<Longrightarrow> gives k m' Q) \<Longrightarrow> gives k (if b then m else m') Q"
  by simp

lemma makes_gdraw: "lo \<le> hi \<Longrightarrow> makes k (gdraw lo hi) (\<lambda>n. lo \<le> n \<and> n \<le> hi)"
  unfolding gives_def
proof (intro allI impI)
  fix g :: gen_state assume "lo \<le> hi"
  then obtain n where "random_number lo hi (gen_rng g) = (Ok n, (gen_rng g)\<lparr>drawn := Suc (drawn (gen_rng g))\<rparr>)" "lo \<le> n" "n \<le> hi"
    by (rule_tac random_number_cases [of lo hi "gen_rng g"]) auto
  then show "\<exists>x g'. gdraw lo hi g = (Ok x, g') \<and> aliasCounter g \<le> aliasCounter g' \<and> lo \<le> x \<and> x \<le> hi"
    by (simp add: gdraw_def in_gen_rng_def)
qed

lemma makes_gpick: "xs \<noteq> [] \<Longrightarrow> makes k (gpick xs) (\<lambda>x. x \<in> set xs)"
  unfolding gpick_def
  by (simp, rule makes_bind [OF makes_gdraw]) (auto intro!: gives_ret nth_mem simp: less_Suc_eq_le neq_Nil_conv)

lemma makes_gbool: "makes k gbool (\<lambda>_. True)"
proof -
  have "gbool = bind (gdraw 0 1) (\<lambda>n. ret (n = 1))"
    by (auto simp: gbool_def gdraw_def in_gen_rng_def random_bool_def bind_def ret_def fun_eq_iff Let_def
        split: prod.split result.split)
  moreover have "makes k (bind (gdraw 0 1) (\<lambda>n. ret (n = 1))) (\<lambda>_. True)"
    by (rule makes_bind [OF makes_gdraw]) (auto intro: gives_ret)
  ultimately show ?thesis by metis
qed

lemma makes_roll: "makes k (roll p) (\<lambda>_. True)"
  unfolding roll_def by (rule makes_bind [OF makes_gdraw]) (auto intro: gives_ret)

lemma makes_and_roll: "makes k (and_roll c p) (\<lambda>b. b \<longrightarrow> c)"
  unfolding and_roll_def by (auto intro: gives_ret gives_conseq [OF makes_roll])

lemma makes_text: "makes k (in_gen_rng (random_string 0 n)) plain_text"
  unfolding gives_def
proof (intro allI impI)
  fix g :: gen_state
  obtain s r where s: "random_string 0 n (gen_rng g) = (Ok s, r)" "set s \<subseteq> set charset"
    using random_string_ok [of 0 n "gen_rng g"] by auto
  have "plain_text charset" by (simp add: plain_text_def charset_def)
  with s(2) have "plain_text s" by (auto simp: plain_text_def)
  with s(1) show "\<exists>x g'. in_gen_rng (random_string 0 n) g = (Ok x, g') \<and> aliasCounter g \<le> aliasCounter g' \<and> plain_text x"
    by (simp add: in_gen_rng_def)
qed

lemma makes_map_prog:
  "(\<And>x. x \<in> set xs \<Longrightarrow> makes k (f x) P) \<Longrightarrow> makes k (map_prog f xs) (\<lambda>ys. length ys = length xs \<and> (\<forall>y\<in>set ys. P y))"
proof (induction xs)
  case (Cons x xs)
  have "makes k (f x) P" "makes k (map_prog f xs) (\<lambda>ys. length ys = length xs \<and> (\<forall>y\<in>set ys. P y))"
    using Cons by simp_all
  then show ?case by (auto intro!: makes_bind gives_ret)
qed (simp add: gives_ret)

lemma makes_maybe: "makes k m P \<Longrightarrow> makes k (maybe p m) (\<lambda>r. \<forall>x. r = Some x \<longrightarrow> P x)"
  unfolding maybe_def by (rule makes_bind [OF makes_roll]) (auto intro!: makes_bind gives_ret)

lemma makes_optionally:
  "(c \<Longrightarrow> makes k m P) \<Longrightarrow> makes k (optionally c p m) (\<lambda>r. \<forall>x. r = Some x \<longrightarrow> c \<and> P x)"
  unfolding optionally_def by (auto intro: gives_ret gives_conseq [OF makes_maybe])

lemma gives_next_alias:
  "gives k (next_alias p) (\<lambda>a c. \<exists>i. a = p @ fmt_nat i \<and> k \<le> i \<and> i < c)"
  by (auto simp: gives_def next_alias_def)

section \<open>Leaves\<close>

lemma familyOf_boolean [simp]: "familyOf ty = Fam_boolean \<longleftrightarrow> ty = CT_BOOL"
  by (cases ty) simp_all

lemma scope_columns_in: "(a, c) \<in> set (scope_columns sc) \<longleftrightarrow> (\<exists>t. (a, t) \<in> set sc \<and> c \<in> set (columns t))"
  by (auto simp: scope_columns_def)

lemma colExpr_in: "p \<in> set (scope_columns sc) \<Longrightarrow> column_in sc (colExpr p)"
  by (auto simp: colExpr_def in_scope_def ref_of_def intro!: column_in.intros)

lemma fam_colExpr [simp]: "fam (colExpr p) = familyOf (col_type (snd p))" "expr_type (colExpr p) = col_type (snd p)"
  by (simp_all add: fam_def colExpr_def)

definition leaf :: "scope \<Rightarrow> expr \<Rightarrow> bool" where
  "leaf sc e \<longleftrightarrow> column_in sc e \<or> literal_in e"

lemma leaf_column: "column_in sc e \<Longrightarrow> leaf sc e"
  by (simp add: leaf_def)

lemma leaf_ok: "leaf sc e \<Longrightarrow> expr_ok n T sc e"
  by (auto simp: leaf_def literal_in_def elim!: column_in.cases intro: ok_column ok_literal)

lemma makes_pickColumn:
  "makes k (pickColumn sc ty) (\<lambda>r. \<forall>e. r = Some e \<longrightarrow> leaf sc e \<and> fam e = familyOf ty)"
  unfolding pickColumn_def Let_def
  by (rule gives_if, rule gives_ret, simp, rule makes_bind [OF makes_gpick], assumption)
    (auto intro!: gives_ret colExpr_in simp: of_families_def leaf_def)

lemma makes_genLiteral: "makes k (genLiteral ty len) (\<lambda>e. literal_in e \<and> expr_type e = ty)"
proof -
  have s: "makes k (in_gen_rng (random_string 0 n)) plain_text" for n by (rule makes_text)
  show ?thesis
    unfolding genLiteral_def
    by (cases ty) (auto intro!: makes_bind [where P = "\<lambda>v. lit_ok v ty"] makes_bind [OF makes_gdraw] makes_bind [OF s]
        gives_ret simp: literal_in_def size_max_def)
qed

lemma makes_genLeaf: "makes k (genLeaf ty sc) (\<lambda>e. leaf sc e \<and> fam e = familyOf ty)"
proof -
  have lit: "makes k (genLiteral ty 0) (\<lambda>e. leaf sc e \<and> fam e = familyOf ty)"
    by (rule gives_conseq [OF makes_genLiteral]) (auto simp: leaf_def fam_def)
  show ?thesis
    unfolding genLeaf_def
    by (rule makes_bind [OF makes_roll], rule gives_if, rule makes_bind [OF makes_pickColumn])
      (auto intro!: gives_ret lit split: option.split)
qed

lemma makes_intLeaf: "makes k (intLeaf sc) (\<lambda>e. leaf sc e \<and> expr_type e = CT_INT)"
proof -
  have lit: "makes k (genLiteral CT_INT 0) (\<lambda>e. leaf sc e \<and> expr_type e = CT_INT)"
    by (rule gives_conseq [OF makes_genLiteral]) (auto simp: leaf_def)
  show ?thesis
    unfolding intLeaf_def Let_def
    by (rule makes_bind [OF makes_roll], rule gives_if, rule makes_bind [OF makes_gpick])
      (auto intro!: gives_ret lit leaf_column colExpr_in)
qed

section \<open>Conditions without subexpressions\<close>

abbreviation cond_ok :: "nat \<Rightarrow> table list \<Rightarrow> scope \<Rightarrow> expr \<Rightarrow> bool" where
  "cond_ok n T sc e \<equiv> expr_ok n T sc e \<and> expr_type e = CT_BOOL"

lemma fam_bool: "fam e = Fam_boolean \<longleftrightarrow> expr_type e = CT_BOOL"
  by (simp add: fam_def)

lemma makes_bool_leaf: "makes k (genLeaf CT_BOOL sc) (cond_ok n T sc)"
  by (rule makes_conseq [OF makes_genLeaf]) (auto simp: leaf_ok fam_bool)

lemma makes_literal_ok: "makes k (genLiteral ty 0) (\<lambda>e. expr_ok n T sc e \<and> fam e = familyOf ty)"
  by (rule makes_conseq [OF makes_genLiteral]) (auto simp: fam_def leaf_ok leaf_def)

lemma makes_column_ok: "makes k (pickColumn sc ty) (\<lambda>r. \<forall>e. r = Some e \<longrightarrow> expr_ok n T sc e \<and> fam e = familyOf ty)"
  by (rule makes_conseq [OF makes_pickColumn]) (auto simp: leaf_ok)

lemma makes_family: "makes k (pick_family fams) (\<lambda>_. True)"
  unfolding pick_family_def by (auto intro: gives_ret makes_conseq [OF makes_gpick])

lemma ok_null_if: "expr_ok n T sc e \<Longrightarrow> expr_ok n T sc (Expr (UnaryExpr (if b then Un_isNull else Un_isNotNull) e) CT_BOOL)"
  by (rule ok_null) simp_all

lemma makes_isNull: "makes k (gen_isNull sc fams) (cond_ok n T sc)"
proof -
  let ?P = "\<lambda>r. \<forall>e. r = Some e \<longrightarrow> expr_ok n T sc e"
  have p: "makes k (pickColumn sc ty) ?P" for ty by (rule makes_conseq [OF makes_column_ok [where n = n and T = T]]) simp
  have "makes k (bind (gpick fams) (\<lambda>fam. bind (pickColumn sc (representative fam)) (\<lambda>c.
         ret (case c of Some e \<Rightarrow> Some e | None \<Rightarrow> arg)))) ?P" if "?P arg" "length fams > 1" for arg
    using that by (auto intro!: makes_bind [OF makes_gpick] makes_bind [OF p] gives_ret split: option.splits)
  then show ?thesis
    unfolding gen_isNull_def
    by (intro makes_bind [OF p] makes_bind [where P = ?P] gives_if)
      (auto intro!: gives_ret makes_bool_leaf makes_bind [OF makes_gbool] ok_null_if split: option.split)
qed

lemma makes_between: "makes k (gen_between sc) (cond_ok n T sc)"
  unfolding gen_between_def
  by (rule makes_bind [OF makes_column_ok [where n = n and T = T]])
    (auto intro!: makes_bool_leaf makes_bind [OF makes_literal_ok [where n = n and T = T and sc = sc]] gives_ret ok_between simp: fam_def split: option.split)

lemma makes_inList: "makes k (gen_inList sc fams) (cond_ok n T sc)"
proof -
  have items: "makes k (map_prog (\<lambda>_. genLiteral (expr_type e) 0) [0..<count])
      (\<lambda>ls. length ls = length [0..<count] \<and> (\<forall>i\<in>set ls. expr_ok n T sc i \<and> fam i = familyOf (expr_type e)))" for e count
    by (intro makes_map_prog makes_literal_ok)
  show ?thesis
    unfolding gen_inList_def
    by (rule makes_bind [OF makes_family], rule makes_bind [OF makes_column_ok [where n = n and T = T]])
      (auto intro!: makes_bool_leaf makes_bind [OF makes_gbool] makes_bind [OF makes_gdraw] makes_bind [OF items]
        gives_ret ok_in_list simp: fam_def split: option.split)
qed

lemma makes_like: "makes k (gen_like sc) (cond_ok n T sc)"
proof -
  have "set like_alphabet \<inter> {CHR 0x27, CHR 0x5C} = {}" "like_alphabet \<noteq> []"
    by (simp_all add: like_alphabet_def)
  then have "makes k (map_prog (\<lambda>_. gpick like_alphabet) [0..<len])
      (\<lambda>s. length s = length [0..<len] \<and> (\<forall>c\<in>set s. c \<noteq> CHR 0x27 \<and> c \<noteq> CHR 0x5C))" for len
    by (intro makes_map_prog makes_conseq [OF makes_gpick]) auto
  then have pat: "makes k (map_prog (\<lambda>_. gpick like_alphabet) [0..<len]) plain_text" for len
    by (rule makes_conseq) (simp add: plain_text_def)
  have "cond_ok n T sc (binary Bin_like CT_BOOL e (Expr (Literal (Lit_string s)) CT_VARCHAR))"
    if "expr_ok n T sc e" "fam e = Fam_string" "plain_text s" for e s
    using ok_like [OF that(1) ok_literal that(2), of "Lit_string s" CT_VARCHAR] that(3) by (simp add: fam_def binary_def)
  then show ?thesis
    unfolding gen_like_def
    by (intro makes_bind [OF makes_column_ok [where n = n and T = T]])
      (auto intro!: makes_bool_leaf makes_bind [OF makes_gdraw] makes_bind [OF pat] gives_ret split: option.split)
qed

section \<open>Aggregates and windows\<close>

lemma of_families_in: "p \<in> set (of_families fs sc) \<longleftrightarrow> p \<in> set (scope_columns sc) \<and> familyOf (col_type (snd p)) \<in> fs"
  by (auto simp: of_families_def)

lemma makes_aggCall: "makes k (genAggCall sc) (agg_ok sc)"
proof -
  let ?num = "of_families {Fam_numeric} sc" and ?cmp = "of_families {Fam_numeric, Fam_string} sc"
  have in_cmp: "p \<in> set ?num \<Longrightarrow> p \<in> set ?cmp" for p by (simp add: of_families_in)
  show ?thesis
    unfolding genAggCall_def Let_def
  proof (rule makes_bind [OF makes_gpick], simp)
    fix fn assume fn: "fn \<in> set ([Agg_count] @ (if ?num \<noteq> [] then [Agg_sum, Agg_avg] else []) @
        (if ?cmp \<noteq> [] then [Agg_min, Agg_max] else []))"
    let ?pool = "if fn = Agg_sum \<or> fn = Agg_avg then ?num else ?cmp"
    have star: "makes k (if fn = Agg_count then (if ?cmp = [] then ret True else roll 50) else ret False)
        (\<lambda>b. \<not> b \<longrightarrow> fn = Agg_count \<longrightarrow> ?cmp \<noteq> [])"
      by (auto intro: gives_ret makes_conseq [OF makes_roll])
    have pool: "?pool \<noteq> []" if "fn = Agg_count \<longrightarrow> ?cmp \<noteq> []"
      using fn that by (auto split: if_splits)
    have "agg_ok sc (Expr (AggCall fn (Some (colExpr c)) d) (case fn of Agg_count \<Rightarrow> CT_INT | Agg_avg \<Rightarrow> CT_REAL | _ \<Rightarrow> col_type (snd c)))"
      if c: "c \<in> set ?pool" for c d
    proof -
      have col: "column_in sc (colExpr c)" using c by (auto intro: colExpr_in simp: of_families_in split: if_splits)
      show ?thesis
        using c agg_count [OF col, of d] agg_avg [OF col, of d] agg_sum [OF col, of d] agg_minmax [OF col, of _ d]
        by (cases fn) (auto simp: of_families_in)
    qed
    with star pool agg_star
    show "makes k (bind (if fn = Agg_count then (if ?cmp = [] then ret True else roll 50) else ret False) (\<lambda>star.
      if star then ret (Expr (AggCall Agg_count None False) CT_INT)
      else bind (gpick ?pool) (\<lambda>c. bind (roll 25) (\<lambda>is_distinct.
        ret (Expr (AggCall fn (Some (colExpr c)) is_distinct)
          (case fn of Agg_count \<Rightarrow> CT_INT | Agg_avg \<Rightarrow> CT_REAL | _ \<Rightarrow> col_type (snd c))))))) (agg_ok sc)"
      by (intro makes_bind [OF star] gives_if gives_ret makes_bind [OF makes_gpick] makes_bind [OF makes_roll]) auto
  qed
qed

lemma makes_maybe_ref: "makes k (maybe_ref sc p) (\<lambda>rs. \<forall>c\<in>set rs. \<exists>ty. in_scope sc c ty)"
  unfolding maybe_ref_def
  by (rule makes_bind [OF makes_and_roll], rule gives_if, rule makes_bind [OF makes_gpick])
    (auto intro!: gives_ret simp: in_scope_def ref_of_def split: prod.split, metis fst_conv snd_conv)

definition window_arg_ok :: "scope \<Rightarrow> win_func \<Rightarrow> expr option \<times> column_type \<Rightarrow> bool" where
  "window_arg_ok sc fn r \<longleftrightarrow> (case r of (arg, ty) \<Rightarrow>
     (case arg of None \<Rightarrow> fn \<in> {Win_rowNumber, Win_rank, Win_denseRank, Win_count} \<and> ty = CT_INT
      | Some c \<Rightarrow> column_in sc c \<and> (fn = Win_count \<and> ty = CT_INT
          \<or> fn = Win_sum \<and> fam c = Fam_numeric \<and> ty = expr_type c
          \<or> fn = Win_avg \<and> fam c = Fam_numeric \<and> ty = CT_REAL
          \<or> (fn = Win_min \<or> fn = Win_max) \<and> (fam c = Fam_numeric \<or> fam c = Fam_string) \<and> ty = expr_type c)))"

lemma makes_window_arg:
  assumes "fn = Win_sum \<or> fn = Win_avg \<Longrightarrow> of_families {Fam_numeric} sc \<noteq> []"
    and "fn = Win_min \<or> fn = Win_max \<Longrightarrow> of_families {Fam_numeric, Fam_string} sc \<noteq> []"
  shows "makes k (window_arg sc fn) (window_arg_ok sc fn)"
  unfolding window_arg_def
  using assms
  by (cases fn) (auto intro!: gives_ret makes_bind [OF makes_and_roll] makes_bind [OF makes_gpick] gives_if
      simp: window_arg_ok_def colExpr_in of_families_in)

lemma makes_windowCall: "makes k (genWindowCall sc) (window_ok sc)"
proof -
  have ok: "window_ok sc (Expr (WindowCall fn arg parts ords) ty)"
    if "window_arg_ok sc fn (arg, ty)" "\<forall>c\<in>set parts. \<exists>ty. in_scope sc c ty" "\<forall>c\<in>set ords. \<exists>ty. in_scope sc c ty"
    for fn arg parts ords ty
    using that by (auto simp: window_ok_def window_arg_ok_def)
  show ?thesis
    unfolding genWindowCall_def
    by (rule makes_bind [OF makes_gpick], simp, rule makes_bind [OF makes_window_arg])
      (auto split: if_splits intro!: makes_bind [OF makes_maybe_ref] gives_ret ok)
qed

section \<open>Joins\<close>

text \<open>
  What is asked of the tables: each has a column, a foreign key has the family of the key it refers to,
  and no name is one a CTE could get.
\<close>

definition keys_match :: "table list \<Rightarrow> bool" where
  "keys_match T \<longleftrightarrow> (\<forall>t\<in>set T. \<forall>u\<in>set T. \<forall>c\<in>set (columns t). \<forall>pk.
     foreign_key_references c \<noteq> 0 \<longrightarrow> obj_id u = foreign_key_references c \<longrightarrow> pkColumn u = Some pk \<longrightarrow>
     familyOf (col_type pk) = familyOf (col_type c))"

definition usable :: "table list \<Rightarrow> bool" where
  "usable T \<longleftrightarrow> keys_match T \<and> (\<forall>t\<in>set T. columns t \<noteq> [] \<and> (\<forall>i. obj_name t \<noteq> ''w'' @ fmt_nat i))"

text \<open>Aliases are distinct, and numbered ones are below the counter.\<close>

definition fresh_scope :: "nat \<Rightarrow> scope \<Rightarrow> bool" where
  "fresh_scope k sc \<longleftrightarrow> distinct (map fst sc) \<and> (\<forall>p\<in>set sc. \<forall>i. fst p = ''u'' @ fmt_nat i \<longrightarrow> i < k)"

lemma fresh_scope_later: "fresh_scope k sc \<Longrightarrow> k \<le> k' \<Longrightarrow> fresh_scope k' sc"
  unfolding fresh_scope_def by (meson less_le_trans)

lemma fresh_scope_insert:
  assumes f: "fresh_scope k (sc @ outer)" and i: "k \<le> i" "i < c"
  shows "fresh_scope c ((sc @ [(''u'' @ fmt_nat i, t)]) @ outer)"
  unfolding fresh_scope_def
proof (intro conjI ballI allI impI)
  have old: "j < k" if "p \<in> set (sc @ outer)" "fst p = ''u'' @ fmt_nat j" for p j
    using f that unfolding fresh_scope_def by blast
  have "''u'' @ fmt_nat i \<notin> fst ` set (sc @ outer)"
  proof
    assume "''u'' @ fmt_nat i \<in> fst ` set (sc @ outer)"
    then obtain p where p: "p \<in> set (sc @ outer)" "fst p = ''u'' @ fmt_nat i" by (elim imageE) simp
    from old [OF p] i(1) show False by simp
  qed
  then show "distinct (map fst ((sc @ [(''u'' @ fmt_nat i, t)]) @ outer))"
    using f unfolding fresh_scope_def by (simp add: image_Un)
  fix p j assume p: "p \<in> set ((sc @ [(''u'' @ fmt_nat i, t)]) @ outer)" "fst p = ''u'' @ fmt_nat j"
  show "j < c"
  proof (cases "p \<in> set (sc @ outer)")
    case True
    from old [OF this p(2)] i show ?thesis by simp
  next
    case False
    with p(1) have "fst p = ''u'' @ fmt_nat i" by simp
    with p(2) have "j = i" by simp
    with i(2) show ?thesis by simp
  qed
qed

lemma pkColumn_in: "pkColumn t = Some c \<Longrightarrow> c \<in> set (columns t)"
  unfolding pkColumn_def
  by (auto split: list.splits) (metis filter_is_subset list.set_intros(1) subsetD)

lemma edges_ok:
  assumes V: "keys_match V" "set cands \<subseteq> set V" "base \<in> set V"
    and e: "e \<in> set (parent_edges cands base @ child_edges cands base)"
  shows "ed_tbl e \<in> set cands \<and> ed_new e \<in> set (columns (ed_tbl e)) \<and> ed_base e \<in> set (columns base) \<and>
    familyOf (col_type (ed_new e)) = familyOf (col_type (ed_base e))"
  using e unfolding set_append
proof
  assume "e \<in> set (parent_edges cands base)"
  then obtain c p pk where "c \<in> set (columns base)" "foreign_key_references c \<noteq> 0"
    "List.find (\<lambda>t. obj_id t = foreign_key_references c) cands = Some p" "pkColumn p = Some pk"
    "e = \<lparr>ed_tbl = p, ed_new = pk, ed_base = c\<rparr>"
    by (auto simp: parent_edges_def List.map_filter_def split: if_splits option.splits)
  moreover from this have "p \<in> set cands" "obj_id p = foreign_key_references c"
    by (auto simp: find_Some_iff)
  ultimately show ?thesis using V pkColumn_in [of p pk] unfolding keys_match_def by auto
next
  assume "e \<in> set (child_edges cands base)"
  then obtain t c pk where "t \<in> set cands" "c \<in> set (columns t)" "foreign_key_references c \<noteq> 0"
    "foreign_key_references c = obj_id base" "pkColumn base = Some pk" "e = \<lparr>ed_tbl = t, ed_new = c, ed_base = pk\<rparr>"
    by (auto simp: child_edges_def List.map_filter_def split: if_splits option.splits)
  then show ?thesis using V pkColumn_in [of base pk] unfolding keys_match_def by auto
qed

lemma equate_ok:
  assumes "base \<in> set sc" "bc \<in> set (columns (snd base))" "nc \<in> set (columns t)"
    "familyOf (col_type nc) = familyOf (col_type bc)"
  shows "join_cond (sc @ [(alias, t)]) (equate alias nc (fst base) bc)"
proof -
  have "column_in (sc @ [(alias, t)]) (colExpr (alias, nc))" "column_in (sc @ [(alias, t)]) (colExpr (fst base, bc))"
    using assms(1-3) by (auto intro!: colExpr_in simp: scope_columns_in) (metis prod.collapse)
  then show ?thesis using assms(4) unfolding join_cond_def equate_def by fastforce
qed

lemma makes_choose_join:
  assumes V: "keys_match V" "set cands \<subseteq> set V" "cands \<noteq> []" and base: "base \<in> set sc" "snd base \<in> set V"
  shows "makes k (choose_join cands alias base haveCross)
    (\<lambda>(t, cond). t \<in> set cands \<and> (\<forall>e. cond = Some e \<longrightarrow> join_cond (sc @ [(alias, t)]) e))"
proof -
  let ?edges = "parent_edges cands (snd base) @ child_edges cands (snd base)"
  have edge: "join_cond (sc @ [(alias, ed_tbl e)]) (equate alias (ed_new e) (fst base) (ed_base e))" "ed_tbl e \<in> set cands"
    if "e \<in> set ?edges" for e
    using edges_ok [OF V(1,2) base(2) that] equate_ok [OF base(1)] by simp_all
  have pair: "join_cond (sc @ [(alias, t)]) (equate alias nc (fst base) bc)"
    if "(bc, nc) \<in> set (column_pairs (snd base) t)" for bc nc t
    using that by (intro equate_ok [OF base(1)]) (auto simp: column_pairs_def split: if_splits)
  show ?thesis
    unfolding choose_join_def Let_def
    by (rule makes_bind [OF makes_and_roll], rule gives_if, rule makes_bind [OF makes_gpick], simp,
        rule gives_ret, simp add: edge, rule makes_bind [OF makes_and_roll], rule gives_if,
        rule makes_bind [OF makes_gpick [OF V(3)]], rule gives_ret, simp,
        rule makes_bind [OF makes_gpick [OF V(3)]], rule gives_if, rule gives_ret, simp,
        rule makes_bind [OF makes_gpick])
      (auto intro!: gives_ret pair)
qed

lemma makes_choose_kind:
  "makes k (choose_kind p cond) (\<lambda>kind. (kind = Join_cross \<longleftrightarrow> cond = None) \<and> (p = Purpose_pkSelect \<longrightarrow> kind \<noteq> Join_right))"
  unfolding choose_kind_def
  by (cases cond) (auto intro!: gives_ret makes_bind [OF makes_gdraw] split: if_splits)

lemma joined_append: "joined T sc js sc' \<Longrightarrow> joined T sc' js' sc'' \<Longrightarrow> joined T sc (js @ js') sc''"
proof (induction js arbitrary: sc)
  case (Cons j js)
  then show ?case by (cases j) auto
qed simp

definition joins_made :: "table list \<Rightarrow> purpose \<Rightarrow> scope \<Rightarrow> scope \<Rightarrow> join list \<times> scope \<Rightarrow> nat \<Rightarrow> bool" where
  "joins_made V p start outer r c \<longleftrightarrow> (case r of (js, sc) \<Rightarrow> joined V start js sc \<and> fresh_scope c (sc @ outer) \<and>
     snd ` set sc \<subseteq> set V \<and> set start \<subseteq> set sc \<and> (p = Purpose_pkSelect \<longrightarrow> (\<forall>j\<in>set js. jn_kind j \<noteq> Join_right)))"

lemma joins_made_later: "joins_made V p start outer r k \<Longrightarrow> k \<le> c \<Longrightarrow> joins_made V p start outer r c"
  unfolding joins_made_def by (auto elim: fresh_scope_later)

lemma gives_joins:
  assumes V: "keys_match V" "set cands \<subseteq> set V" "cands \<noteq> []" and "joins_made V p start outer (js, sc) k" and "sc \<noteq> []"
  shows "gives k (gen_joins n cfg p cands js sc haveCross) (joins_made V p start outer)"
  using assms(4,5)
proof (induction n arbitrary: k js sc haveCross)
  case 0
  then show ?case by (auto intro!: gives_ret elim: joins_made_later)
next
  case (Suc n)
  have stop: "gives k' (ret (js, sc)) (joins_made V p start outer)" if "k \<le> k'" for k'
    by (rule gives_ret, rule joins_made_later [OF Suc.prems(1)]) (use that in simp)
  show ?case
    unfolding gen_joins.simps
  proof (rule makes_bind [OF makes_roll], rule gives_if, rule stop, simp, rule makes_bind [OF makes_gpick [OF Suc.prems(2)]])
    fix base assume base: "base \<in> set sc"
    then have bV: "snd base \<in> set V" using Suc.prems(1) by (auto simp: joins_made_def)
    show "gives k (bind freshAlias (\<lambda>alias. bind (choose_join cands alias base haveCross) (\<lambda>(joined, cond).
       if cond = None \<and> haveCross then ret (js, sc)
       else bind (choose_kind p cond) (\<lambda>kind.
         gen_joins n cfg p cands (js @ [Join kind \<lparr>ts_table = obj_name joined, ts_alias = alias\<rparr> cond])
           (sc @ [(alias, joined)]) (haveCross \<or> cond = None))))) (joins_made V p start outer)"
      unfolding freshAlias_def
    proof (rule gives_bind [OF gives_next_alias], elim exE conjE)
      fix al c i assume a: "k \<le> c" "al = ''u'' @ fmt_nat i" "k \<le> i" "i < c"
      show "gives c (bind (choose_join cands al base haveCross) (\<lambda>(joined, cond).
         if cond = None \<and> haveCross then ret (js, sc)
         else bind (choose_kind p cond) (\<lambda>kind.
           gen_joins n cfg p cands (js @ [Join kind \<lparr>ts_table = obj_name joined, ts_alias = al\<rparr> cond])
             (sc @ [(al, joined)]) (haveCross \<or> cond = None)))) (joins_made V p start outer)"
      proof (rule makes_bind [OF makes_choose_join [OF V base bV]], clarsimp split del: if_split, rule gives_if,
          rule stop [OF a(1)], rule makes_bind [OF makes_choose_kind])
        fix t cond kind
        assume t: "t \<in> set cands" "\<forall>e. cond = Some e \<longrightarrow> join_cond (sc @ [(al, t)]) e"
          and kind: "(kind = Join_cross \<longleftrightarrow> cond = None) \<and> (p = Purpose_pkSelect \<longrightarrow> kind \<noteq> Join_right)"
        have "joined V sc [Join kind \<lparr>ts_table = obj_name t, ts_alias = al\<rparr> cond] (sc @ [(al, t)])"
          using t kind V(2) by (auto split: option.splits)
        moreover have "fresh_scope c ((sc @ [(al, t)]) @ outer)"
          unfolding a(2) by (rule fresh_scope_insert [OF _ a(3,4)]) (use Suc.prems(1) in \<open>simp add: joins_made_def\<close>)
        ultimately have "joins_made V p start outer (js @ [Join kind \<lparr>ts_table = obj_name t, ts_alias = al\<rparr> cond], sc @ [(al, t)]) c"
          using Suc.prems(1) t(1) V(2) kind joined_append by (fastforce simp: joins_made_def simp del: joined.simps)
        then show "gives c (gen_joins n cfg p cands (js @ [Join kind \<lparr>ts_table = obj_name t, ts_alias = al\<rparr> cond])
             (sc @ [(al, t)]) (haveCross \<or> cond = None)) (joins_made V p start outer)"
          by (rule Suc.IH) simp
      qed
    qed
  qed
qed

end
