(* ===== verification/Query_Sound.thy ===== *)
theory Query_Sound
  imports Query_Soundness
begin

text \<open>
  The recursive functions of the generator: with enough of the calculus from the leaves, induction on the
  depth and then on the subquery levels left gives that \<open>genQuery\<close> only makes well-formed queries.
\<close>

section \<open>Expressions\<close>

lemma expr_ok_mono:
  "expr_ok n T sc e \<Longrightarrow> \<forall>m\<ge>n. expr_ok m T sc e"
  "query_ok x n T outer q \<Longrightarrow> \<forall>m\<ge>n. query_ok x m T outer q"
proof (induction rule: expr_ok_query_ok.inducts)
  case (ok_in_sub n T sc e q neg)
  then show ?case by (metis Suc_le_D Suc_le_mono expr_ok_query_ok.ok_in_sub)
next
  case (ok_exists n T sc q neg)
  then show ?case by (metis Suc_le_D Suc_le_mono expr_ok_query_ok.ok_exists)
next
  case (ok_scalar n T sc q ty)
  then show ?case by (metis Suc_le_D Suc_le_mono expr_ok_query_ok.ok_scalar)
next
  case (ok_query cs n T rhs x T' t "from" js sc outer es wher gs having ords off lim dist lock kind)
  show ?case
  proof (intro allI impI)
    fix m assume m: "n \<le> m"
    then have m1: "n - 1 \<le> m - 1" by simp
    show "query_ok x m T outer (QuerySpec cs from js dist (number_items es) wher gs having ords lim off lock rhs kind)"
      by (rule expr_ok_query_ok.ok_query [where T' = T' and t = t and sc = sc])
        (use ok_query m m1 in \<open>assumption | blast\<close>)+
  qed
next
  case (ok_case whens n T sc ty els)
  show ?case
  proof (intro allI impI)
    fix m assume m: "n \<le> m"
    show "expr_ok m T sc (Expr (CaseExpr whens (Some els)) ty)"
      by (rule expr_ok_query_ok.ok_case) (use ok_case m in \<open>fastforce+\<close>)
  qed
qed (auto intro: expr_ok_query_ok.intros)

abbreviation scalar_ok :: "table list \<Rightarrow> scope \<Rightarrow> column_type \<Rightarrow> expr \<Rightarrow> bool" where
  "scalar_ok T sc ty e \<equiv> expr_ok 0 T sc e \<and> fam e = familyOf ty"

lemma scalar_leaf: "makes k (genLeaf ty sc) (scalar_ok T sc ty)"
  by (rule makes_conseq [OF makes_genLeaf]) (auto simp: leaf_ok)

lemma int_literal_ok: "0 \<le> k \<Longrightarrow> k \<le> 1000000 \<Longrightarrow> expr_ok n T sc (Expr (Literal (Lit_int k)) CT_INT)"
  by (rule ok_literal) simp

lemma fam_simps [simp]: "fam (Expr v ty) = familyOf ty" "fam (binary op ty l r) = familyOf ty"
  "expr_type (binary op ty l r) = ty"
  by (simp_all add: fam_def binary_def)

lemma not_leaf_only: "\<not> leaf_only f \<longleftrightarrow> f = Fam_numeric \<or> f = Fam_string"
  by (cases f) (simp_all add: leaf_only_def)

lemma genScalar_level:
  assumes scal: "\<And>ty. makes k (genScalar G ty sc (d - 1) ag) (scalar_ok T sc ty)"
    and cond: "0 < d \<Longrightarrow> makes k (genBool G sc (d - 1) (max_subquery_depth (gp_cfg G)) ag) (cond_ok 0 T sc)"
  shows "makes k (genScalar G ty sc d ag) (scalar_ok T sc ty)"
proof (cases "d = 0 \<or> leaf_only (familyOf ty)")
  case True
  then show ?thesis by (subst genScalar.simps) (simp add: scalar_leaf)
next
  case False
  have lit: "makes k (genLiteral ty 0) (scalar_ok T sc ty)" by (rule makes_literal_ok)
  have int: "makes k (intLeaf sc) (\<lambda>e. expr_ok 0 T sc e \<and> expr_type e = CT_INT)"
    by (rule makes_conseq [OF makes_intLeaf]) (simp add: leaf_ok)
  have whens: "makes k (map_prog (\<lambda>_. bind (genBool G sc (d - 1) (max_subquery_depth (gp_cfg G)) ag) (\<lambda>w.
      bind (genScalar G ty sc (d - 1) ag) (\<lambda>t. ret (w, t)))) [0..<m])
      (\<lambda>ws. length ws = length [0..<m] \<and> (\<forall>p\<in>set ws. cond_ok 0 T sc (fst p) \<and> scalar_ok T sc ty (snd p)))" for m
    by (intro makes_map_prog makes_bind [OF cond] makes_bind [OF scal] gives_ret) (use False in auto)
  note binds = makes_bind [OF scalar_leaf [where T = T]] makes_bind [OF lit] makes_bind [OF scal]
    makes_bind [OF int] makes_bind [OF whens] makes_bind [OF makes_gdraw] makes_bind [OF makes_gbool]
  show ?thesis
    unfolding genScalar.simps [of G ty sc d ag] if_not_P [OF False]
  proof (rule makes_bind [OF makes_gpick], simp add: scalar_choices_def)
    fix pick assume pick: "pick \<in> set (scalar_choices (familyOf ty))"
    show "makes k (case pick of
        Sp_leaf \<Rightarrow> genLeaf ty sc
      | Sp_literal \<Rightarrow> genLiteral ty 0
      | Sp_arith \<Rightarrow> bind (gpick [Bin_add, Bin_sub, Bin_mul, Bin_div]) (\<lambda>op.
          if op = Bin_mul then bind (genLeaf ty sc) (\<lambda>l. bind (gdraw 1 10) (\<lambda>n.
            ret (binary op ty l (Expr (Literal (Lit_int (int n))) CT_INT))))
          else bind (genScalar G ty sc (d - 1) ag) (\<lambda>l. bind (genScalar G ty sc (d - 1) ag) (\<lambda>r.
            ret (binary op ty l (if op = Bin_div then wrapNullifZero r else r)))))
      | Sp_mod \<Rightarrow> bind (intLeaf sc) (\<lambda>l. bind (intLeaf sc) (\<lambda>r. ret (binary Bin_mod CT_INT l (wrapNullifZero r))))
      | Sp_absFn \<Rightarrow> bind (genScalar G ty sc (d - 1) ag) (\<lambda>e. ret (Expr (FuncCall Fn_abs [e]) ty))
      | Sp_lengthFn \<Rightarrow> bind (genLeaf CT_VARCHAR sc) (\<lambda>e. ret (Expr (FuncCall Fn_length [e]) CT_INT))
      | Sp_coalesceFn \<Rightarrow> bind (genLeaf ty sc) (\<lambda>e. bind (genLiteral ty 0) (\<lambda>l.
          ret (Expr (FuncCall Fn_coalesce [e, l]) ty)))
      | Sp_nullifFn \<Rightarrow> bind (genLeaf ty sc) (\<lambda>e. bind (genLiteral ty 0) (\<lambda>l.
          ret (Expr (FuncCall Fn_nullif [e, l]) ty)))
      | Sp_caseFn \<Rightarrow> bind (gdraw 1 2) (\<lambda>n.
          bind (map_prog (\<lambda>_. bind (genBool G sc (d - 1) (max_subquery_depth (gp_cfg G)) ag) (\<lambda>w.
            bind (genScalar G ty sc (d - 1) ag) (\<lambda>t. ret (w, t)))) [0..<n]) (\<lambda>whens.
          bind (genScalar G ty sc (d - 1) ag) (\<lambda>e. ret (Expr (CaseExpr whens (Some e)) ty))))
      | Sp_lowerUpper \<Rightarrow> bind gbool (\<lambda>b. bind (genScalar G ty sc (d - 1) ag) (\<lambda>e.
          ret (Expr (FuncCall (if b then Fn_lower else Fn_upper) [e]) ty)))
      | Sp_concat \<Rightarrow> bind (genScalar G ty sc (d - 1) ag) (\<lambda>l. bind (genScalar G ty sc (d - 1) ag) (\<lambda>r.
          ret (binary Bin_concat ty l r)))) (scalar_ok T sc ty)"
    proof (cases pick)
      case Sp_arith
      then have num: "familyOf ty = Fam_numeric" using pick by (auto simp: scalar_choices_def split: if_splits)
      have "scalar_ok T sc ty (binary op ty l (if op = Bin_div then wrapNullifZero r else r))"
        if "op \<in> set [Bin_add, Bin_sub, Bin_mul, Bin_div]" "scalar_ok T sc ty l" "scalar_ok T sc ty r" for op l r
        using that num by (auto intro: ok_arith ok_div)
      moreover have "scalar_ok T sc ty (binary Bin_mul ty l (Expr (Literal (Lit_int (int n))) CT_INT))"
        if "scalar_ok T sc ty l" "n \<le> 10" for l n
        using that num by (auto simp del: One_nat_def intro!: ok_arith int_literal_ok)
      ultimately show ?thesis using Sp_arith
        by (simp split del: if_split) (intro makes_bind [OF makes_gpick] gives_if; (intro binds gives_ret)?; simp)
    next
      case Sp_mod
      then have num: "familyOf ty = Fam_numeric" using pick by (auto simp: scalar_choices_def split: if_splits)
      then show ?thesis using Sp_mod by (auto simp del: One_nat_def intro!: binds gives_ret ok_mod)
    next
      case Sp_absFn
      then have num: "familyOf ty = Fam_numeric" using pick by (auto simp: scalar_choices_def split: if_splits)
      then show ?thesis using Sp_absFn by (auto simp del: One_nat_def intro!: binds gives_ret ok_abs)
    next
      case Sp_lengthFn
      then have num: "familyOf ty = Fam_numeric" using pick by (auto simp: scalar_choices_def split: if_splits)
      then show ?thesis using Sp_lengthFn by (auto simp del: One_nat_def intro!: binds gives_ret ok_length)
    next
      case Sp_caseFn
      then show ?thesis by (auto simp del: One_nat_def intro!: binds gives_ret ok_case)
    next
      case Sp_lowerUpper
      then have num: "familyOf ty = Fam_string" using pick by (auto simp: scalar_choices_def split: if_splits)
      then show ?thesis using Sp_lowerUpper by (auto simp del: One_nat_def intro!: binds gives_ret ok_case_fn split: if_splits)
    next
      case Sp_concat
      then have num: "familyOf ty = Fam_string" using pick by (auto simp: scalar_choices_def split: if_splits)
      then show ?thesis using Sp_concat by (auto simp del: One_nat_def intro!: binds gives_ret ok_concat)
    qed (auto simp del: One_nat_def intro!: scalar_leaf lit binds gives_ret ok_pair_fn)
  qed
qed

section \<open>Subqueries in conditions\<close>

inductive_simps query_ok_iff: "query_ok x n T outer (QuerySpec cs from js dist items wher gs having ords lim off lock rhs kind)"

lemma fmt_nat_0: "fmt_nat 0 = ''0''"
  by code_simp

lemma number_items_simps [simp]: "map fst (number_items es) = es" "length (number_items es) = length es"
  "number_items [e] = [(e, ''c0'')]" "i < length es \<Longrightarrow> fst (number_items es ! i) = es ! i"
  by (auto simp: number_items_def fmt_nat_0 intro: nth_equalityI)

lemma groups_ok_subset:
  assumes "groups_ok sc es gs having" and "\<forall>e\<in>set es'. e \<in> set es \<or> literal_in e"
  shows "groups_ok sc es' gs having"
proof -
  have "\<not> agg_ok sc e" if "literal_in e" for e
    using that by (auto simp: literal_in_def elim: agg_ok.cases)
  then have "\<exists>e\<in>set es. agg_ok sc e" if "\<exists>e\<in>set es'. agg_ok sc e" using assms(2) that by blast
  with assms show ?thesis unfolding groups_ok_def by blast
qed

lemma items_of_simps [simp]:
  "items_of (QuerySpec cs from js dist (number_items es) wher gs having ords lim off lock rhs kind) = es"
  by (simp add: items_of_def)

text \<open>A query keeps its form when its select list is cut, or items are replaced by constants.\<close>

lemma query_ok_reitem:
  assumes q: "query_ok False n T outer (QuerySpec cs from js dist (number_items es) wher gs having ords lim off lock rhs kind)"
    and es': "\<forall>e\<in>set es'. e \<in> set es \<or> literal_in e" "es' \<noteq> []" and off: "off' \<noteq> None \<longrightarrow> lim' \<noteq> None"
  shows "query_ok False n T outer (QuerySpec cs from js dist (number_items es') wher gs having [] lim' off' lock rhs kind)"
  using q unfolding query_ok_iff
proof (elim exE conjE)
  fix t sc es0
  assume eq: "number_items es = number_items es0"
    and items: "\<forall>e\<in>set es0. expr_ok 0 T sc e \<or> agg_ok sc e \<or> False \<and> window_ok sc e" and g: "groups_ok sc es0 gs having"
    and lock: "lock_ok (QuerySpec cs from js dist (number_items es0) wher gs having ords lim off lock rhs kind)"
    and x: "(cs = [] \<longrightarrow> (\<exists>y. rhs = Some y)) \<longrightarrow> False"
    and *: "\<forall>x\<in>set cs. case x of (name, x) \<Rightarrow> query_ok False (n - Suc 0) T [] x" "fst ` set cs \<inter> obj_name ` set T = {}"
    "t \<in> set T \<or> t \<in> (\<lambda>x. case x of (x, xa) \<Rightarrow> synth_table x xa) ` set cs" "obj_name t = ts_table from"
    "joined (T @ map (\<lambda>(x, y). synth_table x y) cs) [(ts_alias from, t)] js sc"
    "distinct (map fst sc)" "distinct (map fst outer)" "fst ` set sc \<inter> fst ` set outer = {}"
    "\<forall>e. wher = Some e \<longrightarrow> (expr_ok n T sc e \<or> expr_ok n T (sc @ outer) e) \<and> expr_type e = CT_BOOL"
  have es: "es0 = es" using arg_cong [OF eq, of "map fst"] by simp
  have rhs: "rhs = None" using x by (cases rhs) auto
  have lit: "expr_ok 0 T sc e" if "literal_in e" for e using that by (auto simp: literal_in_def intro: ok_literal)
  have 1: "\<forall>e\<in>set es'. expr_ok 0 T sc e \<or> agg_ok sc e \<or> False \<and> window_ok sc e" using items es'(1) lit es by blast
  have 2: "groups_ok sc es' gs having" using groups_ok_subset [OF g] es es'(1) by blast
  have 3: "lock_ok (QuerySpec cs from js dist (number_items es') wher gs having [] lim' off' lock rhs kind)"
    using lock by (simp add: lock_ok_def)
  have 4: "order_ok es' (\<exists>y. rhs = Some y) []" by (simp add: order_ok_def)
  have 5: "(\<exists>y. off' = Some y) \<longrightarrow> (\<exists>y. lim' = Some y)" using off by auto
  have 6: "\<forall>r. rhs = Some r \<longrightarrow> query_ok False (n - Suc 0) T [] r \<and> map fam (items_of r) = map fam es'" by (simp add: rhs)
  show "\<exists>t sc esa. number_items es' = number_items esa \<and>
     (\<forall>x\<in>set cs. case x of (name, x) \<Rightarrow> query_ok False (n - Suc 0) T [] x) \<and>
     ((cs = [] \<longrightarrow> (\<exists>y. rhs = Some y)) \<longrightarrow> False) \<and> fst ` set cs \<inter> obj_name ` set T = {} \<and>
     (t \<in> set T \<or> t \<in> (\<lambda>x. case x of (x, xa) \<Rightarrow> synth_table x xa) ` set cs) \<and> obj_name t = ts_table from \<and>
     joined (T @ map (\<lambda>(x, y). synth_table x y) cs) [(ts_alias from, t)] js sc \<and>
     distinct (map fst sc) \<and> distinct (map fst outer) \<and> fst ` set sc \<inter> fst ` set outer = {} \<and> esa \<noteq> [] \<and>
     (\<forall>e\<in>set esa. expr_ok 0 T sc e \<or> agg_ok sc e \<or> False \<and> window_ok sc e) \<and>
     (\<forall>e. wher = Some e \<longrightarrow> (expr_ok n T sc e \<or> expr_ok n T (sc @ outer) e) \<and> expr_type e = CT_BOOL) \<and>
     groups_ok sc esa gs having \<and> order_ok esa (\<exists>y. rhs = Some y) [] \<and>
     ((\<exists>y. off' = Some y) \<longrightarrow> (\<exists>y. lim' = Some y)) \<and>
     (\<forall>r. rhs = Some r \<longrightarrow> query_ok False (n - Suc 0) T [] r \<and> map fam (items_of r) = map fam esa) \<and>
     lock_ok (QuerySpec cs from js dist (number_items esa) wher gs having [] lim' off' lock rhs kind)"
    by (rule exI [of _ t], rule exI [of _ sc], rule exI [of _ es']) (intro conjI; (rule refl | fact))
qed

lemma query_ok_items:
  assumes "query_ok x n T outer q"
  obtains cs "from" js dist es wher gs having ords lim off lock rhs kind where
    "q = QuerySpec cs from js dist (number_items es) wher gs having ords lim off lock rhs kind" "es \<noteq> []"
proof -
  obtain cs "from" js dist items wher gs having ords lim off lock rhs kind where
    q: "q = QuerySpec cs from js dist items wher gs having ords lim off lock rhs kind" by (cases q)
  with assms have "\<exists>es. items = number_items es \<and> es \<noteq> []" unfolding q query_ok_iff by blast
  with q that show ?thesis by blast
qed

lemma trim_ok:
  assumes "query_ok False n T outer q" and "i < length (items_of q)"
  shows "\<exists>q'. trimToSingleItem q i = Ok q' \<and> query_ok False n T outer q' \<and> items_of q' = [items_of q ! i] \<and>
    qs_orderBy q' = [] \<and> qs_limit q' = None \<and> qs_offset q' = None"
proof -
  obtain cs "from" js dist es wher gs having ords lim off lock rhs kind where
    q: "q = QuerySpec cs from js dist (number_items es) wher gs having ords lim off lock rhs kind"
    using assms(1) by (rule query_ok_items)
  have "query_ok False n T outer (QuerySpec cs from js dist (number_items [es ! i]) wher gs having [] None None lock rhs kind)"
    using assms q by (intro query_ok_reitem [where es = es]) auto
  then show ?thesis using assms(2) q by (simp add: items_of_def)
qed

lemma set_limit_ok:
  assumes "query_ok False n T outer q" and "qs_orderBy q = []"
  shows "query_ok False n T outer (set_limit l q)" "items_of (set_limit l q) = items_of q"
    "qs_orderBy (set_limit l q) = qs_orderBy q" "qs_limit (set_limit l q) = Some l" "qs_offset (set_limit l q) = qs_offset q"
proof -
  obtain cs "from" js dist es wher gs having ords lim off lock rhs kind where
    q: "q = QuerySpec cs from js dist (number_items es) wher gs having ords lim off lock rhs kind" "es \<noteq> []"
    using assms(1) by (rule query_ok_items)
  show "query_ok False n T outer (set_limit l q)"
    using assms q by (auto intro: query_ok_reitem [where es = es])
qed (cases q; simp add: items_of_def)+

lemma makes_keep_one:
  assumes q: "query_ok False n T sc q"
  shows "makes k (keep_one f q) (\<lambda>r. \<forall>e. r = Some e \<longrightarrow> expr_ok (Suc n) T sc e \<and> fam e = f)"
proof -
  let ?m = "filter (\<lambda>i. familyOf (expr_type (fst (qs_selectItems q ! i))) = f) [0..<length (qs_selectItems q)]"
  have one: "makes k (bind (lift_result (trimToSingleItem q i)) (\<lambda>q. ret (Some (Expr (ScalarSubquery (set_limit 1 q)) (representative f)))))
      (\<lambda>r. \<forall>e. r = Some e \<longrightarrow> expr_ok (Suc n) T sc e \<and> fam e = f)" if "i \<in> set ?m" for i
  proof -
    have i: "i < length (items_of q)" "fam (items_of q ! i) = f" using that by (auto simp: items_of_def fam_def)
    obtain q' where q': "trimToSingleItem q i = Ok q'" "query_ok False n T sc q'" "items_of q' = [items_of q ! i]"
        "qs_orderBy q' = []" "qs_offset q' = None"
      using trim_ok [OF q i(1)] by blast
    have "expr_ok (Suc n) T sc (Expr (ScalarSubquery (set_limit 1 q')) (representative f))"
      using set_limit_ok [OF q'(2,4), of 1] q' i(2) by (intro ok_scalar) (auto simp: one_item_def)
    then show ?thesis by (auto simp: q'(1) gives_def bind_def lift_result_def ret_def)
  qed
  show ?thesis
    unfolding keep_one_def Let_def
    by (rule gives_if, rule gives_ret, simp, rule makes_bind [OF makes_gpick], assumption, rule one, assumption)
qed

lemma makes_subqueryBool:
  assumes "makes k (genQuery G Purpose_standalone None sc (Suc sd) False) (query_ok False n T sc)"
  shows "makes k (genSubqueryBool G sc sd) (cond_ok (Suc n) T sc)"
  unfolding genSubqueryBool.simps
proof (rule makes_bind [OF assms], rule makes_bind [OF makes_gbool], rule makes_bind [OF makes_gbool], rule gives_if)
  fix sub neg assume sub: "query_ok False n T sc sub"
  show "makes k (ret (Expr (ExistsSubquery sub neg) CT_BOOL)) (cond_ok (Suc n) T sc)"
    using sub by (auto intro!: gives_ret ok_exists)
  have ne: "[0..<length (qs_selectItems sub)] \<noteq> []" by (rule query_ok_items [OF sub]) simp
  show "makes k (bind (gpick [0..<length (qs_selectItems sub)]) (\<lambda>keep. bind (lift_result (trimToSingleItem sub keep)) (\<lambda>sub'.
       bind (genLeaf (expr_type (fst (hd (qs_selectItems sub')))) sc) (\<lambda>arg.
       ret (Expr (InSubquery arg sub' neg) CT_BOOL))))) (cond_ok (Suc n) T sc)"
  proof (rule makes_bind [OF makes_gpick [OF ne]])
    fix i assume "i \<in> set [0..<length (qs_selectItems sub)]"
    then have "i < length (items_of sub)" by (simp add: items_of_def)
    from trim_ok [OF sub this] obtain q' where q': "trimToSingleItem sub i = Ok q'" "query_ok False n T sc q'"
      "items_of q' = [items_of sub ! i]" "qs_orderBy q' = []" "qs_offset q' = None" "qs_limit q' = None" by blast
    have hd: "fst (hd (qs_selectItems q')) = items_of sub ! i"
      using q'(3) by (cases "qs_selectItems q'") (auto simp: items_of_def)
    have "expr_ok (Suc n) T sc (Expr (InSubquery e q' neg) CT_BOOL)" if "leaf sc e" "fam e = fam (items_of sub ! i)" for e
      using that q' by (intro ok_in_sub leaf_ok) (auto simp: one_item_def)
    then have "makes k (bind (genLeaf (expr_type (fst (hd (qs_selectItems q')))) sc) (\<lambda>arg.
       ret (Expr (InSubquery arg q' neg) CT_BOOL))) (cond_ok (Suc n) T sc)"
      unfolding hd by (intro makes_bind [OF makes_genLeaf]) (auto intro!: gives_ret simp: fam_def)
    moreover have "bind (lift_result (Ok q')) f = f q'" for f :: "query_spec \<Rightarrow> expr gen"
      by (simp add: bind_def lift_result_def fun_eq_iff)
    ultimately show "makes k (bind (lift_result (trimToSingleItem sub i)) (\<lambda>sub'.
       bind (genLeaf (expr_type (fst (hd (qs_selectItems sub')))) sc) (\<lambda>arg.
       ret (Expr (InSubquery arg sub' neg) CT_BOOL)))) (cond_ok (Suc n) T sc)" unfolding q'(1) by simp
  qed
qed

section \<open>Conditions\<close>

lemma makes_cmp_op: "makes k (gen_cmp_op f)
  (\<lambda>op. op \<in> {Bin_eq, Bin_ne} \<or> op \<in> {Bin_lt, Bin_le, Bin_gt, Bin_ge} \<and> \<not> leaf_only f)"
  unfolding gen_cmp_op_def
  by (auto intro!: makes_bind [OF makes_gbool] gives_ret makes_conseq [OF makes_gpick] split: if_splits)

lemma makes_pick_bool:
  "makes k (pick_bool c p fams d) (\<lambda>x. (x = Bp_subquery \<longrightarrow> c) \<and> (x = Bp_andOr \<or> x = Bp_notFn \<longrightarrow> 0 < d))"
proof -
  have "makes k (bind (and_roll c p) (\<lambda>nest. gpick (bool_choices fams d @ (if nest then [Bp_subquery, Bp_subquery] else []))))
      (\<lambda>x. (x = Bp_subquery \<longrightarrow> c) \<and> (x = Bp_andOr \<or> x = Bp_notFn \<longrightarrow> 0 < d))"
    by (rule makes_bind [OF makes_and_roll], rule makes_conseq [OF makes_gpick])
      (auto simp: bool_choices_def split: if_splits)
  then show ?thesis by (simp add: pick_bool_def)
qed

lemma genBool_level:
  assumes scal: "\<And>ty. makes k (genScalar G ty sc (d - 1) ag) (scalar_ok T sc ty)"
    and cond: "0 < d \<Longrightarrow> makes k (genBool G sc (d - 1) sd ag) (cond_ok n T sc)"
    and sub: "gp_tables G \<noteq> [] \<and> sd < max_subquery_depth (gp_cfg G) \<Longrightarrow>
      \<exists>m. n = Suc m \<and> makes k (genQuery G Purpose_standalone None sc (Suc sd) False) (query_ok False m T sc)"
  shows "makes k (genBool G sc d sd ag) (cond_ok n T sc)"
proof -
  let ?nest = "gp_tables G \<noteq> [] \<and> sd < max_subquery_depth (gp_cfg G)"
  let ?fams = "scope_families sc"
  have sn: "makes k (genScalar G ty sc (d - 1) ag) (\<lambda>e. expr_ok n T sc e \<and> fam e = familyOf ty)" for ty
    by (rule makes_conseq [OF scal]) (auto dest: expr_ok_mono(1))
  have operand: "makes k (case sub of None \<Rightarrow> ret None | Some q \<Rightarrow> keep_one f q) (\<lambda>r. \<forall>e. r = Some e \<longrightarrow> expr_ok n T sc e \<and> fam e = f)"
    if "\<forall>q. sub = Some q \<longrightarrow> (\<exists>m. n = Suc m \<and> query_ok False m T sc q)" for sub f
    using that by (cases sub) (auto intro: gives_ret makes_keep_one)
  have nested: "makes k (optionally (\<not> leaf_only f \<and> ?nest) p (genQuery G Purpose_standalone None sc (Suc sd) False))
      (\<lambda>sub. \<forall>q. sub = Some q \<longrightarrow> (\<exists>m. n = Suc m \<and> query_ok False m T sc q))" for f p
    by (rule makes_conseq [OF makes_optionally [where P = "\<lambda>q. \<exists>m. n = Suc m \<and> query_ok False m T sc q"]])
      (use sub in \<open>auto intro: makes_conseq\<close>)
  have rhs: "makes k (case kept of Some e \<Rightarrow> ret e | None \<Rightarrow> genScalar G (representative f) sc (d - 1) ag)
      (\<lambda>e. expr_ok n T sc e \<and> fam e = f)" if "\<forall>e. kept = Some e \<longrightarrow> expr_ok n T sc e \<and> fam e = f" for kept f
    using that sn [of "representative f"] by (cases kept) (auto intro: gives_ret)
  have cmp: "makes k (bind (pick_family ?fams) (\<lambda>f. bind (gen_cmp_op f) (\<lambda>op.
          bind (genScalar G (representative f) sc (d - 1) ag) (\<lambda>lhs.
          bind (optionally (\<not> leaf_only f \<and> ?nest) (subquery_prob (gp_cfg G))
            (genQuery G Purpose_standalone None sc (Suc sd) False)) (\<lambda>sub.
          bind (case sub of None \<Rightarrow> ret None | Some q \<Rightarrow> keep_one f q) (\<lambda>kept.
          bind (case kept of Some e \<Rightarrow> ret e | None \<Rightarrow> genScalar G (representative f) sc (d - 1) ag) (\<lambda>rhs.
          ret (binary op CT_BOOL lhs rhs))))))))
      (cond_ok n T sc)"
    by (rule makes_bind [OF makes_family], rule makes_bind [OF makes_cmp_op], rule makes_bind [OF sn],
        rule makes_bind [OF nested], rule makes_bind [OF operand], assumption, rule makes_bind [OF rhs], assumption,
        rule gives_ret) (simp add: ok_cmp)
  show ?thesis
    unfolding genBool.simps [of G sc d sd ag] choosing_def Let_def
  proof (rule makes_bind [OF makes_pick_bool], goal_cases)
    case (1 pick)
    then show ?case
    proof (cases pick)
      case Bp_cmp
      then show ?thesis by (simp only: bool_pick.case) (rule cmp)
    next
      case Bp_andOr
      with 1 have "0 < d" by simp
      note bind = makes_bind [OF cond [OF this]]
      have "cond_ok n T sc (binary (if b then Bin_and else Bin_or) CT_BOOL l r)"
        if "cond_ok n T sc l" "cond_ok n T sc r" for b l r
        using that by (auto intro: ok_logic)
      then show ?thesis using Bp_andOr
        by (simp only: bool_pick.case) (intro makes_bind [OF makes_gbool] bind gives_ret)
    next
      case Bp_notFn
      with 1 have "0 < d" by simp
      note bind = makes_bind [OF cond [OF this]]
      show ?thesis using Bp_notFn
        by (simp only: bool_pick.case) (auto simp del: One_nat_def intro!: bind gives_ret ok_not)
    next
      case Bp_subquery
      with 1 sub obtain m where "n = Suc m" "makes k (genSubqueryBool G sc sd) (cond_ok (Suc m) T sc)"
        using makes_subqueryBool by blast
      then show ?thesis using Bp_subquery by simp
    qed (auto intro: makes_isNull makes_between makes_inList makes_like makes_bool_leaf)
  qed
qed

text \<open>Expressions without subqueries, by induction on the depth.\<close>

lemma makes_flat:
  "(\<forall>ty k. makes k (genScalar G ty sc d ag) (scalar_ok T sc ty)) \<and>
   (\<forall>sd k. max_subquery_depth (gp_cfg G) \<le> sd \<longrightarrow> makes k (genBool G sc d sd ag) (cond_ok 0 T sc))"
proof (induction d)
  case 0
  have "makes k (genScalar G ty sc 0 ag) (scalar_ok T sc ty)" for k ty
    by (subst genScalar.simps) (simp add: scalar_leaf)
  moreover from this have "makes k (genBool G sc 0 sd ag) (cond_ok 0 T sc)" if "max_subquery_depth (gp_cfg G) \<le> sd" for sd k
    by (rule_tac genBool_level) (use that in simp_all)
  ultimately show ?case by blast
next
  case (Suc d)
  then have scal: "makes k (genScalar G ty sc (Suc d - 1) ag) (scalar_ok T sc ty)" for ty k by simp
  have "makes k (genScalar G ty sc (Suc d) ag) (scalar_ok T sc ty)" for ty k
    by (rule genScalar_level [OF scal]) (use Suc in simp)
  moreover have "makes k (genBool G sc (Suc d) sd ag) (cond_ok 0 T sc)" if "max_subquery_depth (gp_cfg G) \<le> sd" for sd k
    by (rule genBool_level [OF scal]) (use Suc that in simp_all)
  ultimately show ?case by blast
qed

lemma makes_genScalar: "makes k (genScalar G ty sc d ag) (scalar_ok T sc ty)"
  using makes_flat by blast

lemma makes_genBool:
  assumes "gp_tables G \<noteq> [] \<and> sd < max_subquery_depth (gp_cfg G) \<Longrightarrow>
      \<exists>m. n = Suc m \<and> makes k (genQuery G Purpose_standalone None sc (Suc sd) False) (query_ok False m T sc)"
  shows "makes k (genBool G sc d sd ag) (cond_ok n T sc)"
proof (induction d)
  case 0
  show ?case by (rule genBool_level [OF makes_genScalar _ assms]) simp_all
next
  case (Suc d)
  show ?case by (rule genBool_level [OF makes_genScalar _ assms]) (use Suc in simp_all)
qed

section \<open>The parts of a query\<close>

lemma ref_of_in_scope: "p \<in> set (scope_columns sc) \<Longrightarrow> \<exists>ty. in_scope sc (ref_of p) ty"
  by (auto simp: in_scope_def)

lemma makes_groups:
  assumes "scope_columns sc \<noteq> []"
  shows "set gs \<subseteq> set (scope_columns sc) \<Longrightarrow> distinct (map ref_of gs) \<Longrightarrow>
    makes k (gen_groups n sc gs) (\<lambda>gs. set gs \<subseteq> set (scope_columns sc) \<and> distinct (map ref_of gs))"
proof (induction n arbitrary: gs)
  case (Suc n)
  show ?case
    unfolding gen_groups.simps
    by (rule makes_bind [OF makes_gpick [OF assms]], rule Suc.IH) (use Suc.prems in auto)
qed (simp add: gives_ret)

text \<open>The select list of a query, its GROUP BY and its HAVING.\<close>

definition list_ok :: "table list \<Rightarrow> scope \<Rightarrow> expr list \<times> column_ref list \<times> expr option \<Rightarrow> bool" where
  "list_ok T sc r \<longleftrightarrow> (case r of (es, gs, having) \<Rightarrow> es \<noteq> [] \<and> groups_ok sc es gs having \<and>
     (\<forall>e\<in>set es. expr_ok 0 T sc e \<or> agg_ok sc e))"

lemma column_colExpr: "colExpr p = Expr (ColumnRef (ref_of p)) (col_type (snd p))"
  by (simp add: colExpr_def ref_of_def)

lemma makes_aggregates:
  assumes "scope_columns sc \<noteq> []"
  shows "makes k (gen_aggregates sc) (list_ok T sc)"
proof -
  have groups: "makes k (gen_groups n sc []) (\<lambda>gs. set gs \<subseteq> set (scope_columns sc) \<and> distinct (map ref_of gs))" for n
    by (rule makes_groups [OF assms]) simp_all
  have aggs: "makes k (map_prog (\<lambda>_. genAggCall sc) [0..<n]) (\<lambda>as. length as = length [0..<n] \<and> (\<forall>a\<in>set as. agg_ok sc a))" for n
    by (intro makes_map_prog makes_aggCall)
  let ?H = "\<lambda>having. \<forall>e. having = Some e \<longrightarrow> (\<exists>op agg lit. e = binary op CT_BOOL agg lit \<and> op \<in> {Bin_gt, Bin_le} \<and>
      agg_ok sc agg \<and> literal_in lit \<and> fam lit = fam agg)"
  have having: "makes k (if b then bind (genAggCall sc) (\<lambda>agg. bind (genLiteral (representative (familyOf (expr_type agg))) 0) (\<lambda>lit.
      bind gbool (\<lambda>gt. ret (Some (binary (if gt then Bin_gt else Bin_le) CT_BOOL agg lit))))) else ret None) ?H" for b
  proof (rule gives_if, rule makes_bind [OF makes_aggCall], rule makes_bind [OF makes_genLiteral], rule makes_bind [OF makes_gbool])
    fix agg lit gt
    assume "agg_ok sc agg" "literal_in lit \<and> expr_type lit = representative (familyOf (expr_type agg))"
    then have "?H (Some (binary (if gt then Bin_gt else Bin_le) CT_BOOL agg lit))"
      by (intro allI impI exI [of _ "if gt then Bin_gt else Bin_le"] exI [of _ agg] exI [of _ lit]) (simp add: fam_def)
    then show "makes k (ret (Some (binary (if gt then Bin_gt else Bin_le) CT_BOOL agg lit))) ?H" by (rule gives_ret)
  qed (simp add: gives_ret)
  have "list_ok T sc (map colExpr gs @ as, map ref_of gs, having)"
    if "set gs \<subseteq> set (scope_columns sc) \<and> distinct (map ref_of gs)" "Suc 0 \<le> length as" "\<forall>a\<in>set as. agg_ok sc a" "?H having" for gs as having
  proof -
    have "expr_ok 0 T sc (colExpr p)" if "p \<in> set gs" for p
      using that \<open>set gs \<subseteq> _ \<and> _\<close> by (intro leaf_ok leaf_column colExpr_in) blast
    moreover have "\<forall>c\<in>set (map ref_of gs). \<exists>ty. in_scope sc c ty" using that(1) ref_of_in_scope by auto
    moreover have "\<forall>e\<in>set (map colExpr gs @ as). agg_ok sc e \<or> (\<exists>c ty. e = Expr (ColumnRef c) ty \<and> c \<in> set (map ref_of gs))"
      using that(3) column_colExpr by auto
    ultimately show ?thesis using that unfolding list_ok_def groups_ok_def by auto
  qed
  then show ?thesis
    unfolding gen_aggregates_def
    by (intro makes_bind [OF makes_gdraw] makes_bind [OF groups] makes_bind [OF aggs] makes_bind [OF makes_roll]
        makes_bind [OF having] gives_ret) auto
qed

lemma ungrouped_ok:
  assumes "es \<noteq> []" and "\<forall>e\<in>set es. expr_ok 0 T sc e"
  shows "list_ok T sc (es, [], None)"
proof -
  have "\<not> agg_ok sc e" if "expr_ok 0 T sc e" for e
    using that by (cases rule: expr_ok.cases) (auto simp: binary_def elim: agg_ok.cases)
  with assms show ?thesis by (auto simp: list_ok_def groups_ok_def)
qed

lemma makes_order: "makes k (gen_order items) (order_ok items False)"
proof -
  have "makes k (map_prog (\<lambda>_. bind (gpick refs) (\<lambda>e. bind gbool (\<lambda>desc. ret (e, desc)))) [0..<n])
      (\<lambda>os. length os = length [0..<n] \<and> (\<forall>p\<in>set os. fst p \<in> set refs))" if "refs \<noteq> []" for refs :: "expr list" and n
    by (intro makes_map_prog makes_bind [OF makes_gpick [OF that]] makes_bind [OF makes_gbool] gives_ret) simp
  then show ?thesis
    unfolding gen_order_def Let_def
    by (intro gives_if gives_ret makes_bind [OF makes_gdraw])
      (fastforce simp: order_ok_def Suc_le_eq intro: makes_conseq)+
qed

lemma makes_output_order: "items \<noteq> [] \<Longrightarrow> makes k (gen_output_order cfg items) (order_ok items True)"
  unfolding gen_output_order_def
  by (rule makes_bind [OF makes_roll], rule gives_if, rule makes_bind [OF makes_gpick], simp, rule makes_bind [OF makes_gbool])
    (auto intro!: gives_ret simp: order_ok_def)

lemma makes_shape: "makes k (shape_items ls rs) (\<lambda>es. map fam es = map fam ls \<and> (\<forall>e\<in>set es. e \<in> set rs \<or> literal_in e))"
proof (induction ls arbitrary: rs)
  case (Cons l ls)
  have one: "makes k (case rs of [] \<Rightarrow> genLiteral (representative (familyOf (expr_type l))) 0
       | r # rs' \<Rightarrow> if familyOf (expr_type r) \<noteq> familyOf (expr_type l)
           then genLiteral (representative (familyOf (expr_type l))) 0 else ret r)
      (\<lambda>e. fam e = fam l \<and> (e \<in> set rs \<or> literal_in e))"
    by (cases rs) (auto intro!: gives_ret makes_conseq [OF makes_genLiteral] simp: fam_def)
  show ?case
    unfolding shape_items.simps
    by (rule makes_bind [OF one], rule makes_bind [OF Cons.IH]) (auto intro!: gives_ret split: list.splits)
qed (simp add: gives_ret)

section \<open>Queries\<close>

text \<open>The tables a query can be over: the snapshot, and the one its CTE adds.\<close>

definition with_cte :: "table list \<Rightarrow> (string \<times> query_spec) option \<Rightarrow> table list" where
  "with_cte T cte = T @ (case cte of None \<Rightarrow> [] | Some (name, body) \<Rightarrow> [synth_table name body])"

definition cte_ok :: "bool \<Rightarrow> nat \<Rightarrow> table list \<Rightarrow> (string \<times> query_spec) option \<Rightarrow> bool" where
  "cte_ok x n T cte \<longleftrightarrow> (\<forall>name body. cte = Some (name, body) \<longrightarrow>
     x \<and> query_ok False (n - 1) T [] body \<and> (\<exists>i. name = ''w'' @ fmt_nat i))"

lemma synth_table_simps [simp]:
  "obj_name (synth_table name body) = name" "obj_id (synth_table name body) = 0"
  "columns (synth_table name body) = map (\<lambda>(e, a). default_column\<lparr>col_name := a, col_type := expr_type e\<rparr>) (qs_selectItems body)"
  by (simp_all add: synth_table_def default_table_def)

lemma with_cte_usable:
  assumes "usable T" and "cte_ok x n T cte"
  shows "keys_match (with_cte T cte)" "\<forall>t\<in>set (with_cte T cte). columns t \<noteq> []"
proof -
  have T: "keys_match T" "\<forall>t\<in>set T. columns t \<noteq> []" using assms(1) by (simp_all add: usable_def)
  have synth: "\<forall>c\<in>set (columns (synth_table name body)). foreign_key_references c = 0" for name body
    by (auto simp: default_column_def)
  show "keys_match (with_cte T cte)"
  proof (cases cte)
    case (Some c)
    obtain name body where c: "cte = Some (name, body)" using Some by (cases c) simp
    show ?thesis
      unfolding keys_match_def
    proof (intro ballI allI impI)
      fix t u col pk
      assume *: "t \<in> set (with_cte T cte)" "u \<in> set (with_cte T cte)" "col \<in> set (columns t)"
        "foreign_key_references col \<noteq> 0" "obj_id u = foreign_key_references col" "pkColumn u = Some pk"
      then have "t \<in> set T" using synth [of name body] by (auto simp: with_cte_def c)
      moreover have "u \<in> set T" using * by (auto simp: with_cte_def c)
      ultimately show "familyOf (col_type pk) = familyOf (col_type col)" using T(1) * unfolding keys_match_def by blast
    qed
  qed (use T in \<open>simp add: with_cte_def\<close>)
  show "\<forall>t\<in>set (with_cte T cte). columns t \<noteq> []"
  proof (cases cte)
    case (Some c)
    obtain name body where c: "cte = Some (name, body)" using Some by (cases c) simp
    then have "query_ok False (n - 1) T [] body" using assms(2) by (simp add: cte_ok_def)
    then have "qs_selectItems body \<noteq> []" by (rule query_ok_items) (auto simp: number_items_def)
    then show ?thesis using T(2) by (simp add: with_cte_def c)
  qed (use T in \<open>simp add: with_cte_def\<close>)
qed

text \<open>Select list and window function together.\<close>

definition items_ok :: "bool \<Rightarrow> table list \<Rightarrow> scope \<Rightarrow> expr list \<Rightarrow> column_ref list \<Rightarrow> expr option \<Rightarrow> bool" where
  "items_ok x T sc es gs having \<longleftrightarrow> es \<noteq> [] \<and> groups_ok sc es gs having \<and>
     (\<forall>e\<in>set es. expr_ok 0 T sc e \<or> agg_ok sc e \<or> x \<and> window_ok sc e)"

definition select_ok :: "bool \<Rightarrow> table list \<Rightarrow> scope \<Rightarrow> expr list \<times> column_ref list \<times> expr option \<Rightarrow> bool" where
  "select_ok isAgg T sc r \<longleftrightarrow> list_ok T sc r \<and> (\<not> isAgg \<longrightarrow> (\<exists>es. r = (es, [], None) \<and> (\<forall>e\<in>set es. expr_ok 0 T sc e)))"

lemma items_with_window:
  assumes s: "select_ok isAgg T sc (es, gs, having)" and w: "\<forall>w. window = Some w \<longrightarrow> (x \<and> \<not> isAgg) \<and> window_ok sc w"
  shows "items_ok x T sc (es @ (case window of None \<Rightarrow> [] | Some w \<Rightarrow> [w])) gs having"
proof (cases window)
  case None
  then show ?thesis using s by (auto simp: select_ok_def list_ok_def items_ok_def)
next
  case (Some w)
  have wok: "x" "window_ok sc w" "\<not> isAgg" using w Some by auto
  then have es: "gs = []" "having = None" "\<forall>e\<in>set es. expr_ok 0 T sc e" using s by (auto simp: select_ok_def)
  have "\<not> agg_ok sc w" using wok(2) by (auto simp: window_ok_def elim: agg_ok.cases)
  moreover have "\<not> agg_ok sc e" if "expr_ok 0 T sc e" for e
    using that by (cases rule: expr_ok.cases) (auto simp: binary_def elim: agg_ok.cases)
  ultimately show ?thesis using es wok Some by (auto simp: items_ok_def groups_ok_def)
qed

lemma query_okI:
  assumes T: "usable T" "cte_ok x n T cte" and seed: "seed \<in> set (with_cte T cte)"
    and js: "joins_made (with_cte T cte) p [(al, seed)] outer (js, sc) c"
    and items: "items_ok x T sc es gs having"
    and wher: "\<forall>e. wher = Some e \<longrightarrow> (expr_ok n T sc e \<or> expr_ok n T (sc @ outer) e) \<and> expr_type e = CT_BOOL"
    and ords: "order_ok es (rhs \<noteq> None) ords" and off: "off \<noteq> None \<longrightarrow> lim \<noteq> None"
    and rhs: "\<forall>r. rhs = Some r \<longrightarrow> x \<and> query_ok False (n - 1) T [] r \<and> map fam (items_of r) = map fam es"
  shows "query_ok x n T outer (QuerySpec (case cte of None \<Rightarrow> [] | Some c \<Rightarrow> [c]) \<lparr>ts_table = obj_name seed, ts_alias = al\<rparr> js
     dist (number_items es) wher gs having ords lim off no_lock rhs kind)"
proof (rule ok_query [where T' = "with_cte T cte" and t = seed and sc = sc])
  let ?cs = "case cte of None \<Rightarrow> [] | Some c \<Rightarrow> [c]"
  show "\<forall>(name, body)\<in>set ?cs. query_ok False (n - 1) T [] body" using T(2) by (auto simp: cte_ok_def split: option.splits)
  show "?cs \<noteq> [] \<or> rhs \<noteq> None \<longrightarrow> x" using T(2) rhs by (auto simp: cte_ok_def split: option.splits)
  have names: "\<forall>t\<in>set T. \<forall>i. obj_name t \<noteq> ''w'' @ fmt_nat i" using T(1) by (simp add: usable_def)
  have "\<forall>t\<in>set T. fst c \<noteq> obj_name t" if c: "cte = Some c" for c
  proof -
    obtain i where "fst c = ''w'' @ fmt_nat i" using T(2) c by (cases c) (auto simp: cte_ok_def)
    then show ?thesis using names by metis
  qed
  then show "fst ` set ?cs \<inter> obj_name ` set T = {}" by (auto split: option.splits)
  show "with_cte T cte = T @ map (\<lambda>(name, body). synth_table name body) ?cs"
    by (auto simp: with_cte_def split: option.splits)
  show "lock_ok (QuerySpec ?cs \<lparr>ts_table = obj_name seed, ts_alias = al\<rparr> js dist (number_items es) wher gs having ords lim off
      no_lock rhs kind)" by (simp add: lock_ok_def no_lock_def)
  show "\<forall>r. rhs = Some r \<longrightarrow> query_ok False (n - 1) T [] r \<and> map fam (items_of r) = map fam es" using rhs by blast
  show "distinct (map fst (sc @ outer))" using js by (simp add: joins_made_def fresh_scope_def)
qed (use seed js items wher ords off in \<open>simp_all add: joins_made_def items_ok_def\<close>)

lemma makes_limit: "makes k gen_limit (\<lambda>(l, off). off \<noteq> None \<longrightarrow> l \<noteq> None)"
  unfolding gen_limit_def
  by (auto intro!: makes_bind [OF makes_gdraw] makes_bind [OF makes_roll] gives_if gives_ret)

text \<open>What a pk select looks like besides.\<close>

definition pk_shape :: "table \<Rightarrow> query_spec \<Rightarrow> bool" where
  "pk_shape t q \<longleftrightarrow> ts_table (qs_from q) = obj_name t \<and> items_of q = [colExpr (ts_alias (qs_from q), hd (columns t))] \<and>
     (\<forall>j\<in>set (qs_joins q). jn_kind j \<noteq> Join_right) \<and> qs_distinct q = (qs_joins q \<noteq> []) \<and> qs_limit q = None \<and> qs_offset q = None \<and>
     qs_groupBy q = [] \<and> qs_having q = None \<and> qs_lock q = no_lock"


text \<open>One level of \<open>genQuery\<close>: its select list, then what follows it.\<close>

lemma makes_select:
  assumes seed: "(al, seed) \<in> set sc" "columns seed \<noteq> []" and agg: "isAgg \<longrightarrow> p \<noteq> Purpose_pkSelect"
  shows "makes k (if p = Purpose_pkSelect then (case columns seed of [] \<Rightarrow> undef | c # cs \<Rightarrow> ret ([colExpr (al, c)], [], None))
        else if isAgg then gen_aggregates sc
        else bind (gdraw 1 4) (\<lambda>n. bind (map_prog (\<lambda>_. bind (gpick (scope_columns sc)) (\<lambda>c. ret (colExpr c))) [0..<n]) (\<lambda>cols.
          bind (roll 25) (\<lambda>b. if \<not> b then ret (cols, [], None)
            else bind (gpick (scope_columns sc)) (\<lambda>c.
              bind (genScalar G (col_type (snd c)) sc d False) (\<lambda>e. ret (cols @ [e], [], None)))))))
    (\<lambda>r. select_ok isAgg T sc r \<and> (p = Purpose_pkSelect \<longrightarrow> r = ([colExpr (al, hd (columns seed))], [], None)))"
proof -
  have col: "expr_ok 0 T sc (colExpr c)" if "c \<in> set (scope_columns sc)" for c
    using that by (intro leaf_ok leaf_column colExpr_in)
  have plain: "select_ok False T sc (es, [], None)" if "es \<noteq> []" "\<forall>e\<in>set es. expr_ok 0 T sc e" for es
    using ungrouped_ok that by (simp add: select_ok_def)
  have first: "(al, hd (columns seed)) \<in> set (scope_columns sc)"
    using seed by (auto simp: scope_columns_in)
  then have ne: "scope_columns sc \<noteq> []" by auto
  have cols: "makes k (map_prog (\<lambda>_. bind (gpick (scope_columns sc)) (\<lambda>c. ret (colExpr c))) [0..<n])
      (\<lambda>es. length es = length [0..<n] \<and> (\<forall>e\<in>set es. expr_ok 0 T sc e))" for n
    by (intro makes_map_prog makes_bind [OF makes_gpick [OF ne]] gives_ret col)
  have agg_sel: "makes k (gen_aggregates sc) (select_ok True T sc)"
    by (rule makes_conseq [OF makes_aggregates [OF ne]]) (simp add: select_ok_def)
  show ?thesis
  proof (cases "p = Purpose_pkSelect")
    case True
    then show ?thesis using seed(2) agg plain [of "[colExpr (al, hd (columns seed))]"] col [OF first]
      by (auto intro!: gives_ret split: list.split)
  next
    case False
    then show ?thesis
      by (simp split del: if_split)
        (rule gives_if, simp add: agg_sel, simp,
          intro makes_bind [OF makes_gdraw] makes_bind [OF cols] makes_bind [OF makes_roll] gives_if gives_ret
            makes_bind [OF makes_gpick [OF ne]] makes_bind [OF makes_genScalar [where T = T]];
          (rule plain)?; auto)
  qed
qed


lemma makes_pick_seed:
  assumes "target = None \<Longrightarrow> cands \<noteq> []"
  shows "makes k (case target of Some t \<Rightarrow> ret t | None \<Rightarrow> gpick cands)
    (\<lambda>s. case target of None \<Rightarrow> s \<in> set cands | Some t \<Rightarrow> s = t)"
  using assms by (cases target) (auto intro: gives_ret makes_gpick)

lemma gives_start:
  "fresh_scope k outer \<Longrightarrow> seed \<in> set V \<Longrightarrow>
   gives k freshAlias (\<lambda>al c. joins_made V p [(al, seed)] outer ([], [(al, seed)]) c)"
  unfolding freshAlias_def
  by (rule gives_conseq [OF gives_next_alias])
    (auto simp: joins_made_def intro: fresh_scope_insert [of _ "[]", simplified])

lemma gives_cte:
  assumes "x \<Longrightarrow> makes k (genQuery G Purpose_standalone None [] (Suc sd) False) (query_ok False (n - 1) T [])"
  shows "makes k (optionally x pr (bind (genQuery G Purpose_standalone None [] (Suc sd) False) (\<lambda>body.
        bind (next_alias ''w'') (\<lambda>name. ret (name, body))))) (cte_ok x n T)"
proof -
  have "makes k (bind (genQuery G Purpose_standalone None [] (Suc sd) False) (\<lambda>body. bind (next_alias ''w'') (\<lambda>name. ret (name, body))))
      (\<lambda>(name, body). query_ok False (n - 1) T [] body \<and> (\<exists>i. name = ''w'' @ fmt_nat i))" if x
    by (rule makes_bind [OF assms [OF that]], rule gives_bind [OF gives_next_alias], rule gives_ret) auto
  from makes_optionally [OF this] show ?thesis
    by (rule makes_conseq) (auto simp: cte_ok_def)
qed

lemma makes_where:
  assumes "\<And>sc. fresh_scope k sc \<Longrightarrow> makes k (genBool G sc d sd False) (cond_ok n T sc)"
    and "fresh_scope k (sc @ outer)"
  shows "makes k (maybe pr (bind (and_roll (outer \<noteq> []) pr') (\<lambda>correlated.
        genBool G (if correlated then sc @ outer else sc) d sd False)))
     (\<lambda>w. \<forall>e. w = Some e \<longrightarrow> (expr_ok n T sc e \<or> expr_ok n T (sc @ outer) e) \<and> expr_type e = CT_BOOL)"
proof (rule makes_maybe, rule makes_bind [OF makes_and_roll])
  fix correlated
  have "fresh_scope k sc" using assms(2) by (auto simp: fresh_scope_def)
  then have "fresh_scope k (if correlated then sc @ outer else sc)" using assms(2) by simp
  from assms(1) [OF this]
  show "makes k (genBool G (if correlated then sc @ outer else sc) d sd False)
    (\<lambda>e. (expr_ok n T sc e \<or> expr_ok n T (sc @ outer) e) \<and> expr_type e = CT_BOOL)"
    by (rule makes_conseq) (auto split: if_splits)
qed

lemma shaped_ok:
  assumes "query_ok False n T outer r" and "map fam es = map fam ls" "ls \<noteq> []"
    and "\<forall>e\<in>set es. e \<in> set (map fst (qs_selectItems r)) \<or> literal_in e"
  shows "query_ok False n T outer (shaped_rhs r es) \<and> items_of (shaped_rhs r es) = es"
proof -
  obtain cs "from" js dist es' wher gs having ords lim off lock rhs kind where
    q: "r = QuerySpec cs from js dist (number_items es') wher gs having ords lim off lock rhs kind" "es' \<noteq> []"
    using assms(1) by (rule query_ok_items)
  have "es \<noteq> []" using assms(2,3) by auto
  then have "query_ok False n T outer (QuerySpec cs from js dist (number_items es) wher gs having [] lim None lock rhs kind)"
    using assms(1,4) q by (intro query_ok_reitem [where es = es' and es' = es]) auto
  then show ?thesis by (simp add: q(1) items_of_def)
qed


definition query_made :: "bool \<Rightarrow> nat \<Rightarrow> table list \<Rightarrow> scope \<Rightarrow> purpose \<Rightarrow> table option \<Rightarrow> query_spec \<Rightarrow> bool" where
  "query_made x n T outer p target q \<longleftrightarrow> query_ok x n T outer q \<and>
     (\<forall>t. p = Purpose_pkSelect \<longrightarrow> target = Some t \<longrightarrow> \<not> x \<longrightarrow> pk_shape t q)"

text \<open>From the window function on, for a select list that is made.\<close>

lemma makes_tail:
  fixes G sd
  defines "cfg \<equiv> gp_cfg G"
  assumes T: "usable T" "cte_ok x n T cte" and seed: "seed \<in> set (with_cte T cte)"
    and js: "joins_made (with_cte T cte) p [(al, seed)] outer (js, sc) k"
    and sel: "select_ok isAgg T sc (items, groups, having)"
    and pk: "p = Purpose_pkSelect \<longrightarrow> (items, groups, having) = ([colExpr (al, hd (columns seed))], [], None)"
    and tgt: "\<forall>t. target = Some t \<longrightarrow> seed = t"
    and cond: "\<And>sc. fresh_scope k sc \<Longrightarrow> makes k (genBool G sc (max_expr_depth cfg) sd False) (cond_ok n T sc)"
    and sub: "x \<Longrightarrow> makes k (genQuery G Purpose_standalone None [] (Suc sd) False) (query_ok False (n - 1) T [])"
  shows "makes k (bind (optionally (x \<and> \<not> isAgg) (window_prob cfg) (genWindowCall sc)) (\<lambda>window.
      let items = items @ (case window of None \<Rightarrow> [] | Some w \<Rightarrow> [w]) in
      bind (maybe 75 (bind (and_roll (outer \<noteq> []) (correlation_prob cfg)) (\<lambda>correlated.
        genBool G (if correlated then sc @ outer else sc) (max_expr_depth cfg) sd False))) (\<lambda>wher.
      bind (maybe (order_by_prob cfg) (gen_order items)) (\<lambda>ords.
      bind (optionally (p \<noteq> Purpose_pkSelect) (limit_prob cfg) gen_limit) (\<lambda>lim.
      bind (and_roll (p \<noteq> Purpose_pkSelect \<and> \<not> isAgg) 15) (\<lambda>dist.
      let query = QuerySpec (case cte of None \<Rightarrow> [] | Some c \<Rightarrow> [c]) \<lparr>ts_table = obj_name seed, ts_alias = al\<rparr> js
            (dist \<or> p = Purpose_pkSelect \<and> js \<noteq> []) (number_items items) wher groups having;
          rest = (\<lambda>ords. query ords (case lim of None \<Rightarrow> None | Some (l, off) \<Rightarrow> l)
            (case lim of None \<Rightarrow> None | Some (l, off) \<Rightarrow> off) no_lock)
      in bind (optionally x (setop_prob cfg) (genQuery G Purpose_standalone None [] (Suc sd) False)) (\<lambda>rhs.
        case rhs of
          None \<Rightarrow> ret (rest (case ords of None \<Rightarrow> [] | Some os \<Rightarrow> os) None Set_unionAll)
        | Some r \<Rightarrow> bind (shape_items items (map fst (qs_selectItems r))) (\<lambda>es.
            bind (choose_set_op G) (\<lambda>kind. bind (gen_output_order cfg items) (\<lambda>ords.
            ret (rest ords (Some (shaped_rhs r es)) kind))))))))))) (query_made x n T outer p target)"
proof (rule makes_bind [OF makes_optionally [OF makes_windowCall]])
  fix window
  assume w: "\<forall>w. window = Some w \<longrightarrow> (x \<and> \<not> isAgg) \<and> window_ok sc w"
  let ?items = "items @ (case window of None \<Rightarrow> [] | Some w \<Rightarrow> [w])"
  have items: "items_ok x T sc ?items groups having" by (rule items_with_window [OF sel w])
  have fresh: "fresh_scope k (sc @ outer)" using js by (simp add: joins_made_def)
  let ?q = "\<lambda>wher dist lim. QuerySpec (case cte of None \<Rightarrow> [] | Some c \<Rightarrow> [c]) \<lparr>ts_table = obj_name seed, ts_alias = al\<rparr> js
      (dist \<or> p = Purpose_pkSelect \<and> js \<noteq> []) (number_items ?items) wher groups having"
  let ?l = "\<lambda>lim. case lim of None \<Rightarrow> None | Some (l, off) \<Rightarrow> l" and ?o = "\<lambda>lim. case lim of None \<Rightarrow> None | Some (l, off) \<Rightarrow> off"
  let ?W = "\<lambda>wher. \<forall>e. wher = Some e \<longrightarrow> (expr_ok n T sc e \<or> expr_ok n T (sc @ outer) e) \<and> expr_type e = CT_BOOL"
  let ?L = "\<lambda>lim. \<forall>r. lim = Some r \<longrightarrow> p \<noteq> Purpose_pkSelect \<and> (case r of (l, off) \<Rightarrow> off \<noteq> None \<longrightarrow> l \<noteq> None)"
  let ?R = "\<lambda>rhs. \<forall>r. rhs = Some r \<longrightarrow> x \<and> query_ok False (n - 1) T [] r"
  have made: "query_made x n T outer p target (?q wher dist lim ords (?l lim) (?o lim) no_lock rhs kind)"
    if "?W wher" "?L lim" "dist \<longrightarrow> p \<noteq> Purpose_pkSelect \<and> \<not> isAgg" "order_ok ?items (rhs \<noteq> None) ords"
      "\<forall>r. rhs = Some r \<longrightarrow> x \<and> query_ok False (n - 1) T [] r \<and> map fam (items_of r) = map fam ?items" for wher dist lim ords rhs kind
  proof -
    have "query_ok x n T outer (?q wher dist lim ords (?l lim) (?o lim) no_lock rhs kind)"
      by (rule query_okI [OF T seed js items that(1,4) _ that(5)]) (use that(2) in \<open>auto split: option.splits\<close>)
    moreover have "pk_shape t (?q wher dist lim ords (?l lim) (?o lim) no_lock rhs kind)"
      if "p = Purpose_pkSelect" "target = Some t" "\<not> x" for t
      using that pk tgt w js \<open>?L lim\<close> \<open>dist \<longrightarrow> _\<close> by (cases window; cases lim) (auto simp: pk_shape_def joins_made_def items_of_def)
    ultimately show ?thesis by (simp add: query_made_def)
  qed
  show "makes k (let items = ?items in
      bind (maybe 75 (bind (and_roll (outer \<noteq> []) (correlation_prob cfg)) (\<lambda>correlated.
        genBool G (if correlated then sc @ outer else sc) (max_expr_depth cfg) sd False))) (\<lambda>wher.
      bind (maybe (order_by_prob cfg) (gen_order items)) (\<lambda>ords.
      bind (optionally (p \<noteq> Purpose_pkSelect) (limit_prob cfg) gen_limit) (\<lambda>lim.
      bind (and_roll (p \<noteq> Purpose_pkSelect \<and> \<not> isAgg) 15) (\<lambda>dist.
      let query = QuerySpec (case cte of None \<Rightarrow> [] | Some c \<Rightarrow> [c]) \<lparr>ts_table = obj_name seed, ts_alias = al\<rparr> js
            (dist \<or> p = Purpose_pkSelect \<and> js \<noteq> []) (number_items items) wher groups having;
          rest = (\<lambda>ords. query ords (?l lim) (?o lim) no_lock)
      in bind (optionally x (setop_prob cfg) (genQuery G Purpose_standalone None [] (Suc sd) False)) (\<lambda>rhs.
        case rhs of
          None \<Rightarrow> ret (rest (case ords of None \<Rightarrow> [] | Some os \<Rightarrow> os) None Set_unionAll)
        | Some r \<Rightarrow> bind (shape_items items (map fst (qs_selectItems r))) (\<lambda>es.
            bind (choose_set_op G) (\<lambda>kind. bind (gen_output_order cfg items) (\<lambda>ords.
            ret (rest ords (Some (shaped_rhs r es)) kind)))))))))) (query_made x n T outer p target)"
    unfolding Let_def
  proof (rule makes_bind [OF makes_where [OF cond fresh]], assumption, rule makes_bind [OF makes_maybe [OF makes_order]],
      rule makes_bind [OF makes_optionally [OF makes_limit]], rule makes_bind [OF makes_and_roll],
      rule makes_bind [OF makes_optionally [OF sub]], assumption, goal_cases)
    case (1 wher ords lim dist rhs)
    show ?case
    proof (cases rhs)
      case None
      have "order_ok ?items False (case ords of None \<Rightarrow> [] | Some os \<Rightarrow> os)"
        using 1(2) by (auto simp: order_ok_def split: option.split)
      then show ?thesis unfolding None option.case
        by (intro gives_ret made) (use 1 in \<open>simp_all\<close>)
    next
      case (Some r)
      have ne: "?items \<noteq> []" using items by (simp add: items_ok_def)
      have r: "x" "query_ok False (n - 1) T [] r" using 1(5) Some by blast+
      have op: "makes k (choose_set_op G) (\<lambda>_. True)"
        unfolding choose_set_op_def by (rule makes_bind [OF makes_gdraw]) (auto intro: gives_ret)
      show ?thesis unfolding Some option.case
      proof (rule makes_bind [OF makes_shape], rule makes_bind [OF op], rule makes_bind [OF makes_output_order [OF ne]],
          rule gives_ret, rule made)
        fix es assume es: "map fam es = map fam ?items \<and> (\<forall>e\<in>set es. e \<in> set (map fst (qs_selectItems r)) \<or> literal_in e)"
        show "\<forall>q. Some (shaped_rhs r es) = Some q \<longrightarrow> x \<and> query_ok False (n - 1) T [] q \<and> map fam (items_of q) = map fam ?items"
          using r es shaped_ok [OF r(2) _ ne] by fastforce
      qed (use 1 in simp_all)
    qed
  qed
qed


lemma genQuery_level:
  assumes T: "usable T" "set (gp_tables G) \<subseteq> set T" and some: "gp_tables G \<noteq> []"
    and tgt: "\<And>t. target = Some t \<Longrightarrow> t \<in> set T" and outer: "fresh_scope k outer"
    and cond: "\<And>k sc. fresh_scope k sc \<Longrightarrow> makes k (genBool G sc (max_expr_depth (gp_cfg G)) sd False) (cond_ok n T sc)"
    and sub: "\<And>k. x \<Longrightarrow> makes k (genQuery G Purpose_standalone None [] (Suc sd) False) (query_ok False (n - 1) T [])"
  shows "makes k (genQuery G p target outer sd x) (query_made x n T outer p target)"
  unfolding genQuery.simps [of G p target outer sd x] Let_def [of "gp_cfg G"]
proof (rule makes_bind [OF gives_cte [OF sub]], assumption, goal_cases)
  case cte: (1 cte)
  let ?V = "with_cte T cte"
  let ?cands = "gp_tables G @ (case cte of None \<Rightarrow> [] | Some (name, body) \<Rightarrow> [synth_table name body])"
  have V: "keys_match ?V" "\<And>t. t \<in> set ?V \<Longrightarrow> columns t \<noteq> []" using with_cte_usable [OF T(1) cte] by blast+
  have cands: "set ?cands \<subseteq> set ?V" using T(2) by (auto simp: with_cte_def split: option.splits)
  have in_V: "seed \<in> set ?V" if "case target of None \<Rightarrow> seed \<in> set ?cands | Some t \<Rightarrow> seed = t" for seed
    using that cands tgt by (cases target) (auto simp: with_cte_def)
  show ?case
    unfolding Let_def [of ?cands]
  proof (rule makes_bind [OF makes_pick_seed [where target = target and cands = ?cands]], simp add: some, goal_cases)
    case seed_is: (1 seed)
    note seed = in_V [OF seed_is]
    show ?case
    proof (rule gives_bind [OF gives_start [OF outer seed, where p = p]], goal_cases)
      case start: (1 al c)
      have ne: "?cands \<noteq> []" using some by simp
      show ?case
      proof (rule gives_bind [OF gives_joins [OF V(1) cands ne start(2)]], simp, goal_cases)
        case joins: (1 r c')
        obtain js sc where r: "r = (js, sc)" by (cases r)
        have al: "(al, seed) \<in> set sc" using joins(2) by (simp add: r joins_made_def)
        have made: "joins_made ?V p [(al, seed)] outer (js, sc) c'" using joins(2) r by simp
        have seed_is: "\<forall>t. target = Some t \<longrightarrow> seed = t" using seed_is by (cases target) auto
        have cond': "makes c' (genBool G sc (max_expr_depth (gp_cfg G)) sd False) (cond_ok n T sc)" if "fresh_scope c' sc" for sc
          using that by (rule cond)
        show ?case
          unfolding r prod.case
        proof (rule makes_bind [OF makes_and_roll],
            rule makes_bind [OF makes_select [where G = G and T = T and d = "max_expr_depth (gp_cfg G)" and al = al and seed = seed]],
            rule al, rule V(2) [OF seed], simp, goal_cases)
          case sel: (1 isAgg s)
          obtain es gs having where s: "s = (es, gs, having)" by (cases s)
          show ?case
            unfolding s prod.case
            by (rule makes_tail [OF T(1) cte seed made]) (use sel s seed_is cond' sub in \<open>simp_all\<close>)
        qed
      qed
    qed
  qed
qed


text \<open>By induction on the subquery levels that are left.\<close>

lemma makes_subquery:
  assumes T: "usable T" "set (gp_tables G) \<subseteq> set T" and some: "gp_tables G \<noteq> []"
  shows "(\<And>t. target = Some t \<Longrightarrow> t \<in> set T) \<Longrightarrow> fresh_scope k outer \<Longrightarrow> n = max_subquery_depth (gp_cfg G) - sd \<Longrightarrow>
    makes k (genQuery G p target outer sd False) (query_made False n T outer p target)"
proof (induction n arbitrary: sd p target k outer)
  case 0
  show ?case
  proof (rule genQuery_level [OF T some 0(1,2)])
    fix k sc
    show "makes k (genBool G sc (max_expr_depth (gp_cfg G)) sd False) (cond_ok 0 T sc)"
      by (rule makes_genBool) (use 0 in simp)
  qed simp_all
next
  case (Suc n)
  show ?case
  proof (rule genQuery_level [OF T some Suc.prems(1,2)])
    fix k and sc :: scope
    assume "fresh_scope k sc"
    then have "makes k (genQuery G Purpose_standalone None sc (Suc sd) False)
        (query_made False n T sc Purpose_standalone None)"
      using Suc.prems(3) by (intro Suc.IH) simp_all
    then have "makes k (genQuery G Purpose_standalone None sc (Suc sd) False) (query_ok False n T sc)"
      by (rule makes_conseq) (simp add: query_made_def)
    then show "makes k (genBool G sc (max_expr_depth (gp_cfg G)) sd False) (cond_ok (Suc n) T sc)"
      by (intro makes_genBool) blast
  qed simp_all
qed

lemma makes_condition:
  assumes T: "usable T" "set (gp_tables G) \<subseteq> set T" and sc: "fresh_scope k sc"
  shows "makes k (genBool G sc d sd False) (cond_ok (max_subquery_depth (gp_cfg G) - sd) T sc)"
proof (rule makes_genBool)
  let ?m = "max_subquery_depth (gp_cfg G) - Suc sd"
  assume *: "gp_tables G \<noteq> [] \<and> sd < max_subquery_depth (gp_cfg G)"
  then have "makes k (genQuery G Purpose_standalone None sc (Suc sd) False) (query_made False ?m T sc Purpose_standalone None)"
    by (intro makes_subquery [OF T _ _ sc]) simp_all
  then have "makes k (genQuery G Purpose_standalone None sc (Suc sd) False) (query_ok False ?m T sc)"
    by (rule makes_conseq) (simp add: query_made_def)
  moreover from * have "max_subquery_depth (gp_cfg G) - sd = Suc ?m" by (metis Suc_diff_Suc)
  ultimately show "\<exists>m. max_subquery_depth (gp_cfg G) - sd = Suc m \<and>
      makes k (genQuery G Purpose_standalone None sc (Suc sd) False) (query_ok False m T sc)" by blast
qed

lemma makes_query:
  assumes T: "usable T" "set (gp_tables G) \<subseteq> set T" "gp_tables G \<noteq> []" "\<And>t. target = Some t \<Longrightarrow> t \<in> set T"
    and outer: "fresh_scope k outer"
  shows "makes k (genQuery G p target outer sd x) (query_made x (max_subquery_depth (gp_cfg G) - sd) T outer p target)"
proof (rule genQuery_level [OF T outer])
  fix k
  have "makes k (genQuery G Purpose_standalone None [] (Suc sd) False)
      (query_made False (max_subquery_depth (gp_cfg G) - sd - 1) T [] Purpose_standalone None)"
    by (rule makes_subquery [OF T(1-3)]) (simp_all add: fresh_scope_def)
  then show "makes k (genQuery G Purpose_standalone None [] (Suc sd) False)
      (query_ok False (max_subquery_depth (gp_cfg G) - sd - 1) T [])"
    by (rule makes_conseq) (simp add: query_made_def)
next
  fix k sc
  show "fresh_scope k sc \<Longrightarrow> makes k (genBool G sc (max_expr_depth (gp_cfg G)) sd False)
      (cond_ok (max_subquery_depth (gp_cfg G) - sd) T sc)"
    by (rule makes_condition [OF T(1,2)])
qed (use T(4) in blast)

section \<open>LIMIT and locks\<close>

text \<open>LIMIT and OFFSET may change, and a lock may be put on a query that is not grouped.\<close>

lemma query_ok_ends:
  assumes q: "query_ok x n T outer (QuerySpec cs from js dist items wher gs having ords lim off lock rhs kind)"
    and off: "off' \<noteq> None \<longrightarrow> lim' \<noteq> None"
    and lock: "lock_ok (QuerySpec cs from js dist' items wher gs having ords lim' off' lock' rhs kind)"
  shows "query_ok x n T outer (QuerySpec cs from js dist' items wher gs having ords lim' off' lock' rhs kind)"
  using q unfolding query_ok_iff
proof (elim exE conjE, goal_cases)
  case (1 t sc es)
  show ?case
    by (rule exI [of _ t], rule exI [of _ sc], rule exI [of _ es]) (use 1 lock off in simp)
qed

lemma limited_ok:
  assumes "query_ok x n T outer q"
  shows "query_ok x n T outer (set_limit l q)"
  using assms
proof (cases q)
  case (QuerySpec cs "from" js dist items wher gs having ords lim off lock rhs kind)
  have "lock_ok (QuerySpec cs from js dist items wher gs having ords (Some l) off lock rhs kind)"
    using assms unfolding QuerySpec query_ok_iff by (auto simp: lock_ok_def)
  then show ?thesis using query_ok_ends [OF assms [unfolded QuerySpec]] QuerySpec by simp
qed

lemma locked_ok:
  assumes "query_ok x n T outer q" and "qs_groupBy q = []" "qs_having q = None"
  shows "query_ok x n T outer (lock_query l q)"
  using assms(1)
proof (cases q)
  case (QuerySpec cs "from" js dist items wher gs having ords lim off lock rhs kind)
  have "off \<noteq> None \<longrightarrow> lim \<noteq> None" using assms(1) unfolding QuerySpec query_ok_iff by blast
  moreover have "lock_ok (lock_query l q)" using assms(2,3) by (simp add: QuerySpec lock_ok_def)
  ultimately show ?thesis using query_ok_ends [OF assms(1) [unfolded QuerySpec]] QuerySpec by simp
qed

lemma limited_sel [simp]:
  "qs_from (set_limit l q) = qs_from q" "items_of (set_limit l q) = items_of q" "qs_joins (set_limit l q) = qs_joins q"
  "qs_limit (set_limit l q) = Some l" "qs_offset (set_limit l q) = qs_offset q" "qs_groupBy (set_limit l q) = qs_groupBy q"
  "qs_having (set_limit l q) = qs_having q" "qs_lock (set_limit l q) = qs_lock q" "qs_distinct (set_limit l q) = qs_distinct q"
  by (cases q; simp add: items_of_def)+

lemma locked_sel [simp]:
  "qs_from (lock_query l q) = qs_from q" "items_of (lock_query l q) = items_of q" "qs_joins (lock_query l q) = qs_joins q"
  "qs_limit (lock_query l q) = qs_limit q" "qs_offset (lock_query l q) = qs_offset q"
  "qs_lock (lock_query l q) = \<lparr>ls_clause = l, ls_ofAlias = ts_alias (qs_from q)\<rparr>" "\<not> qs_distinct (lock_query l q)"
  by (cases q; simp add: items_of_def)+

end
