(* ===== verification/Query_Results.thy ===== *)
theory Query_Results
  imports Query_Sound
begin

text \<open>
  What the three entry points of the generator return: \<open>generate\<close>, \<open>generatePkSelect\<close> and \<open>generatePredicate\<close>,
  for every configuration, snapshot and draw stream; and which tables their subqueries read.
\<close>

section \<open>The tables a query reads\<close>

text \<open>
  The table sources of a query with their level: those of the query itself are at \<open>d\<close>, those of a subquery in one of
  its conditions one deeper. CTE bodies and the right side of a set operation are no deeper than the query.
\<close>

function (sequential)
  exprReads :: "nat \<Rightarrow> expr \<Rightarrow> (nat \<times> string) list"
  and nodeReads :: "nat \<Rightarrow> expr_node \<Rightarrow> (nat \<times> string) list"
  and joinReads :: "nat \<Rightarrow> join \<Rightarrow> (nat \<times> string) list"
  and queryReads :: "nat \<Rightarrow> query_spec \<Rightarrow> (nat \<times> string) list" where
  "exprReads d (Expr n ty) = nodeReads d n"
| "nodeReads d (ColumnRef c) = []"
| "nodeReads d (Literal v) = []"
| "nodeReads d (UnaryExpr op arg) = exprReads d arg"
| "nodeReads d (BinaryExpr op l r) = exprReads d l @ exprReads d r"
| "nodeReads d (BetweenExpr arg lo hi) = exprReads d arg @ exprReads d lo @ exprReads d hi"
| "nodeReads d (InListExpr arg items negated) = exprReads d arg @ concat (map (exprReads d) items)"
| "nodeReads d (InSubquery arg sub negated) = exprReads d arg @ queryReads d sub"
| "nodeReads d (ExistsSubquery sub negated) = queryReads d sub"
| "nodeReads d (ScalarSubquery sub) = queryReads d sub"
| "nodeReads d (FuncCall fn args) = concat (map (exprReads d) args)"
| "nodeReads d (CaseExpr whens els) = concat (map (\<lambda>(w, t). exprReads d w @ exprReads d t) whens) @
     (case els of None \<Rightarrow> [] | Some e \<Rightarrow> exprReads d e)"
| "nodeReads d (AggCall fn arg is_distinct) = (case arg of None \<Rightarrow> [] | Some e \<Rightarrow> exprReads d e)"
| "nodeReads d (WindowCall fn arg parts ords) = (case arg of None \<Rightarrow> [] | Some e \<Rightarrow> exprReads d e)"
| "joinReads d (Join kind src cond) = (d, ts_table src) # (case cond of None \<Rightarrow> [] | Some e \<Rightarrow> exprReads (Suc d) e)"
| "queryReads d (QuerySpec cs from js is_distinct items wher groups having ords lim off lock rhs kind) =
     (d, ts_table from) # concat (map (joinReads d) js) @ concat (map (\<lambda>(name, body). queryReads d body) cs) @
     concat (map (\<lambda>(e, a). exprReads (Suc d) e) items) @ concat (map (\<lambda>(e, desc). exprReads (Suc d) e) ords) @
     (case wher of None \<Rightarrow> [] | Some e \<Rightarrow> exprReads (Suc d) e) @
     (case having of None \<Rightarrow> [] | Some e \<Rightarrow> exprReads (Suc d) e) @
     (case rhs of None \<Rightarrow> [] | Some r \<Rightarrow> queryReads d r)"
  by pat_completeness auto

termination
  apply (relation "measure (\<lambda>x. case x of
       Inl (Inl (d, e)) \<Rightarrow> size (e :: expr)
     | Inl (Inr (d, n)) \<Rightarrow> size (n :: expr_node)
     | Inr (Inl (d, j)) \<Rightarrow> size (j :: join)
     | Inr (Inr (d, q)) \<Rightarrow> size (q :: query_spec))")
  apply simp_all
  apply (drule part_sizes(1), linarith)
  apply (drule part_sizes(1), linarith)
  apply (drule (1) part_sizes(2) [where g = size], linarith)
  apply (drule (1) part_sizes(3) [where h = size], linarith)
  apply (drule part_sizes(1), linarith)
  apply (drule (1) part_sizes(3) [where h = "\<lambda>_. 0"], linarith)
  apply (drule (1) part_sizes(2) [where g = "\<lambda>_. 0"], linarith)
  apply (drule (1) part_sizes(2) [where g = "\<lambda>_. 0"], linarith)
  done


definition reads_in :: "(nat \<Rightarrow> bool) \<Rightarrow> string set \<Rightarrow> (nat \<times> string) list \<Rightarrow> bool" where
  "reads_in P A rs \<longleftrightarrow> (\<forall>(l, a)\<in>set rs. P l \<and> a \<in> A)"

lemma reads_in_simps [simp]:
  "reads_in P A []" "reads_in P A (r # rs) \<longleftrightarrow> P (fst r) \<and> snd r \<in> A \<and> reads_in P A rs"
  "reads_in P A (rs @ rs') \<longleftrightarrow> reads_in P A rs \<and> reads_in P A rs'"
  "reads_in P A (concat rss) \<longleftrightarrow> (\<forall>rs\<in>set rss. reads_in P A rs)"
  by (auto simp: reads_in_def)

lemma reads_in_mono: "reads_in P A rs \<Longrightarrow> (\<And>l. P l \<Longrightarrow> Q l) \<Longrightarrow> A \<subseteq> B \<Longrightarrow> reads_in Q B rs"
  by (auto simp: reads_in_def)

lemma flat_reads:
  "column_in sc e \<Longrightarrow> exprReads d e = []" "literal_in e \<Longrightarrow> exprReads d e = []" "agg_ok sc e \<Longrightarrow> exprReads d e = []"
  "window_ok sc e \<Longrightarrow> exprReads d e = []" "join_cond sc e \<Longrightarrow> exprReads d e = []"
proof -
  show col: "column_in sc e \<Longrightarrow> exprReads d e = []" for e by (auto elim: column_in.cases)
  show "literal_in e \<Longrightarrow> exprReads d e = []" by (auto simp: literal_in_def)
  show "agg_ok sc e \<Longrightarrow> exprReads d e = []" by (auto elim!: agg_ok.cases simp: col)
  show "window_ok sc e \<Longrightarrow> exprReads d e = []" by (auto simp: window_ok_def col split: option.splits)
  show "join_cond sc e \<Longrightarrow> exprReads d e = []" by (auto simp: join_cond_def binary_def col)
qed

lemma joined_reads: "joined V sc js sc' \<Longrightarrow> j \<in> set js \<Longrightarrow> \<exists>t\<in>set V. joinReads d j = [(d, obj_name t)]"
proof (induction js arbitrary: sc)
  case (Cons i js)
  obtain kind src cond where i: "i = Join kind src cond" by (cases i)
  show ?case
  proof (cases "j = i")
    case True
    from Cons.prems(1) i obtain t where "t \<in> set V" "obj_name t = ts_table src"
      "\<forall>e. cond = Some e \<longrightarrow> join_cond (sc @ [(ts_alias src, t)]) e" by (cases cond) auto
    then show ?thesis using True i flat_reads(5) by (cases cond) (auto intro!: bexI [of _ t])
  qed (use Cons i in auto)
qed simp

lemma plain_query: "query_ok False n T outer q \<Longrightarrow> qs_ctes q = [] \<and> qs_setOpRhs q = None"
  by (cases rule: query_ok.cases) auto

text \<open>Reads stay within the levels of the budget and the tables given, the CTE's name aside.\<close>

lemma reads_within:
  "expr_ok n T sc e \<Longrightarrow> \<forall>d. reads_in (\<lambda>l. d \<le> l \<and> l < d + n) (obj_name ` set T) (exprReads d e)"
  "query_ok x n T outer q \<Longrightarrow>
     \<forall>d. reads_in (\<lambda>l. d \<le> l \<and> l \<le> d + n) (obj_name ` set T \<union> fst ` set (qs_ctes q)) (queryReads d q)"
proof (induction rule: expr_ok_query_ok.inducts)
  case (ok_query cs n T rhs x T' t "from" js sc outer es wher gs having ords off lim dist lock kind)
  show ?case
  proof
    fix d
    let ?A = "obj_name ` set T \<union> fst ` set cs" and ?P = "\<lambda>l. d \<le> l \<and> l \<le> d + n"
    have names: "obj_name ` set T' \<subseteq> ?A" unfolding \<open>T' = _\<close> by force
    have "ts_table from \<in> ?A" using names \<open>t \<in> set T'\<close> \<open>obj_name t = ts_table from\<close> by (metis image_eqI subsetD)
    moreover have "reads_in ?P ?A (joinReads d j)" if j: "j \<in> set js" for j
    proof -
      obtain t where "t \<in> set T'" "joinReads d j = [(d, obj_name t)]"
        using joined_reads [OF \<open>joined T' _ js sc\<close> j, of d] by blast
      then have "obj_name t \<in> ?A" using names by blast
      then show ?thesis by (simp only: \<open>joinReads d j = _\<close> reads_in_simps fst_conv snd_conv) simp
    qed
    moreover have "reads_in ?P ?A (queryReads d body)" if "(name, body) \<in> set cs" for name body
    proof -
      have b: "query_ok False (n - 1) T [] body"
        "reads_in (\<lambda>l. d \<le> l \<and> l \<le> d + (n - 1)) (obj_name ` set T \<union> fst ` set (qs_ctes body)) (queryReads d body)"
        using that ok_query(1) by auto
      show ?thesis by (rule reads_in_mono [OF b(2)]) (use plain_query [OF b(1)] in auto)
    qed
    moreover have item: "reads_in ?P ?A (exprReads (Suc d) e)" if "e \<in> set es" for e
    proof -
      have "(\<forall>d. reads_in (\<lambda>l. d \<le> l \<and> l < d + 0) (obj_name ` set T) (exprReads d e)) \<or> agg_ok sc e \<or> window_ok sc e"
        using that ok_query by blast
      then show ?thesis using flat_reads(3,4) by (fastforce elim: reads_in_mono)
    qed
    moreover have "reads_in ?P ?A (exprReads (Suc d) e)" if "(e, desc) \<in> set ords" for e desc
      using \<open>order_ok es (rhs \<noteq> None) ords\<close> that item unfolding order_ok_def by (cases "rhs = None") fastforce+
    moreover have "reads_in ?P ?A (exprReads (Suc d) e)" if "wher = Some e" for e
    proof -
      have "reads_in (\<lambda>l. Suc d \<le> l \<and> l < Suc d + n) (obj_name ` set T) (exprReads (Suc d) e)" using that ok_query by blast
      then show ?thesis by (rule reads_in_mono) auto
    qed
    moreover have "exprReads (Suc d) e = []" if "having = Some e" for e
      using \<open>groups_ok sc es gs having\<close> that flat_reads(2,3) unfolding groups_ok_def by (auto simp: binary_def)
    moreover have "reads_in ?P ?A (queryReads d r)" if "rhs = Some r" for r
    proof -
      have b: "query_ok False (n - 1) T [] r"
        "reads_in (\<lambda>l. d \<le> l \<and> l \<le> d + (n - 1)) (obj_name ` set T \<union> fst ` set (qs_ctes r)) (queryReads d r)"
        using that ok_query by auto
      show ?thesis by (rule reads_in_mono [OF b(2)]) (use plain_query [OF b(1)] in auto)
    qed
    ultimately show "reads_in ?P (obj_name ` set T \<union> fst ` set (qs_ctes (QuerySpec cs from js dist (number_items es) wher gs having ords
        lim off lock rhs kind))) (queryReads d (QuerySpec cs from js dist (number_items es) wher gs having ords lim off lock rhs kind))"
      by (auto simp: number_items_def split: option.split)
  qed
qed (auto simp: binary_def guarded_def less_Suc_eq_le dest!: plain_query)

section \<open>The entry points\<close>

text \<open>An alias given by the caller is not one the generator could make.\<close>

lemma one_scope: "(\<forall>i. a \<noteq> ''u'' @ fmt_nat i) \<Longrightarrow> fresh_scope k [(a, t)]"
  by (simp add: fresh_scope_def)

lemma usable_subset: "usable T \<Longrightarrow> set T' \<subseteq> set T \<Longrightarrow> usable T'"
  unfolding usable_def keys_match_def by blast

lemma generate_run:
  assumes "usable (gp_tables G)" "gp_tables G \<noteq> []" "p \<noteq> Purpose_pkSelect" "\<forall>t. target = Some t \<longrightarrow> t \<in> set (gp_tables G)"
  obtains q g' where "Generator_generate G p target g = (Ok (Some q), g')"
    "query_ok (p = Purpose_standalone) (max_subquery_depth (gp_cfg G)) (gp_tables G) [] q"
proof -
  have "makes 0 (genQuery G p target [] 0 (p = Purpose_standalone))
      (query_made (p = Purpose_standalone) (max_subquery_depth (gp_cfg G) - 0) (gp_tables G) [] p target)"
    by (rule makes_query) (use assms in \<open>simp_all add: fresh_scope_def\<close>)
  from givesD [OF this, of g] obtain q g' where
    "genQuery G p target [] 0 (p = Purpose_standalone) g = (Ok q, g')"
    "query_ok (p = Purpose_standalone) (max_subquery_depth (gp_cfg G)) (gp_tables G) [] q"
    by (auto simp: query_made_def)
  then show ?thesis using assms that [of q g'] by (simp add: Generator_generate_def bind_def ret_def)
qed

lemma pk_select_run:
  assumes "usable (t # gp_tables G)" "gp_tables G \<noteq> []"
  obtains q g' where "Generator_generatePkSelect G (Some t) opts g = (Ok (Some q), g')"
    "query_ok False (max_subquery_depth (gp_cfg G)) (t # gp_tables G) [] q"
    "ts_table (qs_from q) = obj_name t" "items_of q = [colExpr (ts_alias (qs_from q), hd (columns t))]"
    "\<forall>j\<in>set (qs_joins q). jn_kind j \<noteq> Join_right"
    "qs_limit q = (if po_limit opts > 0 then Some (po_limit opts) else None)" "qs_offset q = None"
    "qs_lock q = (if po_lock opts = Lock_none then no_lock else \<lparr>ls_clause = po_lock opts, ls_ofAlias = ts_alias (qs_from q)\<rparr>)"
    "qs_distinct q = (po_lock opts = Lock_none \<and> qs_joins q \<noteq> [])"
proof -
  have ne: "columns t \<noteq> []" using assms(1) by (simp add: usable_def)
  have "makes 0 (genQuery G Purpose_pkSelect (Some t) [] 0 False)
      (query_made False (max_subquery_depth (gp_cfg G) - 0) (t # gp_tables G) [] Purpose_pkSelect (Some t))"
    by (rule makes_query) (use assms in \<open>auto simp: fresh_scope_def\<close>)
  from givesD [OF this, of g] obtain q g' where
    q: "genQuery G Purpose_pkSelect (Some t) [] 0 False g = (Ok q, g')"
    "query_ok False (max_subquery_depth (gp_cfg G)) (t # gp_tables G) [] q" "pk_shape t q"
    by (auto simp: query_made_def)
  let ?q = "if po_limit opts > 0 then set_limit (po_limit opts) q else q"
  let ?r = "if po_lock opts \<noteq> Lock_none then lock_query (po_lock opts) ?q else ?q"
  have run: "Generator_generatePkSelect G (Some t) opts g = (Ok (Some ?r), g')"
    using ne assms(2) q(1) by (simp add: Generator_generatePkSelect_def bind_def ret_def Let_def)
  have "query_ok False (max_subquery_depth (gp_cfg G)) (t # gp_tables G) [] ?q" using limited_ok [OF q(2)] q(2) by simp
  then have ok: "query_ok False (max_subquery_depth (gp_cfg G)) (t # gp_tables G) [] ?r"
    using q(3) by (auto intro!: locked_ok simp: pk_shape_def)
  show ?thesis
    by (rule that [OF run ok]) (use q(3) in \<open>auto simp: pk_shape_def\<close>)
qed

lemma predicate_run:
  assumes "usable (gp_tables G)" "\<forall>i. a \<noteq> ''u'' @ fmt_nat i"
  obtains e g' where "Generator_generatePredicate G t a g = (Ok e, g')" "expr_type e = CT_BOOL"
    "expr_ok (max_subquery_depth (gp_cfg G)) (gp_tables (without_table t G)) [(a, t)] e"
proof -
  let ?G = "without_table t G"
  have u: "usable (gp_tables ?G)" by (rule usable_subset [OF assms(1)]) (auto simp: without_table_def)
  have "makes 0 (genBool ?G [(a, t)] (max_expr_depth (gp_cfg G)) 0 False)
      (cond_ok (max_subquery_depth (gp_cfg ?G) - 0) (gp_tables ?G) [(a, t)])"
    by (rule makes_condition [OF u order_refl one_scope [OF assms(2)]])
  from givesD [OF this, of g] obtain e g' where
    "genBool ?G [(a, t)] (max_expr_depth (gp_cfg G)) 0 False g = (Ok e, g')"
    "cond_ok (max_subquery_depth (gp_cfg G)) (gp_tables ?G) [(a, t)] e"
    by (auto simp: without_table_def)
  then show ?thesis using that by (simp add: Generator_generatePredicate_def)
qed

section \<open>Properties\<close>

text \<open>
  C28: for every configuration, draw stream and nonempty snapshot of usable tables, a call of \<open>generate\<close> returns: it
  neither recurses for ever, nor indexes an empty list, nor throws; and what it returns has a text in every dialect.\<close>

theorem generate_returns:
  assumes "usable (gp_tables G)" and "gp_tables G \<noteq> []" and "p \<noteq> Purpose_pkSelect"
  shows "\<exists>q g' s. Generator_generate G p None g = (Ok (Some q), g') \<and> queryStr d real q = Ok s"
proof -
  obtain q g' where "Generator_generate G p None g = (Ok (Some q), g')"
    "query_ok (p = Purpose_standalone) (max_subquery_depth (gp_cfg G)) (gp_tables G) [] q"
    using generate_run [OF assms] by blast
  then show ?thesis using query_renders(2) by blast
qed

definition sample_tables :: "table list" where
  "sample_tables = [default_table\<lparr>obj_id := 1, obj_name := ''foo1'', columns :=
     [default_column\<lparr>col_name := ''id'', col_type := CT_INT, primary_key := True\<rparr>,
      default_column\<lparr>col_name := ''name'', col_type := CT_VARCHAR\<rparr>]\<rparr>,
    default_table\<lparr>obj_id := 2, obj_name := ''foo2'', columns :=
     [default_column\<lparr>col_name := ''id'', col_type := CT_INT, primary_key := True\<rparr>,
      default_column\<lparr>col_name := ''ref'', col_type := CT_INT, foreign_key_references := 1\<rparr>]\<rparr>]"

definition sample_params :: gen_params where
  "sample_params = \<lparr>gp_cfg = default_query_gen_config, gp_tables = sample_tables,
     gp_server = \<lparr>si_flavor = fl_postgres, si_version = 160000\<rparr>\<rparr>"

definition sample_state :: gen_state where
  "sample_state = \<lparr>gen_rng = \<lparr>draws = (\<lambda>n. n), drawn = 0\<rparr>, aliasCounter = 0\<rparr>"

lemma sample_usable: "usable (gp_tables sample_params)"
  by (auto simp: sample_params_def sample_tables_def usable_def keys_match_def default_table_def default_column_def pkColumn_def)

lemma generate_returns_witness:
  "\<exists>q g' s. Generator_generate sample_params Purpose_standalone None sample_state = (Ok (Some q), g') \<and>
     queryStr pg_dialect fmt_nat q = Ok s"
  by (rule generate_returns [OF sample_usable]) (simp_all add: sample_params_def sample_tables_def)

text \<open>
  C27: what \<open>generate\<close> returns is well-formed: every column reference is in scope with the column's type, operands agree,
  divisors are guarded, subqueries have the shape their place needs and nest within the budget, grouped select
  lists follow GROUP BY, and only a standalone query has a CTE, window functions or a set operation.\<close>

theorem generate_well_formed:
  assumes "usable (gp_tables G)" and "gp_tables G \<noteq> []" and "p \<noteq> Purpose_pkSelect"
    and "Generator_generate G p None g = (Ok (Some q), g')"
  shows "query_ok (p = Purpose_standalone) (max_subquery_depth (gp_cfg G)) (gp_tables G) [] q"
  using generate_run [OF assms(1-3), of None g] assms(4) by auto

lemma generate_well_formed_witness:
  "\<exists>q g'. Generator_generate sample_params Purpose_standalone None sample_state = (Ok (Some q), g') \<and>
     query_ok True (max_subquery_depth default_query_gen_config) sample_tables [] q"
proof -
  let ?G = sample_params and ?g = sample_state
  have ne: "gp_tables ?G \<noteq> []" by (simp add: sample_params_def sample_tables_def)
  obtain q g' where run: "Generator_generate ?G Purpose_standalone None ?g = (Ok (Some q), g')"
    by (rule generate_run [OF sample_usable ne, of Purpose_standalone None ?g]) simp_all
  from generate_well_formed [OF sample_usable ne _ run] show ?thesis using run by (auto simp: sample_params_def)
qed

text \<open>
  C29: the query for \<open>WHERE pk IN (...)\<close> selects the target's key column alone, from the target itself and
  without RIGHT JOIN, so that every row has a key of the target; the limit and the lock are the ones asked for, and a locked
  query is neither distinct nor grouped.\<close>

theorem generatePkSelect_selects_keys:
  assumes "usable (t # gp_tables G)" and "gp_tables G \<noteq> []"
    and "Generator_generatePkSelect G (Some t) opts g = (r, g')"
  shows "\<exists>q. r = Ok (Some q) \<and> query_ok False (max_subquery_depth (gp_cfg G)) (t # gp_tables G) [] q \<and>
    ts_table (qs_from q) = obj_name t \<and> items_of q = [colExpr (ts_alias (qs_from q), hd (columns t))] \<and>
    (\<forall>j\<in>set (qs_joins q). jn_kind j \<noteq> Join_right) \<and>
    qs_limit q = (if po_limit opts > 0 then Some (po_limit opts) else None) \<and> qs_offset q = None \<and>
    ls_clause (qs_lock q) = po_lock opts \<and> (po_lock opts \<noteq> Lock_none \<longrightarrow> \<not> qs_distinct q \<and> ls_ofAlias (qs_lock q) = ts_alias (qs_from q))"
  using assms(3) by (rule_tac pk_select_run [OF assms(1,2), of opts g]) (auto simp: no_lock_def)

lemma generatePkSelect_selects_keys_witness:
  "\<exists>q g'. Generator_generatePkSelect sample_params (Some (hd sample_tables)) \<lparr>po_limit = 5, po_lock = Lock_none\<rparr>
       sample_state = (Ok (Some q), g') \<and>
     ts_table (qs_from q) = ''foo1'' \<and> qs_limit q = Some 5 \<and> (\<forall>j\<in>set (qs_joins q). jn_kind j \<noteq> Join_right)"
proof -
  let ?G = sample_params and ?g = sample_state and ?o = "\<lparr>po_limit = 5, po_lock = Lock_none\<rparr>"
  obtain x g' where run: "Generator_generatePkSelect ?G (Some (hd sample_tables)) ?o ?g = (x, g')" by fastforce
  have "usable (hd sample_tables # gp_tables ?G)"
    by (rule usable_subset [OF sample_usable ]) (simp add: sample_params_def sample_tables_def)
  moreover have "gp_tables ?G \<noteq> []" by (simp add: sample_params_def sample_tables_def)
  ultimately obtain q where q: "x = Ok (Some q)" "ts_table (qs_from q) = obj_name (hd sample_tables)" "qs_limit q = Some 5"
    "\<forall>j\<in>set (qs_joins q). jn_kind j \<noteq> Join_right"
    using generatePkSelect_selects_keys [OF _ _ run] by auto
  have "obj_name (hd sample_tables) = ''foo1''" by (simp add: sample_tables_def default_table_def)
  with q run show ?thesis by auto
qed

text \<open>
  C30: the predicate of an UPDATE or DELETE is a condition over the target's columns; its subqueries read the other
  tables only, never the target, and nest at most \<open>max_subquery_depth\<close> deep.\<close>

theorem generatePredicate_spares_target:
  assumes "usable (gp_tables G)" and "\<forall>i. a \<noteq> ''u'' @ fmt_nat i"
    and "\<forall>u\<in>set (gp_tables G). obj_name u = obj_name t \<longrightarrow> obj_id u = obj_id t"
    and "Generator_generatePredicate G t a g = (r, g')"
  shows "\<exists>e. r = Ok e \<and> expr_type e = CT_BOOL \<and> expr_ok (max_subquery_depth (gp_cfg G)) (gp_tables (without_table t G)) [(a, t)] e \<and>
    (\<forall>(l, name)\<in>set (exprReads 0 e). name \<noteq> obj_name t \<and> name \<in> obj_name ` set (gp_tables G) \<and> l < max_subquery_depth (gp_cfg G))"
proof -
  obtain e where e: "r = Ok e" "expr_type e = CT_BOOL"
    "expr_ok (max_subquery_depth (gp_cfg G)) (gp_tables (without_table t G)) [(a, t)] e"
    using predicate_run [OF assms(1,2), of t g] assms(4) by auto
  have "reads_in (\<lambda>l. 0 \<le> l \<and> l < 0 + max_subquery_depth (gp_cfg G)) (obj_name ` set (gp_tables (without_table t G))) (exprReads 0 e)"
    using reads_within(1) [OF e(3)] by blast
  then show ?thesis using e assms(3) by (fastforce simp: reads_in_def without_table_def)
qed

lemma generatePredicate_spares_target_witness:
  "\<exists>e g'. Generator_generatePredicate sample_params (hd sample_tables) ''foo1'' sample_state = (Ok e, g') \<and>
     (\<forall>(l, name)\<in>set (exprReads 0 e). name = ''foo2'' \<and> l < max_subquery_depth default_query_gen_config)"
proof -
  let ?G = sample_params and ?g = sample_state
  obtain x g' where run: "Generator_generatePredicate ?G (hd sample_tables) ''foo1'' ?g = (x, g')" by fastforce
  have "\<exists>e. x = Ok e \<and> expr_type e = CT_BOOL \<and>
      expr_ok (max_subquery_depth (gp_cfg ?G)) (gp_tables (without_table (hd sample_tables) ?G)) [(''foo1'', hd sample_tables)] e \<and>
      (\<forall>(l, name)\<in>set (exprReads 0 e). name \<noteq> obj_name (hd sample_tables) \<and> name \<in> obj_name ` set (gp_tables ?G) \<and>
        l < max_subquery_depth (gp_cfg ?G))"
    by (rule generatePredicate_spares_target [OF sample_usable _ _ run]) (simp_all add: sample_params_def sample_tables_def default_table_def)
  then show ?thesis using run by (fastforce simp: sample_params_def sample_tables_def default_table_def)
qed


section \<open>String literals\<close>

text \<open>
  How a server reads a string literal: a doubled quote stands for one, a single one ends it. \<open>backslashes\<close>: MySQL's
  default, where a backslash starts an escape; what the escapes stand for does not matter here.
\<close>

fun read_body :: "bool \<Rightarrow> string \<Rightarrow> (string \<times> string) option" where
  "read_body backslashes [] = None"
| "read_body backslashes (c # cs) =
     (if c = CHR 0x27 then (case cs of d # ds \<Rightarrow>
         if d = CHR 0x27 then map_option (\<lambda>(s, r). (CHR 0x27 # s, r)) (read_body backslashes ds) else Some ([], cs)
       | [] \<Rightarrow> Some ([], []))
      else if backslashes \<and> c = CHR 0x5C then None
      else map_option (\<lambda>(s, r). (c # s, r)) (read_body backslashes cs))"

definition read_literal :: "bool \<Rightarrow> string \<Rightarrow> (string \<times> string) option" where
  "read_literal backslashes s = (case s of c # cs \<Rightarrow> if c = CHR 0x27 then read_body backslashes cs else None | [] \<Rightarrow> None)"

lemma read_body_escaped:
  assumes "rest = [] \<or> hd rest \<noteq> CHR 0x27"
  shows "(backslashes \<Longrightarrow> CHR 0x5C \<notin> set s) \<Longrightarrow>
    read_body backslashes (concat (map (\<lambda>c. if c = CHR 0x27 then [CHR 0x27, CHR 0x27] else [c]) s) @ CHR 0x27 # rest) = Some (s, rest)"
proof (induction s)
  case Nil
  then show ?case using assms by (cases rest) auto
qed auto

text \<open>
  C32: the text of a string literal is read back as the string, up to its end and no further: by a server without
  backslash escapes for any string, by one with them for a string without backslashes, as all generated ones are.
\<close>

theorem literal_text_roundtrip:
  assumes "rest = [] \<or> hd rest \<noteq> CHR 0x27" and "backslashes \<longrightarrow> CHR 0x5C \<notin> set s"
  shows "read_literal backslashes (literalStr real (Lit_string s) @ rest) = Some (s, rest)"
  using read_body_escaped [OF assms(1), of backslashes s] assms(2) by (simp add: read_literal_def escapeStringLiteral_def)

lemma literal_text_roundtrip_witness:
  "read_literal True (literalStr fmt_nat (Lit_string [CHR ''a'', CHR 0x27, CHR ''b'']) @ '', 1)'') =
     Some ([CHR ''a'', CHR 0x27, CHR ''b''], '', 1)'')"
  by (rule literal_text_roundtrip) simp_all

end
