(* ===== verification/Query_Source.thy ===== *)
theory Query_Source
  imports Default_Actions Query_Results
begin

text \<open>
  The generator as the DML actions use it: each builds a \<open>Generator\<close> from its context, configuration and server, whose
  constructor takes the snapshot of all tables, calls it once and renders the result. With it, what was proved
  of the actions for any source of plain queries holds of the program's own.
\<close>

text \<open>The generator draws from the action's random source and numbers its aliases from 0.\<close>

definition in_generator :: "'a gen \<Rightarrow> (world, 'a) prog" where
  "in_generator m = in_rng (\<lambda>r. let (x, g) = m \<lparr>gen_rng = r, aliasCounter = 0\<rparr> in (x, gen_rng g))"

definition with_generator :: "query_gen_config \<Rightarrow> ctx_kind \<Rightarrow> server_info \<Rightarrow> (gen_params \<Rightarrow> 'a gen) \<Rightarrow> (world, 'a) prog" where
  "with_generator cfg ctx info call = bind (tables_snapshotAll ctx) (\<lambda>ts.
     in_generator (call \<lparr>gp_cfg = cfg, gp_tables = ts, gp_server = info\<rparr>))"

definition render_query :: "server_info \<Rightarrow> (nat \<Rightarrow> string) \<Rightarrow> query_spec option \<Rightarrow> (world, string option) prog" where
  "render_query info real q = (case q of None \<Rightarrow> ret None
     | Some q \<Rightarrow> bind (lift_result (queryStr (dialect_for info) real q)) (\<lambda>s. ret (Some s)))"

definition generator_source :: "query_gen_config \<Rightarrow> (nat \<Rightarrow> string) \<Rightarrow> (nat \<Rightarrow> string) \<Rightarrow> query_source" where
  "generator_source cfg real to_text = \<lparr>dml_predicate_prob = qg_dml_predicate_prob cfg,
     dml_pk_select_prob = qg_dml_pk_select_prob cfg,
     generatePredicate = (\<lambda>ctx info t qualifier. bind (with_generator cfg ctx info (\<lambda>G. Generator_generatePredicate G t qualifier))
       (\<lambda>e. lift_result (exprStr (dialect_for info) real e))),
     generatePkSelect = (\<lambda>ctx info t rows lock. bind (with_generator cfg ctx info (\<lambda>G.
       Generator_generatePkSelect G (Some t) \<lparr>po_limit = rows, po_lock = lock\<rparr>)) (render_query info real)),
     generateSelect = (\<lambda>ctx info. bind (with_generator cfg ctx info (\<lambda>G.
       Generator_generate G Purpose_standalone None)) (render_query info real)),
     real_text = to_text\<rparr>"

section \<open>Generated queries are plain\<close>

lemma queryBody_start: "queryBody d real q = Ok s \<Longrightarrow> \<exists>u. s = ''SELECT '' @ u"
  by (cases q) (auto simp: res_bind_eq_Ok)

lemma queryStr_start: "queryStr d real q = Ok s \<Longrightarrow> \<exists>u. s = ''SELECT '' @ u \<or> s = ''('' @ ''SELECT '' @ u \<or> s = ''WITH '' @ u"
  by (cases "qs_ctes q = []"; cases "qs_setOpRhs q")
    (auto simp: queryStr.simps res_bind_eq_Ok dest!: queryBody_start)

lemma queryStr_plain:
  assumes "queryStr d real q = Ok s"
  shows "plain s"
proof -
  obtain u where "s = ''SELECT '' @ u \<or> s = ''('' @ ''SELECT '' @ u \<or> s = ''WITH '' @ u" using queryStr_start [OF assms] ..
  then show ?thesis by (auto intro!: plain_start)
qed

lemma session_generator [session_intros]:
  "quiet_session (in_generator m)" "quiet_session (with_generator cfg ctx info call)" "quiet_session (render_query info real q)"
proof -
  show 1: "quiet_session (in_generator m)" for m :: "'x gen" unfolding in_generator_def by (rule session_world)
  show "quiet_session (with_generator cfg ctx info call)"
    unfolding with_generator_def by (intro session_base session_reads 1)
  show "quiet_session (render_query info real q)"
    unfolding render_query_def by (auto intro!: session_intros keeps_pure split: option.splits)
qed

lemma rendered_plain: "bind m (render_query info real) w = (Ok (Some s), w') \<Longrightarrow> plain s"
  by (auto simp: bind_def render_query_def ret_def lift_result_def
      split: prod.splits result.splits option.splits dest: queryStr_plain)

lemma generator_plain: "plain_queries (generator_source cfg real to_text)"
proof -
  have "quiet_session (lift_result r :: (world, string) prog)" for r
    by (cases r) (auto simp: lift_result_def keeps_def same_rel_def)
  then show ?thesis
    by (auto simp: plain_queries_def generator_source_def intro!: session_base session_generator elim: rendered_plain)
qed


interpretation generated: plain_source "generator_source cfg real to_text" for cfg real to_text
  by unfold_locales (rule generator_plain)

section \<open>Properties\<close>


text \<open>A run with the generator never asked for keys, on a server that refuses the SELECT.\<close>

lemma pk_select_never:
  assumes "dml_pk_select_prob qs = 0"
  shows "pk_select qs ctx info t pkName rows lock =
    bind (draw 1 100) (\<lambda>roll. ret (randomRowsSelect (dialect_for info) (obj_name t) pkName rows lock))"
proof
  fix w
  show "pk_select qs ctx info t pkName rows lock w =
    bind (draw 1 100) (\<lambda>roll. ret (randomRowsSelect (dialect_for info) (obj_name t) pkName rows lock)) w"
    by (simp add: pk_select_def assms bind_def draw_def in_rng_def random_number_def)
qed

definition no_key_queries :: query_source where
  "no_key_queries = generator_source (default_query_gen_config\<lparr>qg_dml_pk_select_prob := 0\<rparr>) fmt_nat fmt_nat"

lemma no_key_queries_select:
  "SelectThenDelete_execute config no_key_queries =
    SelectThenDelete_execute config (simple_queries\<lparr>dml_pk_select_prob := 0\<rparr>)"
proof -
  have "dml_pk_select_prob no_key_queries = 0" by (simp add: no_key_queries_def generator_source_def)
  then have "pk_select no_key_queries = pk_select (simple_queries\<lparr>dml_pk_select_prob := 0\<rparr>)"
    by (intro ext) (simp add: pk_select_never)
  then show ?thesis by (intro ext) (simp only: SelectThenDelete_execute_def)
qed


text \<open>Another worker drops the last table between the choice of the target and the snapshot of the generator.\<close>

definition last_table_dropped :: world where
  "last_table_dropped = (sample_world fl_postgres accept_all (\<lambda>n. 1) [sample_table 1 ''foo1''])\<lparr>
     others := (\<lambda>n. if n = 1 then [Reg_tables (Op_erase 1)] else [])\<rparr>"

lemma run_step: "m w = (Ok x, w') \<Longrightarrow> fst (f x w') = r \<Longrightarrow> fst (bind m f w) = r"
  by (simp add: bind_def)

lemma generator_no_tables:
  assumes "tables_snapshotAll ctx w = (Ok [], w')"
  shows "fst (bind (generatePkSelect (generator_source cfg real to_text) ctx info t rows lock)
    (\<lambda>sel. case sel of None \<Rightarrow> undef | Some s \<Rightarrow> ret s) w) = Undefined"
  by (simp add: generator_source_def with_generator_def bind_def assms in_generator_def in_rng_def
      Generator_generatePkSelect_def render_query_def ret_def undef_def Let_def)


end
