(* ===== verification/Workload_Threads.thy ===== *)
theory Workload_Threads
  imports Workload
begin

text \<open>
  The threads of a workload (core/src/workload.cpp): \<open>Workload::run\<close>, \<open>wait_completion\<close> and
  \<open>reconnect_workers\<close> as loops over the workers, whose threads run beside the caller.

  A thread is in one of three states: \<open>std::thread\<close> is joinable in all but \<open>No_thread\<close>. A step of the system is
  one call of a loop on one worker, or the end of a thread; what a thread did until then is \<open>thread_function\<close>, in
  which the other workers act through the schedule of its world. Every worker has its own copy of the action registry. Two threads that use one object without a lock
  are undefined behaviour: the statistics and the connection of a worker belong to its thread while it runs. An
  exception that leaves a thread ends the process.
\<close>

section \<open>The system\<close>

datatype thread = No_thread | Running | Finished

datatype control = C_run nat | C_join nat | C_reconnect nat

datatype conf = Conf "control list" "(thread \<times> worker) list"
  | Terminated exn | Thrown exn "(thread \<times> worker) list" | Undefined_behaviour

text \<open>The three loops, one call per worker.\<close>

definition workload_run :: "nat \<Rightarrow> control list" where
  "workload_run n = map C_run [0..<n]"

definition wait_completion :: "nat \<Rightarrow> control list" where
  "wait_completion n = map C_join [0..<n]"

definition reconnect_workers :: "nat \<Rightarrow> control list" where
  "reconnect_workers n = map C_reconnect [0..<n]"

text \<open>What \<open>run_thread\<close> does before it looks at the thread.\<close>

definition reset_statistics :: "environment \<Rightarrow> (worker, unit) prog" where
  "reset_statistics env = seq (timed_stat env S_reset) (timed_stat env S_start)"

inductive step :: "workload_params \<Rightarrow> (nat \<Rightarrow> environment) \<Rightarrow> ('b \<Rightarrow> action) \<Rightarrow> (nat \<Rightarrow> 'b action_registry) \<Rightarrow> conf \<Rightarrow> conf \<Rightarrow> bool"
  for params env exec actions where
  run_starts: "i < length ws \<Longrightarrow> ws ! i = (No_thread, k) \<Longrightarrow> reset_statistics (env i) k = (Ok (), k') \<Longrightarrow>
    step params env exec actions (Conf (C_run i # cs) ws) (Conf cs (ws[i := (Running, k')]))"
| run_refused: "i < length ws \<Longrightarrow> ws ! i = (Finished, k) \<Longrightarrow> reset_statistics (env i) k = (Ok (), k') \<Longrightarrow>
    step params env exec actions (Conf (C_run i # cs) ws) (Conf cs (ws[i := (Finished, k')]))"
| run_races: "i < length ws \<Longrightarrow> fst (ws ! i) = Running \<Longrightarrow>
    step params env exec actions (Conf (C_run i # cs) ws) Undefined_behaviour"
| joins: "i < length ws \<Longrightarrow> ws ! i = (t, k) \<Longrightarrow> t \<noteq> Running \<Longrightarrow>
    step params env exec actions (Conf (C_join i # cs) ws) (Conf cs (ws[i := (No_thread, k)]))"
| reconnects_one: "i < length ws \<Longrightarrow> ws ! i = (t, k) \<Longrightarrow> t \<noteq> Running \<Longrightarrow> reconnect (env i) k = (Ok (), k') \<Longrightarrow>
    step params env exec actions (Conf (C_reconnect i # cs) ws) (Conf cs (ws[i := (t, k')]))"
| reconnect_throws: "i < length ws \<Longrightarrow> ws ! i = (t, k) \<Longrightarrow> t \<noteq> Running \<Longrightarrow> reconnect (env i) k = (Throw e, k') \<Longrightarrow>
    step params env exec actions (Conf (C_reconnect i # cs) ws) (Thrown e (ws[i := (t, k')]))"
| reconnect_races: "i < length ws \<Longrightarrow> fst (ws ! i) = Running \<Longrightarrow>
    step params env exec actions (Conf (C_reconnect i # cs) ws) Undefined_behaviour"
| thread_ends: "i < length ws \<Longrightarrow> ws ! i = (Running, k) \<Longrightarrow>
    thread_function params (env i) exec (actions i) k = (Ok (), k') \<Longrightarrow>
    step params env exec actions (Conf cs ws) (Conf cs (ws[i := (Finished, k')]))"
| thread_escapes: "i < length ws \<Longrightarrow> ws ! i = (Running, k) \<Longrightarrow>
    thread_function params (env i) exec (actions i) k = (Throw e, k') \<Longrightarrow>
    step params env exec actions (Conf cs ws) (Terminated e)"
| thread_undefined: "i < length ws \<Longrightarrow> ws ! i = (Running, k) \<Longrightarrow>
    thread_function params (env i) exec (actions i) k = (Undefined, k') \<Longrightarrow>
    step params env exec actions (Conf cs ws) Undefined_behaviour"

inductive_cases run_stepE: "step params env exec actions (Conf (C_run i # cs) ws) c"
inductive_cases join_stepE: "step params env exec actions (Conf (C_join i # cs) ws) c"
inductive_cases done_stepE: "step params env exec actions (Conf [] ws) c"
inductive_simps terminated_step [simp]: "step params env exec actions (Terminated e) c"
inductive_simps thrown_step [simp]: "step params env exec actions (Thrown e ws) c"
inductive_simps race_step [simp]: "step params env exec actions Undefined_behaviour c"

abbreviation steps where
  "steps params env exec actions \<equiv> (step params env exec actions)\<^sup>*\<^sup>*"

section \<open>A run of the workload\<close>

text \<open>
  \<open>run\<close> and then \<open>wait_completion\<close> from workers without threads. Worker \<open>i\<close> starts as \<open>K i\<close>; after \<open>m\<close> calls of the
  two loops it has not been started, or runs or has finished, or has been joined.
\<close>

definition script :: "nat \<Rightarrow> control list" where
  "script n = workload_run n @ wait_completion n"

definition reset_worker :: "(nat \<Rightarrow> environment) \<Rightarrow> (nat \<Rightarrow> worker) \<Rightarrow> nat \<Rightarrow> worker" where
  "reset_worker env K i = snd (reset_statistics (env i) (K i))"

definition ended :: "workload_params \<Rightarrow> (nat \<Rightarrow> environment) \<Rightarrow> ('b \<Rightarrow> action) \<Rightarrow> (nat \<Rightarrow> 'b action_registry) \<Rightarrow>
    (nat \<Rightarrow> worker) \<Rightarrow> nat \<Rightarrow> worker \<Rightarrow> bool" where
  "ended params env exec actions K i k \<longleftrightarrow>
     thread_function params (env i) exec (actions i) (reset_worker env K i) = (Ok (), k)"

definition slot_ok :: "workload_params \<Rightarrow> (nat \<Rightarrow> environment) \<Rightarrow> ('b \<Rightarrow> action) \<Rightarrow> (nat \<Rightarrow> 'b action_registry) \<Rightarrow>
    (nat \<Rightarrow> worker) \<Rightarrow> nat \<Rightarrow> nat \<Rightarrow> nat \<Rightarrow> thread \<times> worker \<Rightarrow> bool" where
  "slot_ok params env exec actions K n m i s \<longleftrightarrow>
     (if m \<le> i then s = (No_thread, K i)
      else if m \<le> n + i then s = (Running, reset_worker env K i) \<or>
        (fst s = Finished \<and> ended params env exec actions K i (snd s))
      else fst s = No_thread \<and> ended params env exec actions K i (snd s))"

definition on_script :: "workload_params \<Rightarrow> (nat \<Rightarrow> environment) \<Rightarrow> ('b \<Rightarrow> action) \<Rightarrow> (nat \<Rightarrow> 'b action_registry) \<Rightarrow>
    (nat \<Rightarrow> worker) \<Rightarrow> nat \<Rightarrow> nat \<Rightarrow> (thread \<times> worker) list \<Rightarrow> bool" where
  "on_script params env exec actions K n m ws \<longleftrightarrow> m \<le> 2 * n \<and> length ws = n \<and>
     (\<forall>i<n. slot_ok params env exec actions K n m i (ws ! i))"

definition run_ok :: "workload_params \<Rightarrow> (nat \<Rightarrow> environment) \<Rightarrow> ('b \<Rightarrow> action) \<Rightarrow> (nat \<Rightarrow> 'b action_registry) \<Rightarrow>
    (nat \<Rightarrow> worker) \<Rightarrow> nat \<Rightarrow> conf \<Rightarrow> bool" where
  "run_ok params env exec actions K n c = (case c of
       Conf cs ws \<Rightarrow> (\<exists>m. cs = drop m (script n) \<and> on_script params env exec actions K n m ws)
     | Terminated e \<Rightarrow> (\<exists>i<n. fst (thread_function params (env i) exec (actions i) (reset_worker env K i)) = Throw e)
     | Thrown e ws \<Rightarrow> False
     | Undefined_behaviour \<Rightarrow> (\<exists>i<n. fst (thread_function params (env i) exec (actions i) (reset_worker env K i)) = Undefined))"

lemma length_script [simp]: "length (script n) = 2 * n"
  by (simp add: script_def workload_run_def wait_completion_def)

lemma script_nth: "m < 2 * n \<Longrightarrow> script n ! m = (if m < n then C_run m else C_join (m - n))"
  by (auto simp: script_def workload_run_def wait_completion_def nth_append)

lemma script_next:
  assumes "drop m (script n) = c # cs"
  shows "m < 2 * n \<and> c = (if m < n then C_run m else C_join (m - n)) \<and> cs = drop (Suc m) (script n)"
proof -
  from assms have m: "m < 2 * n" by (rule_tac ccontr) simp
  with Cons_nth_drop_Suc [of m "script n"] have "script n ! m # drop (Suc m) (script n) = c # cs"
    by (simp add: assms)
  then have "c = script n ! m" "cs = drop (Suc m) (script n)" by auto
  with m show ?thesis by (simp only: script_nth simp_thms)
qed

lemma script_no_reconnect: "C_reconnect i # cs \<noteq> drop m (script n)"
proof
  assume "C_reconnect i # cs = drop m (script n)"
  from script_next [OF this [symmetric]] show False by (simp split: if_splits)
qed

lemma reset_statistics_ok: "\<exists>k'. reset_statistics env k = (Ok (), k')"
  by (simp add: reset_statistics_def timed_stat_def seq_def bind_def read_clock_def record_stat_def modify_def)

lemma reset_statistics_worker:
  "reset_statistics (env i) (K i) = (Ok (), k') \<longleftrightarrow> k' = reset_worker env K i"
  using reset_statistics_ok [of "env i" "K i"] by (auto simp: reset_worker_def)

text \<open>The slots the next call does not touch.\<close>

lemma slot_next:
  "slot_ok params env exec actions K n m i s \<Longrightarrow> i < n \<Longrightarrow> m \<noteq> i \<Longrightarrow> m \<noteq> n + i \<Longrightarrow>
    slot_ok params env exec actions K n (Suc m) i s"
  by (auto simp: slot_ok_def)

lemma on_script_update:
  assumes "on_script params env exec actions K n m ws" and "j < n"
    and "\<And>i. i < n \<Longrightarrow> i \<noteq> j \<Longrightarrow> slot_ok params env exec actions K n m i (ws ! i) \<Longrightarrow>
      slot_ok params env exec actions K n m' i (ws ! i)"
    and "slot_ok params env exec actions K n m' j s" and "m' \<le> 2 * n"
  shows "on_script params env exec actions K n m' (ws[j := s])"
  using assms by (auto simp: on_script_def nth_list_update)

lemma running_slot:
  assumes "on_script params env exec actions K n m ws" and "i < length ws" and "ws ! i = (Running, k)"
  shows "i < n" and "m \<le> n + i" and "i < m" and "k = reset_worker env K i"
  using assms by (auto simp: on_script_def slot_ok_def not_le split: if_splits dest!: spec [of _ i])

lemma run_ok_step:
  assumes "step params env exec actions c c'" and "run_ok params env exec actions K n c"
  shows "run_ok params env exec actions K n c'"
  using assms
proof (induction rule: step.induct)
  case (run_starts i ws k k' cs)
  then obtain m where m: "C_run i # cs = drop m (script n)" "on_script params env exec actions K n m ws"
    by (auto simp: run_ok_def)
  from script_next [OF m(1) [symmetric]] have c: "m = i" "i < n" "cs = drop (Suc m) (script n)"
    by (auto split: if_splits)
  with m(2) run_starts(2,3) have "k' = reset_worker env K i"
    by (auto simp: on_script_def slot_ok_def reset_statistics_worker dest!: spec [of _ i])
  then have "on_script params env exec actions K n (Suc m) (ws[i := (Running, k')])"
    using c m(2) by (intro on_script_update [OF m(2)]) (auto simp: slot_ok_def)
  with c show ?case by (auto simp: run_ok_def)
next
  case (run_refused i ws k k' cs)
  then obtain m where m: "C_run i # cs = drop m (script n)" "on_script params env exec actions K n m ws"
    by (auto simp: run_ok_def)
  from script_next [OF m(1) [symmetric]] m(2) run_refused(2) show ?case
    by (auto simp: on_script_def slot_ok_def split: if_splits)
next
  case (run_races i ws cs)
  then obtain m where m: "C_run i # cs = drop m (script n)" "on_script params env exec actions K n m ws"
    by (auto simp: run_ok_def)
  from script_next [OF m(1) [symmetric]] m(2) run_races(2) show ?case
    by (auto simp: on_script_def slot_ok_def split: if_splits)
next
  case (joins i ws t k cs)
  then obtain m where m: "C_join i # cs = drop m (script n)" "on_script params env exec actions K n m ws"
    by (auto simp: run_ok_def)
  from script_next [OF m(1) [symmetric]] have c: "m = n + i" "i < n" "cs = drop (Suc m) (script n)"
    by (auto split: if_splits)
  with m(2) joins(2,3) have "ended params env exec actions K i k"
    by (auto simp: on_script_def slot_ok_def dest!: spec [of _ i])
  then have "on_script params env exec actions K n (Suc m) (ws[i := (No_thread, k)])"
    using c m(2) by (intro on_script_update [OF m(2)]) (auto simp: slot_ok_def)
  with c show ?case by (auto simp: run_ok_def)
next
  case (reconnects_one i ws t k k' cs)
  then show ?case by (simp add: run_ok_def script_no_reconnect)
next
  case (reconnect_throws i ws t k e k' cs)
  then show ?case by (simp add: run_ok_def script_no_reconnect)
next
  case (reconnect_races i ws cs)
  then show ?case by (simp add: run_ok_def script_no_reconnect)
next
  case (thread_ends i ws k k' cs)
  then obtain m where m: "cs = drop m (script n)" "on_script params env exec actions K n m ws"
    by (auto simp: run_ok_def)
  note i = running_slot [OF m(2) thread_ends(1,2)]
  with thread_ends(3) have "slot_ok params env exec actions K n m i (Finished, k')"
    by (simp add: slot_ok_def ended_def)
  with i m(2) have "on_script params env exec actions K n m (ws[i := (Finished, k')])"
    by (intro on_script_update [OF m(2)]) (auto simp: on_script_def)
  with m(1) show ?case by (auto simp: run_ok_def)
next
  case (thread_escapes i ws k e k' cs)
  then obtain m where m: "on_script params env exec actions K n m ws" by (auto simp: run_ok_def)
  from running_slot [OF m thread_escapes(1,2)] thread_escapes(3) show ?case
    by (auto simp: run_ok_def intro!: exI [of _ i])
next
  case (thread_undefined i ws k k' cs)
  then obtain m where m: "on_script params env exec actions K n m ws" by (auto simp: run_ok_def)
  from running_slot [OF m thread_undefined(1,2)] thread_undefined(3) show ?case
    by (auto simp: run_ok_def intro!: exI [of _ i])
qed

section \<open>Runs end\<close>

text \<open>Every step brings the run closer to its end: a call made, or a thread that ran and has ended.\<close>

fun is_run :: "control \<Rightarrow> bool" where
  "is_run (C_run i) = True"
| "is_run c = False"

definition running :: "(thread \<times> worker) list \<Rightarrow> nat" where
  "running ws = sum_list (map (\<lambda>s. if fst s = Running then 1 else 0) ws)"

fun remaining :: "conf \<Rightarrow> nat" where
  "remaining (Conf cs ws) = length cs + length (filter is_run cs) + running ws"
| "remaining c = 0"

lemma running_update:
  "i < length ws \<Longrightarrow> running (ws[i := s]) = running ws + (if fst s = Running then 1 else 0) -
     (if fst (ws ! i) = Running then 1 else 0)"
  by (simp add: running_def map_update sum_list_update)

lemma running_pos:
  assumes "i < length ws" and "fst (ws ! i) = Running"
  shows "0 < running ws"
proof -
  have "1 \<in> set (map (\<lambda>s. if fst s = Running then 1 else 0 :: nat) ws)"
    using assms by (auto intro!: image_eqI [where x = "ws ! i"])
  from member_le_sum_list [OF this] show ?thesis by (simp add: running_def)
qed

lemma step_remaining: "step params env exec actions c c' \<Longrightarrow> remaining c' < remaining c"
  by (induction rule: step.induct) (auto simp: running_update dest: running_pos)

lemma steps_remaining: "(step params env exec actions ^^ l) c c' \<Longrightarrow> l + remaining c' \<le> remaining c"
  by (induction l arbitrary: c') (fastforce dest: step_remaining)+

lemma run_to_end: "\<exists>l c'. (step params env exec actions ^^ l) c c' \<and> (\<nexists>d. step params env exec actions c' d)"
proof (induction "remaining c" arbitrary: c rule: less_induct)
  case less
  show ?case
  proof (cases "\<exists>d. step params env exec actions c d")
    case True
    then obtain d where d: "step params env exec actions c d" by blast
    from less [OF step_remaining [OF d]] obtain l c' where
      r: "(step params env exec actions ^^ l) d c'" "\<nexists>e. step params env exec actions c' e" by blast
    from relpowp_Suc_I2 [OF d r(1)] r(2) show ?thesis by blast
  next
    case False
    then show ?thesis by (intro exI [of _ 0] exI [of _ c]) auto
  qed
qed

section \<open>The result of a run\<close>

definition start :: "nat \<Rightarrow> (nat \<Rightarrow> worker) \<Rightarrow> conf" where
  "start n K = Conf (script n) (map (\<lambda>i. (No_thread, K i)) [0..<n])"

lemma start_ok: "run_ok params env exec actions K n (start n K)"
  by (auto simp: start_def run_ok_def on_script_def slot_ok_def intro!: exI [of _ 0])

lemma start_remaining: "remaining (start n K) = 3 * n"
proof -
  have "filter is_run (script n) = workload_run n"
    by (simp add: script_def workload_run_def wait_completion_def filter_map o_def)
  moreover have "running (map (\<lambda>i. (No_thread, K i)) [0..<n]) = 0"
    by (simp add: running_def o_def)
  ultimately show ?thesis by (simp add: start_def workload_run_def)
qed

lemma run_ok_steps:
  "(step params env exec actions ^^ l) (start n K) c \<Longrightarrow> run_ok params env exec actions K n c"
  by (induction l arbitrary: c) (auto simp: start_ok intro: run_ok_step)

text \<open>Starting a thread and waiting for it is \<open>run_thread\<close> with the thread run to its end.\<close>

lemma run_thread_reset:
  "run_thread False params (env i) exec (actions i) (K i) =
     thread_function params (env i) exec (actions i) (reset_worker env K i)"
proof -
  obtain k' where "reset_statistics (env i) (K i) = (Ok (), k')" using reset_statistics_ok by blast
  then show ?thesis
    by (auto simp: run_thread_def reset_worker_def reset_statistics_def seq_def bind_def split: prod.splits result.splits)
qed

text \<open>Where nothing can happen any more, every thread has been joined or the process is gone.\<close>

lemma stuck_is_final:
  assumes "run_ok params env exec actions K n (Conf cs ws)"
    and "\<forall>i<n. fst (run_thread False params (env i) exec (actions i) (K i)) \<noteq> Diverges"
    and "\<nexists>c'. step params env exec actions (Conf cs ws) c'"
  shows "cs = [] \<and> length ws = n \<and>
    (\<forall>i<n. \<exists>k. ws ! i = (No_thread, k) \<and> run_thread False params (env i) exec (actions i) (K i) = (Ok (), k))"
proof -
  obtain m where m: "cs = drop m (script n)" "on_script params env exec actions K n m ws"
    using assms(1) by (auto simp: run_ok_def)
  have idle: "fst (ws ! i) \<noteq> Running" if "i < length ws" for i
  proof
    assume "fst (ws ! i) = Running"
    then obtain k where k: "ws ! i = (Running, k)" by (cases "ws ! i") auto
    note r = running_slot [OF m(2) that k]
    obtain r' k' where t: "thread_function params (env i) exec (actions i) k = (r', k')" by fastforce
    have "fst (thread_function params (env i) exec (actions i) k) \<noteq> Diverges"
      using assms(2) r(1) by (simp add: run_thread_reset r(4))
    with t have "r' \<noteq> Diverges" by simp
    with t have "\<exists>c'. step params env exec actions (Conf cs ws) c'"
      by (cases r') (auto intro: thread_ends [OF that k] thread_escapes [OF that k] thread_undefined [OF that k])
    with assms(3) show False by blast
  qed
  have "\<not> m < 2 * n"
  proof
    assume "m < 2 * n"
    then have cs: "cs = script n ! m # drop (Suc m) (script n)" by (simp add: m(1) Cons_nth_drop_Suc)
    let ?i = "if m < n then m else m - n"
    have i: "?i < length ws" using \<open>m < 2 * n\<close> m(2) by (auto simp: on_script_def)
    obtain t k where s: "ws ! ?i = (t, k)" by fastforce
    with idle [OF i] have "t \<noteq> Running" by simp
    obtain k' where "reset_statistics (env ?i) k = (Ok (), k')" using reset_statistics_ok by blast
    with i s \<open>t \<noteq> Running\<close> have "\<exists>c'. step params env exec actions (Conf cs ws) c'"
      unfolding cs script_nth [OF \<open>m < 2 * n\<close>]
      by (cases t) (auto intro: run_starts run_refused joins split: if_splits)
    with assms(3) show False by blast
  qed
  with m show ?thesis
    by (auto simp: on_script_def slot_ok_def run_thread_reset ended_def split: if_splits) (metis prod.collapse)
qed



text \<open>Calling \<open>run\<close> again, or \<open>reconnect_workers\<close>, while a thread still runs is a data race.\<close>

lemma calls_on_running_race:
  assumes "i < length ws" and "fst (ws ! i) = Running"
  shows "step params env exec actions (Conf (C_run i # cs) ws) Undefined_behaviour"
    and "step params env exec actions (Conf (C_reconnect i # cs) ws) Undefined_behaviour"
  using assms by (auto intro: run_races reconnect_races)

text \<open>A \<open>run\<close> after the threads have ended but before \<open>wait_completion\<close> starts nothing and loses the statistics.\<close>

lemma run_before_join:
  assumes "i < length ws" and "ws ! i = (Finished, k)"
  shows "\<exists>k'. step params env exec actions (Conf (C_run i # cs) ws) (Conf cs (ws[i := (Finished, k')])) \<and> total k' = 0"
proof -
  obtain k' where k': "reset_statistics (env i) k = (Ok (), k')" using reset_statistics_ok by blast
  then have "total k' = 0"
    by (auto simp: reset_statistics_def timed_stat_def seq_def bind_def read_clock_def record_stat_def modify_def
        total_def getTotalActionCount_def)
  with run_refused [where env = env and i = i and ws = ws and k = k, OF assms k'] show ?thesis by blast
qed

end
