(* ===== verification/Statistics_Report.thy ===== *)
theory Statistics_Report
  imports Run_Statistics Complex_Main
begin

text \<open>
  The figures and texts made of the run statistics (core/src/statistics.cpp): averages, rates and the reports.

  Floating-point arithmetic is IEEE \<open>double\<close>: its numbers are the parameter \<open>'d\<close>, the operations the code uses
  are the fields of \<open>doubles\<close>, of which nothing is assumed beyond what a lemma names. The maps \<open>actionErrorNames\<close>
  and \<open>sqlErrorCodes\<close> are ordered by key; \<open>actionStats\<close> is an \<open>unordered_map\<close>, whose order the list keeps.
\<close>

section \<open>Doubles\<close>

text \<open>
  \<open>of_count\<close> and \<open>of_ns\<close> are the conversions from \<open>uint64_t\<close> and from a duration's count, \<open>seconds\<close> is
  \<open>duration<double>\<close> of a number of nanoseconds, \<open>fixed2\<close> what a stream with \<open>fixed\<close> and \<open>setprecision(2)\<close> writes.
\<close>

record 'd doubles =
  dbl :: "nat \<Rightarrow> 'd"
  of_count :: "counter \<Rightarrow> 'd"
  of_ns :: "int \<Rightarrow> 'd"
  seconds :: "int \<Rightarrow> 'd"
  over :: "'d \<Rightarrow> 'd \<Rightarrow> 'd"
  times :: "'d \<Rightarrow> 'd \<Rightarrow> 'd"
  not_positive :: "'d \<Rightarrow> bool"
  fixed2 :: "'d \<Rightarrow> string"

section \<open>Averages and rates\<close>

definition getAverageMs :: "'d doubles \<Rightarrow> timing_statistics \<Rightarrow> 'd" where
  "getAverageMs D t = (if t_count t = 0 then dbl D 0
     else over D (over D (of_ns D (totalTime t)) (of_count D (t_count t))) (dbl D 1000000))"

definition getMinMs :: "'d doubles \<Rightarrow> timing_statistics \<Rightarrow> 'd" where
  "getMinMs D t = (if t_count t = 0 \<or> minTime t = duration_max then dbl D 0
     else over D (of_ns D (minTime t)) (dbl D 1000000))"

definition getMaxMs :: "'d doubles \<Rightarrow> timing_statistics \<Rightarrow> 'd" where
  "getMaxMs D t = (if t_count t = 0 then dbl D 0 else over D (of_ns D (maxTime t)) (dbl D 1000000))"

definition getSuccessRate :: "'d doubles \<Rightarrow> action_statistics \<Rightarrow> 'd" where
  "getSuccessRate D s = (let n = action_getTotalCount s in if n = 0 then dbl D 0
     else times D (over D (of_count D (successCount s)) (of_count D n)) (dbl D 100))"

definition getTotalDurationSeconds :: "'d doubles \<Rightarrow> worker_statistics \<Rightarrow> 'd" where
  "getTotalDurationSeconds D w = seconds D (w_endTime w - w_startTime w)"

definition getOverallSuccessRate :: "'d doubles \<Rightarrow> worker_statistics \<Rightarrow> 'd" where
  "getOverallSuccessRate D w = (let n = getTotalActionCount w in if n = 0 then dbl D 0
     else times D (over D (of_count D (getTotalSuccessCount w)) (of_count D n)) (dbl D 100))"

definition getActionsPerSecond :: "'d doubles \<Rightarrow> worker_statistics \<Rightarrow> 'd" where
  "getActionsPerSecond D w = (let t = getTotalDurationSeconds D w in if not_positive D t then dbl D 0
     else over D (of_count D (getTotalActionCount w)) t)"

section \<open>Reports\<close>

definition newline :: string where
  "newline = [CHR 0x0A]"

definition fmt_count :: "counter \<Rightarrow> string" where
  "fmt_count n = fmt_nat (unat n)"

definition reportSummary :: "'d doubles \<Rightarrow> worker_statistics \<Rightarrow> string" where
  "reportSummary D w = ''Worker Summary:'' @ newline @
     ''  Total actions: '' @ fmt_count (getTotalActionCount w) @ newline @
     ''  Successful: '' @ fmt_count (getTotalSuccessCount w) @ newline @
     ''  Failed: '' @ fmt_count (getTotalFailureCount w) @ newline @
     ''  Success rate: '' @ fixed2 D (getOverallSuccessRate D w) @ ''%'' @ newline @
     ''  Duration: '' @ fixed2 D (getTotalDurationSeconds D w) @ ''s'' @ newline @
     ''  Actions/sec: '' @ fixed2 D (getActionsPerSecond D w) @ newline"

definition timing_report :: "'d doubles \<Rightarrow> string \<Rightarrow> timing_statistics \<Rightarrow> string" where
  "timing_report D title t = (if \<not> timing_hasData t then [] else
     ''  '' @ title @ '': avg='' @ fixed2 D (getAverageMs D t) @ ''ms, min='' @ fixed2 D (getMinMs D t) @
     ''ms, max='' @ fixed2 D (getMaxMs D t) @ ''ms'' @ newline)"

text \<open>A \<open>std::map\<close> is read in the order of its keys.\<close>

definition counts_report :: "string \<Rightarrow> (string \<times> counter) list \<Rightarrow> string" where
  "counts_report title m = (if m = [] then [] else
     ''  '' @ title @ '': '' @ join '', '' (map (\<lambda>(k, n). k @ ''='' @ fmt_count n) (sort_key fst m)) @ newline)"

definition action_report :: "'d doubles \<Rightarrow> string \<Rightarrow> action_statistics \<Rightarrow> string" where
  "action_report D actionName s = (if \<not> action_hasData s then [] else
     ''Action: '' @ actionName @ newline @
     ''  Total: '' @ fmt_count (action_getTotalCount s) @ '' (Success: '' @ fmt_count (successCount s) @
     '', Action Fail: '' @ fmt_count (actionFailureCount s) @ '', SQL Fail: '' @ fmt_count (sqlFailureCount s) @
     '', Other Fail: '' @ fmt_count (otherFailureCount s) @ '', Conflict: '' @ fmt_count (sqlConflictCount s) @
     '')'' @ newline @
     ''  Success Rate: '' @ fixed2 D (getSuccessRate D s) @ ''%'' @ newline @
     timing_report D ''Execution Time'' (executionTiming s) @ timing_report D ''SQL Time'' (sqlTiming s) @
     counts_report ''Action Errors'' (actionErrorNames s) @ counts_report ''SQL Errors'' (sqlErrorCodes s) @
     newline)"

definition reportDetailed :: "'d doubles \<Rightarrow> worker_statistics \<Rightarrow> string" where
  "reportDetailed D w = newline @ ''Detailed Action Statistics:'' @ newline @ replicate 80 (CHR ''-'') @ newline @
     concat (map (\<lambda>(n, s). action_report D n s) (actionStats w))"

definition report :: "'d doubles \<Rightarrow> worker_statistics \<Rightarrow> string" where
  "report D w = reportSummary D w @ reportDetailed D w"

section \<open>What the reports say\<close>

text \<open>
  In consistent statistics every figure of an action's report is that of a non-empty sample: an action with data has
  both timings, so their lines are there and no average, rate or extreme is the placeholder for an empty one.
\<close>

lemma action_report_complete:
  assumes "action_stats_ok s" and "action_hasData s"
  shows "timing_hasData (executionTiming s)" and "timing_hasData (sqlTiming s)"
    and "getAverageMs D (sqlTiming s) = over D (over D (of_ns D (totalTime (sqlTiming s)))
      (of_count D (action_getTotalCount s))) (dbl D 1000000)"
    and "getSuccessRate D s = times D (over D (of_count D (successCount s)) (of_count D (action_getTotalCount s))) (dbl D 100)"
  using assms
  by (auto simp: action_stats_ok_def action_hasData_def timing_hasData_def getAverageMs_def getSuccessRate_def
      Let_def)

text \<open>The totals of the summary are consistent: actions are successes and failures.\<close>

lemma totals_split:
  "getTotalActionCount w = getTotalSuccessCount w + getTotalFailureCount w"
proof -
  have "action_getTotalCount s = successCount s + action_getTotalFailureCount s" for s
    by (simp add: action_getTotalCount_def action_getTotalFailureCount_def)
  moreover have "foldl (\<lambda>t (n, s). t + f s) 0 xs = sum_list (map (\<lambda>p. f (snd p)) xs)"
    for f :: "action_statistics \<Rightarrow> counter" and xs :: "(string \<times> action_statistics) list"
    using foldl_add_sum [of "\<lambda>p. f (snd p)" 0 xs] by (simp add: case_prod_beta')
  ultimately show ?thesis
    by (simp add: getTotalActionCount_def getTotalSuccessCount_def getTotalFailureCount_def sum_list_addf)
qed

text \<open>A worker without data reports no action, and its rates are zero without a division.\<close>

lemma empty_report:
  "reportDetailed D worker_stats_new = newline @ ''Detailed Action Statistics:'' @ newline @ replicate 80 (CHR ''-'') @ newline"
  "getOverallSuccessRate D worker_stats_new = dbl D 0"
  by (simp_all add: reportDetailed_def worker_stats_new_def getOverallSuccessRate_def getTotalActionCount_def)

text \<open>Resetting the statistics empties every report.\<close>

lemma reset_report:
  assumes "worker_call (S_reset now) w = (Ok (), w')"
  shows "reportDetailed D w' = reportDetailed D worker_stats_new" and "getOverallSuccessRate D w' = dbl D 0"
  using assms
  by (auto simp: modify_def reportDetailed_def worker_stats_new_def getOverallSuccessRate_def
      getTotalActionCount_def)

subsection \<open>Exact figures\<close>

text \<open>The figures without rounding: the real numbers for the doubles.\<close>

definition exact :: "real doubles" where
  "exact = \<lparr>dbl = real, of_count = (\<lambda>n. real (unat n)), of_ns = real_of_int, seconds = (\<lambda>n. real_of_int n / 1000000000),
     over = (/), times = (*), not_positive = (\<lambda>x. x \<le> 0), fixed2 = (\<lambda>x. [])\<rparr>"

lemma exact_simps [simp]:
  "dbl exact = real" "of_count exact n = real (unat n)" "of_ns exact = real_of_int" "over exact = (/)"
  "times exact = (*)"
  by (simp_all add: exact_def)

text \<open>Rates are percentages, as long as the counters have not wrapped.\<close>

lemma success_rate_bounds:
  assumes "successCount s \<le> action_getTotalCount s"
  shows "0 \<le> getSuccessRate exact s \<and> getSuccessRate exact s \<le> 100"
proof -
  have "0 \<le> real a / real b * 100 \<and> real a / real b * 100 \<le> 100" if "a \<le> b" for a b :: nat
    using that by (cases "b = 0") (auto simp: divide_le_eq)
  from this [of "unat (successCount s)" "unat (action_getTotalCount s)"] show ?thesis
    using assms by (simp add: getSuccessRate_def Let_def word_le_nat_alt del: of_nat_unat)
qed

lemma timing_of_samples:
  assumes "ds \<noteq> []" and "length ds < 2 ^ 64" and "\<forall>d\<in>set ds. 0 \<le> d \<and> d \<le> duration_max"
  defines "t \<equiv> foldl (\<lambda>t d. timing_record d t) timing_new ds"
  shows "totalTime t = sum_list ds" "minTime t = Min (set ds)" "maxTime t = Max (set ds)"
    "unat (t_count t) = length ds"
proof -
  have "Min (set ds) \<le> duration_max" "0 \<le> Max (set ds)"
    using assms(1,3) Min_in [of "set ds"] Max_in [of "set ds"] by auto
  then have "Min (set (duration_max # ds)) = Min (set ds)" "Max (set (0 # ds)) = Max (set ds)"
    using assms(1) by (simp_all add: Min_insert Max_insert min_absorb2 max_absorb2)
  then show "totalTime t = sum_list ds" "minTime t = Min (set ds)" "maxTime t = Max (set ds)"
    "unat (t_count t) = length ds"
    using timing_aggregates [of ds] assms(2) by (simp_all add: t_def Let_def unat_of_nat take_bit_nat_eq_self)
qed

lemma sum_list_between:
  fixes ds :: "int list"
  assumes "\<forall>d\<in>set ds. a \<le> d \<and> d \<le> b"
  shows "a * int (length ds) \<le> sum_list ds \<and> sum_list ds \<le> b * int (length ds)"
  using assms by (induction ds) (auto simp: algebra_simps)

text \<open>The reported average lies between the reported extremes.\<close>

lemma average_between_extremes:
  assumes "ds \<noteq> []" and "length ds < 2 ^ 64" and "\<forall>d\<in>set ds. 0 \<le> d \<and> d \<le> duration_max"
  defines "t \<equiv> foldl (\<lambda>t d. timing_record d t) timing_new ds"
  assumes "minTime t \<noteq> duration_max"
  shows "getMinMs exact t \<le> getAverageMs exact t" and "getAverageMs exact t \<le> getMaxMs exact t"
proof -
  note t = timing_of_samples [OF assms(1-3), folded t_def]
  have n: "unat (t_count t) \<noteq> 0" using t(4) assms(1) by simp
  have c: "t_count t \<noteq> 0" using n by auto
  have b: "minTime t * int (length ds) \<le> totalTime t" "totalTime t \<le> maxTime t * int (length ds)"
    using sum_list_between [of ds "Min (set ds)" "Max (set ds)"] t assms(1) by auto
  have "real_of_int (minTime t * int (length ds)) \<le> real_of_int (totalTime t)"
    "real_of_int (totalTime t) \<le> real_of_int (maxTime t * int (length ds))"
    using b by (simp_all only: of_int_le_iff)
  then show "getMinMs exact t \<le> getAverageMs exact t" "getAverageMs exact t \<le> getMaxMs exact t"
    using n c assms(5) t(4) assms(1)
    by (auto simp: getMinMs_def getAverageMs_def getMaxMs_def pos_le_divide_eq pos_divide_le_eq)
qed

end
