(* ===== verification/Flag_Sets.thy ===== *)
theory Flag_Sets
  imports Ddl_Actions
begin

text \<open>
  The operators of \<open>BitFlags\<close> (core/include/bitflags.hpp), instantiated at the flags of \<open>AlterTable\<close>, and what they
  are: the operations on sets of flags.
\<close>

section \<open>Operators\<close>

definition flags_of_list :: "bit_flags list \<Rightarrow> bit_flags" where
  "flags_of_list vs = foldl (\<lambda>fl v. fl OR v) 0 vs"

definition flags_Clear :: "bit_flags \<Rightarrow> bit_flags" where
  "flags_Clear fl = 0"

definition flags_bool :: "bit_flags \<Rightarrow> bool" where
  "flags_bool fl \<longleftrightarrow> fl \<noteq> 0"

definition flags_or :: "bit_flags \<Rightarrow> bit_flags \<Rightarrow> bit_flags" where
  "flags_or lhs rhs = lhs OR rhs"

definition flags_and :: "bit_flags \<Rightarrow> bit_flags \<Rightarrow> bit_flags" where
  "flags_and lhs rhs = lhs AND rhs"

definition flags_xor :: "bit_flags \<Rightarrow> bit_flags \<Rightarrow> bit_flags" where
  "flags_xor lhs rhs = lhs XOR rhs"

definition flags_not :: "bit_flags \<Rightarrow> bit_flags" where
  "flags_not fl = NOT fl"

text \<open>The stream operator writes \<open>std::bitset\<close>: the bits from the highest down.\<close>

definition flags_text :: "bit_flags \<Rightarrow> string" where
  "flags_text fl = map (\<lambda>i. if bit fl i then CHR ''1'' else CHR ''0'') (rev [0..<8])"

section \<open>Sets of flags\<close>

definition flag_set :: "bit_flags \<Rightarrow> alter_subcommand set" where
  "flag_set fl = {c. flags_IsSet fl (subcommand_flag c)}"

fun flag_bit :: "alter_subcommand \<Rightarrow> nat" where
  "flag_bit addColumn = 0"
| "flag_bit dropColumn = 1"
| "flag_bit changeColumn = 2"
| "flag_bit changeAccessMethod = 3"

lemma subcommand_flag_bit: "subcommand_flag c = push_bit (flag_bit c) 1"
  by (cases c) (simp_all add: push_bit_eq_mult)

lemma bit_subcommand_flag: "bit (subcommand_flag c) i \<longleftrightarrow> i = flag_bit c"
proof -
  have "flag_bit c < 8" by (cases c) simp_all
  then show ?thesis unfolding subcommand_flag_bit by (auto simp: bit_push_bit_iff bit_1_iff bit_exp_iff)
qed

lemma flag_bit_inject [simp]: "flag_bit c = flag_bit d \<longleftrightarrow> c = d"
  by (cases c; cases d) simp_all

lemma in_flag_set: "c \<in> flag_set fl \<longleftrightarrow> bit fl (flag_bit c)"
proof
  assume "c \<in> flag_set fl"
  then have "fl AND subcommand_flag c = subcommand_flag c" by (simp add: flag_set_def flags_IsSet_def)
  then have "bit (fl AND subcommand_flag c) (flag_bit c)" by (simp add: bit_subcommand_flag)
  then show "bit fl (flag_bit c)" by (simp add: bit_and_iff)
next
  assume "bit fl (flag_bit c)"
  then have "fl AND subcommand_flag c = subcommand_flag c"
    by (intro bit_eqI) (auto simp: bit_and_iff bit_subcommand_flag)
  then show "c \<in> flag_set fl" by (simp add: flag_set_def flags_IsSet_def)
qed

lemma bit_not_flag: "bit (NOT fl) (flag_bit c) \<longleftrightarrow> \<not> bit fl (flag_bit c)" for fl :: bit_flags
  by (cases c) (simp_all add: bit_not_iff)

text \<open>
  Setting, unsetting and the operators are insertion, removal and the set operations; complement is relative to all
  flags; enumerating a combination lists its set.
\<close>

lemma flag_set_simps:
  "flag_set (flags_Set (subcommand_flag c) fl) = Set.insert c (flag_set fl)"
  "flag_set (flags_Unset (subcommand_flag c) fl) = flag_set fl - {c}"
  "flag_set (flags_Clear fl) = {}"
  "flag_set (flags_or a b) = flag_set a \<union> flag_set b"
  "flag_set (flags_and a b) = flag_set a \<inter> flag_set b"
  "flag_set (flags_xor a b) = (flag_set a - flag_set b) \<union> (flag_set b - flag_set a)"
  "flag_set (flags_not fl) = - flag_set fl"
  "flag_set (flags_of_list (map subcommand_flag cs)) = set cs"
  "set (flags_All fl) = flag_set fl"
  "flag_set flags_AllSet = UNIV"
proof -
  show "flag_set (flags_Set (subcommand_flag c) fl) = Set.insert c (flag_set fl)"
    by (auto simp: in_flag_set flags_Set_def bit_or_iff bit_subcommand_flag)
  show "flag_set (flags_Unset (subcommand_flag c) fl) = flag_set fl - {c}"
    by (auto simp: in_flag_set flags_Unset_def bit_and_iff bit_not_flag bit_subcommand_flag)
  show "flag_set (flags_Clear fl) = {}" by (auto simp: in_flag_set flags_Clear_def)
  show "flag_set (flags_or a b) = flag_set a \<union> flag_set b"
    by (auto simp: in_flag_set flags_or_def bit_or_iff)
  show "flag_set (flags_and a b) = flag_set a \<inter> flag_set b"
    by (auto simp: in_flag_set flags_and_def bit_and_iff)
  show "flag_set (flags_xor a b) = (flag_set a - flag_set b) \<union> (flag_set b - flag_set a)"
    by (auto simp: in_flag_set flags_xor_def bit_xor_iff)
  show "flag_set (flags_not fl) = - flag_set fl"
    by (auto simp: in_flag_set flags_not_def bit_not_flag)
  have "bit (foldl (\<lambda>fl v. fl OR v) a (map subcommand_flag cs)) (flag_bit c) \<longleftrightarrow> bit a (flag_bit c) \<or> c \<in> set cs"
    for a c by (induction cs arbitrary: a) (auto simp: bit_or_iff bit_subcommand_flag)
  then show "flag_set (flags_of_list (map subcommand_flag cs)) = set cs"
    by (auto simp: in_flag_set flags_of_list_def)
  have all: "c \<in> set all_subcommands" for c by (cases c) (simp_all add: all_subcommands_def)
  then show "set (flags_All fl) = flag_set fl" by (auto simp: flags_All_def flag_set_def)
  have "bit (foldl (\<lambda>fl c. flags_Set (subcommand_flag c) fl) a ds) (flag_bit c) \<longleftrightarrow> bit a (flag_bit c) \<or> c \<in> set ds"
    for a c ds by (induction ds arbitrary: a) (auto simp: flags_Set_def bit_or_iff bit_subcommand_flag)
  with all show "flag_set flags_AllSet = UNIV" by (auto simp: in_flag_set flags_AllSet_def)
qed

text \<open>A complement holds bits that are no flags: it is truthy even when no flag is left.\<close>

lemma not_all_is_true: "flags_bool (flags_not flags_AllSet) \<and> flag_set (flags_not flags_AllSet) = {}"
  by (simp add: flag_set_simps) (simp add: flags_bool_def flags_not_def flags_AllSet_def all_subcommands_def flags_Set_def)

end
