(* ===== verification/Sql_Connections.thy ===== *)
theory Sql_Connections
  imports Sql_Variant
begin

text \<open>
  The rest of the connections (core/include/sql_variant/, core/src/sql_variant/): how the rows of a result are
  read, what the log says of a call, and how a connection is opened and closed.

  The other theories read the rows of a result as a list. Here are the two result classes with their cursors, and
  the lemma that the loops of the program (as many \<open>nextRow\<close> calls as rows) read that list from either.
\<close>

section \<open>Rows\<close>

type_synonym row = "string option list"

text \<open>\<open>RowView\<close>: a vector of the number of fields, filled with the values that are not NULL.\<close>

definition row_view :: "nat \<Rightarrow> row \<Rightarrow> row" where
  "row_view n r = map (\<lambda>i. case r ! i of None \<Rightarrow> None | Some v \<Rightarrow> Some v) [0..<n]"

text \<open>A row of a result has a value for every field.\<close>

definition rectangular :: "query_data \<Rightarrow> bool" where
  "rectangular d \<longleftrightarrow> (\<forall>r\<in>set (dataRows d). length r = numFields d)"

lemma row_view_row: "length r = n \<Longrightarrow> row_view n r = r"
  by (rule nth_equalityI) (auto simp: row_view_def split: option.splits)

lemma row_view_nth [simp]: "rectangular d \<Longrightarrow> i < numRows d \<Longrightarrow> row_view (numFields d) (dataRows d ! i) = dataRows d ! i"
  by (auto simp: rectangular_def numRows_def intro: row_view_row)

text \<open>\<open>PostgreSQLSpecificResult\<close>: \<open>pqxx::result\<close> and an index. Indexing a result past its end is undefined.\<close>

record pg_result =
  pg_data :: query_data
  rowIdx :: nat

definition pg_nextRow :: "(pg_result, row) prog" where
  "pg_nextRow = (\<lambda>s. if rowIdx s < numRows (pg_data s)
     then (Ok (row_view (numFields (pg_data s)) (dataRows (pg_data s) ! rowIdx s)), s\<lparr>rowIdx := rowIdx s + 1\<rparr>)
     else (Undefined, s))"

definition pg_rowAt :: "nat \<Rightarrow> (pg_result, row) prog" where
  "pg_rowAt index = (\<lambda>s. if index \<ge> numRows (pg_data s) then (Throw (Out_of_range ''row index out of range''), s)
     else (Ok (row_view (numFields (pg_data s)) (dataRows (pg_data s) ! index)), s))"

text \<open>
  \<open>MySQLSpecificResult\<close>: the pointer to the stored rows, null for a statement without rows. The cursor is the
  client library's: \<open>mysql_fetch_row\<close> returns the row it is at and moves it on, or null at the end;
  \<open>mysql_data_seek\<close> moves it.
\<close>

record mysql_result =
  my_data :: "query_data option"
  my_cursor :: nat

definition mysql_fetch_row :: "(mysql_result, row option) prog" where
  "mysql_fetch_row = (\<lambda>s. case my_data s of
       None \<Rightarrow> (Undefined, s)
     | Some d \<Rightarrow> if my_cursor s < numRows d
         then (Ok (Some (dataRows d ! my_cursor s)), s\<lparr>my_cursor := my_cursor s + 1\<rparr>) else (Ok None, s))"

definition mysql_numFields :: "mysql_result \<Rightarrow> nat" where
  "mysql_numFields s = (case my_data s of None \<Rightarrow> 0 | Some d \<Rightarrow> numFields d)"

definition mysql_numRows :: "mysql_result \<Rightarrow> nat" where
  "mysql_numRows s = (case my_data s of None \<Rightarrow> 0 | Some d \<Rightarrow> numRows d)"

text \<open>The tail the two readers share.\<close>

definition mysql_read_row :: "(mysql_result, row) prog" where
  "mysql_read_row = bind mysql_fetch_row (\<lambda>mdata. case mdata of
       None \<Rightarrow> throw (Sql_Exception ''mysql-no-more-rows'' ''No more rows'' St_error Ec_other)
     | Some r \<Rightarrow> bind (gets mysql_numFields) (\<lambda>n. ret (row_view n r)))"

definition not_a_select :: exn where
  "not_a_select = Sql_Exception ''mysql-no-select'' ''Not a SELECT-like statement!'' St_error Ec_other"

definition mysql_nextRow :: "(mysql_result, row) prog" where
  "mysql_nextRow = bind (gets my_data) (\<lambda>res. if res = None then throw not_a_select else mysql_read_row)"

definition mysql_rowAt :: "nat \<Rightarrow> (mysql_result, row) prog" where
  "mysql_rowAt index = bind (gets my_data) (\<lambda>res. if res = None then throw not_a_select
     else bind (gets mysql_numRows) (\<lambda>n.
       if index \<ge> n then throw (Out_of_range ''row index out of range'')
       else seq (modify (\<lambda>s. s\<lparr>my_cursor := index\<rparr>)) mysql_read_row))"

subsection \<open>The interface\<close>

text \<open>
  \<open>QuerySpecificResult\<close> as its readers use it: \<open>nextRow\<close> goes through the rows in order, \<open>rowAt\<close> finds a row
  whatever was read before. Neither changes the rows. Where \<open>rowAt\<close> leaves the cursor is not promised.
\<close>

locale result_rows =
  fixes valid :: "'s \<Rightarrow> bool" and data :: "'s \<Rightarrow> query_data" and cursor :: "'s \<Rightarrow> nat"
    and nextRow :: "('s, row) prog" and row_at :: "nat \<Rightarrow> ('s, row) prog"
  assumes next_row: "valid s \<Longrightarrow> cursor s < numRows (data s) \<Longrightarrow>
      \<exists>s'. nextRow s = (Ok (dataRows (data s) ! cursor s), s') \<and> valid s' \<and> data s' = data s \<and>
        cursor s' = Suc (cursor s)"
    and at_row: "valid s \<Longrightarrow>
      \<exists>s'. row_at i s = (Sql_Variant.rowAt (data s) i, s') \<and> valid s' \<and> data s' = data s"
begin

text \<open>A loop over \<open>nextRow\<close> reads the rows from the cursor on.\<close>

lemma next_rows:
  assumes "valid s" and "cursor s + length xs \<le> numRows (data s)"
  shows "\<exists>s'. map_prog (\<lambda>_. nextRow) xs s = (Ok (take (length xs) (drop (cursor s) (dataRows (data s)))), s') \<and>
    valid s' \<and> data s' = data s \<and> cursor s' = cursor s + length xs"
  using assms
proof (induction xs arbitrary: s)
  case Nil
  then show ?case by (simp add: ret_def)
next
  case (Cons x xs)
  let ?rows = "dataRows (data s)"
  from Cons.prems have n: "cursor s < length ?rows" by (simp add: numRows_def)
  with next_row [of s] Cons.prems obtain s1 where s1: "nextRow s = (Ok (?rows ! cursor s), s1)" "valid s1"
    "data s1 = data s" "cursor s1 = Suc (cursor s)" by (auto simp: numRows_def)
  from Cons.IH [OF s1(2)] Cons.prems s1(3,4) obtain s2 where
    "map_prog (\<lambda>_. nextRow) xs s1 = (Ok (take (length xs) (drop (Suc (cursor s)) ?rows)), s2)" "valid s2"
    "data s2 = data s" "cursor s2 = cursor s + length (x # xs)" by auto
  with s1(1) n show ?case by (simp add: bind_def ret_def take_Suc_conv_app_nth flip: Cons_nth_drop_Suc)
qed

lemma read_all:
  assumes "valid s" and "cursor s = 0"
  shows "\<exists>s'. map_prog (\<lambda>_. nextRow) [0..<numRows (data s)] s = (Ok (dataRows (data s)), s') \<and>
    valid s' \<and> data s' = data s"
  using next_rows [OF assms(1), of "[0..<numRows (data s)]"] assms(2) by (auto simp: numRows_def)

text \<open>Random access in any order.\<close>

lemma read_at:
  assumes "valid s" and "\<forall>i\<in>set is. i < numRows (data s)"
  shows "\<exists>s'. map_prog row_at is s = (Ok (map ((!) (dataRows (data s))) is), s') \<and> valid s' \<and> data s' = data s"
  using assms
proof (induction "is" arbitrary: s)
  case Nil
  then show ?case by (simp add: ret_def)
next
  case (Cons i js)
  with at_row [of s i] obtain s1 where s1: "row_at i s = (Ok (dataRows (data s) ! i), s1)" "valid s1"
    "data s1 = data s" by (auto simp: rowAt_def)
  with Cons.IH [of s1] Cons.prems show ?case by (auto simp: bind_def ret_def)
qed

end

interpretation pg_rows: result_rows "\<lambda>s. rectangular (pg_data s)" pg_data rowIdx pg_nextRow pg_rowAt
  by unfold_locales (auto simp: pg_nextRow_def pg_rowAt_def Sql_Variant.rowAt_def)

definition my_rows :: "mysql_result \<Rightarrow> query_data" where
  "my_rows s = (case my_data s of None \<Rightarrow> \<lparr>numFields = 0, dataRows = []\<rparr> | Some d \<Rightarrow> d)"

interpretation mysql_rows: result_rows "\<lambda>s. my_data s \<noteq> None \<and> rectangular (my_rows s)" my_rows my_cursor
  mysql_nextRow mysql_rowAt
  by unfold_locales
    (auto simp: mysql_nextRow_def mysql_rowAt_def mysql_read_row_def mysql_fetch_row_def my_rows_def
      mysql_numFields_def mysql_numRows_def Sql_Variant.rowAt_def bind_def seq_def gets_def modify_def ret_def
      throw_def)

text \<open>
  The driver gives the rows of a result to both readers in the order the server sent them, to a loop over
  \<open>nextRow\<close> as to indexed access; on MySQL a call too many is an exception, and so is any call on the result of
  a statement without rows.
\<close>

lemma rows_read_in_order:
  assumes "rectangular d"
  shows "\<exists>s'. map_prog (\<lambda>_. pg_nextRow) [0..<numRows d] \<lparr>pg_data = d, rowIdx = 0\<rparr> = (Ok (dataRows d), s')"
    and "\<exists>s'. map_prog (\<lambda>_. mysql_nextRow) [0..<numRows d] \<lparr>my_data = Some d, my_cursor = 0\<rparr> = (Ok (dataRows d), s')"
    and "\<exists>s'. map_prog pg_rowAt [0..<numRows d] \<lparr>pg_data = d, rowIdx = n\<rparr> = (Ok (dataRows d), s')"
    and "\<exists>s'. map_prog mysql_rowAt [0..<numRows d] \<lparr>my_data = Some d, my_cursor = n\<rparr> = (Ok (dataRows d), s')"
  using assms pg_rows.read_all [of "\<lparr>pg_data = d, rowIdx = 0\<rparr>"]
    mysql_rows.read_all [of "\<lparr>my_data = Some d, my_cursor = 0\<rparr>"]
    pg_rows.read_at [of "\<lparr>pg_data = d, rowIdx = n\<rparr>" "[0..<numRows d]"]
    mysql_rows.read_at [of "\<lparr>my_data = Some d, my_cursor = n\<rparr>" "[0..<numRows d]"]
  by (auto simp: my_rows_def numRows_def map_nth)

lemma mysql_rows_end:
  "mysql_nextRow \<lparr>my_data = Some d, my_cursor = numRows d\<rparr> =
     (Throw (Sql_Exception ''mysql-no-more-rows'' ''No more rows'' St_error Ec_other), \<lparr>my_data = Some d, my_cursor = numRows d\<rparr>)"
  "mysql_nextRow \<lparr>my_data = None, my_cursor = n\<rparr> = (Throw not_a_select, \<lparr>my_data = None, my_cursor = n\<rparr>)"
  "mysql_rowAt i \<lparr>my_data = None, my_cursor = n\<rparr> = (Throw not_a_select, \<lparr>my_data = None, my_cursor = n\<rparr>)"
  by (simp_all add: mysql_nextRow_def mysql_rowAt_def mysql_read_row_def mysql_fetch_row_def bind_def gets_def
      throw_def)

text \<open>
  The two differ in what \<open>rowAt\<close> does to a loop that is under way: on PostgreSQL nothing, on MySQL the loop goes
  on after the row that was looked up.
\<close>

lemma rowAt_moves_the_cursor:
  assumes "rectangular d" and "i < numRows d"
  shows "snd (pg_rowAt i \<lparr>pg_data = d, rowIdx = n\<rparr>) = \<lparr>pg_data = d, rowIdx = n\<rparr>"
    and "snd (mysql_rowAt i \<lparr>my_data = Some d, my_cursor = n\<rparr>) = \<lparr>my_data = Some d, my_cursor = Suc i\<rparr>"
  using assms
  by (simp_all add: pg_rowAt_def mysql_rowAt_def mysql_read_row_def mysql_fetch_row_def mysql_numRows_def
      mysql_numFields_def bind_def seq_def gets_def modify_def ret_def)

section \<open>The log\<close>

text \<open>
  The lines \<open>LoggedSQL\<close> writes about a call; \<open>ms\<close> is \<open>fmt\<close>'s two-decimal text of a number of nanoseconds in
  milliseconds. Binary values are logged as their length only.
\<close>

definition describe_param :: "param \<Rightarrow> string" where
  "describe_param p = (case param_value p of
       None \<Rightarrow> ''NULL''
     | Some v \<Rightarrow> if param_binary p then ''<bytes:'' @ fmt_nat (length v) @ ''>''
                 else [quote_char] @ v @ [quote_char])"

definition describe_params :: "param list \<Rightarrow> string" where
  "describe_params ps = ''['' @ join '', '' (map describe_param ps) @ '']''"

definition statement_line :: "sql_call \<Rightarrow> string" where
  "statement_line call = (case call of
       Sql_query query \<Rightarrow> ''Statement: '' @ query
     | Sql_params query ps \<Rightarrow> ''Statement: '' @ query @ '' params: '' @ describe_params ps)"

definition result_line :: "(int \<Rightarrow> string) \<Rightarrow> string \<Rightarrow> query_result \<Rightarrow> string" where
  "result_line ms query res = (let kind = classifyStatement query in case qr_data res of
       Some d \<Rightarrow> if numFields d > 0 then ''Result: rows='' @ fmt_nat (numRows d) @ '' time='' @ ms (executionTime res) @ ''ms''
         else if kind = Sk_insert \<or> kind = Sk_update \<or> kind = Sk_del \<or> kind = Sk_with
         then ''Result: affected='' @ fmt_nat (unat (affectedRows res)) @ '' time='' @ ms (executionTime res) @ ''ms''
         else ''Result: ok time='' @ ms (executionTime res) @ ''ms''
     | None \<Rightarrow> if kind = Sk_insert \<or> kind = Sk_update \<or> kind = Sk_del \<or> kind = Sk_with
         then ''Result: affected='' @ fmt_nat (unat (affectedRows res)) @ '' time='' @ ms (executionTime res) @ ''ms''
         else ''Result: ok time='' @ ms (executionTime res) @ ''ms'')"

definition error_line :: "query_result \<Rightarrow> string" where
  "error_line res = ''Error while executing SQL statement: '' @ errorCode (errorInfo res) @ '' '' @
     errorMessage (errorInfo res)"

definition logged_lines :: "(int \<Rightarrow> string) \<Rightarrow> sql_call \<Rightarrow> string \<Rightarrow> query_result \<Rightarrow> string list" where
  "logged_lines ms call query res = [statement_line call,
     if qr_success res then result_line ms query res else error_line res]"

text \<open>Parameters that agree but for the bytes of binary values of one length.\<close>

definition same_but_bytes :: "param \<Rightarrow> param \<Rightarrow> bool" where
  "same_but_bytes p q \<longleftrightarrow> p = q \<or> (param_binary p \<and> param_binary q \<and>
     (\<exists>v w. param_value p = Some v \<and> param_value q = Some w \<and> length v = length w))"

lemma log_hides_bytes:
  assumes "list_all2 same_but_bytes ps qs"
  shows "logged_lines ms (Sql_params query ps) query res = logged_lines ms (Sql_params query qs) query res"
proof -
  have "describe_param p = describe_param q" if "same_but_bytes p q" for p q
    using that by (auto simp: same_but_bytes_def describe_param_def)
  with assms have "map describe_param ps = map describe_param qs"
    by (induction rule: list_all2_induct) auto
  then show ?thesis by (simp add: logged_lines_def statement_line_def describe_params_def)
qed

section \<open>Opening and closing\<close>

text \<open>
  The calls a MySQL connection makes to its client library. What the library answers is given: whether
  \<open>mysql_init\<close> returned a handle, and the error \<open>mysql_real_connect\<close> ended with.
\<close>

datatype lib_call = Lib_init bool | Lib_options "64 word" | Lib_connect server_params | Lib_query string
  | Lib_close | Lib_thread_end

record mysql_library =
  lib_init_ok :: bool
  lib_connect_error :: "(nat \<times> string) option"

definition call_lib :: "lib_call \<Rightarrow> (lib_call list, unit) prog" where
  "call_lib c = modify (\<lambda>cs. cs @ [c])"

definition default_maxpacket :: "64 word" where
  "default_maxpacket = 67108864"

definition release :: "(lib_call list, unit) prog" where
  "release = seq (call_lib Lib_close) (call_lib Lib_thread_end)"

text \<open>\<open>info\<close> is \<open>calculateServerInfo\<close> on the handle.\<close>

definition mysql_connect ::
  "mysql_library \<Rightarrow> server_params \<Rightarrow> (lib_call list, server_info) prog \<Rightarrow> (lib_call list, server_info) prog" where
  "mysql_connect lib params info =
     seq (call_lib (Lib_init (lib_init_ok lib)))
     (if \<not> lib_init_ok lib then throw (Sql_Exception ''mysql-init-failed'' ''mysql_init failed'' St_error Ec_other)
      else
     seq (when_do (sp_maxpacket params \<noteq> default_maxpacket) (call_lib (Lib_options (sp_maxpacket params))))
     (seq (call_lib (Lib_connect params))
     (case lib_connect_error lib of
        Some (n, msg) \<Rightarrow> seq release
          (throw (Sql_Exception ''mysql-connection-failed'' (fmt_nat n @ '': '' @ msg) St_error Ec_other))
      | None \<Rightarrow> catch info (\<lambda>e. seq release (throw e)))))"

text \<open>The destructor; the flag says whether there is a handle.\<close>

definition mysql_disconnect :: "bool \<Rightarrow> (lib_call list, unit) prog" where
  "mysql_disconnect connected = when_do connected release"

text \<open>
  The handle through a sequence of calls: \<open>None\<close> is a call on a handle that is not there, or a second
  \<open>mysql_init\<close> while one is open.
\<close>

fun handle :: "bool \<Rightarrow> lib_call list \<Rightarrow> bool option" where
  "handle h [] = Some h"
| "handle h (Lib_init ok # cs) = (if h then None else handle ok cs)"
| "handle h (Lib_close # cs) = (if h then handle False cs else None)"
| "handle h (Lib_thread_end # cs) = handle h cs"
| "handle h (c # cs) = (if h then handle h cs else None)"

lemma handle_append: "handle h (as @ bs) = (case handle h as of None \<Rightarrow> None | Some h' \<Rightarrow> handle h' bs)"
  by (induction h as rule: handle.induct) auto

text \<open>What \<open>calculateServerInfo\<close> may do with the handle: query it, and return or throw.\<close>

definition queries_only :: "(lib_call list, 'a) prog \<Rightarrow> bool" where
  "queries_only m \<longleftrightarrow> (\<forall>cs. \<exists>qs. snd (m cs) = cs @ map Lib_query qs) \<and>
     (\<forall>cs. is_ok (fst (m cs)) \<or> (\<exists>e. fst (m cs) = Throw e))"

lemma handle_queries [simp]: "handle True (map Lib_query qs) = Some True"
  by (induction qs) auto

definition opening_calls :: "server_params \<Rightarrow> lib_call list" where
  "opening_calls params = [Lib_init True] @
     (if sp_maxpacket params \<noteq> default_maxpacket then [Lib_options (sp_maxpacket params)] else []) @ [Lib_connect params]"

lemma mysql_connect_run:
  "mysql_connect lib params info cs =
     (if \<not> lib_init_ok lib
      then (Throw (Sql_Exception ''mysql-init-failed'' ''mysql_init failed'' St_error Ec_other), cs @ [Lib_init False])
      else case lib_connect_error lib of
          Some (n, msg) \<Rightarrow> (Throw (Sql_Exception ''mysql-connection-failed'' (fmt_nat n @ '': '' @ msg) St_error Ec_other),
            cs @ opening_calls params @ [Lib_close, Lib_thread_end])
        | None \<Rightarrow> (case info (cs @ opening_calls params) of
              (Throw e, cs') \<Rightarrow> (Throw e, cs' @ [Lib_close, Lib_thread_end]) | r \<Rightarrow> r))"
  by (auto simp: mysql_connect_def release_def call_lib_def seq_def bind_def modify_def throw_def catch_def
      when_do_def skip_def ret_def opening_calls_def split: option.splits prod.splits result.splits)

lemma handle_opening [simp]: "handle False (opening_calls params) = Some True"
  by (simp add: opening_calls_def)

text \<open>
  No handle is leaked and none is used after it is closed: after the constructor there is an open handle exactly
  if it returned, whatever failed; and the destructor closes it.
\<close>

lemma connection_not_leaked:
  assumes "queries_only info" and "handle False cs = Some False"
    and "mysql_connect lib params info cs = (r, cs')"
  shows "handle False cs' = Some (is_ok r)" and "handle False (snd (mysql_disconnect (is_ok r) cs')) = Some False"
proof -
  show h: "handle False cs' = Some (is_ok r)"
  proof (cases "lib_init_ok lib \<and> lib_connect_error lib = None")
    case True
    obtain r0 qs where "info (cs @ opening_calls params) = (r0, (cs @ opening_calls params) @ map Lib_query qs)"
      "is_ok r0 \<or> (\<exists>e. r0 = Throw e)"
      using assms(1) unfolding queries_only_def by (metis prod.collapse)
    with True assms(2,3) show ?thesis
      by (auto simp: mysql_connect_run handle_append is_ok.simps split: result.splits)
  next
    case False
    with assms(2,3) show ?thesis
      by (auto simp: mysql_connect_run handle_append split: if_splits option.splits)
  qed
  then show "handle False (snd (mysql_disconnect (is_ok r) cs')) = Some False"
    by (auto simp: mysql_disconnect_def release_def call_lib_def seq_def bind_def modify_def when_do_def skip_def
        ret_def handle_append)
qed

text \<open>
  PostgreSQL: \<open>pqxx::connection\<close> owns the handle. The constructor's function handler turns every exception into
  one class; \<open>reconnect\<close> has none and keeps the old connection when it throws.
\<close>

definition pg_connect :: "(string \<Rightarrow> int + string) \<Rightarrow> server_params \<Rightarrow> server_info result" where
  "pg_connect open_connection params = (case open_connection (build_connection_string params) of
       Inl version \<Rightarrow> Ok (pg_calculateServerInfo version)
     | Inr what \<Rightarrow> Throw (Sql_Exception ''pg-connection-failed'' what St_error Ec_other))"

definition pg_reconnect :: "(string \<Rightarrow> 'c + string) \<Rightarrow> server_params \<Rightarrow> ('c, unit) prog" where
  "pg_reconnect open_connection params = (\<lambda>connection. case open_connection (build_connection_string params) of
       Inl c \<Rightarrow> (Ok (), c)
     | Inr what \<Rightarrow> (Throw (Runtime_error what), connection))"

text \<open>\<open>sql_variant::connect\<close> and the class of every failure to open a connection.\<close>

definition connect_server ::
  "string \<Rightarrow> server_info result \<Rightarrow> server_info result \<Rightarrow> server_info result" where
  "connect_server serverType mysql pg = res_bind (connect_driver serverType)
     (\<lambda>d. case d of Driver_mysql \<Rightarrow> mysql | Driver_postgres \<Rightarrow> pg)"

definition open_failure :: "string \<Rightarrow> exn \<Rightarrow> bool" where
  "open_failure c e \<longleftrightarrow> (\<exists>m. e = Sql_Exception c m St_error Ec_other)"

text \<open>
  Every failure to open a connection has the status \<open>error\<close>, never \<open>serverGone\<close>, under one of four codes. (It is
  what leaves the worker's thread when the server is still away.)
\<close>

lemma connect_failures:
  assumes "\<And>cs. is_ok (fst (info cs))"
    and "connect_server ty (fst (mysql_connect lib params info cs)) (pg_connect open_connection params) = Throw e"
  shows "(open_failure ''unknown-database-type'' e \<or> open_failure ''mysql-init-failed'' e \<or>
     open_failure ''mysql-connection-failed'' e \<or> open_failure ''pg-connection-failed'' e) \<and> \<not> serverGone e"
proof -
  obtain i cs' where i: "info (cs @ opening_calls params) = (Ok i, cs')"
    using assms(1) [of "cs @ opening_calls params"] by (metis is_ok.elims(2) prod.collapse)
  have gone: "open_failure c e \<Longrightarrow> \<not> serverGone e" for c
    by (auto simp: open_failure_def serverGone_def)
  have my: "open_failure ''mysql-init-failed'' e \<or> open_failure ''mysql-connection-failed'' e"
    if "fst (mysql_connect lib params info cs) = Throw e"
    using that by (auto simp: mysql_connect_run i open_failure_def split: if_splits option.splits)
  have pg: "open_failure ''pg-connection-failed'' e" if "pg_connect open_connection params = Throw e"
    using that by (auto simp: pg_connect_def open_failure_def split: sum.splits)
  note server = assms(2) [unfolded connect_server_def connect_driver_def]
  consider "ty = ''mysql''" | "ty \<noteq> ''mysql''" "ty = ''postgres''" | "ty \<noteq> ''mysql''" "ty \<noteq> ''postgres''" by blast
  then have "open_failure ''unknown-database-type'' e \<or> open_failure ''mysql-init-failed'' e \<or>
     open_failure ''mysql-connection-failed'' e \<or> open_failure ''pg-connection-failed'' e"
  proof cases
    case 1
    with server have "fst (mysql_connect lib params info cs) = Throw e" by simp
    from my [OF this] show ?thesis by (elim disjE) (simp_all only: simp_thms)
  next
    case 2
    with server have "pg_connect open_connection params = Throw e" by simp
    from pg [OF this] show ?thesis by (simp only: simp_thms)
  next
    case 3
    with server show ?thesis by (auto simp: open_failure_def)
  qed
  with gone show ?thesis by (elim disjE) (simp_all only: simp_thms)
qed

end
