(* ===== verification/Python_Bindings.thy ===== *)
theory Python_Bindings
  imports Workload Sql_Connections
begin

text \<open>
  The logic of the Python bindings (bindings/module.cpp, bindings/py_action.hpp): parameters, rows, configuration
  strings, statistics accessors, and Python callables as actions. The rest of the module registers classes and
  methods with nanobind. Reference counts and the interpreter lock are not modelled.
\<close>

section \<open>Parameters\<close>

text \<open>
  The Python values \<open>to_params\<close> tells apart. \<open>str()\<close> of an \<open>int\<close> are its digits, of a \<open>float\<close> the text it carries.
\<close>

datatype py_value = Py_none | Py_bool bool | Py_int int | Py_float string | Py_str string | Py_bytes string | Py_object

datatype py_sequence = Py_seq "py_value list" | Py_text string | Py_binary string

definition type_error :: "string \<Rightarrow> exn" where
  "type_error msg = Runtime_error msg"

definition to_param :: "py_value \<Rightarrow> param result" where
  "to_param v = (case v of
       Py_none \<Rightarrow> Ok \<lparr>param_value = None, param_binary = False\<rparr>
     | Py_bool b \<Rightarrow> Ok \<lparr>param_value = Some (if b then ''1'' else ''0''), param_binary = False\<rparr>
     | Py_int n \<Rightarrow> Ok \<lparr>param_value = Some (fmt_int n), param_binary = False\<rparr>
     | Py_float s \<Rightarrow> Ok \<lparr>param_value = Some s, param_binary = False\<rparr>
     | Py_str s \<Rightarrow> Ok \<lparr>param_value = Some s, param_binary = False\<rparr>
     | Py_bytes s \<Rightarrow> Ok \<lparr>param_value = Some s, param_binary = True\<rparr>
     | Py_object \<Rightarrow> Throw (type_error ''unsupported SQL parameter type''))"

definition to_params :: "py_sequence \<Rightarrow> param list result" where
  "to_params p = (case p of
       Py_seq vs \<Rightarrow> res_map to_param vs
     | _ \<Rightarrow> Throw (type_error ''params must be a sequence of values, not str/bytes''))"

text \<open>\<open>LoggedSQL.execute\<close> and \<open>LoggedSQL.safe_execute\<close>; without \<open>params\<close> the argument is \<open>None\<close>.\<close>

definition py_execute :: "string \<Rightarrow> py_sequence option \<Rightarrow> (logged_sql, query_result) prog" where
  "py_execute query params = (case params of
       None \<Rightarrow> conn_executeQuery query
     | Some p \<Rightarrow> bind (lift_result (to_params p)) (conn_executeParams query))"

definition py_safe_execute :: "string \<Rightarrow> py_sequence option \<Rightarrow> (logged_sql, query_result) prog" where
  "py_safe_execute query params =
     bind (case params of None \<Rightarrow> ret [] | Some p \<Rightarrow> lift_result (to_params p)) (conn_safeQuery query)"

text \<open>A call whose parameters are refused sends nothing.\<close>

lemma refused_params_send_nothing:
  assumes "to_params p = Throw e"
  shows "py_execute query (Some p) c = (Throw e, c)" and "py_safe_execute query (Some p) c = (Throw e, c)"
  using assms by (simp_all add: py_execute_def py_safe_execute_def bind_def lift_result_def)

text \<open>Each value becomes one parameter; text is not taken apart into characters.\<close>

lemma to_params_length:
  "to_params p = Ok ps \<Longrightarrow> \<exists>vs. p = Py_seq vs \<and> length ps = length vs"
proof -
  have "res_map to_param vs = Ok ps \<Longrightarrow> length ps = length vs" for vs ps
    by (induction vs arbitrary: ps) auto
  then show "to_params p = Ok ps \<Longrightarrow> ?thesis" by (auto simp: to_params_def split: py_sequence.splits)
qed

subsection \<open>Connections\<close>

text \<open>The parameters \<open>connect_pg\<close> and \<open>connect_mysql\<close> open a connection with.\<close>

definition pg_params :: "string \<Rightarrow> 16 word \<Rightarrow> string \<Rightarrow> string \<Rightarrow> string \<Rightarrow> server_params" where
  "pg_params host port dbname user password = \<lparr>sp_database = dbname, sp_address = host, sp_socket = [],
     sp_username = user, sp_password = password, sp_port = port, sp_maxpacket = default_maxpacket\<rparr>"

definition mysql_params :: "string \<Rightarrow> 16 word \<Rightarrow> string \<Rightarrow> string \<Rightarrow> string \<Rightarrow> string \<Rightarrow> server_params" where
  "mysql_params host port dbname user password socket = \<lparr>sp_database = dbname, sp_address = host, sp_socket = socket,
     sp_username = user, sp_password = password, sp_port = port, sp_maxpacket = default_maxpacket\<rparr>"

text \<open>A connection opened from Python leaves the client's packet size alone.\<close>

lemma python_keeps_packet_size:
  "opening_calls (mysql_params host port dbname user password socket) =
     [Lib_init True, Lib_connect (mysql_params host port dbname user password socket)]"
  by (simp add: opening_calls_def mysql_params_def)

section \<open>Results\<close>

text \<open>\<open>QueryResult.rows\<close>: by index, so that it can be called again; \<open>None\<close> is a result without data.\<close>

definition py_rows :: "(nat \<Rightarrow> ('s, row) prog) \<Rightarrow> nat option \<Rightarrow> ('s, row list) prog" where
  "py_rows row_at n = (case n of
       None \<Rightarrow> ret []
     | Some k \<Rightarrow> map_prog (\<lambda>i. bind (row_at i) (\<lambda>r. ret (map (\<lambda>f. case f of None \<Rightarrow> None | Some v \<Rightarrow> Some v) r))) [0..<k])"

lemma py_rows_eq:
  fixes row_at :: "nat \<Rightarrow> ('s, row) prog"
  shows "py_rows row_at (Some k) = map_prog row_at [0..<k]"
proof -
  have copy: "map (\<lambda>f. case f of None \<Rightarrow> None | Some v \<Rightarrow> Some v) r = r" for r :: row
    by (induction r) (auto split: option.splits)
  have "bind m ret = m" for m :: "('s, row) prog"
    by (rule ext) (auto simp: bind_def ret_def split: prod.splits result.splits)
  with copy show ?thesis by (simp add: py_rows_def)
qed

text \<open>Python sees the rows the server sent, in order, from either driver, however often it asks.\<close>

lemma py_rows_all:
  assumes "rectangular d"
  shows "\<exists>n'. py_rows pg_rowAt (Some (numRows d)) \<lparr>pg_data = d, rowIdx = n\<rparr> = (Ok (dataRows d), \<lparr>pg_data = d, rowIdx = n'\<rparr>)"
    and "\<exists>n'. py_rows mysql_rowAt (Some (numRows d)) \<lparr>my_data = Some d, my_cursor = n\<rparr> =
      (Ok (dataRows d), \<lparr>my_data = Some d, my_cursor = n'\<rparr>)"
proof -
  have all: "map ((!) (dataRows d)) [0..<numRows d] = dataRows d" by (simp add: numRows_def map_nth)
  obtain s where s: "map_prog pg_rowAt [0..<numRows d] \<lparr>pg_data = d, rowIdx = n\<rparr> = (Ok (dataRows d), s)" "pg_data s = d"
    using pg_rows.read_at [of "\<lparr>pg_data = d, rowIdx = n\<rparr>" "[0..<numRows d]"] assms by (auto simp: all)
  then show "\<exists>n'. py_rows pg_rowAt (Some (numRows d)) \<lparr>pg_data = d, rowIdx = n\<rparr> = (Ok (dataRows d), \<lparr>pg_data = d, rowIdx = n'\<rparr>)"
    by (cases s) (auto simp: py_rows_eq)
  obtain s where m: "map_prog mysql_rowAt [0..<numRows d] \<lparr>my_data = Some d, my_cursor = n\<rparr> = (Ok (dataRows d), s)"
    "my_data s \<noteq> None" "my_rows s = d"
    using mysql_rows.read_at [of "\<lparr>my_data = Some d, my_cursor = n\<rparr>" "[0..<numRows d]"] assms
    by (auto simp: all my_rows_def)
  then show "\<exists>n'. py_rows mysql_rowAt (Some (numRows d)) \<lparr>my_data = Some d, my_cursor = n\<rparr> =
      (Ok (dataRows d), \<lparr>my_data = Some d, my_cursor = n'\<rparr>)"
    by (cases s) (auto simp: py_rows_eq my_rows_def)
qed

definition error_class_name :: "error_class \<Rightarrow> string" where
  "error_class_name c = (case c of Ec_none \<Rightarrow> ''none'' | Ec_conflict \<Rightarrow> ''conflict'' | Ec_failedTxn \<Rightarrow> ''failedTxn''
     | Ec_serverGone \<Rightarrow> ''serverGone'' | Ec_other \<Rightarrow> ''other'')"

lemma error_class_name_inject: "error_class_name c = error_class_name d \<longleftrightarrow> c = d"
  by (cases c; cases d) (simp_all add: error_class_name_def)

text \<open>The exception translator: what a \<open>SqlException\<close> becomes in Python. The status is not passed on.\<close>

record py_sql_error =
  pe_what :: string
  pe_error_code :: string
  pe_error_class :: string

definition translate_sql_exception :: "exn \<Rightarrow> py_sql_error option" where
  "translate_sql_exception e = (case e of
       Sql_Exception code msg st cls \<Rightarrow> Some \<lparr>pe_what = msg, pe_error_code = code, pe_error_class = error_class_name cls\<rparr>
     | _ \<Rightarrow> None)"

text \<open>For what the drivers report the class tells Python what the status would.\<close>

lemma translation_keeps_serverGone:
  assumes "error_info_wf (errorInfo r)"
  shows "serverGone (result_exception r) \<longleftrightarrow>
    map_option pe_error_class (translate_sql_exception (result_exception r)) = Some ''serverGone''"
  using assms error_class_name_inject [of "errorClass (errorInfo r)" Ec_serverGone]
  by (simp add: serverGone_def result_exception_def translate_sql_exception_def error_info_wf_def error_class_name_def)

section \<open>Configuration\<close>

definition parse_action_type :: "string \<Rightarrow> action_type" where
  "parse_action_type s = (if s = ''ddl'' then At_ddl else if s = ''dml'' then At_dml else At_other)"

definition get_error_mode :: "transaction_config \<Rightarrow> string" where
  "get_error_mode c = (if tc_error_mode c = Em_savepoint then ''savepoint'' else ''abort'')"

definition set_error_mode :: "string \<Rightarrow> (transaction_config, unit) prog" where
  "set_error_mode v = (if v = ''savepoint'' then modify (\<lambda>c. c\<lparr>tc_error_mode := Em_savepoint\<rparr>)
     else if v = ''abort'' then modify (\<lambda>c. c\<lparr>tc_error_mode := Em_abort\<rparr>)
     else throw (Invalid_argument ''error_mode: savepoint|abort''))"

definition get_mysql_ddl_mode :: "transaction_config \<Rightarrow> string" where
  "get_mysql_ddl_mode c = (if tc_mysql_ddl_mode c = Mm_mirror then ''mirror'' else ''exclude'')"

definition set_mysql_ddl_mode :: "string \<Rightarrow> (transaction_config, unit) prog" where
  "set_mysql_ddl_mode v = (if v = ''mirror'' then modify (\<lambda>c. c\<lparr>tc_mysql_ddl_mode := Mm_mirror\<rparr>)
     else if v = ''exclude'' then modify (\<lambda>c. c\<lparr>tc_mysql_ddl_mode := Mm_exclude\<rparr>)
     else throw (Invalid_argument ''mysql_ddl_mode: mirror|exclude''))"

definition get_flavor :: "variable_spec \<Rightarrow> string" where
  "get_flavor s = (if vs_flavor s = ANY_MYSQL then ''mysql'' else ''postgres'')"

definition set_flavor :: "string \<Rightarrow> (variable_spec, unit) prog" where
  "set_flavor v = (if v = ''postgres'' then modify (\<lambda>s. s\<lparr>vs_flavor := ANY_PG\<rparr>)
     else if v = ''mysql'' then modify (\<lambda>s. s\<lparr>vs_flavor := ANY_MYSQL\<rparr>)
     else throw (Invalid_argument ''flavor: postgres|mysql''))"

definition mechanism_name :: "variable_mechanism \<Rightarrow> string" where
  "mechanism_name m = (case m of Vm_session \<Rightarrow> ''session'' | Vm_global \<Rightarrow> ''global'' | Vm_reload \<Rightarrow> ''reload''
     | Vm_startup \<Rightarrow> ''startup'')"

definition all_mechanisms :: "variable_mechanism list" where
  "all_mechanisms = [Vm_session, Vm_global, Vm_reload, Vm_startup]"

definition get_mechanisms :: "variable_spec \<Rightarrow> string list" where
  "get_mechanisms s = map mechanism_name (filter (\<lambda>m. and (mechanisms s) (mechanism_bits m) \<noteq> 0) all_mechanisms)"

definition mechanism_of :: "string \<Rightarrow> variable_mechanism result" where
  "mechanism_of v = (if v = ''session'' then Ok Vm_session else if v = ''global'' then Ok Vm_global
     else if v = ''reload'' then Ok Vm_reload else if v = ''startup'' then Ok Vm_startup
     else Throw (Invalid_argument ''mechanism: session|global|reload|startup''))"

fun mechanism_mask :: "8 word \<Rightarrow> string list \<Rightarrow> 8 word result" where
  "mechanism_mask bits [] = Ok bits"
| "mechanism_mask bits (v # vs) = res_bind (mechanism_of v) (\<lambda>m. mechanism_mask (or bits (mechanism_bits m)) vs)"

definition set_mechanisms :: "string list \<Rightarrow> (variable_spec, unit) prog" where
  "set_mechanisms vs = bind (lift_result (mechanism_mask 0 vs)) (\<lambda>bits. modify (\<lambda>s. s\<lparr>mechanisms := bits\<rparr>))"

text \<open>Reading a setting back gives what was set; a setting that is refused changes nothing.\<close>

lemma modes_roundtrip:
  "set_error_mode v c = (Ok (), c') \<Longrightarrow> get_error_mode c' = v"
  "set_mysql_ddl_mode v c = (Ok (), c') \<Longrightarrow> get_mysql_ddl_mode c' = v"
  "set_flavor v s = (Ok (), s') \<Longrightarrow> get_flavor s' = v"
  by (auto simp: set_error_mode_def get_error_mode_def set_mysql_ddl_mode_def get_mysql_ddl_mode_def set_flavor_def
      get_flavor_def modify_def throw_def split: if_splits)

lemma mechanism_of_Ok: "mechanism_of v = Ok m \<longleftrightarrow> v = mechanism_name m"
  by (cases m) (auto simp: mechanism_of_def mechanism_name_def)

lemma mechanism_bits_and: "and (mechanism_bits m) (mechanism_bits n) \<noteq> 0 \<longleftrightarrow> m = n"
  by (cases m; cases n) (simp_all add: mechanism_bits_def)

lemma mechanism_mask_set:
  assumes "mechanism_mask bits vs = Ok bits'"
  shows "and bits' (mechanism_bits m) \<noteq> 0 \<longleftrightarrow> and bits (mechanism_bits m) \<noteq> 0 \<or> mechanism_name m \<in> set vs"
  using assms
proof (induction vs arbitrary: bits)
  case (Cons v vs)
  then obtain n where n: "v = mechanism_name n" "mechanism_mask (or bits (mechanism_bits n)) vs = Ok bits'"
    by (auto simp: mechanism_of_Ok)
  have "and (or bits (mechanism_bits n)) (mechanism_bits m) \<noteq> 0 \<longleftrightarrow>
      and bits (mechanism_bits m) \<noteq> 0 \<or> n = m"
    using mechanism_bits_and [of n m] by (simp add: bit.conj_disj_distrib2 or_eq_0_iff)
  moreover have "mechanism_name m = mechanism_name n \<longleftrightarrow> m = n"
    by (metis mechanism_of_Ok result.inject(1))
  ultimately show ?case using Cons.IH [OF n(2)] n(1) by auto
qed simp

lemma mechanism_mask_names: "mechanism_mask a vs = Ok b \<Longrightarrow> v \<in> set vs \<Longrightarrow> \<exists>m. v = mechanism_name m"
  by (induction vs arbitrary: a) (auto simp: mechanism_of_Ok)

lemma mechanisms_roundtrip:
  assumes "set_mechanisms vs s = (Ok (), s')"
  shows "set (get_mechanisms s') = set vs"
proof -
  obtain bits where bits: "mechanism_mask 0 vs = Ok bits" "s' = s\<lparr>mechanisms := bits\<rparr>"
    using assms by (cases "mechanism_mask 0 vs") (auto simp: set_mechanisms_def bind_def lift_result_def modify_def)
  note mechanism_mask_names [OF bits(1)]
  moreover have "m \<in> set all_mechanisms" for m by (cases m) (simp_all add: all_mechanisms_def)
  ultimately show ?thesis
    using mechanism_mask_set [OF bits(1)] by (auto simp: get_mechanisms_def bits(2))
qed

section \<open>Statistics\<close>

text \<open>The accessors of \<open>WorkerStatistics\<close>: unlike \<open>operator[]\<close> they create no entry.\<close>

definition has_action :: "worker_statistics \<Rightarrow> string \<Rightarrow> bool" where
  "has_action w n \<longleftrightarrow> map_of (actionStats w) n \<noteq> None"

definition action_success_count :: "worker_statistics \<Rightarrow> string \<Rightarrow> counter" where
  "action_success_count w n = (case map_of (actionStats w) n of None \<Rightarrow> 0 | Some s \<Rightarrow> successCount s)"

definition action_failure_count :: "worker_statistics \<Rightarrow> string \<Rightarrow> counter" where
  "action_failure_count w n = (case map_of (actionStats w) n of None \<Rightarrow> 0 | Some s \<Rightarrow> action_getTotalFailureCount s)"

definition action_conflict_count :: "worker_statistics \<Rightarrow> string \<Rightarrow> counter" where
  "action_conflict_count w n = (case map_of (actionStats w) n of None \<Rightarrow> 0 | Some s \<Rightarrow> sqlConflictCount s)"

definition action_names :: "worker_statistics \<Rightarrow> string list" where
  "action_names w = map fst (actionStats w)"

definition action_stats :: "worker_statistics \<Rightarrow> string \<Rightarrow> action_statistics option" where
  "action_stats w n = map_of (actionStats w) n"

lemma accessors_agree:
  "has_action w n \<longleftrightarrow> n \<in> set (action_names w)"
  "action_success_count w n = successCount (stats_for n w)"
  "action_failure_count w n = action_getTotalFailureCount (stats_for n w)"
  "action_success_count w n + action_failure_count w n = action_getTotalCount (stats_for n w)"
proof -
  show "has_action w n \<longleftrightarrow> n \<in> set (action_names w)"
    by (simp add: has_action_def action_names_def map_of_eq_None_iff)
qed (cases "map_of (actionStats w) n";
    simp add: action_success_count_def action_failure_count_def stats_for_def action_stats_new_def
      action_getTotalFailureCount_def action_getTotalCount_def del: map_of_eq_None_iff)+

section \<open>Python callables as actions\<close>

text \<open>
  A callable is a program on the world like any action; what it does is the parameter \<open>fn\<close>. An exception that leaves
  it has become a Python exception on the way, whichever it was: inside the callable, \<open>SqlException\<close> is \<open>SqlError\<close>. \<open>exn_text\<close>
  is the text of the Python exception.
\<close>

definition py_callable_action :: "(exn \<Rightarrow> string) \<Rightarrow> action \<Rightarrow> action" where
  "py_callable_action exn_text fn ctx = catch (fn ctx) (\<lambda>e. throw (Action_Exception ''python_action'' (exn_text e)))"

definition register_python :: "string \<Rightarrow> 64 word \<Rightarrow> 'b \<Rightarrow> string \<Rightarrow> ('b action_registry, unit) prog" where
  "register_python name weight fn ty = seq (reg_insert \<lparr>fac_name = name, fac_builder = fn, fac_weight = weight,
     fac_type = parse_action_type ty, txn_safe = True\<rparr>) skip"

text \<open>
  A Python action never loses the worker's thread, and never gets it a new connection: whatever exception leaves the
  callable, a lost connection included, the worker counts one failed action under \<open>python_action\<close>, keeps its
  connection and goes on. (A built-in action that finds the server gone makes the worker reconnect.)
\<close>

lemma python_action_keeps_connection:
  assumes "started n k" and "fn Direct (wk_world k) = (Throw e, w1)"
  shows "\<exists>k'. attempt_action params env n (py_callable_action exn_text fn Direct) k = (Ok False, k') \<and>
    total k' = total k + 1 \<and> successes k' = successes k \<and> reconnects k' = reconnects k \<and>
    connectionAttempts k' = connectionAttempts k \<and> conn (wk_world k') = conn w1"
proof -
  let ?k1 = "k\<lparr>wk_world := w1\<rparr>"
  have st: "started n ?k1" using assms(1) by (simp add: started_def)
  from timed_outcome [where c = "\<lambda>now. S_recordActionFailure n ''python_action'' now (sql_time ?k1)" and b = False, OF _ _ st]
  obtain k' where k': "timed_stat env (\<lambda>now. S_recordActionFailure n ''python_action'' now (sql_time ?k1)) ?k1 = (Ok (), k')"
    "accounted 1 0 0 ?k1 k'" "same_rest ?k1 k'" by auto
  have "py_callable_action exn_text fn Direct (wk_world k) = (Throw (Action_Exception ''python_action'' (exn_text e)), w1)"
    using assms(2) by (simp add: py_callable_action_def catch_def throw_def)
  then have "attempt_action params env n (py_callable_action exn_text fn Direct) k = (Ok False, k')"
    using k'(1) by (simp add: attempt_action_def catch_def seq_def bind_def in_world_def handle_failure_def gets_def ret_def)
  with k'(2,3) show ?thesis
    by (auto simp: accounted_def same_rest_def total_def successes_def)
qed

end
