(* ===== verification/Log_Files.thy ===== *)
theory Log_Files
  imports Sw_Prelude
begin

text \<open>
  Logging (core/include/logging.hpp, core/src/logging.cpp): the process-wide loggers, in files, in Python, or in both.

  spdlog is a library. Of it the code uses a registry of loggers by name, one of which is the default; a logger passes
  messages of its level or above to its sinks, in order. The state is that registry, the flags of the module, the
  lines in the files and the messages the Python callback got; \<open>can_open\<close> says which files open. spdlog's levels are
  0 (trace) to 6 (off); a new logger has level 2 (info). The time stamp of a line is the parameter \<open>stamp\<close>.
\<close>

section \<open>State\<close>

datatype sink = Python_sink | File_sink string | Stdout_sink

record logger =
  lg_level :: nat
  lg_sinks :: "sink list"

record log_state =
  log_dir :: string
  unified_flag :: bool
  splits_flag :: bool
  loggers :: "(string \<times> logger) list"
  default_logger :: string
  has_callback :: bool
  delivered :: "(nat \<times> string \<times> string) list"
  lines :: "(string \<times> string) list"
  can_open :: "string \<Rightarrow> bool"

definition initial_logging :: "(string \<Rightarrow> bool) \<Rightarrow> log_state" where
  "initial_logging opens = \<lparr>log_dir = ''logs'', unified_flag = False, splits_flag = False,
     loggers = [([], \<lparr>lg_level = 2, lg_sinks = [Stdout_sink]\<rparr>)], default_logger = [], has_callback = False,
     delivered = [], lines = [], can_open = opens\<rparr>"

section \<open>Operations\<close>

definition level_name :: "nat \<Rightarrow> string" where
  "level_name l = [''TRACE'', ''DEBUG'', ''INFO'', ''WARNING'', ''ERROR'', ''CRITICAL'', ''OFF''] ! l"

definition file_line :: "string \<Rightarrow> nat \<Rightarrow> string \<Rightarrow> string \<Rightarrow> string" where
  "file_line stamp level name msg = stamp @ '' ['' @ level_name level @ ''] '' @ name @ '': '' @ msg"

definition set_log_dir :: "string \<Rightarrow> (log_state, unit) prog" where
  "set_log_dir dir = modify (\<lambda>s. s\<lparr>log_dir := dir\<rparr>)"

text \<open>\<open>std::filesystem::path\<close>'s \<open>/\<close>: an absolute path replaces, a separator is added where there is none.\<close>

definition log_path :: "string \<Rightarrow> log_state \<Rightarrow> string" where
  "log_path filename s = (if filename \<noteq> [] \<and> hd filename = CHR ''/'' then filename
     else if log_dir s = [] \<or> last (log_dir s) = CHR ''/'' then log_dir s @ filename
     else log_dir s @ ''/'' @ filename)"

definition set_unified :: "bool \<Rightarrow> bool \<Rightarrow> (log_state, unit) prog" where
  "set_unified unified splits = modify (\<lambda>s. s\<lparr>unified_flag := unified, splits_flag := splits\<rparr>)"

definition register_logger :: "string \<Rightarrow> logger \<Rightarrow> (log_state, logger) prog" where
  "register_logger name l = seq (modify (\<lambda>s. s\<lparr>loggers := AList.update name l (loggers s)\<rparr>)) (ret l)"

definition open_sink :: "string \<Rightarrow> (log_state, sink) prog" where
  "open_sink filename = (\<lambda>s. if can_open s (log_path filename s) then (Ok (File_sink (log_path filename s)), s)
     else (Throw (Runtime_error (''Failed opening file '' @ log_path filename s)), s))"

definition make_file_logger :: "string \<Rightarrow> string \<Rightarrow> (log_state, logger) prog" where
  "make_file_logger name filename = (\<lambda>s. case map_of (loggers s) name of
       Some existing \<Rightarrow> (Ok existing, s)
     | None \<Rightarrow>
         (if unified_flag s then
            bind (if splits_flag s then bind (open_sink filename) (\<lambda>file. ret [Python_sink, file]) else ret [Python_sink])
              (\<lambda>sinks. register_logger name \<lparr>lg_level = 2, lg_sinks = sinks\<rparr>) s
          else bind (open_sink filename) (\<lambda>file. register_logger name \<lparr>lg_level = 2, lg_sinks = [file]\<rparr>) s))"

text \<open>The new default logger takes the place of the old one in the registry, under its own name.\<close>

definition core_name :: string where
  "core_name = ''core''"

definition level_of :: "log_state \<Rightarrow> string \<Rightarrow> nat" where
  "level_of s n = (case map_of (loggers s) n of None \<Rightarrow> 2 | Some l \<Rightarrow> lg_level l)"

definition set_python_sink :: "bool \<Rightarrow> (log_state, unit) prog" where
  "set_python_sink callback = modify (\<lambda>s. s\<lparr>has_callback := callback, default_logger := core_name,
     loggers := AList.update core_name \<lparr>lg_level = level_of s (default_logger s), lg_sinks = [Python_sink]\<rparr>
       (AList.delete (default_logger s) (loggers s))\<rparr>)"

definition set_level :: "int \<Rightarrow> (log_state, unit) prog" where
  "set_level level = modify (\<lambda>s. s\<lparr>loggers := map (\<lambda>(n, l). (n,
     if n = default_logger s then l\<lparr>lg_level := nat (min 6 (max 0 level))\<rparr> else l)) (loggers s)\<rparr>)"

definition sink_it :: "string \<Rightarrow> string \<Rightarrow> nat \<Rightarrow> string \<Rightarrow> sink \<Rightarrow> log_state \<Rightarrow> log_state" where
  "sink_it stamp name level msg k s = (case k of
       Python_sink \<Rightarrow> if has_callback s then s\<lparr>delivered := delivered s @ [(level, name, msg)]\<rparr> else s
     | File_sink path \<Rightarrow> s\<lparr>lines := lines s @ [(path, file_line stamp level name msg)]\<rparr>
     | Stdout_sink \<Rightarrow> s)"

definition log_message :: "string \<Rightarrow> string \<Rightarrow> logger \<Rightarrow> nat \<Rightarrow> string \<Rightarrow> (log_state, unit) prog" where
  "log_message stamp name l level msg = modify (\<lambda>s.
     if level < lg_level l then s else foldl (\<lambda>s k. sink_it stamp name level msg k s) s (lg_sinks l))"

section \<open>Properties\<close>

text \<open>A logger is made once: asking again, under whatever mode, directory or file name, gives the same one.\<close>

lemma make_file_logger_registers:
  "make_file_logger name filename s = (Ok l, s') \<Longrightarrow> map_of (loggers s') name = Some l"
  by (auto simp: make_file_logger_def bind_def seq_def ret_def modify_def register_logger_def open_sink_def
      update_conv split: option.splits if_splits)

lemma make_file_logger_again:
  assumes "make_file_logger name filename s = (Ok l, s1)"
    and "s2 = s1\<lparr>unified_flag := u, splits_flag := p, log_dir := d\<rparr>"
  shows "make_file_logger name other s2 = (Ok l, s2)"
  using make_file_logger_registers [OF assms(1)] by (simp add: make_file_logger_def assms(2))

text \<open>
  Where the messages go: to the Python callback in unified mode, and to the logger's own file in unified mode with
  splits and otherwise, each exactly once.
\<close>

lemma new_logger_sinks:
  assumes "make_file_logger name filename s = (Ok l, s')" and "map_of (loggers s) name = None"
  shows "lg_sinks l = (if unified_flag s then Python_sink # (if splits_flag s then [File_sink (log_path filename s)] else [])
    else [File_sink (log_path filename s)])" and "lg_level l = 2"
  using assms by (auto simp: make_file_logger_def bind_def seq_def ret_def modify_def register_logger_def open_sink_def
      split: if_splits)

lemma message_delivery:
  assumes "make_file_logger name filename s = (Ok l, s1)" and "map_of (loggers s) name = None"
    and "log_message stamp name l level msg s1 = (Ok (), s2)" and "2 \<le> level"
  shows "delivered s2 = delivered s1 @ (if unified_flag s \<and> has_callback s1 then [(level, name, msg)] else [])"
    and "lines s2 = lines s1 @ (if unified_flag s \<and> \<not> splits_flag s then []
      else [(log_path filename s, file_line stamp level name msg)])"
  using assms(3,4) new_logger_sinks [OF assms(1,2)]
  by (auto simp: log_message_def modify_def sink_it_def)

text \<open>After shutdown (an empty callback) no message reaches Python, from the loggers that still hold the sink either.\<close>

lemma no_delivery_after_shutdown:
  assumes "set_python_sink False s = (Ok (), s1)" and "log_message stamp name l level msg s1 = (Ok (), s2)"
  shows "delivered s2 = delivered s"
proof -
  have "has_callback (foldl (\<lambda>s k. sink_it stamp name level msg k s) s0 ks) = has_callback s0 \<and>
      (\<not> has_callback s0 \<longrightarrow> delivered (foldl (\<lambda>s k. sink_it stamp name level msg k s) s0 ks) = delivered s0)" for ks s0
    by (induction ks arbitrary: s0) (simp_all add: sink_it_def split: sink.split)
  with assms show ?thesis by (auto simp: set_python_sink_def log_message_def modify_def split: if_splits)
qed

text \<open>The level is a property of the default logger alone; it is kept when the sink is replaced.\<close>

lemma set_level_default_only:
  assumes "set_level level s = (Ok (), s')" and "map_of (loggers s) n = Some l"
  shows "map_of (loggers s') n =
    Some (if n = default_logger s then l\<lparr>lg_level := nat (min 6 (max 0 level))\<rparr> else l)"
proof -
  have "map_of (map (\<lambda>(n, l). (n, f n l)) xs) n = map_option (f n) (map_of xs n)"
    for f :: "string \<Rightarrow> logger \<Rightarrow> logger" and xs by (induction xs) auto
  with assms show ?thesis by (auto simp: set_level_def modify_def)
qed

lemma set_python_sink_keeps_level:
  "set_python_sink callback s = (Ok (), s') \<Longrightarrow> level_of s' (default_logger s') = level_of s (default_logger s)"
  by (auto simp: set_python_sink_def modify_def level_of_def update_conv)

end
