(* ===== verification/Spec2Isabelle.thy ===== *)
theory Spec2Isabelle
  imports Database_Checksum Alter_Loop Transaction_Atomicity Query_Source Workload_Threads
    Statistics_Report Flag_Sets Python_Bindings Log_Files
begin

text \<open>
  A verification development for StormWeaver, a stress tester for PostgreSQL and MySQL. The program
  keeps a model of the schema of a database (the metadata), and lets workers run random actions
  against a server: they change the schema, the rows and the server's variables, alone or inside
  transactions, and query what is there with generated SELECTs. At the end it compares metadata with
  the database, or checksums of two databases with each other. The development models the C++ core,
  core/include and core/src, and the logic of its Python bindings.

  \<^bold>\<open>How the parts interact.\<close> A \<open>Workload\<close> starts \<open>RandomWorker\<close>s. A worker draws an action from its
  \<open>ActionRegistry\<close> by weight, builds it, and runs it on a \<open>metadata::Context\<close>, a random source and a
  \<open>LoggedSQL\<close> connection; it records the outcome in its statistics and reconnects when the server is
  gone. Actions read and change the shared \<open>metadata::Registry\<close> (catalogs keyed by object id), directly
  or, inside \<open>TransactionAction\<close>, through a \<open>TxnBuffer\<close> that is published on COMMIT. They render SQL
  through a \<open>Dialect\<close>; the DML actions ask \<open>querygen::Generator\<close> for conditions and SELECTs. Schema
  discovery and the metadata populator rebuild the metadata from the server's own catalog.

  \<^bold>\<open>How the code is modelled.\<close> A function that changes state and may throw is a \<open>prog\<close> (\<open>Sw_Prelude\<close>): from a
  state to a result and the state reached, which is kept when an exception is thrown. The results are a
  value, an exception (\<open>exn\<close>, the program's two classes and the library's), \<open>Undefined\<close> for undefined
  behaviour (an index out of range, an empty \<open>optional\<close>, a distribution with \<open>min > max\<close>, a signed
  overflow) and \<open>Diverges\<close> for a loop without end. Structs are records, enums and tagged unions
  datatypes, \<open>size_t\<close> and \<open>uint64_t\<close> are 64-bit words where they can wrap, maps association lists where
  the order is left open. Virtual classes are records of functions (\<open>dialect\<close>, \<open>discovery\<close>). What the
  code does not contain is a parameter: the client libraries' and the server's answers (an arbitrary
  function of the calls sent so far and the next one), the engine's draws (an arbitrary stream of
  in-range values), the clock's readings, SHA-256, floating-point arithmetic, and the calls the other
  workers make: \<open>others n\<close> lists the registry calls completed before this worker's \<open>n\<close>-th access, so what
  holds for every \<open>others\<close> holds for every interleaving of the lock-protected calls.

  \<^bold>\<open>Metadata.\<close>
  \<^item> \<open>Catalog\<close> (metadata/catalog.hpp): \<open>Catalog\<close> with slots, sampling vector and name index, and
    \<open>Registry\<close>. The invariant \<open>catalog_inv\<close> ties the three together; every interleaving of calls keeps
    it and acts on the map from ids to records as an abstract store does; reads are safe; ids are never reused; the
    last publish under a name wins. The locale \<open>object_store\<close> states what clients may rely on; the catalog is its
    interpretation \<open>cat\<close>.
  \<^item> \<open>Txn_Buffer\<close> (metadata/context.hpp): \<open>TxnBuffer\<close> and \<open>CatalogView\<close>, interpreted as \<open>view: object_store\<close>, so
    that a transaction's overlay obeys the laws of a catalog; rolling back to a savepoint restores the
    view, and publishing turns the view into the catalog.
  \<^item> \<open>Table_Model\<close> (metadata/table.hpp, table.cpp): columns, indexes, partitions, tables, the sweep of references to
    a dropped table, \<open>normalize\<close> (equal exactly on registries equal up to ids and orders), dumps.

  \<^bold>\<open>Server side.\<close>
  \<^item> \<open>Sql_Variant\<close> (sql_variant/): flavors, versions, error classes, both drivers' results, parameter
    splicing, statement classification, \<open>LoggedSQL\<close>. Whatever the libraries answer, the description of
    an error is consistent. \<open>Sql_Connections\<close>: the cursors of the two result classes, as interpretations of
    the locale \<open>result_rows\<close>, which justifies reading rows as a list everywhere else; the lines of the log, which
    show of binary parameters their length only; opening and closing, without a leaked handle.
  \<^item> \<open>Sql_Dialect\<close> (sql_dialect/): both renderers. The locale \<open>dialect_laws\<close> is what the index and create
    actions rely on, interpreted for each (\<open>pg\<close>, \<open>mysql\<close>) and for the choice by flavor (\<open>dia\<close>).
  \<^item> \<open>Schema_Discovery\<close> (schema_discovery.hpp, schema_discovery/), \<open>Metadata_Populator\<close>
    (metadata_populator.cpp), \<open>Discovery_Roundtrip\<close>, \<open>Catalog_Rows\<close>, \<open>Metadata_Validation\<close>: the catalog queries
    and their parsers, the conversion to tables with the second pass over foreign keys, the rows
    the servers are documented to answer for a table, and the round trip through them: validation of
    a worker alone says whether the metadata equals what the database holds.
  \<^item> \<open>Database_Checksum\<close> (checksum.hpp, checksum.cpp): the checksum file of a database; when two of them are equal, and
    which differences between rows the hashed text does not show.

  \<^bold>\<open>Actions.\<close>
  \<^item> \<open>Ps_Random\<close> (random.hpp, random.cpp), \<open>World\<close> (action/helper, composite, custom): draws, and the
    world an action runs in with its other workers.
  \<^item> \<open>Ddl_Actions\<close>, \<open>Flag_Sets\<close> (action/ddl, bitflags.hpp): the eight DDL actions; \<open>Ddl_Safety\<close>: all keep the catalog
    consistent and its tables well-formed under any interleaving and any answers, without undefined behaviour
    (\<open>CreateIndex\<close> needs tables with a second column for that); \<open>Ddl_Effects\<close>: index limits, nothing published by a failed
    statement, dropping a table; \<open>Alter_Loop\<close>: when the loop of \<open>AlterTable\<close> ends and when it never does.
  \<^item> \<open>Dml_Actions\<close> (action/dml): the six DML actions over any \<open>query_source\<close>. \<open>Query_IR\<close>, \<open>Query_Generator\<close>
    (querygen/): the intermediate representation, its rendering, and the whole generator. \<open>Query_Types\<close> is a
    judgement of what a server accepts (scopes, operand families, guarded divisors, grouping, subquery
    shapes); \<open>Query_Soundness\<close>, \<open>Query_Sound\<close>, \<open>Query_Results\<close> show by a calculus of total
    correctness that every call of the generator returns, and returns a query of the judgement, which renders; that
    key selects select keys; that predicates do not read their target; that literals read back.
    \<open>Query_Source\<close> joins the two, and interprets the locale \<open>plain_source\<close> (queries that no session
    mistakes for transaction control) with the generator.
  \<^item> \<open>Variable_Fuzzing\<close> (action/variable): \<open>SetVariable\<close>, with 64-bit overflow.
  \<^item> \<open>Transaction_Action\<close> (action/transaction): the whole action over any sub-actions; \<open>Transaction_Safety\<close>: one
    outcome per transaction; \<open>Transaction_Session\<close>: a session as a state machine that the action never
    breaks and leaves idle; \<open>Transaction_Atomicity\<close>: the catalog changes only on COMMIT, and a failed
    sub-action leaves no trace in what is published.
  \<^item> \<open>Action_Registry\<close> (action/action_registry), \<open>Default_Actions\<close>: lookup by weight, the default registry, and what
    its factories build.

  \<^bold>\<open>Running.\<close>
  \<^item> \<open>Run_Statistics\<close>, \<open>Statistics_Report\<close> (statistics.hpp, statistics.cpp): counters and their consistency, and
    the figures and texts made of them.
  \<^item> \<open>Workload\<close> (workload.hpp, workload.cpp): the loop of a worker: one action accounted for per iteration, its end,
    bounded reconnection, the exception that a failed reconnection lets out. \<open>Workload_Threads\<close>: the threads of a
    workload as an inductive step relation; \<open>run\<close> and \<open>wait_completion\<close> complete.
  \<^item> \<open>Log_Files\<close> (logging.hpp, logging.cpp): the loggers and where their messages go.
  \<^item> \<open>Python_Bindings\<close> (bindings/module.cpp, bindings/py_action.hpp): parameters, rows (a client of \<open>result_rows\<close>),
    settings read back as they were set, and Python callables as actions, which never lose the worker's
    thread and never get it a new connection.

  \<^bold>\<open>Loops and bounds.\<close> The recursion of the generator is total: it ends by the expression depth and by
  \<open>max_subquery_depth\<close>, with no fuel. The two loops that need not end, \<open>until_added\<close> of \<open>AlterTable\<close> and
  \<open>worker_loop\<close>, are \<open>partial_function (option)\<close>; that they end is proved where they do. Every other loop
  is structural. The counter of the generator's aliases is not wrapped (each alias is kept in memory);
  durations are integers.

  \<^bold>\<open>Not modelled.\<close>
  \<^item> The calls that log (but those of \<open>LoggedSQL\<close>) and the writing of the metadata dump files: output that the program never reads.
  \<^item> The value of a floating-point draw: a literal keeps its draw, the formatter is a parameter.
  \<^item> Sleeping, time zones and timestamps of file names.
  \<^item> Data races other than those on a worker's own statistics and connection: the model takes every call on a
    shared object as one step, as the locks make it (the copy assignment of \<open>ActionRegistry\<close>, which does
    not lock its source, included).
  \<^item> querygen/oracle.hpp declares an interface the core does not implement.
  \<^item> The registration of classes and methods with nanobind, reference counts and the interpreter lock in bindings/.
\<close>

end
